(* ===== verification/Prelude.thy ===== *)
theory Prelude
  imports Main "HOL-Library.Multiset"
begin

text \<open>
  Shared vocabulary of the development: the result and outcome types that stand
  for Rust's \<open>Result\<close> and for a call that may panic, ring-buffer indexing, the
  abstract FIFO queues that the lock-free and the sequential queues are compared
  with, and the interfaces (locales) that the components provide to each other:
  inductive invariants of transition systems, simulations between them, and the
  contracts of bounded and of overflowing queues.
\<close>

section \<open>Results, panics\<close>

text \<open>Rust's \<open>Result<T, E>\<close>.\<close>

datatype ('a, 'e) result = Ok 'a | Err 'e

text \<open>
  The outcome of a call that may abort: a panic (an out-of-range slice index, an
  arithmetic overflow in a checked build, \<open>fatal_panic!\<close>) is a value.
\<close>

datatype 'a outcome = Ret 'a | Panic

fun outcome_bind :: "'a outcome \<Rightarrow> ('a \<Rightarrow> 'b outcome) \<Rightarrow> 'b outcome" where
  "outcome_bind (Ret a) f = f a"
| "outcome_bind Panic f = Panic"

text \<open>The value of a call that does not panic.\<close>

fun the_ret :: "'a outcome \<Rightarrow> 'a" where
  "the_ret (Ret a) = a"
| "the_ret Panic = undefined"

fun is_Ok :: "('a, 'e) result \<Rightarrow> bool" where
  "is_Ok (Ok _) = True"
| "is_Ok (Err _) = False"

lemma is_Ok_iff: "is_Ok r \<longleftrightarrow> (\<exists>a. r = Ok a)"
  by (cases r) auto

lemma case_result_iff:
  "(case r of Ok a \<Rightarrow> f a | Err e \<Rightarrow> g e) = x \<longleftrightarrow> (\<exists>a. r = Ok a \<and> f a = x) \<or> (\<exists>e. r = Err e \<and> g e = x)"
  by (cases r) auto

lemma outcome_bind_eq_Ret:
  "outcome_bind m f = Ret b \<longleftrightarrow> (\<exists>a. m = Ret a \<and> f a = Ret b)"
  by (cases m) auto

section \<open>Collections of rewrite rules\<close>

named_theorems queue_defs \<open>operations of the queue components\<close>
named_theorems ring_simps \<open>reading and writing ring buffers\<close>
named_theorems inv_defs \<open>invariants of the transition systems\<close>

section \<open>Ring buffers\<close>

text \<open>
  The contents of a ring buffer with \<open>n\<close> slots between the read position \<open>r\<close>
  and the write position \<open>w\<close>; positions only grow and are reduced modulo \<open>n\<close>
  when a slot is accessed.
\<close>

definition ring :: "'a list \<Rightarrow> nat \<Rightarrow> nat \<Rightarrow> nat \<Rightarrow> 'a list" where
  "ring d n r w = map (\<lambda>i. d ! (i mod n)) [r..<w]"

lemma length_ring [simp]: "length (ring d n r w) = w - r"
  by (simp add: ring_def)

lemma ring_empty [simp]: "w \<le> r \<Longrightarrow> ring d n r w = []"
  by (simp add: ring_def)

lemma nth_ring [simp]: "i < w - r \<Longrightarrow> ring d n r w ! i = d ! ((r + i) mod n)"
  by (simp add: ring_def)

lemma mod_window_neq:
  fixes i j n :: nat
  assumes "i < j" "j < i + n"
  shows "i mod n \<noteq> j mod n"
proof
  assume "i mod n = j mod n"
  then have "n dvd j - i"
    using assms(1) by (metis less_imp_le mod_eq_dvd_iff_nat)
  with assms show False
    by (simp add: nat_dvd_not_less)
qed

lemma ring_pop [ring_simps]:
  "r < w \<Longrightarrow> ring d n r w = d ! (r mod n) # ring d n (Suc r) w"
  by (simp add: ring_def upt_conv_Cons)

lemma ring_snoc [ring_simps]:
  "r \<le> w \<Longrightarrow> ring d n r (Suc w) = ring d n r w @ [d ! (w mod n)]"
  by (simp add: ring_def)

lemma ring_update_outside [ring_simps]:
  assumes "w \<le> k" "k < r + n"
  shows "ring (d[k mod n := v]) n r w = ring d n r w"
proof -
  have "d[k mod n := v] ! (i mod n) = d ! (i mod n)" if "r \<le> i" "i < w" for i
    using mod_window_neq[of i k n] that assms by simp
  then show ?thesis
    by (simp add: ring_def)
qed

lemma ring_update_before [ring_simps]:
  assumes "k < r" "w \<le> k + n"
  shows "ring (d[k mod n := v]) n r w = ring d n r w"
proof -
  have "d[k mod n := v] ! (i mod n) = d ! (i mod n)" if "r \<le> i" "i < w" for i
    using mod_window_neq[of k i n] that assms by simp
  then show ?thesis
    by (simp add: ring_def)
qed

lemma ring_push [ring_simps]:
  assumes "r \<le> w" "w < r + n" "length d = n"
  shows "ring (d[w mod n := v]) n r (Suc w) = ring d n r w @ [v]"
proof -
  have "w mod n < length d"
    using assms by (cases "n = 0") auto
  then show ?thesis
    using assms by (simp add: ring_snoc ring_update_outside)
qed

lemma ring_tail: "r < w \<Longrightarrow> ring d n (Suc r) w = tl (ring d n r w)"
  by (simp add: ring_pop)

section \<open>Transition systems\<close>

inductive reachable :: "('s \<Rightarrow> bool) \<Rightarrow> ('s \<Rightarrow> 's \<Rightarrow> bool) \<Rightarrow> 's \<Rightarrow> bool"
  for init :: "'s \<Rightarrow> bool" and step :: "'s \<Rightarrow> 's \<Rightarrow> bool" where
  reachable_init: "init s \<Longrightarrow> reachable init step s"
| reachable_step: "reachable init step s \<Longrightarrow> step s t \<Longrightarrow> reachable init step t"

text \<open>Running a schedule of total step functions stays within the reachable states.\<close>

lemma fold_reachable:
  assumes "\<And>a s. step s (f a s)"
  shows "reachable (\<lambda>s. s = s0) step (fold f as s0)"
proof (induction as rule: rev_induct)
  case Nil
  then show ?case
    by (simp add: reachable_init)
next
  case (snoc a as)
  then show ?case
    using assms by (auto intro: reachable_step)
qed

text \<open>A predicate that holds initially and is kept by every step.\<close>

locale inductive_invariant =
  fixes init :: "'s \<Rightarrow> bool"
    and step :: "'s \<Rightarrow> 's \<Rightarrow> bool"
    and inv :: "'s \<Rightarrow> bool"
  assumes inv_init: "init s \<Longrightarrow> inv s"
    and inv_step: "inv s \<Longrightarrow> step s t \<Longrightarrow> inv t"
begin

lemma reachable_inv: "reachable init step s \<Longrightarrow> inv s"
  by (induction rule: reachable.induct) (auto intro: inv_init inv_step)

end

text \<open>
  A forward simulation under an invariant: every step of the implementation is a
  step of the specification or leaves the abstract state as it is.
\<close>

locale forward_simulation = inductive_invariant init step inv
  for init :: "'s \<Rightarrow> bool" and step :: "'s \<Rightarrow> 's \<Rightarrow> bool" and inv :: "'s \<Rightarrow> bool" +
  fixes ainit :: "'a \<Rightarrow> bool"
    and astep :: "'a \<Rightarrow> 'a \<Rightarrow> bool"
    and abs :: "'s \<Rightarrow> 'a"
  assumes sim_init: "init s \<Longrightarrow> ainit (abs s)"
    and sim_step: "inv s \<Longrightarrow> step s t \<Longrightarrow> abs t = abs s \<or> astep (abs s) (abs t)"
begin

lemma simulated: "reachable init step s \<Longrightarrow> reachable ainit astep (abs s)"
proof (induction rule: reachable.induct)
  case (reachable_init s)
  then show ?case
    by (simp add: sim_init reachable.reachable_init)
next
  case (reachable_step s t)
  then show ?case
    using sim_step[OF reachable_inv] by (metis reachable.reachable_step)
qed

end

section \<open>Abstract queues\<close>

text \<open>
  The specification of a first-in first-out queue that is observed from outside:
  the values in the queue, the values whose push has succeeded and the values that
  left the queue, tagged with who received them.
\<close>

datatype receiver = By_consumer | By_producer

record fifo =
  contents :: "nat list"
  pushed :: "nat list"
  removed :: "(receiver \<times> nat) list"

definition fifo_init :: "fifo \<Rightarrow> bool" where
  "fifo_init s \<longleftrightarrow> contents s = [] \<and> pushed s = [] \<and> removed s = []"

text \<open>
  \<open>n\<close> is the number of values that fit; \<open>evict\<close> says whether the producer may
  take the oldest value back once more than \<open>c\<close> values are in the queue.
\<close>

inductive fifo_step :: "nat \<Rightarrow> nat \<Rightarrow> bool \<Rightarrow> fifo \<Rightarrow> fifo \<Rightarrow> bool" for n c evict where
  fifo_push: "length (contents s) < n \<Longrightarrow>
    fifo_step n c evict s
      (s\<lparr>contents := contents s @ [v], pushed := pushed s @ [v]\<rparr>)"
| fifo_pop: "contents s = v # vs \<Longrightarrow>
    fifo_step n c evict s (s\<lparr>contents := vs, removed := removed s @ [(By_consumer, v)]\<rparr>)"
| fifo_evict: "evict \<Longrightarrow> contents s = v # vs \<Longrightarrow> c < length (contents s) \<Longrightarrow>
    fifo_step n c evict s (s\<lparr>contents := vs, removed := removed s @ [(By_producer, v)]\<rparr>)"

definition fifo_inv :: "nat \<Rightarrow> fifo \<Rightarrow> bool" where
  "fifo_inv n s \<longleftrightarrow> pushed s = map snd (removed s) @ contents s \<and> length (contents s) \<le> n"

interpretation fifo_spec: inductive_invariant fifo_init "fifo_step n c evict" "fifo_inv n"
proof unfold_locales
  show "fifo_inv n s" if "fifo_init s" for s
    using that by (simp add: fifo_init_def fifo_inv_def)
  show "fifo_inv n t" if "fifo_inv n s" "fifo_step n c evict s t" for s t
    using that(2,1) by (cases rule: fifo_step.cases) (auto simp: fifo_inv_def)
qed

section \<open>Queue contracts\<close>

text \<open>
  The contract of a bounded queue, given by the abstraction of its state to the
  list of its values (oldest first): a push onto a full queue changes nothing and
  reports it, any other push appends; a pop takes the oldest value.
\<close>

locale bounded_queue =
  fixes q_inv :: "'q \<Rightarrow> bool"
    and q_list :: "'q \<Rightarrow> 'v list"
    and q_cap :: "'q \<Rightarrow> nat"
    and q_push :: "'v \<Rightarrow> 'q \<Rightarrow> bool \<times> 'q"
    and q_pop :: "'q \<Rightarrow> 'v option \<times> 'q"
  assumes bounded: "q_inv q \<Longrightarrow> length (q_list q) \<le> q_cap q"
    and push_full: "q_inv q \<Longrightarrow> length (q_list q) = q_cap q \<Longrightarrow> q_push v q = (False, q)"
    and push_room: "q_inv q \<Longrightarrow> length (q_list q) < q_cap q \<Longrightarrow>
      q_push v q = (b, q') \<Longrightarrow> b \<and> q_inv q' \<and> q_list q' = q_list q @ [v] \<and> q_cap q' = q_cap q"
    and pop_empty: "q_inv q \<Longrightarrow> q_list q = [] \<Longrightarrow> q_pop q = (None, q)"
    and pop_some: "q_inv q \<Longrightarrow> q_list q = v # vs \<Longrightarrow> q_pop q = (r, q') \<Longrightarrow>
      r = Some v \<and> q_inv q' \<and> q_list q' = vs \<and> q_cap q' = q_cap q"
begin

primrec push_all :: "'v list \<Rightarrow> 'q \<Rightarrow> 'q" where
  "push_all [] q = q"
| "push_all (v # vs) q = push_all vs (snd (q_push v q))"

primrec pop_many :: "nat \<Rightarrow> 'q \<Rightarrow> 'v option list" where
  "pop_many 0 q = []"
| "pop_many (Suc n) q = fst (q_pop q) # pop_many n (snd (q_pop q))"

lemma push_all_list:
  "q_inv q \<Longrightarrow> length (q_list q) + length vs \<le> q_cap q \<Longrightarrow>
    q_inv (push_all vs q) \<and> q_list (push_all vs q) = q_list q @ vs"
proof (induction vs arbitrary: q)
  case (Cons v vs)
  have "q_inv (snd (q_push v q)) \<and> q_list (snd (q_push v q)) = q_list q @ [v]
      \<and> q_cap (snd (q_push v q)) = q_cap q"
    using push_room[of q v "fst (q_push v q)" "snd (q_push v q)"] Cons.prems by simp
  then show ?case
    using Cons.IH[of "snd (q_push v q)"] Cons.prems by simp
qed simp

lemma pop_many_list:
  "q_inv q \<Longrightarrow> n \<le> length (q_list q) \<Longrightarrow> pop_many n q = map Some (take n (q_list q))"
proof (induction n arbitrary: q)
  case (Suc n)
  then obtain v vs where l: "q_list q = v # vs"
    by (cases "q_list q") auto
  have "fst (q_pop q) = Some v \<and> q_inv (snd (q_pop q)) \<and> q_list (snd (q_pop q)) = vs"
    using pop_some[of q v vs "fst (q_pop q)" "snd (q_pop q)"] Suc.prems l by simp
  then show ?case
    using Suc.IH[of "snd (q_pop q)"] Suc.prems l by simp
qed simp

text \<open>What is pushed into an empty queue comes out, in the same order.\<close>

lemma push_pop_all:
  "q_inv q \<Longrightarrow> q_list q = [] \<Longrightarrow> length vs \<le> q_cap q \<Longrightarrow>
    pop_many (length vs) (push_all vs q) = map Some vs"
  using push_all_list[of q vs] pop_many_list[of "push_all vs q" "length vs"] by simp

end

text \<open>
  The contract of a queue that makes room by handing the oldest value back to the
  caller of push.
\<close>

locale overflowing_queue =
  fixes q_inv :: "'q \<Rightarrow> bool"
    and q_list :: "'q \<Rightarrow> 'v list"
    and q_cap :: "'q \<Rightarrow> nat"
    and q_push :: "'v \<Rightarrow> 'q \<Rightarrow> 'v option \<times> 'q"
    and q_pop :: "'q \<Rightarrow> 'v option \<times> 'q"
  assumes o_bounded: "q_inv q \<Longrightarrow> length (q_list q) \<le> q_cap q"
    and o_push_full: "q_inv q \<Longrightarrow> length (q_list q) = q_cap q \<Longrightarrow> q_push v q = (r, q') \<Longrightarrow>
      r = Some (hd (q_list q @ [v])) \<and> q_inv q' \<and> q_list q' = tl (q_list q @ [v])
        \<and> q_cap q' = q_cap q"
    and o_push_room: "q_inv q \<Longrightarrow> length (q_list q) < q_cap q \<Longrightarrow> q_push v q = (r, q') \<Longrightarrow>
      r = None \<and> q_inv q' \<and> q_list q' = q_list q @ [v] \<and> q_cap q' = q_cap q"
    and o_pop_empty: "q_inv q \<Longrightarrow> q_list q = [] \<Longrightarrow> q_pop q = (None, q)"
    and o_pop_some: "q_inv q \<Longrightarrow> q_list q = v # vs \<Longrightarrow> q_pop q = (r, q') \<Longrightarrow>
      r = Some v \<and> q_inv q' \<and> q_list q' = vs \<and> q_cap q' = q_cap q"
begin

primrec o_push_all :: "'v list \<Rightarrow> 'q \<Rightarrow> 'v list \<times> 'q" where
  "o_push_all [] q = ([], q)"
| "o_push_all (v # vs) q = (case q_push v q of (r, q') \<Rightarrow>
     (case o_push_all vs q' of (rs, q'') \<Rightarrow>
       ((case r of None \<Rightarrow> rs | Some x \<Rightarrow> x # rs), q'')))"

text \<open>
  Nothing is lost and nothing is invented: the recycled values followed by the
  values in the queue are the old values followed by the pushed ones.
\<close>

lemma o_push_conserves:
  assumes "q_inv q" "q_push v q = (r, q')"
  shows "q_inv q' \<and> q_cap q' = q_cap q
    \<and> (case r of None \<Rightarrow> [] | Some x \<Rightarrow> [x]) @ q_list q' = q_list q @ [v]"
proof (cases "length (q_list q) < q_cap q")
  case True
  then show ?thesis
    using o_push_room[OF assms(1) _ assms(2)] by simp
next
  case False
  then have "length (q_list q) = q_cap q"
    using o_bounded[OF assms(1)] by simp
  then show ?thesis
    using o_push_full[OF assms(1) _ assms(2)] by simp
qed

lemma o_push_all_conserves:
  "q_inv q \<Longrightarrow> o_push_all vs q = (rs, q') \<Longrightarrow>
    q_inv q' \<and> q_cap q' = q_cap q \<and> rs @ q_list q' = q_list q @ vs"
proof (induction vs arbitrary: q rs q')
  case (Cons v vs)
  obtain r p where p: "q_push v q = (r, p)"
    by fastforce
  obtain ts t where t: "o_push_all vs p = (ts, t)"
    by fastforce
  show ?case
    using Cons.IH[OF _ t] o_push_conserves[OF Cons.prems(1) p] Cons.prems(2) p t
    by (auto split: option.splits)
qed simp

text \<open>The queue keeps the newest values.\<close>

lemma o_push_all_newest:
  assumes "q_inv q" "o_push_all vs q = (rs, q')"
  shows "q_list q' = drop (length rs) (q_list q @ vs) \<and> length (q_list q') \<le> q_cap q"
  using o_push_all_conserves[OF assms] o_bounded[of q']
  by (metis append_eq_conv_conj)

end

section \<open>Index pools\<close>

text \<open>
  The contract of a set of indices that are handed out and taken back: the client of an
  index pool sees which indices are free.
\<close>

locale index_pool =
  fixes p_inv :: "'s \<Rightarrow> bool"
    and p_cap :: "'s \<Rightarrow> nat"
    and p_free :: "'s \<Rightarrow> 'i set"
    and p_acquire :: "'s \<Rightarrow> ('i option \<times> 's) outcome"
    and p_release :: "'i \<Rightarrow> 's \<Rightarrow> 's outcome"
    and p_index :: "'s \<Rightarrow> 'i set"
  assumes free_sub: "p_inv s \<Longrightarrow> p_free s \<subseteq> p_index s"
    and index_card: "p_inv s \<Longrightarrow> finite (p_index s) \<and> card (p_index s) = p_cap s"
    and acquire_none: "p_inv s \<Longrightarrow> p_free s = {} \<Longrightarrow> p_acquire s = Ret (None, s)"
    and acquire_some: "p_inv s \<Longrightarrow> p_free s \<noteq> {} \<Longrightarrow>
      \<exists>i s'. p_acquire s = Ret (Some i, s') \<and> i \<in> p_free s \<and> p_inv s'
        \<and> p_free s' = p_free s - {i} \<and> p_index s' = p_index s"
    and release_ok: "p_inv s \<Longrightarrow> i \<in> p_index s \<Longrightarrow> i \<notin> p_free s \<Longrightarrow>
      \<exists>s'. p_release i s = Ret s' \<and> p_inv s' \<and> p_free s' = insert i (p_free s)
        \<and> p_index s' = p_index s"
begin

primrec acquire_many :: "nat \<Rightarrow> 's \<Rightarrow> ('i list \<times> 's) outcome" where
  "acquire_many 0 s = Ret ([], s)"
| "acquire_many (Suc n) s = outcome_bind (p_acquire s) (\<lambda>(r, s').
     case r of None \<Rightarrow> Ret ([], s')
     | Some i \<Rightarrow> outcome_bind (acquire_many n s') (\<lambda>(is, s''). Ret (i # is, s'')))"

text \<open>Acquiring \<open>n\<close> indices yields as many distinct free indices as there are, at most \<open>n\<close>.\<close>

lemma acquire_many_distinct:
  "p_inv s \<Longrightarrow> \<exists>is s'. acquire_many n s = Ret (is, s') \<and> distinct is \<and> set is \<subseteq> p_free s
    \<and> length is = min n (card (p_free s)) \<and> p_inv s' \<and> p_free s' = p_free s - set is
    \<and> p_index s' = p_index s"
proof (induction n arbitrary: s)
  case (Suc n)
  have fin: "finite (p_free s)"
    using free_sub index_card Suc.prems finite_subset by blast
  show ?case
  proof (cases "p_free s = {}")
    case True
    then show ?thesis
      using acquire_none Suc.prems by simp
  next
    case False
    then obtain i s1 where 1: "p_acquire s = Ret (Some i, s1)" "i \<in> p_free s" "p_inv s1"
      "p_free s1 = p_free s - {i}" "p_index s1 = p_index s"
      using acquire_some Suc.prems by meson
    obtain js s2 where 2: "acquire_many n s1 = Ret (js, s2)" "distinct js" "set js \<subseteq> p_free s1"
      "length js = min n (card (p_free s1))" "p_inv s2" "p_free s2 = p_free s1 - set js"
      "p_index s2 = p_index s1"
      using Suc.IH[OF 1(3)] by blast
    have "card (p_free s) = Suc (card (p_free s1))"
      using 1(2,4) fin by (metis card_Suc_Diff1)
    then show ?thesis
      using 1 2 by auto
  qed
qed simp

text \<open>A released index can be acquired again: release and acquire are inverse on an empty pool.\<close>

lemma release_acquire:
  assumes "p_inv s" "i \<in> p_index s" "p_free s = {}"
  shows "\<exists>s' s''. p_release i s = Ret s' \<and> p_acquire s' = Ret (Some i, s'') \<and> p_free s'' = {}"
proof -
  obtain s' where s': "p_release i s = Ret s'" "p_inv s'" "p_free s' = {i}"
    using release_ok[OF assms(1,2)] assms(3) by auto
  then obtain j s'' where "p_acquire s' = Ret (Some j, s'')" "j \<in> p_free s'"
    "p_free s'' = p_free s' - {j}"
    using acquire_some[OF s'(2)] by auto
  then show ?thesis
    using s' by auto
qed

end

end
