(* ===== verification/Elementary.thy ===== *)
theory Elementary
  imports Prelude "HOL-Library.Word"
begin

unbundle bit_operations_syntax

text \<open>
  The building blocks of \<open>iceoryx2_bb/elementary/src\<close>: the arithmetic of \<open>math.rs\<close>, the
  relocatable pointer, unique ids, and the allocator traits of \<open>allocator.rs\<close> with the
  contract that the allocators of theory Allocators provide to their clients. Before them the
  subtraction of Rust's \<open>usize\<close> in the two build profiles.
\<close>

section \<open>Subtraction on usize\<close>

text \<open>
  \<open>a - b\<close> on \<open>usize\<close> when the result would be negative: a build with overflow checks (the development
  profile of cargo) panics, one without them (the release profile) wraps around.
\<close>

definition usize_sub :: "bool \<Rightarrow> nat \<Rightarrow> nat \<Rightarrow> nat outcome" where
  "usize_sub overflow_checks a b =
     (if b \<le> a then Ret (a - b) else if overflow_checks then Panic else Ret (a + 2 ^ 64 - b))"

lemma usize_sub_le [simp]: "b \<le> a \<Longrightarrow> usize_sub checks a b = Ret (a - b)"
  by (simp add: usize_sub_def)

lemma wrapping_sub:
  assumes "(a :: nat) < N" "b < N"
  shows "(if b \<le> a then a - b else a + N - b) = (a + N - b) mod N"
proof (cases "b \<le> a")
  case True
  then have "a + N - b = a - b + N" by simp
  then have "(a + N - b) mod N = (a - b) mod N" by (simp only: mod_add_self2)
  then show ?thesis using True assms by simp
qed (use assms in simp)

lemma usize_sub_mod:
  assumes "a < 2 ^ 64" "b < 2 ^ 64"
  shows "usize_sub False a b = Ret ((a + 2 ^ 64 - b) mod 2 ^ 64)"
  unfolding usize_sub_def wrapping_sub [OF assms, symmetric] by (simp only: if_False split: if_split) simp

section \<open>math.rs\<close>

definition align :: "nat \<Rightarrow> nat \<Rightarrow> nat" where
  "align value alignment =
     (if value mod alignment = 0 then value else value + alignment - value mod alignment)"

text \<open>The loop of \<open>log2_of_power_of_2\<close>, from iteration \<open>i\<close> on with \<open>n\<close> iterations left.\<close>

fun log2_loop :: "nat \<Rightarrow> nat \<Rightarrow> 64 word \<Rightarrow> nat" where
  "log2_loop 0 i bits = 0"
| "log2_loop (Suc n) i bits = (if bits = 1 then i else log2_loop n (i + 1) (drop_bit 1 bits))"

definition log2_of_power_of_2 :: "64 word \<Rightarrow> nat" where
  "log2_of_power_of_2 value = log2_loop 64 0 value"

definition remainder_to_char :: "nat \<Rightarrow> char" where
  "remainder_to_char value =
     (if value < 10 then char_of (48 + value)
      else if value < 26 + 10 then char_of (65 + value - 10)
      else if value < 62 then char_of (97 + value - 10 - 26)
      else if value = 62 then char_of (45 :: nat)
      else char_of (95 :: nat))"

text \<open>\<open>to_b64\<close> of an unsigned integer: the base 64 digits, the least significant first.\<close>

fun to_b64 :: "nat \<Rightarrow> string" where
  "to_b64 q = remainder_to_char (q mod 64) # (if q div 64 = 0 then [] else to_b64 (q div 64))"

declare to_b64.simps [simp del]

text \<open>A little-endian machine reads a byte array as an integer this way.\<close>

primrec le_bytes :: "nat list \<Rightarrow> nat" where
  "le_bytes [] = 0"
| "le_bytes (b # bs) = b + 256 * le_bytes bs"

text \<open>\<open>to_b64\<close> of a byte array: chunks of 16, 8, 4, 2 and 1 bytes are printed in turn.\<close>

function to_b64_bytes :: "nat list \<Rightarrow> string" where
  "to_b64_bytes bs =
     (if bs = [] then []
      else let k = (if 16 < length bs then 16 else if 8 < length bs then 8
                    else if 4 < length bs then 4 else if 2 < length bs then 2 else 1)
        in to_b64 (le_bytes (take k bs)) @ to_b64_bytes (drop k bs))"
  by pat_completeness auto
termination
  by (relation "measure length") (auto simp: Let_def)

declare to_b64_bytes.simps [simp del]

text \<open>\<open>round_to_pow2\<close>, wrapping as an unchecked build does for the value zero.\<close>

definition round_to_pow2 :: "64 word \<Rightarrow> 64 word" where
  "round_to_pow2 value =
     (let v = value - 1;
          v = v OR drop_bit 1 v;
          v = v OR drop_bit 2 v;
          v = v OR drop_bit 4 v;
          v = v OR drop_bit 8 v;
          v = v OR drop_bit 16 v;
          v = v OR drop_bit 32 v
      in v + 1)"

section \<open>relocatable_ptr.rs, unique_id.rs\<close>

record RelocatablePointer =
  rp_distance :: int

definition RelocatablePointer_new :: "int \<Rightarrow> RelocatablePointer" where
  "RelocatablePointer_new distance = \<lparr>rp_distance = distance\<rparr>"

definition RelocatablePointer_new_uninit :: "RelocatablePointer" where
  "RelocatablePointer_new_uninit = RelocatablePointer_new 0"

text \<open>\<open>self\<close> is the address at which the pointer itself is mapped.\<close>

definition RelocatablePointer_init :: "int \<Rightarrow> int \<Rightarrow> RelocatablePointer \<Rightarrow> RelocatablePointer" where
  "RelocatablePointer_init self ptr p = p\<lparr>rp_distance := ptr - self\<rparr>"

definition RelocatablePointer_as_ptr :: "int \<Rightarrow> RelocatablePointer \<Rightarrow> int" where
  "RelocatablePointer_as_ptr self p = self + rp_distance p"

text \<open>The counter of \<open>UniqueId::new\<close> (and of \<open>TypedUniqueId::new\<close>); the value is the old count.\<close>

definition UniqueId_new :: "64 word \<Rightarrow> 64 word \<times> 64 word" where
  "UniqueId_new COUNTER = (COUNTER, COUNTER + 1)"

section \<open>allocator.rs\<close>

record Layout =
  layout_size :: nat
  layout_align :: nat

datatype AllocationError =
    AE_SizeIsZero | AE_SizeTooLarge | AE_AlignmentFailure | AE_OutOfMemory | AE_InternalError

datatype AllocationGrowError =
    AGE_ProvidedPointerNotContainedInAllocator | AGE_GrowWouldShrink | AGE_SizeIsZero
  | AGE_OutOfMemory | AGE_AlignmentFailure | AGE_InternalError

datatype AllocationShrinkError =
    ASE_ProvidedPointerNotContainedInAllocator | ASE_ShrinkWouldGrow | ASE_SizeIsZero
  | ASE_AlignmentFailure | ASE_InternalError

datatype DeallocationError =
    DE_ProvidedPointerNotContainedInAllocator | DE_InternalError

text \<open>A chunk is the slice that \<open>allocate\<close> returns: its address and its length.\<close>

type_synonym chunk = "nat \<times> nat"

type_synonym 'm allocate_op = "Layout \<Rightarrow> 'm \<Rightarrow> (chunk, AllocationError) result \<times> 'm"

abbreviation mk_layout :: "nat \<Rightarrow> nat \<Rightarrow> Layout" where
  "mk_layout s a \<equiv> \<lparr>layout_size = s, layout_align = a\<rparr>"

text \<open>\<open>Layout\<close> guarantees that an alignment is a power of two.\<close>

definition valid_layout :: "Layout \<Rightarrow> bool" where
  "valid_layout l \<longleftrightarrow> (\<exists>k. layout_align l = 2 ^ k)"

definition chunk_bytes :: "chunk \<Rightarrow> nat set" where
  "chunk_bytes c = {fst c ..< fst c + snd c}"

text \<open>
  The default methods of the traits. \<open>zero\<close> is \<open>ptr::write_bytes(ptr, 0, len)\<close>; memory is
  a map from addresses to bytes.
\<close>

type_synonym memory = "nat \<Rightarrow> nat"

definition write_zeroes :: "nat \<Rightarrow> nat \<Rightarrow> memory \<Rightarrow> memory" where
  "write_zeroes ptr len mem = (\<lambda>a. if ptr \<le> a \<and> a < ptr + len then 0 else mem a)"

definition allocate_zeroed ::
  "'m allocate_op \<Rightarrow> Layout \<Rightarrow> 'm \<times> memory
     \<Rightarrow> (chunk, AllocationError) result \<times> 'm \<times> memory" where
  "allocate_zeroed allocate layout st =
     (case allocate layout (fst st) of
        (Err e, m) \<Rightarrow> (Err e, m, snd st)
      | (Ok (p, n), m) \<Rightarrow> (Ok (p, n), m, write_zeroes p n (snd st)))"

definition grow_zeroed ::
  "(nat \<Rightarrow> Layout \<Rightarrow> Layout \<Rightarrow> 'm \<Rightarrow> (chunk, AllocationGrowError) result)
     \<Rightarrow> nat \<Rightarrow> Layout \<Rightarrow> Layout \<Rightarrow> 'm \<times> memory
     \<Rightarrow> (chunk, AllocationGrowError) result \<times> memory" where
  "grow_zeroed grow ptr old_layout new_layout st =
     (case grow ptr old_layout new_layout (fst st) of
        Err e \<Rightarrow> (Err e, snd st)
      | Ok (p, n) \<Rightarrow> (Ok (p, n),
          write_zeroes (p + layout_size old_layout) (n - layout_size old_layout) (snd st)))"

section \<open>Lemmas on alignment and words\<close>

lemma align_ge: "0 < a \<Longrightarrow> x \<le> align x a"
proof -
  assume "0 < a"
  then have "x mod a < a"
    by simp
  then show ?thesis
    by (auto simp: align_def)
qed

lemma align_lt: "0 < a \<Longrightarrow> align x a < x + a"
  using mod_less_divisor[of a x] by (auto simp: align_def)

lemma align_dvd: "0 < a \<Longrightarrow> a dvd align x a"
proof -
  assume a: "0 < a"
  have "x + a - x mod a = a * (x div a) + a"
    using mult_div_mod_eq[of a x] by linarith
  then show ?thesis
    using a by (auto simp: align_def mod_0_imp_dvd)
qed

lemma align_least:
  assumes "0 < a" "a dvd m" "x \<le> m"
  shows "align x a \<le> m"
proof (rule ccontr)
  assume "\<not> align x a \<le> m"
  then have "0 < align x a - m" "align x a - m < a"
    using align_lt[OF assms(1), of x] assms(3) by auto
  moreover have "a dvd align x a - m"
    using align_dvd[OF assms(1)] assms(2) by (intro dvd_diff_nat)
  ultimately show False
    by (simp add: nat_dvd_not_less)
qed

lemma valid_layout_pos: "valid_layout l \<Longrightarrow> 0 < layout_align l"
  by (auto simp: valid_layout_def)

lemma pow2_le_dvd: "2 ^ k \<le> (2 ^ m :: nat) \<Longrightarrow> (2 ^ k :: nat) dvd 2 ^ m"
  by (simp add: le_imp_power_dvd)

text \<open>Base 64 digits.\<close>

definition char_to_digit :: "char \<Rightarrow> nat" where
  "char_to_digit ch = (let c = of_char ch in
     if c < 58 \<and> 48 \<le> c then c - 48
     else if c < 91 \<and> 65 \<le> c then c - 65 + 10
     else if 97 \<le> c then c - 97 + 36
     else if c = 45 then 62 else 63)"

lemma char_to_digit_remainder: "d < 64 \<Longrightarrow> char_to_digit (remainder_to_char d) = d"
  by (auto simp: char_to_digit_def remainder_to_char_def Let_def)

primrec of_b64 :: "string \<Rightarrow> nat" where
  "of_b64 [] = 0"
| "of_b64 (c # cs) = char_to_digit c + 64 * of_b64 cs"

lemma of_to_b64: "of_b64 (to_b64 n) = n"
proof (induction n rule: to_b64.induct)
  case (1 q)
  then show ?case
    by (subst to_b64.simps) (auto simp: char_to_digit_remainder)
qed

lemma to_b64_digits:
  "set (to_b64 n) \<subseteq> remainder_to_char ` {..<64}"
proof (induction n rule: to_b64.induct)
  case (1 q)
  then show ?case
    by (subst to_b64.simps) auto
qed

text \<open>Smearing: bit \<open>i\<close> of the result says whether one of the bits \<open>i, ..., i + n - 1\<close> is set.\<close>

definition smeared :: "nat \<Rightarrow> 64 word \<Rightarrow> 64 word \<Rightarrow> bool" where
  "smeared n w v \<longleftrightarrow> (\<forall>i. bit w i \<longleftrightarrow> (\<exists>d < n. bit v (i + d)))"

lemma smeared_one: "smeared 1 v v"
  by (simp add: smeared_def)

lemma smeared_double:
  assumes "smeared n w v"
  shows "smeared (n + n) (w OR drop_bit n w) v"
proof -
  have "bit (w OR drop_bit n w) i \<longleftrightarrow> (\<exists>d < n + n. bit v (i + d))" for i
  proof -
    have "bit (w OR drop_bit n w) i \<longleftrightarrow> (\<exists>d < n. bit v (i + d)) \<or> (\<exists>d < n. bit v (i + (n + d)))"
      using assms by (auto simp: smeared_def bit_simps ac_simps)
    also have "\<dots> \<longleftrightarrow> (\<exists>d < n + n. bit v (i + d))"
    proof (intro iffI)
      assume "\<exists>d < n + n. bit v (i + d)"
      then obtain d where "d < n + n" "bit v (i + d)"
        by blast
      then show "(\<exists>d < n. bit v (i + d)) \<or> (\<exists>d < n. bit v (i + (n + d)))"
        by (metis add.commute add_diff_inverse_nat less_diff_conv2 not_less)
    next
      assume "(\<exists>d < n. bit v (i + d)) \<or> (\<exists>d < n. bit v (i + (n + d)))"
      then show "\<exists>d < n + n. bit v (i + d)"
        by (meson add_strict_left_mono trans_less_add1)
    qed
    finally show ?thesis .
  qed
  then show ?thesis
    by (simp add: smeared_def)
qed

lemma round_smeared:
  "\<exists>w. round_to_pow2 v = w + 1 \<and> smeared 64 w (v - 1)"
proof -
  define v0 where "v0 = v - 1"
  define v1 where "v1 = (v0 OR drop_bit 1 v0)"
  define v2 where "v2 = (v1 OR drop_bit 2 v1)"
  define v4 where "v4 = (v2 OR drop_bit 4 v2)"
  define v8 where "v8 = (v4 OR drop_bit 8 v4)"
  define v16 where "v16 = (v8 OR drop_bit 16 v8)"
  define v32 where "v32 = (v16 OR drop_bit 32 v16)"
  note defs = v0_def v1_def v2_def v4_def v8_def v16_def v32_def
  have "smeared 2 v1 v0"
    using smeared_double[OF smeared_one, of v0] by (simp add: v1_def numeral_2_eq_2)
  then have "smeared 4 v2 v0"
    using smeared_double[of 2 v1 v0] by (simp add: v2_def)
  then have "smeared 8 v4 v0"
    using smeared_double[of 4 v2 v0] by (simp add: v4_def)
  then have "smeared 16 v8 v0"
    using smeared_double[of 8 v4 v0] by (simp add: v8_def)
  then have "smeared 32 v16 v0"
    using smeared_double[of 16 v8 v0] by (simp add: v16_def)
  then have "smeared 64 v32 v0"
    using smeared_double[of 32 v16 v0] by (simp add: v32_def)
  moreover have "round_to_pow2 v = v32 + 1"
    by (simp only: round_to_pow2_def Let_def defs)
  ultimately show ?thesis
    unfolding v0_def by blast
qed

text \<open>The smeared word of \<open>v\<close> with highest set bit \<open>h\<close> has exactly the bits up to \<open>h\<close>.\<close>

lemma smeared_mask:
  assumes "smeared 64 w v" "bit v h" "\<And>j. bit v j \<Longrightarrow> j \<le> h"
  shows "w = mask (Suc h)"
proof (rule bit_word_eqI)
  fix i assume i: "i < LENGTH(64)"
  have h: "h < 64"
    using assms(2) bit_imp_le_length[of v h] by simp
  have "(\<exists>d < 64. bit v (i + d)) \<longleftrightarrow> i \<le> h"
  proof
    assume "i \<le> h"
    then show "\<exists>d < 64. bit v (i + d)"
      using assms(2) h by (intro exI[of _ "h - i"]) auto
  qed (use assms(3) in fastforce)
  then show "bit w i = bit (mask (Suc h) :: 64 word) i"
    using assms(1) i by (simp add: smeared_def bit_mask_iff less_Suc_eq_le)
qed

lemma highest_bit:
  assumes "v \<noteq> (0 :: 64 word)"
  shows "\<exists>h < 64. bit v h \<and> (\<forall>j. bit v j \<longrightarrow> j \<le> h)"
proof -
  let ?S = "{j. bit v j}"
  have fin: "finite ?S"
    by (rule finite_subset[of _ "{..<64}"]) (auto dest: bit_imp_le_length)
  have "?S \<noteq> {}"
    using assms by (auto simp: bit_eq_iff)
  then have "bit v (Max ?S)" "\<And>j. bit v j \<Longrightarrow> j \<le> Max ?S"
    using Max_in[OF fin] fin by auto
  then show ?thesis
    using bit_imp_le_length[of v "Max ?S"] by auto
qed

lemma bit_word_bounds:
  assumes "bit (x :: 64 word) h" "\<forall>j. bit x j \<longrightarrow> j \<le> h"
  shows "2 ^ h \<le> unat x" "unat x < 2 ^ Suc h"
proof -
  have b: "bit (unat x) j = bit x j" for j
    by (simp add: bit_simps)
  have "odd (unat x div 2 ^ h)"
    using b[of h] assms(1) bit_iff_odd[of "unat x" h] by simp
  then have "unat x div 2 ^ h \<noteq> 0"
    by (metis even_zero)
  then show "2 ^ h \<le> unat x"
    by (metis div_less not_less)
  have "take_bit (Suc h) (unat x) = unat x"
    using assms(2) by (intro bit_eqI) (auto simp: bit_take_bit_iff b less_Suc_eq_le)
  then show "unat x < 2 ^ Suc h"
    by (metis take_bit_nat_less_exp)
qed

lemma unat_exp_below:
  assumes "n < 64"
  shows "unat (2 ^ n :: 64 word) = 2 ^ n"
proof -
  have "(2::nat) ^ n < 2 ^ 64"
    using assms by (intro power_strict_increasing) auto
  moreover have "unat (word_of_nat k :: 64 word) = k" if "k < 2 ^ 64" for k
    using that by (simp add: unsigned_of_nat take_bit_nat_eq_self)
  ultimately have "unat (word_of_nat (2 ^ n) :: 64 word) = 2 ^ n"
    by blast
  then show ?thesis
    by simp
qed

section \<open>The contract of an allocator\<close>

text \<open>
  What a client may rely on: the chunk is large enough, aligned, inside the managed region
  and disjoint from every byte that is in use; a failing call changes nothing.
\<close>

locale base_allocator =
  fixes a_inv :: "'m \<Rightarrow> bool"
    and a_used :: "'m \<Rightarrow> nat set"
    and a_region :: "'m \<Rightarrow> nat set"
    and a_allocate :: "'m allocate_op"
  assumes used_region: "a_inv m \<Longrightarrow> a_used m \<subseteq> a_region m"
    and allocate_ok: "a_inv m \<Longrightarrow> valid_layout l \<Longrightarrow> a_allocate l m = (Ok c, m') \<Longrightarrow>
      a_inv m' \<and> a_region m' = a_region m \<and> layout_size l \<le> snd c
      \<and> layout_align l dvd fst c \<and> chunk_bytes c \<inter> a_used m = {}
      \<and> chunk_bytes c \<subseteq> a_used m' \<and> a_used m \<subseteq> a_used m'"
    and allocate_err: "a_inv m \<Longrightarrow> a_allocate l m = (Err e, m') \<Longrightarrow> m' = m"
begin

primrec allocate_all :: "Layout list \<Rightarrow> 'm \<Rightarrow> (chunk list, AllocationError) result \<times> 'm" where
  "allocate_all [] m = (Ok [], m)"
| "allocate_all (l # ls) m = (case a_allocate l m of
     (Err e, m') \<Rightarrow> (Err e, m')
   | (Ok c, m') \<Rightarrow> (case allocate_all ls m' of
       (Err e, m'') \<Rightarrow> (Err e, m'')
     | (Ok cs, m'') \<Rightarrow> (Ok (c # cs), m'')))"

text \<open>Every request gets a chunk that is large enough and aligned.\<close>

lemma allocate_all_layouts:
  "a_inv m \<Longrightarrow> \<forall>l \<in> set ls. valid_layout l \<Longrightarrow> allocate_all ls m = (Ok cs, m') \<Longrightarrow>
    list_all2 (\<lambda>l c. layout_size l \<le> snd c \<and> layout_align l dvd fst c) ls cs"
proof (induction ls arbitrary: m cs)
  case (Cons l ls)
  obtain c m1 ds where c: "a_allocate l m = (Ok c, m1)" "allocate_all ls m1 = (Ok ds, m')" "cs = c # ds"
    using Cons.prems(3) by (auto split: prod.splits result.splits)
  then show ?case
    using Cons.IH[OF _ _ c(2)] allocate_ok[OF Cons.prems(1) _ c(1)] Cons.prems(2) by simp
qed simp

text \<open>Successive allocations never overlap each other or what was in use before.\<close>

lemma allocate_all_disjoint:
  "a_inv m \<Longrightarrow> \<forall>l \<in> set ls. valid_layout l \<Longrightarrow> allocate_all ls m = (Ok cs, m') \<Longrightarrow>
    a_inv m' \<and> a_region m' = a_region m \<and> a_used m \<subseteq> a_used m'
    \<and> (\<forall>c \<in> set cs. chunk_bytes c \<subseteq> a_used m' \<and> chunk_bytes c \<inter> a_used m = {})
    \<and> (\<forall>i < length cs. \<forall>j < i. chunk_bytes (cs ! j) \<inter> chunk_bytes (cs ! i) = {})
    \<and> length cs = length ls"
proof (induction ls arbitrary: m cs)
  case (Cons l ls)
  obtain c m1 ds where c: "a_allocate l m = (Ok c, m1)" "allocate_all ls m1 = (Ok ds, m')" "cs = c # ds"
    using Cons.prems(3) by (auto split: prod.splits result.splits)
  note ok = allocate_ok[OF Cons.prems(1) _ c(1)]
  have l: "valid_layout l" "\<forall>l \<in> set ls. valid_layout l"
    using Cons.prems(2) by auto
  note ih = Cons.IH[OF _ l(2) c(2)]
  have d: "chunk_bytes c \<inter> chunk_bytes (ds ! k) = {}" if "k < length ds" for k
  proof -
    have "chunk_bytes (ds ! k) \<inter> a_used m1 = {}"
      using that ih ok[OF l(1)] by simp
    then show ?thesis
      using ok[OF l(1)] by auto
  qed
  have "chunk_bytes (cs ! j) \<inter> chunk_bytes (cs ! i) = {}" if ij: "i < length cs" "j < i" for i j
  proof -
    obtain k where k: "i = Suc k" "k < length ds"
      using ij c(3) by (cases i) auto
    have "\<forall>i < length ds. \<forall>j < i. chunk_bytes (ds ! j) \<inter> chunk_bytes (ds ! i) = {}"
      using ih ok[OF l(1)] by simp
    then show ?thesis
      using d[OF k(2)] k ij(2) c(3) by (cases j) simp_all
  qed
  moreover have "chunk_bytes d \<subseteq> a_used m' \<and> chunk_bytes d \<inter> a_used m = {}" if "d \<in> set cs" for d
  proof (cases "d = c")
    case True
    then show ?thesis
      using ok[OF l(1)] ih by auto
  next
    case False
    then have "chunk_bytes d \<subseteq> a_used m'" "chunk_bytes d \<inter> a_used m1 = {}"
      using that c(3) ih ok[OF l(1)] by auto
    then show ?thesis
      using ok[OF l(1)] by auto
  qed
  ultimately show ?case
    using ok[OF l(1)] ih c(3) by auto
qed auto

end

section \<open>Properties\<close>

text \<open>
  \<open>align\<close> returns the smallest multiple of the alignment that is not below the value.
\<close>

theorem align_smallest_multiple:
  assumes "0 < a"
  shows "a dvd align v a \<and> v \<le> align v a \<and> (\<forall>m. a dvd m \<and> v \<le> m \<longrightarrow> align v a \<le> m)"
  using align_dvd[OF assms] align_ge[OF assms] align_least[OF assms] by blast

theorem align_smallest_multiple_witness:
  "(8::nat) dvd align 13 8 \<and> 13 \<le> align 13 8 \<and> align 13 8 \<le> 16"
  using align_smallest_multiple[of 8 13] by simp

text \<open>
  \<open>round_to_pow2\<close> rounds up to the next power of two: for every value from 2 to \<open>2 ^ 63\<close>
  the result is a power of two that is at least the value and less than twice the value.
\<close>

theorem round_to_pow2_next:
  assumes "2 \<le> unat v" "unat v \<le> 2 ^ 63"
  shows "\<exists>k. unat (round_to_pow2 v) = 2 ^ k \<and> unat v \<le> 2 ^ k \<and> 2 ^ k < 2 * unat v"
proof -
  have v1: "unat (v - 1) = unat v - 1"
    using assms(1) by (subst unat_minus_one) (auto simp: word_unat_eq_iff)
  then have "v - 1 \<noteq> 0"
    using assms(1) by (metis One_nat_def diff_is_0_eq not_numeral_le_zero numeral_2_eq_2 not_less_eq_eq unat_0 order_trans)
  then obtain h where h: "h < 64" "bit (v - 1) h" "\<forall>j. bit (v - 1) j \<longrightarrow> j \<le> h"
    using highest_bit by blast
  obtain w where w: "round_to_pow2 v = w + 1" "smeared 64 w (v - 1)"
    using round_smeared by blast
  have "w = mask (Suc h)"
    using smeared_mask[OF w(2) h(2)] h(3) by blast
  then have r: "round_to_pow2 v = 2 ^ Suc h"
    using w(1) by (simp add: mask_eq_decr_exp)
  have b: "2 ^ h \<le> unat v - 1" "unat v - 1 < 2 ^ Suc h"
    using bit_word_bounds[OF h(2)] h(3) v1 by auto
  then have "(2::nat) ^ h < 2 ^ 63"
    using assms by linarith
  then have "Suc h < 64"
    using power_less_imp_less_exp[of "2::nat" h 63] by simp
  then have "unat (round_to_pow2 v) = 2 ^ Suc h"
    unfolding r by (rule unat_exp_below)
  then show ?thesis
    using b assms by (intro exI[of _ "Suc h"]) auto
qed

theorem round_to_pow2_next_witness:
  "\<exists>k. unat (round_to_pow2 100) = 2 ^ k \<and> 100 \<le> (2::nat) ^ k \<and> (2::nat) ^ k < 200"
  using round_to_pow2_next[of 100] by simp

text \<open>
  The textual form that \<open>to_b64\<close> gives an unsigned integer determines the integer:
  different integers have different texts, over the 64 characters of the alphabet.
\<close>

theorem to_b64_injective:
  "(to_b64 m = to_b64 n \<longleftrightarrow> m = n) \<and> set (to_b64 n) \<subseteq> remainder_to_char ` {..<64}"
  using of_to_b64 to_b64_digits by metis

text \<open>
  The textual form of a byte array does not determine the array, because the chunks
  are printed with as many digits as they need and no separator: two different arrays of
  16 bytes (the length used for the hash of a service name) have the same text.
\<close>

theorem to_b64_bytes_collision:
  "let a = replicate 12 0 @ [1, 0, 65, 0]; b = replicate 12 0 @ [65, 0, 1, 0]
   in a \<noteq> b \<and> length a = 16 \<and> length b = 16 \<and> to_b64_bytes a = to_b64_bytes b"
  by code_simp

text \<open>
  A relocatable pointer keeps pointing to its target when the memory that contains
  both is mapped at another address.
\<close>

theorem relocatable_pointer_moves:
  "RelocatablePointer_as_ptr (self + delta)
     (RelocatablePointer_init self ptr RelocatablePointer_new_uninit) = ptr + delta"
  by (simp add: RelocatablePointer_as_ptr_def RelocatablePointer_init_def)

text \<open>
  \<open>log2_of_power_of_2\<close> inverts the powers of two that fit into 64 bits.
\<close>

theorem log2_of_power_of_2_correct:
  assumes "k < 64"
  shows "log2_of_power_of_2 (2 ^ k) = k"
proof -
  have step: "log2_loop (Suc n) i (2 ^ j) = (if j = 0 then i else log2_loop n (i + 1) (2 ^ (j - 1)))"
    if "j < 64" for n i j
  proof (cases j)
    case (Suc m)
    have "drop_bit 1 (2 ^ Suc m :: 64 word) = 2 ^ m"
      using that Suc by (intro bit_word_eqI) (auto simp: bit_simps simp del: power_Suc)
    moreover have "(2 ^ Suc m :: 64 word) \<noteq> 1"
      using that Suc by (auto simp: word_unat_eq_iff unat_exp_below simp del: power_Suc)
    ultimately show ?thesis
      using Suc by simp
  qed simp
  have "j \<le> n \<Longrightarrow> j < 64 \<Longrightarrow> log2_loop (Suc n) i (2 ^ j) = i + j" for n i j
  proof (induction n arbitrary: i j)
    case 0
    then show ?case
      using step[of 0 0 i] by simp
  next
    case (Suc n)
    then show ?case
      using step[of j "Suc n" i] Suc.IH[of "j - 1" "i + 1"] by (cases j) (auto simp del: log2_loop.simps)
  qed
  from this[of k 63 0] show ?thesis
    using assms by (simp add: log2_of_power_of_2_def del: log2_loop.simps)
qed

theorem log2_of_power_of_2_correct_witness: "log2_of_power_of_2 1024 = 10"
  using log2_of_power_of_2_correct[of 10] by simp

end
