(* ===== verification/IndexQueue.thy ===== *)
theory IndexQueue
  imports Elementary
begin

text \<open>
  The lock-free single-producer single-consumer index queue,
  \<open>iceoryx2_bb/lock_free/src/spsc/index_queue.rs\<close>. The first part translates the
  operations as they behave when no other thread is active; the second part splits
  \<open>push\<close>, \<open>pop\<close> and the position snapshot into their atomic accesses and
  interleaves them. Positions are natural numbers: the write position is the number
  of successful pushes, so it agrees with the code's \<open>usize\<close> for the first
  \<open>2 ^ 64\<close> pushes.
\<close>

section \<open>Operations\<close>

record IndexQueue =
  iq_data :: "nat list"
  iq_capacity :: nat
  iq_write_position :: nat
  iq_read_position :: nat
  iq_has_producer :: bool
  iq_has_consumer :: bool
  iq_is_memory_initialized :: bool

definition IndexQueue_new :: "nat \<Rightarrow> IndexQueue" where
  "IndexQueue_new capacity = \<lparr>iq_data = replicate capacity 0, iq_capacity = capacity,
     iq_write_position = 0, iq_read_position = 0,
     iq_has_producer = True, iq_has_consumer = True, iq_is_memory_initialized = True\<rparr>"

definition IndexQueue_new_uninit :: "nat \<Rightarrow> IndexQueue" where
  "IndexQueue_new_uninit capacity = \<lparr>iq_data = [], iq_capacity = capacity,
     iq_write_position = 0, iq_read_position = 0,
     iq_has_producer = True, iq_has_consumer = True, iq_is_memory_initialized = False\<rparr>"

text \<open>
  \<open>init\<close> takes the slots from an allocator with state \<open>m\<close>; a second \<open>init\<close> is a
  \<open>fatal_panic!\<close>.
\<close>

definition IndexQueue_init ::
  "'m allocate_op \<Rightarrow> IndexQueue \<Rightarrow> 'm
     \<Rightarrow> ((unit, AllocationError) result \<times> IndexQueue \<times> 'm) outcome" where
  "IndexQueue_init allocate q m =
     (if iq_is_memory_initialized q then Panic
      else case allocate (mk_layout (8 * iq_capacity q) 8) m of
        (Err e, m') \<Rightarrow> Ret (Err e, q, m')
      | (Ok _, m') \<Rightarrow> Ret (Ok (), q\<lparr>iq_data := replicate (iq_capacity q) 0,
                             iq_is_memory_initialized := True\<rparr>, m'))"

definition IndexQueue_const_memory_size :: "nat \<Rightarrow> nat" where
  "IndexQueue_const_memory_size capacity = 8 * capacity + 8 - 1"

definition IndexQueue_at :: "IndexQueue \<Rightarrow> nat \<Rightarrow> nat" where
  "IndexQueue_at q position = position mod iq_capacity q"

definition IndexQueue_acquire_producer :: "IndexQueue \<Rightarrow> (bool \<times> IndexQueue) outcome" where
  "IndexQueue_acquire_producer q =
     (if \<not> iq_is_memory_initialized q then Panic
      else if iq_has_producer q then Ret (True, q\<lparr>iq_has_producer := False\<rparr>)
      else Ret (False, q))"

definition IndexQueue_acquire_consumer :: "IndexQueue \<Rightarrow> (bool \<times> IndexQueue) outcome" where
  "IndexQueue_acquire_consumer q =
     (if \<not> iq_is_memory_initialized q then Panic
      else if iq_has_consumer q then Ret (True, q\<lparr>iq_has_consumer := False\<rparr>)
      else Ret (False, q))"

definition IndexQueue_Producer_drop :: "IndexQueue \<Rightarrow> IndexQueue" where
  "IndexQueue_Producer_drop q = q\<lparr>iq_has_producer := True\<rparr>"

definition IndexQueue_Consumer_drop :: "IndexQueue \<Rightarrow> IndexQueue" where
  "IndexQueue_Consumer_drop q = q\<lparr>iq_has_consumer := True\<rparr>"

definition IndexQueue_push :: "nat \<Rightarrow> IndexQueue \<Rightarrow> bool \<times> IndexQueue" where
  "IndexQueue_push value q =
     (let write_position = iq_write_position q;
          is_full = (write_position = iq_read_position q + iq_capacity q)
      in if is_full then (False, q)
         else (True, q\<lparr>iq_data := (iq_data q)[IndexQueue_at q write_position := value],
                       iq_write_position := write_position + 1\<rparr>))"

definition IndexQueue_pop :: "IndexQueue \<Rightarrow> nat option \<times> IndexQueue" where
  "IndexQueue_pop q =
     (let read_position = iq_read_position q;
          is_empty = (read_position = iq_write_position q)
      in if is_empty then (None, q)
         else (Some (iq_data q ! IndexQueue_at q read_position),
               q\<lparr>iq_read_position := read_position + 1\<rparr>))"

definition IndexQueue_acquire_read_and_write_position :: "IndexQueue \<Rightarrow> nat \<times> nat" where
  "IndexQueue_acquire_read_and_write_position q = (iq_write_position q, iq_read_position q)"

definition IndexQueue_is_empty :: "IndexQueue \<Rightarrow> bool" where
  "IndexQueue_is_empty q =
     (let (write_position, read_position) = IndexQueue_acquire_read_and_write_position q
      in write_position = read_position)"

definition IndexQueue_len :: "IndexQueue \<Rightarrow> nat" where
  "IndexQueue_len q =
     (let (write_position, read_position) = IndexQueue_acquire_read_and_write_position q
      in write_position - read_position)"

definition IndexQueue_is_full :: "IndexQueue \<Rightarrow> bool" where
  "IndexQueue_is_full q =
     (let (write_position, read_position) = IndexQueue_acquire_read_and_write_position q
      in write_position = read_position + iq_capacity q)"

section \<open>Atomic steps\<close>

text \<open>
  Program counters of the producer in \<open>push\<close>: the value, then the positions it has
  loaded so far.
\<close>

datatype iq_push_pc =
    IQ_push_idle
  | IQ_push_loaded nat nat
  | IQ_push_not_full nat nat
  | IQ_push_written nat nat

text \<open>Program counters of the consumer in \<open>pop\<close>.\<close>

datatype iq_pop_pc =
    IQ_pop_idle
  | IQ_pop_loaded nat
  | IQ_pop_not_empty nat
  | IQ_pop_read nat nat

text \<open>Program counters of a thread in \<open>acquire_read_and_write_position\<close>.\<close>

datatype iq_obs_pc =
    IQ_obs_idle
  | IQ_obs_w nat
  | IQ_obs_wr nat nat
  | IQ_obs_wrw nat nat
  | IQ_obs_done nat nat

text \<open>
  A configuration: the shared queue, the three threads, and as history the values
  whose push has stored its write position and those whose pop has stored its read
  position.
\<close>

record iq_conf =
  iqc_queue :: IndexQueue
  iqc_push :: iq_push_pc
  iqc_pop :: iq_pop_pc
  iqc_obs :: iq_obs_pc
  iqc_pushed :: "nat list"
  iqc_popped :: "nat list"

inductive iq_push_step :: "iq_conf \<Rightarrow> iq_conf \<Rightarrow> bool" where
  iq_push_load_wp: "iqc_push s = IQ_push_idle \<Longrightarrow>
    iq_push_step s (s\<lparr>iqc_push := IQ_push_loaded v (iq_write_position (iqc_queue s))\<rparr>)"
| iq_push_full: "iqc_push s = IQ_push_loaded v wp \<Longrightarrow>
    wp = iq_read_position (iqc_queue s) + iq_capacity (iqc_queue s) \<Longrightarrow>
    iq_push_step s (s\<lparr>iqc_push := IQ_push_idle\<rparr>)"
| iq_push_check: "iqc_push s = IQ_push_loaded v wp \<Longrightarrow>
    wp \<noteq> iq_read_position (iqc_queue s) + iq_capacity (iqc_queue s) \<Longrightarrow>
    iq_push_step s (s\<lparr>iqc_push := IQ_push_not_full v wp\<rparr>)"
| iq_push_write: "iqc_push s = IQ_push_not_full v wp \<Longrightarrow>
    iq_push_step s (s\<lparr>iqc_queue := (iqc_queue s)
      \<lparr>iq_data := (iq_data (iqc_queue s))[IndexQueue_at (iqc_queue s) wp := v]\<rparr>,
      iqc_push := IQ_push_written v wp\<rparr>)"
| iq_push_store_wp: "iqc_push s = IQ_push_written v wp \<Longrightarrow>
    iq_push_step s (s\<lparr>iqc_queue := (iqc_queue s)\<lparr>iq_write_position := wp + 1\<rparr>,
      iqc_push := IQ_push_idle, iqc_pushed := iqc_pushed s @ [v]\<rparr>)"

inductive iq_pop_step :: "iq_conf \<Rightarrow> iq_conf \<Rightarrow> bool" where
  iq_pop_load_rp: "iqc_pop s = IQ_pop_idle \<Longrightarrow>
    iq_pop_step s (s\<lparr>iqc_pop := IQ_pop_loaded (iq_read_position (iqc_queue s))\<rparr>)"
| iq_pop_empty: "iqc_pop s = IQ_pop_loaded rp \<Longrightarrow> rp = iq_write_position (iqc_queue s) \<Longrightarrow>
    iq_pop_step s (s\<lparr>iqc_pop := IQ_pop_idle\<rparr>)"
| iq_pop_check: "iqc_pop s = IQ_pop_loaded rp \<Longrightarrow> rp \<noteq> iq_write_position (iqc_queue s) \<Longrightarrow>
    iq_pop_step s (s\<lparr>iqc_pop := IQ_pop_not_empty rp\<rparr>)"
| iq_pop_value: "iqc_pop s = IQ_pop_not_empty rp \<Longrightarrow>
    iq_pop_step s (s\<lparr>iqc_pop :=
      IQ_pop_read rp (iq_data (iqc_queue s) ! IndexQueue_at (iqc_queue s) rp)\<rparr>)"
| iq_pop_store_rp: "iqc_pop s = IQ_pop_read rp v \<Longrightarrow>
    iq_pop_step s (s\<lparr>iqc_queue := (iqc_queue s)\<lparr>iq_read_position := rp + 1\<rparr>,
      iqc_pop := IQ_pop_idle, iqc_popped := iqc_popped s @ [v]\<rparr>)"

text \<open>
  The snapshot loop of \<open>is_empty\<close>, \<open>len\<close> and \<open>is_full\<close>: two loads, then each load
  is repeated and the loop starts again when a position has moved.
\<close>

inductive iq_obs_step :: "iq_conf \<Rightarrow> iq_conf \<Rightarrow> bool" where
  iq_obs_load_wp: "iqc_obs s = IQ_obs_idle \<Longrightarrow>
    iq_obs_step s (s\<lparr>iqc_obs := IQ_obs_w (iq_write_position (iqc_queue s))\<rparr>)"
| iq_obs_load_rp: "iqc_obs s = IQ_obs_w wp \<Longrightarrow>
    iq_obs_step s (s\<lparr>iqc_obs := IQ_obs_wr wp (iq_read_position (iqc_queue s))\<rparr>)"
| iq_obs_same_wp: "iqc_obs s = IQ_obs_wr wp rp \<Longrightarrow> wp = iq_write_position (iqc_queue s) \<Longrightarrow>
    iq_obs_step s (s\<lparr>iqc_obs := IQ_obs_wrw wp rp\<rparr>)"
| iq_obs_other_wp: "iqc_obs s = IQ_obs_wr wp rp \<Longrightarrow> wp \<noteq> iq_write_position (iqc_queue s) \<Longrightarrow>
    iq_obs_step s (s\<lparr>iqc_obs := IQ_obs_idle\<rparr>)"
| iq_obs_same_rp: "iqc_obs s = IQ_obs_wrw wp rp \<Longrightarrow> rp = iq_read_position (iqc_queue s) \<Longrightarrow>
    iq_obs_step s (s\<lparr>iqc_obs := IQ_obs_done wp rp\<rparr>)"
| iq_obs_other_rp: "iqc_obs s = IQ_obs_wrw wp rp \<Longrightarrow> rp \<noteq> iq_read_position (iqc_queue s) \<Longrightarrow>
    iq_obs_step s (s\<lparr>iqc_obs := IQ_obs_idle\<rparr>)"
| iq_obs_return: "iqc_obs s = IQ_obs_done wp rp \<Longrightarrow>
    iq_obs_step s (s\<lparr>iqc_obs := IQ_obs_idle\<rparr>)"

definition iq_step :: "iq_conf \<Rightarrow> iq_conf \<Rightarrow> bool" where
  "iq_step s t \<longleftrightarrow> iq_push_step s t \<or> iq_pop_step s t \<or> iq_obs_step s t"

definition iq_start :: "nat \<Rightarrow> iq_conf" where
  "iq_start capacity = \<lparr>iqc_queue = IndexQueue_new capacity,
     iqc_push = IQ_push_idle, iqc_pop = IQ_pop_idle, iqc_obs = IQ_obs_idle,
     iqc_pushed = [], iqc_popped = []\<rparr>"

section \<open>Invariant and sequential contract\<close>

definition IndexQueue_inv :: "IndexQueue \<Rightarrow> bool" where
  "IndexQueue_inv q \<longleftrightarrow> length (iq_data q) = iq_capacity q
     \<and> iq_read_position q \<le> iq_write_position q
     \<and> iq_write_position q \<le> iq_read_position q + iq_capacity q"

definition IndexQueue_list :: "IndexQueue \<Rightarrow> nat list" where
  "IndexQueue_list q =
     ring (iq_data q) (iq_capacity q) (iq_read_position q) (iq_write_position q)"

lemmas IndexQueue_defs = IndexQueue_inv_def IndexQueue_list_def IndexQueue_at_def
  IndexQueue_push_def IndexQueue_pop_def

lemma IndexQueue_new_inv: "IndexQueue_inv (IndexQueue_new c)"
  by (simp add: IndexQueue_inv_def IndexQueue_new_def)

lemma IndexQueue_new_list: "IndexQueue_list (IndexQueue_new c) = []"
  by (simp add: IndexQueue_list_def IndexQueue_new_def)

lemma length_IndexQueue_list:
  "length (IndexQueue_list q) = iq_write_position q - iq_read_position q"
  by (simp add: IndexQueue_list_def)

lemma IndexQueue_push_room:
  assumes "IndexQueue_inv q" "length (IndexQueue_list q) < iq_capacity q"
  shows "IndexQueue_push v q = (True,
      q\<lparr>iq_data := (iq_data q)[IndexQueue_at q (iq_write_position q) := v],
        iq_write_position := iq_write_position q + 1\<rparr>)"
    and "iq_write_position q < iq_read_position q + iq_capacity q"
  using assms by (auto simp: IndexQueue_push_def IndexQueue_inv_def length_IndexQueue_list Let_def)

lemma IndexQueue_list_cons_pos:
  "IndexQueue_list q = v # vs \<Longrightarrow> iq_read_position q < iq_write_position q"
  using length_IndexQueue_list[of q] by simp

lemma IndexQueue_pop_cons:
  assumes "IndexQueue_inv q" "IndexQueue_list q = v # vs"
  shows "IndexQueue_pop q = (Some v, q\<lparr>iq_read_position := iq_read_position q + 1\<rparr>)
    \<and> IndexQueue_list (q\<lparr>iq_read_position := iq_read_position q + 1\<rparr>) = vs"
  using assms(2) IndexQueue_list_cons_pos[OF assms(2)] by (simp add: IndexQueue_defs ring_pop)

interpretation iq: bounded_queue IndexQueue_inv IndexQueue_list iq_capacity
  IndexQueue_push IndexQueue_pop
proof (unfold_locales, goal_cases)
  case (1 q)
  then show ?case
    by (auto simp: IndexQueue_inv_def length_IndexQueue_list)
next
  case (2 q v)
  then show ?case
    by (auto simp: IndexQueue_push_def IndexQueue_inv_def length_IndexQueue_list Let_def)
next
  case (3 q v b q')
  then show ?case
    using IndexQueue_push_room[OF 3(1,2)]
    by (auto simp: IndexQueue_inv_def IndexQueue_list_def IndexQueue_at_def ring_push)
next
  case (4 q)
  then have "iq_read_position q = iq_write_position q"
    using length_IndexQueue_list[of q] by (simp add: IndexQueue_inv_def)
  then show ?case
    by (simp add: IndexQueue_pop_def)
next
  case (5 q v vs r q')
  then show ?case
    using IndexQueue_pop_cons[OF 5(1,2)] IndexQueue_list_cons_pos[OF 5(2)]
    by (auto simp: IndexQueue_inv_def)
qed

lemma IndexQueue_queries:
  assumes "IndexQueue_inv q"
  shows "IndexQueue_len q = length (IndexQueue_list q)"
    and "IndexQueue_is_empty q \<longleftrightarrow> IndexQueue_list q = []"
    and "IndexQueue_is_full q \<longleftrightarrow> length (IndexQueue_list q) = iq_capacity q"
  using assms
  by (auto simp: IndexQueue_len_def IndexQueue_is_empty_def IndexQueue_is_full_def
      IndexQueue_acquire_read_and_write_position_def IndexQueue_inv_def
      length_IndexQueue_list length_0_conv[symmetric] simp del: length_0_conv)

section \<open>Invariant of the interleaved system\<close>

fun iq_push_ok :: "IndexQueue \<Rightarrow> iq_push_pc \<Rightarrow> bool" where
  "iq_push_ok q IQ_push_idle = True"
| "iq_push_ok q (IQ_push_loaded v wp) = (wp = iq_write_position q)"
| "iq_push_ok q (IQ_push_not_full v wp) =
     (wp = iq_write_position q \<and> wp < iq_read_position q + iq_capacity q)"
| "iq_push_ok q (IQ_push_written v wp) =
     (wp = iq_write_position q \<and> wp < iq_read_position q + iq_capacity q
       \<and> iq_data q ! (wp mod iq_capacity q) = v)"

fun iq_pop_ok :: "IndexQueue \<Rightarrow> iq_pop_pc \<Rightarrow> bool" where
  "iq_pop_ok q IQ_pop_idle = True"
| "iq_pop_ok q (IQ_pop_loaded rp) = (rp = iq_read_position q)"
| "iq_pop_ok q (IQ_pop_not_empty rp) = (rp = iq_read_position q \<and> rp < iq_write_position q)"
| "iq_pop_ok q (IQ_pop_read rp v) =
     (rp = iq_read_position q \<and> rp < iq_write_position q
       \<and> iq_data q ! (rp mod iq_capacity q) = v)"

fun iq_obs_ok :: "IndexQueue \<Rightarrow> iq_obs_pc \<Rightarrow> bool" where
  "iq_obs_ok q IQ_obs_idle = True"
| "iq_obs_ok q (IQ_obs_w wp) = (wp \<le> iq_write_position q)"
| "iq_obs_ok q (IQ_obs_wr wp rp) =
     (wp \<le> iq_write_position q \<and> (iq_write_position q = wp \<longrightarrow> rp \<le> wp \<and> wp \<le> rp + iq_capacity q))"
| "iq_obs_ok q (IQ_obs_wrw wp rp) = (rp \<le> wp \<and> wp \<le> rp + iq_capacity q)"
| "iq_obs_ok q (IQ_obs_done wp rp) = (rp \<le> wp \<and> wp \<le> rp + iq_capacity q)"

definition iqc_inv :: "nat \<Rightarrow> iq_conf \<Rightarrow> bool" where
  "iqc_inv c s \<longleftrightarrow> iq_capacity (iqc_queue s) = c \<and> IndexQueue_inv (iqc_queue s)
     \<and> length (iqc_pushed s) = iq_write_position (iqc_queue s)
     \<and> iqc_pushed s = iqc_popped s @ IndexQueue_list (iqc_queue s)
     \<and> iq_push_ok (iqc_queue s) (iqc_push s)
     \<and> iq_pop_ok (iqc_queue s) (iqc_pop s)
     \<and> iq_obs_ok (iqc_queue s) (iqc_obs s)"

text \<open>The abstract queue that a configuration stands for.\<close>

definition iqc_abs :: "iq_conf \<Rightarrow> fifo" where
  "iqc_abs s = \<lparr>contents = IndexQueue_list (iqc_queue s), pushed = iqc_pushed s,
     removed = map (Pair By_consumer) (iqc_popped s)\<rparr>"

lemma iqc_inv_start: "iqc_inv c (iq_start c)"
  by (simp add: iqc_inv_def iq_start_def IndexQueue_new_inv IndexQueue_new_list)
    (simp add: IndexQueue_new_def)

lemma iq_write_slot:
  assumes "IndexQueue_inv q" "iq_write_position q < iq_read_position q + iq_capacity q"
  shows "IndexQueue_list (q\<lparr>iq_data := (iq_data q)[IndexQueue_at q (iq_write_position q) := v]\<rparr>)
      = IndexQueue_list q"
  using assms by (simp add: IndexQueue_list_def IndexQueue_at_def ring_update_outside)

lemma iq_slots_disjoint:
  assumes "iq_read_position q < iq_write_position q"
    "iq_write_position q < iq_read_position q + iq_capacity q"
  shows "IndexQueue_at q (iq_read_position q) \<noteq> IndexQueue_at q (iq_write_position q)"
  using mod_window_neq[OF assms] by (simp add: IndexQueue_at_def)

lemma iqc_push_write_ok:
  assumes "iqc_inv c s" "iqc_push s = IQ_push_not_full v wp"
  shows "iqc_inv c (s\<lparr>iqc_queue := (iqc_queue s)
      \<lparr>iq_data := (iq_data (iqc_queue s))[IndexQueue_at (iqc_queue s) wp := v]\<rparr>,
      iqc_push := IQ_push_written v wp\<rparr>)"
proof -
  let ?q = "iqc_queue s"
  have q: "IndexQueue_inv ?q" "wp = iq_write_position ?q"
    "iq_write_position ?q < iq_read_position ?q + iq_capacity ?q"
    using assms by (auto simp: iqc_inv_def)
  then have "wp mod iq_capacity ?q < length (iq_data ?q)"
    by (cases "iq_capacity ?q = 0") (auto simp: IndexQueue_inv_def)
  moreover have "iq_pop_ok (?q\<lparr>iq_data := (iq_data ?q)[IndexQueue_at ?q wp := v]\<rparr>) (iqc_pop s)"
    using assms(1) iq_slots_disjoint[of ?q] q
    by (cases "iqc_pop s") (auto simp: iqc_inv_def IndexQueue_at_def)
  moreover have "iq_obs_ok (?q\<lparr>iq_data := (iq_data ?q)[IndexQueue_at ?q wp := v]\<rparr>) (iqc_obs s)"
    using assms(1) by (cases "iqc_obs s") (auto simp: iqc_inv_def)
  ultimately show ?thesis
    using assms(1) q iq_write_slot[of ?q v]
    by (auto simp: iqc_inv_def IndexQueue_inv_def IndexQueue_at_def)
qed

lemma iqc_push_store_ok:
  assumes "iqc_inv c s" "iqc_push s = IQ_push_written v wp"
  shows "iqc_inv c (s\<lparr>iqc_queue := (iqc_queue s)\<lparr>iq_write_position := wp + 1\<rparr>,
      iqc_push := IQ_push_idle, iqc_pushed := iqc_pushed s @ [v]\<rparr>)
    \<and> IndexQueue_list ((iqc_queue s)\<lparr>iq_write_position := wp + 1\<rparr>)
      = IndexQueue_list (iqc_queue s) @ [v]
    \<and> length (IndexQueue_list (iqc_queue s)) < c"
proof -
  let ?q = "iqc_queue s"
  have q: "IndexQueue_inv ?q" "wp = iq_write_position ?q"
    "iq_write_position ?q < iq_read_position ?q + iq_capacity ?q"
    "iq_data ?q ! (wp mod iq_capacity ?q) = v" "iq_capacity ?q = c"
    using assms by (auto simp: iqc_inv_def)
  then have "IndexQueue_list (?q\<lparr>iq_write_position := wp + 1\<rparr>) = IndexQueue_list ?q @ [v]"
    by (simp add: IndexQueue_list_def IndexQueue_inv_def ring_snoc)
  moreover have "iq_pop_ok (?q\<lparr>iq_write_position := wp + 1\<rparr>) (iqc_pop s)"
    using assms(1) q by (cases "iqc_pop s") (auto simp: iqc_inv_def)
  moreover have "iq_obs_ok (?q\<lparr>iq_write_position := wp + 1\<rparr>) (iqc_obs s)"
    using assms(1) q by (cases "iqc_obs s") (auto simp: iqc_inv_def)
  moreover have "length (IndexQueue_list ?q) < c"
    using q by (auto simp: length_IndexQueue_list IndexQueue_inv_def)
  ultimately show ?thesis
    using assms(1) q by (auto simp: iqc_inv_def IndexQueue_inv_def)
qed

lemma iqc_pop_store_ok:
  assumes "iqc_inv c s" "iqc_pop s = IQ_pop_read rp v"
  shows "iqc_inv c (s\<lparr>iqc_queue := (iqc_queue s)\<lparr>iq_read_position := rp + 1\<rparr>,
      iqc_pop := IQ_pop_idle, iqc_popped := iqc_popped s @ [v]\<rparr>)
    \<and> IndexQueue_list (iqc_queue s)
      = v # IndexQueue_list ((iqc_queue s)\<lparr>iq_read_position := rp + 1\<rparr>)"
proof -
  let ?q = "iqc_queue s"
  have q: "IndexQueue_inv ?q" "rp = iq_read_position ?q" "rp < iq_write_position ?q"
    "iq_data ?q ! (rp mod iq_capacity ?q) = v"
    using assms by (auto simp: iqc_inv_def)
  then have "IndexQueue_list ?q = v # IndexQueue_list (?q\<lparr>iq_read_position := rp + 1\<rparr>)"
    by (simp add: IndexQueue_list_def ring_pop)
  moreover have "iq_push_ok (?q\<lparr>iq_read_position := rp + 1\<rparr>) (iqc_push s)"
    using assms(1) q by (cases "iqc_push s") (auto simp: iqc_inv_def)
  moreover have "iq_obs_ok (?q\<lparr>iq_read_position := rp + 1\<rparr>) (iqc_obs s)"
    using assms(1) q by (cases "iqc_obs s") (auto simp: iqc_inv_def)
  ultimately show ?thesis
    using assms(1) q by (auto simp: iqc_inv_def IndexQueue_inv_def)
qed

lemma iqc_push_step_ok:
  assumes "iq_push_step s t" "iqc_inv c s"
  shows "iqc_inv c t \<and> (iqc_abs t = iqc_abs s \<or> fifo_step c c False (iqc_abs s) (iqc_abs t))"
  using assms
proof (cases rule: iq_push_step.cases)
  case (iq_push_write v wp)
  have "wp = iq_write_position (iqc_queue s)"
    "wp < iq_read_position (iqc_queue s) + iq_capacity (iqc_queue s)"
    "IndexQueue_inv (iqc_queue s)"
    using assms(2) iq_push_write(2) by (auto simp: iqc_inv_def)
  then show ?thesis
    using iqc_push_write_ok[OF assms(2) iq_push_write(2)] iq_push_write(1)
      iq_write_slot[of "iqc_queue s" v]
    by (simp add: iqc_abs_def)
next
  case (iq_push_store_wp v wp)
  then show ?thesis
    using iqc_push_store_ok[OF assms(2) iq_push_store_wp(2)]
      fifo_push[of "iqc_abs s" c c False v]
    by (simp add: iqc_abs_def)
qed (auto simp: iqc_inv_def iqc_abs_def IndexQueue_inv_def)

lemma iqc_pop_step_ok:
  assumes "iq_pop_step s t" "iqc_inv c s"
  shows "iqc_inv c t \<and> (iqc_abs t = iqc_abs s \<or> fifo_step c c False (iqc_abs s) (iqc_abs t))"
  using assms
proof (cases rule: iq_pop_step.cases)
  case (iq_pop_store_rp rp v)
  then show ?thesis
    using iqc_pop_store_ok[OF assms(2) iq_pop_store_rp(2)]
      fifo_pop[of "iqc_abs s" v "IndexQueue_list ((iqc_queue s)\<lparr>iq_read_position := rp + 1\<rparr>)" c c False]
    by (simp add: iqc_abs_def)
qed (auto simp: iqc_inv_def iqc_abs_def IndexQueue_inv_def IndexQueue_at_def)

lemma iqc_obs_step_ok:
  assumes "iq_obs_step s t" "iqc_inv c s"
  shows "iqc_inv c t \<and> iqc_abs t = iqc_abs s"
  using assms
  by (cases rule: iq_obs_step.cases) (auto simp: iqc_inv_def iqc_abs_def IndexQueue_inv_def)

interpretation iqc: forward_simulation "\<lambda>s. s = iq_start c" iq_step "iqc_inv c"
  fifo_init "fifo_step c c False" iqc_abs
proof unfold_locales
  show "iqc_inv c s" if "s = iq_start c" for s
    using that by (simp add: iqc_inv_start)
  show "iqc_inv c t" if "iqc_inv c s" "iq_step s t" for s t
    using that iqc_push_step_ok iqc_pop_step_ok iqc_obs_step_ok unfolding iq_step_def by blast
  show "fifo_init (iqc_abs s)" if "s = iq_start c" for s
    using that by (simp add: fifo_init_def iqc_abs_def iq_start_def IndexQueue_new_list)
  show "iqc_abs t = iqc_abs s \<or> fifo_step c c False (iqc_abs s) (iqc_abs t)"
    if "iqc_inv c s" "iq_step s t" for s t
    using that iqc_push_step_ok iqc_pop_step_ok iqc_obs_step_ok unfolding iq_step_def by blast
qed

section \<open>Schedules\<close>

text \<open>
  Every thread can always take its next step, and that step is a function of the
  configuration (and, when a push begins, of the value).
\<close>

fun iq_exec_push :: "nat \<Rightarrow> iq_conf \<Rightarrow> iq_conf" where
  "iq_exec_push x s = (let q = iqc_queue s in case iqc_push s of
     IQ_push_idle \<Rightarrow> s\<lparr>iqc_push := IQ_push_loaded x (iq_write_position q)\<rparr>
   | IQ_push_loaded v wp \<Rightarrow> s\<lparr>iqc_push :=
       if wp = iq_read_position q + iq_capacity q then IQ_push_idle else IQ_push_not_full v wp\<rparr>
   | IQ_push_not_full v wp \<Rightarrow>
       s\<lparr>iqc_queue := q\<lparr>iq_data := (iq_data q)[IndexQueue_at q wp := v]\<rparr>,
         iqc_push := IQ_push_written v wp\<rparr>
   | IQ_push_written v wp \<Rightarrow> s\<lparr>iqc_queue := q\<lparr>iq_write_position := wp + 1\<rparr>,
       iqc_push := IQ_push_idle, iqc_pushed := iqc_pushed s @ [v]\<rparr>)"

fun iq_exec_pop :: "iq_conf \<Rightarrow> iq_conf" where
  "iq_exec_pop s = (let q = iqc_queue s in case iqc_pop s of
     IQ_pop_idle \<Rightarrow> s\<lparr>iqc_pop := IQ_pop_loaded (iq_read_position q)\<rparr>
   | IQ_pop_loaded rp \<Rightarrow> s\<lparr>iqc_pop :=
       if rp = iq_write_position q then IQ_pop_idle else IQ_pop_not_empty rp\<rparr>
   | IQ_pop_not_empty rp \<Rightarrow> s\<lparr>iqc_pop := IQ_pop_read rp (iq_data q ! IndexQueue_at q rp)\<rparr>
   | IQ_pop_read rp v \<Rightarrow> s\<lparr>iqc_queue := q\<lparr>iq_read_position := rp + 1\<rparr>,
       iqc_pop := IQ_pop_idle, iqc_popped := iqc_popped s @ [v]\<rparr>)"

fun iq_exec_obs :: "iq_conf \<Rightarrow> iq_conf" where
  "iq_exec_obs s = (let q = iqc_queue s in s\<lparr>iqc_obs := (case iqc_obs s of
     IQ_obs_idle \<Rightarrow> IQ_obs_w (iq_write_position q)
   | IQ_obs_w wp \<Rightarrow> IQ_obs_wr wp (iq_read_position q)
   | IQ_obs_wr wp rp \<Rightarrow> if wp = iq_write_position q then IQ_obs_wrw wp rp else IQ_obs_idle
   | IQ_obs_wrw wp rp \<Rightarrow> if rp = iq_read_position q then IQ_obs_done wp rp else IQ_obs_idle
   | IQ_obs_done wp rp \<Rightarrow> IQ_obs_idle)\<rparr>)"

datatype iq_thread = IQ_producer nat | IQ_consumer | IQ_observer

fun iq_exec :: "iq_thread \<Rightarrow> iq_conf \<Rightarrow> iq_conf" where
  "iq_exec (IQ_producer x) s = iq_exec_push x s"
| "iq_exec IQ_consumer s = iq_exec_pop s"
| "iq_exec IQ_observer s = iq_exec_obs s"

lemma iq_exec_push_step: "iq_push_step s (iq_exec_push x s)"
  by (cases "iqc_push s") (auto simp: Let_def intro: iq_push_step.intros[simplified])

lemma iq_exec_pop_step: "iq_pop_step s (iq_exec_pop s)"
  by (cases "iqc_pop s") (auto simp: Let_def intro: iq_pop_step.intros[simplified])

lemma iq_exec_obs_step: "iq_obs_step s (iq_exec_obs s)"
  by (cases "iqc_obs s") (auto simp: Let_def intro: iq_obs_step.intros)

lemma iq_exec_step: "iq_step s (iq_exec a s)"
  by (cases a) (auto simp: iq_step_def iq_exec_push_step iq_exec_pop_step iq_exec_obs_step
      simp del: iq_exec_push.simps iq_exec_pop.simps iq_exec_obs.simps)

text \<open>There are no other steps, so schedules are all the interleavings.\<close>

lemma iq_step_exec: "iq_step s t \<Longrightarrow> \<exists>a. t = iq_exec a s"
  unfolding iq_step_def
proof (elim disjE)
  assume "iq_push_step s t"
  then have "\<exists>x. t = iq_exec_push x s" by cases (auto simp: Let_def)
  then show ?thesis by (metis iq_exec.simps(1))
next
  assume "iq_pop_step s t"
  then have "t = iq_exec_pop s" by cases (auto simp: Let_def)
  then show ?thesis by (metis iq_exec.simps(2))
next
  assume "iq_obs_step s t"
  then have "t = iq_exec_obs s" by cases (auto simp: Let_def)
  then show ?thesis by (metis iq_exec.simps(3))
qed

lemma iq_run_reachable:
  "reachable (\<lambda>s. s = iq_start c) iq_step (fold iq_exec as (iq_start c))"
  by (rule fold_reachable) (simp add: iq_exec_step)

section \<open>Calls under every schedule\<close>

fun is_producer :: "iq_thread \<Rightarrow> bool" where
  "is_producer (IQ_producer x) = True"
| "is_producer _ = False"

text \<open>
  The push of \<open>x\<close> into a queue with room that has \<open>k\<close> steps to go; \<open>P\<close> is what was pushed before.
\<close>

fun push_to_go :: "nat list \<Rightarrow> nat \<Rightarrow> nat \<Rightarrow> iq_conf \<Rightarrow> bool" where
  "push_to_go P x 0 s \<longleftrightarrow> iqc_push s = IQ_push_idle \<and> iqc_pushed s = P @ [x]"
| "push_to_go P x (Suc k) s \<longleftrightarrow> iqc_pushed s = P
     \<and> iq_write_position (iqc_queue s) < iq_read_position (iqc_queue s) + iq_capacity (iqc_queue s)
     \<and> iqc_push s = (let wp = iq_write_position (iqc_queue s) in
         if k = 0 then IQ_push_written x wp else if k = 1 then IQ_push_not_full x wp
         else if k = 2 then IQ_push_loaded x wp else IQ_push_idle)"

lemma push_to_go_own: "k \<le> 3 \<Longrightarrow> push_to_go P x (Suc k) s \<Longrightarrow> push_to_go P x k (iq_exec_push x s)"
  by (cases k; cases "k - 1"; cases "k - 2") (auto simp: Let_def numeral_eq_Suc)

lemma push_to_go_other:
  assumes "iqc_inv c s" "\<not> is_producer a" "push_to_go P x k s"
  shows "push_to_go P x k (iq_exec a s)"
proof (cases a)
  case IQ_consumer
  have "iq_pop_ok (iqc_queue s) (iqc_pop s)" using assms(1) by (simp add: iqc_inv_def)
  then show ?thesis using assms(3) IQ_consumer by (cases k; cases "iqc_pop s") (auto simp: Let_def)
next
  case IQ_observer
  then show ?thesis using assms(3) by (cases k) (auto simp: Let_def)
qed (use assms(2) in simp)

lemma iqc_inv_exec: "iqc_inv c s \<Longrightarrow> iqc_inv c (iq_exec a s)"
  using iqc.inv_step iq_exec_step by blast

lemma push_to_go_run:
  assumes "iqc_inv c s" "push_to_go P x k s" "filter is_producer as = replicate k (IQ_producer x)" "k \<le> 4"
  shows "push_to_go P x 0 (fold iq_exec as s)"
  using assms
proof (induction as arbitrary: s k)
  case (Cons a as)
  show ?case
  proof (cases "is_producer a")
    case True
    then obtain k' where k': "k = Suc k'" "a = IQ_producer x" "filter is_producer as = replicate k' (IQ_producer x)"
      using Cons.prems(3) by (cases k) auto
    then show ?thesis
      using Cons.IH[of "iq_exec a s" k'] iqc_inv_exec[OF Cons.prems(1), of a] Cons.prems(2,4) push_to_go_own[of k' P x s]
      by (simp del: iq_exec_push.simps push_to_go.simps)
  next
    case False
    then show ?thesis
      using Cons.IH[of "iq_exec a s" k] iqc_inv_exec[OF Cons.prems(1), of a] push_to_go_other[OF Cons.prems(1) False Cons.prems(2)] Cons.prems(3,4)
      by (simp del: push_to_go.simps)
  qed
qed simp

text \<open>The pop of the oldest value \<open>v\<close> that has \<open>k\<close> steps to go; \<open>P\<close> is what was popped before.\<close>

fun pop_to_go :: "nat list \<Rightarrow> nat \<Rightarrow> nat \<Rightarrow> iq_conf \<Rightarrow> bool" where
  "pop_to_go P v 0 s \<longleftrightarrow> iqc_pop s = IQ_pop_idle \<and> iqc_popped s = P @ [v]"
| "pop_to_go P v (Suc k) s \<longleftrightarrow> iqc_popped s = P \<and> (\<exists>vs. IndexQueue_list (iqc_queue s) = v # vs)
     \<and> iqc_pop s = (let rp = iq_read_position (iqc_queue s) in
         if k = 0 then IQ_pop_read rp v else if k = 1 then IQ_pop_not_empty rp
         else if k = 2 then IQ_pop_loaded rp else IQ_pop_idle)"

lemma to_go_4:
  "push_to_go P x 4 s \<longleftrightarrow> iqc_pushed s = P \<and> iqc_push s = IQ_push_idle
     \<and> iq_write_position (iqc_queue s) < iq_read_position (iqc_queue s) + iq_capacity (iqc_queue s)"
  "pop_to_go P v 4 s \<longleftrightarrow> iqc_popped s = P \<and> iqc_pop s = IQ_pop_idle \<and> (\<exists>vs. IndexQueue_list (iqc_queue s) = v # vs)"
  by (auto simp: numeral_eq_Suc)

lemma pop_to_go_own:
  assumes inv: "iqc_inv c s" and k: "k \<le> 3" and go: "pop_to_go P v (Suc k) s"
  shows "pop_to_go P v k (iq_exec_pop s)"
proof -
  obtain vs where vs: "IndexQueue_list (iqc_queue s) = v # vs" using go by auto
  then have ne: "iq_read_position (iqc_queue s) < iq_write_position (iqc_queue s)"
    using inv length_IndexQueue_list[of "iqc_queue s"] by (cases "iq_write_position (iqc_queue s) - iq_read_position (iqc_queue s)") auto
  have head: "iq_data (iqc_queue s) ! IndexQueue_at (iqc_queue s) (iq_read_position (iqc_queue s)) = v"
    using vs ring_pop[OF ne, of "iq_data (iqc_queue s)" "iq_capacity (iqc_queue s)"] by (simp add: IndexQueue_list_def IndexQueue_at_def)
  consider "k = 0" | "k = 1" | "k = 2" | "k = 3" using k by linarith
  then show ?thesis using go vs ne head by cases (auto simp: Let_def numeral_eq_Suc)
qed

lemma iq_exec_list:
  assumes inv: "iqc_inv c s" and "a \<noteq> IQ_consumer" and vs: "IndexQueue_list (iqc_queue s) = v # vs"
  shows "\<exists>vs. IndexQueue_list (iqc_queue (iq_exec a s)) = v # vs"
proof (cases a)
  case (IQ_producer x)
  have q: "IndexQueue_inv (iqc_queue s)" "iq_push_ok (iqc_queue s) (iqc_push s)" using inv by (simp_all add: iqc_inv_def)
  show ?thesis
  proof (cases "iqc_push s")
    case (IQ_push_not_full y wp)
    then show ?thesis using IQ_producer vs q iq_write_slot[of "iqc_queue s" y] by (simp add: Let_def)
  next
    case (IQ_push_written y wp)
    then show ?thesis using IQ_producer vs iqc_push_store_ok[OF inv IQ_push_written] by (simp add: Let_def)
  qed (use IQ_producer vs in \<open>simp_all add: Let_def\<close>)
qed (use assms in \<open>simp_all add: Let_def\<close>)

lemma pop_to_go_other:
  assumes "iqc_inv c s" "a \<noteq> IQ_consumer" "pop_to_go P v k s"
  shows "pop_to_go P v k (iq_exec a s)"
proof -
  have "iqc_pop (iq_exec a s) = iqc_pop s" "iqc_popped (iq_exec a s) = iqc_popped s"
    "iq_read_position (iqc_queue (iq_exec a s)) = iq_read_position (iqc_queue s)"
    using assms(2) by (cases a; cases "iqc_push s"; simp add: Let_def)+
  then show ?thesis using assms(3) iq_exec_list[OF assms(1,2)] by (cases k) auto
qed

lemma pop_to_go_run:
  assumes "iqc_inv c s" "pop_to_go P v k s" "filter (\<lambda>a. a = IQ_consumer) as = replicate k IQ_consumer" "k \<le> 4"
  shows "pop_to_go P v 0 (fold iq_exec as s)"
  using assms
proof (induction as arbitrary: s k)
  case (Cons a as)
  show ?case
  proof (cases "a = IQ_consumer")
    case True
    then obtain k' where k': "k = Suc k'" "filter (\<lambda>a. a = IQ_consumer) as = replicate k' IQ_consumer"
      using Cons.prems(3) by (cases k) auto
    then show ?thesis
      using Cons.IH[of "iq_exec a s" k'] iqc_inv_exec[OF Cons.prems(1), of a] Cons.prems(1,2,4) pop_to_go_own[of c s k' P v] True
      by (simp del: iq_exec_pop.simps pop_to_go.simps)
  next
    case False
    then show ?thesis
      using Cons.IH[of "iq_exec a s" k] iqc_inv_exec[OF Cons.prems(1), of a] pop_to_go_other[OF Cons.prems(1) False Cons.prems(2)] Cons.prems(3,4)
      by (simp del: pop_to_go.simps)
  qed
qed simp

section \<open>Properties\<close>

text \<open>
  C5: However the atomic accesses of one producer, one consumer and a thread that asks
  for the length interleave, the queue is first-in first-out: the values whose push has
  succeeded are, in order, the values returned by \<open>pop\<close> followed by the values in the
  queue, and the queue never holds more than its capacity.
\<close>

theorem index_queue_fifo:
  assumes "reachable (\<lambda>s. s = iq_start c) iq_step s"
  shows "iqc_pushed s = iqc_popped s @ IndexQueue_list (iqc_queue s)
    \<and> length (IndexQueue_list (iqc_queue s)) \<le> c
    \<and> iq_write_position (iqc_queue s) = length (iqc_pushed s)"
  using iqc.reachable_inv[OF assms] fifo_spec.reachable_inv[OF iqc.simulated[OF assms]]
  by (auto simp: iqc_inv_def fifo_inv_def iqc_abs_def)

theorem index_queue_fifo_witness:
  "let s = fold iq_exec (replicate 4 (IQ_producer 5) @ replicate 4 (IQ_producer 6)
        @ replicate 4 IQ_consumer) (iq_start 2)
   in iqc_pushed s = [5, 6] \<and> iqc_popped s = [5]
    \<and> iqc_pushed s = iqc_popped s @ IndexQueue_list (iqc_queue s)"
  using index_queue_fifo[OF iq_run_reachable, of "replicate 4 (IQ_producer 5)
      @ replicate 4 (IQ_producer 6) @ replicate 4 IQ_consumer" 2]
  by (simp add: iq_start_def IndexQueue_new_def Let_def IndexQueue_at_def numeral_eq_Suc)

text \<open>
  C10: The producer and the consumer never access the same slot at the same time: when the
  producer is about to write its slot and the consumer is about to read, the slots differ.
\<close>

theorem index_queue_race_free:
  assumes "reachable (\<lambda>s. s = iq_start c) iq_step s"
    and "iqc_push s = IQ_push_not_full v wp" "iqc_pop s = IQ_pop_not_empty rp"
  shows "IndexQueue_at (iqc_queue s) wp \<noteq> IndexQueue_at (iqc_queue s) rp"
  using iqc.reachable_inv[OF assms(1)] assms(2,3) iq_slots_disjoint[of "iqc_queue s"]
  by (auto simp: iqc_inv_def)

theorem index_queue_race_free_witness:
  "let s = fold iq_exec (replicate 4 (IQ_producer 5) @ replicate 2 (IQ_producer 6)
        @ replicate 2 IQ_consumer) (iq_start 2)
   in iqc_push s = IQ_push_not_full 6 1 \<and> iqc_pop s = IQ_pop_not_empty 0
    \<and> IndexQueue_at (iqc_queue s) 1 \<noteq> IndexQueue_at (iqc_queue s) 0"
  using index_queue_race_free[OF iq_run_reachable, of "replicate 4 (IQ_producer 5)
      @ replicate 2 (IQ_producer 6) @ replicate 2 IQ_consumer" 2 6 1 0]
  by (simp add: iq_start_def IndexQueue_new_def Let_def IndexQueue_at_def numeral_eq_Suc)

text \<open>
  C40: The positions on which \<open>len\<close>, \<open>is_empty\<close> and \<open>is_full\<close> are computed while the
  producer and the consumer are running are consistent: the read position is not ahead of
  the write position, so the subtraction of \<open>len\<close> does not underflow, and the distance is
  at most the capacity.
\<close>

theorem index_queue_len_consistent:
  assumes "reachable (\<lambda>s. s = iq_start c) iq_step s" "iqc_obs s = IQ_obs_done wp rp"
  shows "rp \<le> wp \<and> wp - rp \<le> iq_capacity (iqc_queue s)"
  using iqc.reachable_inv[OF assms(1)] assms(2) by (auto simp: iqc_inv_def)

theorem index_queue_len_consistent_witness:
  "let s = fold iq_exec (replicate 4 (IQ_producer 5) @ [IQ_observer] @ replicate 4 (IQ_producer 6)
        @ replicate 6 IQ_observer) (iq_start 2)
   in iqc_obs s = IQ_obs_done 2 0 \<and> (0::nat) \<le> 2 \<and> 2 - 0 \<le> iq_capacity (iqc_queue s)"
  using index_queue_len_consistent[OF iq_run_reachable, of "replicate 4 (IQ_producer 5)
      @ [IQ_observer] @ replicate 4 (IQ_producer 6) @ replicate 6 IQ_observer" 2 2 0]
  by (simp add: iq_start_def IndexQueue_new_def Let_def IndexQueue_at_def numeral_eq_Suc)

text \<open>
  C34: \<open>push\<close> and \<open>pop\<close> are wait-free, and what they do when they return is right. Take any
  reachable state and any schedule. A \<open>push\<close> that begins while the queue has room has returned, and
  its value is the next pushed one, as soon as its thread has taken four steps; a \<open>pop\<close> that begins
  while the queue is not empty has returned the oldest value as soon as its thread has taken four
  steps. How often and in which order the other threads are scheduled in between does not matter. A
  schedule names the thread that takes the next step of the step relation, which has no other steps.
\<close>

theorem index_queue_wait_free:
  assumes "reachable (\<lambda>s. s = iq_start c) iq_step s"
  shows "(iqc_push s = IQ_push_idle \<and> length (IndexQueue_list (iqc_queue s)) < c
      \<and> filter is_producer as = replicate 4 (IQ_producer x) \<longrightarrow>
        iqc_push (fold iq_exec as s) = IQ_push_idle \<and> iqc_pushed (fold iq_exec as s) = iqc_pushed s @ [x])
    \<and> (iqc_pop s = IQ_pop_idle \<and> IndexQueue_list (iqc_queue s) = v # vs
      \<and> filter (\<lambda>a. a = IQ_consumer) as = replicate 4 IQ_consumer \<longrightarrow>
        iqc_pop (fold iq_exec as s) = IQ_pop_idle \<and> iqc_popped (fold iq_exec as s) = iqc_popped s @ [v])"
proof (intro conjI impI; elim conjE)
  have inv: "iqc_inv c s" using iqc.reachable_inv[OF assms] .
  show "iqc_push (fold iq_exec as s) = IQ_push_idle" "iqc_pushed (fold iq_exec as s) = iqc_pushed s @ [x]"
    if "iqc_push s = IQ_push_idle" "length (IndexQueue_list (iqc_queue s)) < c" "filter is_producer as = replicate 4 (IQ_producer x)"
  proof -
    have "push_to_go (iqc_pushed s) x 4 s"
      using that(1,2) inv by (auto simp: to_go_4 iqc_inv_def IndexQueue_inv_def length_IndexQueue_list)
    from push_to_go_run[OF inv this that(3)]
    show "iqc_push (fold iq_exec as s) = IQ_push_idle" "iqc_pushed (fold iq_exec as s) = iqc_pushed s @ [x]" by simp_all
  qed
  show "iqc_pop (fold iq_exec as s) = IQ_pop_idle" "iqc_popped (fold iq_exec as s) = iqc_popped s @ [v]"
    if "iqc_pop s = IQ_pop_idle" "IndexQueue_list (iqc_queue s) = v # vs" "filter (\<lambda>a. a = IQ_consumer) as = replicate 4 IQ_consumer"
  proof -
    have "pop_to_go (iqc_popped s) v 4 s" using that(1,2) by (simp add: to_go_4)
    from pop_to_go_run[OF inv this that(3)]
    show "iqc_pop (fold iq_exec as s) = IQ_pop_idle" "iqc_popped (fold iq_exec as s) = iqc_popped s @ [v]" by simp_all
  qed
qed

text \<open>A push of 6 and the pop of 5 that run at the same time, with another thread asking for the length.\<close>

theorem index_queue_wait_free_witness:
  "let s = fold iq_exec (replicate 4 (IQ_producer 5)) (iq_start 2);
       t = fold iq_exec [IQ_consumer, IQ_producer 6, IQ_producer 6, IQ_observer, IQ_consumer, IQ_consumer, IQ_producer 6,
             IQ_consumer, IQ_observer, IQ_producer 6] s
   in iqc_push t = IQ_push_idle \<and> iqc_pushed t = iqc_pushed s @ [6] \<and> iqc_pop t = IQ_pop_idle \<and> iqc_popped t = iqc_popped s @ [5]"
proof -
  let ?s = "fold iq_exec (replicate 4 (IQ_producer 5)) (iq_start 2)"
  let ?as = "[IQ_consumer, IQ_producer 6, IQ_producer 6, IQ_observer, IQ_consumer, IQ_consumer, IQ_producer 6,
    IQ_consumer, IQ_observer, IQ_producer 6]"
  have s: "iqc_push ?s = IQ_push_idle" "iqc_pop ?s = IQ_pop_idle" "IndexQueue_list (iqc_queue ?s) = [5]"
    by (simp_all add: iq_start_def IndexQueue_new_def Let_def IndexQueue_at_def IndexQueue_list_def ring_def numeral_eq_Suc)
  have as: "filter is_producer ?as = replicate 4 (IQ_producer 6)" "filter (\<lambda>a. a = IQ_consumer) ?as = replicate 4 IQ_consumer"
    by (simp_all add: numeral_eq_Suc)
  have "length (IndexQueue_list (iqc_queue ?s)) < 2" unfolding s(3) by simp
  with index_queue_wait_free[OF iq_run_reachable[of 2 "replicate 4 (IQ_producer 5)"], of ?as 6 5 "[]"] s as
  show ?thesis unfolding Let_def by blast
qed

end
