(* ===== verification/OverflowQueue.thy ===== *)
theory OverflowQueue
  imports Elementary
begin

text \<open>
  The safely overflowing index queue,
  \<open>iceoryx2_bb/lock_free/src/spsc/safely_overflowing_index_queue.rs\<close>: a push onto a
  full queue hands the oldest index back to the producer. The queue has one slot more
  than its capacity, and the producer and the consumer compete for the oldest index
  with a compare-and-exchange on the read position. The operations come first, then
  their atomic accesses as an interleaved transition system.
\<close>

section \<open>Operations\<close>

record SafelyOverflowingIndexQueue =
  so_data :: "nat list"
  so_capacity :: nat
  so_write_position :: nat
  so_read_position :: nat
  so_has_producer :: bool
  so_has_consumer :: bool
  so_is_memory_initialized :: bool

definition SafelyOverflowingIndexQueue_new :: "nat \<Rightarrow> SafelyOverflowingIndexQueue" where
  "SafelyOverflowingIndexQueue_new capacity =
     \<lparr>so_data = replicate (capacity + 1) 0, so_capacity = capacity,
      so_write_position = 0, so_read_position = 0,
      so_has_producer = True, so_has_consumer = True, so_is_memory_initialized = True\<rparr>"

definition SafelyOverflowingIndexQueue_new_uninit :: "nat \<Rightarrow> SafelyOverflowingIndexQueue" where
  "SafelyOverflowingIndexQueue_new_uninit capacity =
     \<lparr>so_data = [], so_capacity = capacity,
      so_write_position = 0, so_read_position = 0,
      so_has_producer = True, so_has_consumer = True, so_is_memory_initialized = False\<rparr>"

definition SafelyOverflowingIndexQueue_init ::
  "'m allocate_op \<Rightarrow> SafelyOverflowingIndexQueue \<Rightarrow> 'm
     \<Rightarrow> ((unit, AllocationError) result \<times> SafelyOverflowingIndexQueue \<times> 'm) outcome" where
  "SafelyOverflowingIndexQueue_init allocate q m =
     (if so_is_memory_initialized q then Panic
      else case allocate (mk_layout (8 * (so_capacity q + 1)) 8) m of
        (Err e, m') \<Rightarrow> Ret (Err e, q, m')
      | (Ok _, m') \<Rightarrow> Ret (Ok (), q\<lparr>so_data := replicate (so_capacity q + 1) 0,
                             so_is_memory_initialized := True\<rparr>, m'))"

definition SafelyOverflowingIndexQueue_const_memory_size :: "nat \<Rightarrow> nat" where
  "SafelyOverflowingIndexQueue_const_memory_size capacity = 8 * (capacity + 1) + 8 - 1"

definition SafelyOverflowingIndexQueue_at :: "SafelyOverflowingIndexQueue \<Rightarrow> nat \<Rightarrow> nat" where
  "SafelyOverflowingIndexQueue_at q position = position mod (so_capacity q + 1)"

definition SafelyOverflowingIndexQueue_acquire_producer ::
  "SafelyOverflowingIndexQueue \<Rightarrow> (bool \<times> SafelyOverflowingIndexQueue) outcome" where
  "SafelyOverflowingIndexQueue_acquire_producer q =
     (if \<not> so_is_memory_initialized q then Panic
      else if so_has_producer q then Ret (True, q\<lparr>so_has_producer := False\<rparr>)
      else Ret (False, q))"

definition SafelyOverflowingIndexQueue_acquire_consumer ::
  "SafelyOverflowingIndexQueue \<Rightarrow> (bool \<times> SafelyOverflowingIndexQueue) outcome" where
  "SafelyOverflowingIndexQueue_acquire_consumer q =
     (if \<not> so_is_memory_initialized q then Panic
      else if so_has_consumer q then Ret (True, q\<lparr>so_has_consumer := False\<rparr>)
      else Ret (False, q))"

definition SafelyOverflowingIndexQueue_Producer_drop ::
  "SafelyOverflowingIndexQueue \<Rightarrow> SafelyOverflowingIndexQueue" where
  "SafelyOverflowingIndexQueue_Producer_drop q = q\<lparr>so_has_producer := True\<rparr>"

definition SafelyOverflowingIndexQueue_Consumer_drop ::
  "SafelyOverflowingIndexQueue \<Rightarrow> SafelyOverflowingIndexQueue" where
  "SafelyOverflowingIndexQueue_Consumer_drop q = q\<lparr>so_has_consumer := True\<rparr>"

text \<open>
  Without a concurrent pop the compare-and-exchange of \<open>push\<close> succeeds, since the
  read position is the one that was loaded.
\<close>

definition SafelyOverflowingIndexQueue_push ::
  "nat \<Rightarrow> SafelyOverflowingIndexQueue \<Rightarrow> nat option \<times> SafelyOverflowingIndexQueue" where
  "SafelyOverflowingIndexQueue_push value q =
     (let write_position = so_write_position q;
          read_position = so_read_position q;
          is_full = (write_position = read_position + so_capacity q);
          q1 = q\<lparr>so_data := (so_data q)[SafelyOverflowingIndexQueue_at q write_position := value],
                 so_write_position := write_position + 1\<rparr>
      in if is_full \<and> so_read_position q1 = read_position
         then (Some (so_data q1 ! SafelyOverflowingIndexQueue_at q1 read_position),
               q1\<lparr>so_read_position := read_position + 1\<rparr>)
         else (None, q1))"

text \<open>Without a concurrent push the first compare-and-exchange of \<open>pop\<close> succeeds.\<close>

definition SafelyOverflowingIndexQueue_pop ::
  "SafelyOverflowingIndexQueue \<Rightarrow> nat option \<times> SafelyOverflowingIndexQueue" where
  "SafelyOverflowingIndexQueue_pop q =
     (let read_position = so_read_position q;
          is_empty = (read_position = so_write_position q)
      in if is_empty then (None, q)
         else (Some (so_data q ! SafelyOverflowingIndexQueue_at q read_position),
               q\<lparr>so_read_position := read_position + 1\<rparr>))"

definition SafelyOverflowingIndexQueue_acquire_read_and_write_position ::
  "SafelyOverflowingIndexQueue \<Rightarrow> nat \<times> nat" where
  "SafelyOverflowingIndexQueue_acquire_read_and_write_position q =
     (so_write_position q, so_read_position q)"

definition SafelyOverflowingIndexQueue_is_empty :: "SafelyOverflowingIndexQueue \<Rightarrow> bool" where
  "SafelyOverflowingIndexQueue_is_empty q =
     (let (write_position, read_position) =
            SafelyOverflowingIndexQueue_acquire_read_and_write_position q
      in write_position = read_position)"

definition SafelyOverflowingIndexQueue_len :: "SafelyOverflowingIndexQueue \<Rightarrow> nat" where
  "SafelyOverflowingIndexQueue_len q =
     (let (write_position, read_position) =
            SafelyOverflowingIndexQueue_acquire_read_and_write_position q
      in write_position - read_position)"

definition SafelyOverflowingIndexQueue_is_full :: "SafelyOverflowingIndexQueue \<Rightarrow> bool" where
  "SafelyOverflowingIndexQueue_is_full q =
     (let (write_position, read_position) =
            SafelyOverflowingIndexQueue_acquire_read_and_write_position q
      in write_position = read_position + so_capacity q)"

section \<open>Atomic steps\<close>

text \<open>Program counters of \<open>push\<close>: value, loaded write position, loaded read position.\<close>

datatype so_push_pc =
    SO_push_idle
  | SO_push_w nat nat
  | SO_push_wr nat nat nat
  | SO_push_written nat nat nat
  | SO_push_stored nat nat
  | SO_push_recycle nat

text \<open>
  Program counters of \<open>pop\<close>; the loop alternates between reading the slot and the
  compare-and-exchange.
\<close>

datatype so_pop_pc =
    SO_pop_idle
  | SO_pop_loaded nat
  | SO_pop_loop nat
  | SO_pop_read nat nat

text \<open>
  History: the values pushed, the winner of every compare-and-exchange on the read
  position, the values returned by \<open>pop\<close> and the values handed back by \<open>push\<close>.
\<close>

record so_conf =
  soc_queue :: SafelyOverflowingIndexQueue
  soc_push :: so_push_pc
  soc_pop :: so_pop_pc
  soc_pushed :: "nat list"
  soc_winners :: "receiver list"
  soc_popped :: "nat list"
  soc_recycled :: "nat list"

inductive so_push_step :: "so_conf \<Rightarrow> so_conf \<Rightarrow> bool" where
  so_push_load_wp: "soc_push s = SO_push_idle \<Longrightarrow>
    so_push_step s (s\<lparr>soc_push := SO_push_w v (so_write_position (soc_queue s))\<rparr>)"
| so_push_load_rp: "soc_push s = SO_push_w v wp \<Longrightarrow>
    so_push_step s (s\<lparr>soc_push := SO_push_wr v wp (so_read_position (soc_queue s))\<rparr>)"
| so_push_write: "soc_push s = SO_push_wr v wp rp \<Longrightarrow>
    so_push_step s (s\<lparr>soc_queue := (soc_queue s)
      \<lparr>so_data := (so_data (soc_queue s))[SafelyOverflowingIndexQueue_at (soc_queue s) wp := v]\<rparr>,
      soc_push := SO_push_written v wp rp\<rparr>)"
| so_push_store_wp: "soc_push s = SO_push_written v wp rp \<Longrightarrow>
    so_push_step s (s\<lparr>soc_queue := (soc_queue s)\<lparr>so_write_position := wp + 1\<rparr>,
      soc_push := SO_push_stored wp rp, soc_pushed := soc_pushed s @ [v]\<rparr>)"
| so_push_not_full: "soc_push s = SO_push_stored wp rp \<Longrightarrow> wp \<noteq> rp + so_capacity (soc_queue s) \<Longrightarrow>
    so_push_step s (s\<lparr>soc_push := SO_push_idle\<rparr>)"
| so_push_cas_fails: "soc_push s = SO_push_stored wp rp \<Longrightarrow> wp = rp + so_capacity (soc_queue s) \<Longrightarrow>
    so_read_position (soc_queue s) \<noteq> rp \<Longrightarrow>
    so_push_step s (s\<lparr>soc_push := SO_push_idle\<rparr>)"
| so_push_cas: "soc_push s = SO_push_stored wp rp \<Longrightarrow> wp = rp + so_capacity (soc_queue s) \<Longrightarrow>
    so_read_position (soc_queue s) = rp \<Longrightarrow>
    so_push_step s (s\<lparr>soc_queue := (soc_queue s)\<lparr>so_read_position := rp + 1\<rparr>,
      soc_push := SO_push_recycle rp, soc_winners := soc_winners s @ [By_producer]\<rparr>)"
| so_push_return: "soc_push s = SO_push_recycle rp \<Longrightarrow>
    so_push_step s (s\<lparr>soc_push := SO_push_idle,
      soc_recycled := soc_recycled s @
        [so_data (soc_queue s) ! SafelyOverflowingIndexQueue_at (soc_queue s) rp]\<rparr>)"

inductive so_pop_step :: "so_conf \<Rightarrow> so_conf \<Rightarrow> bool" where
  so_pop_load_rp: "soc_pop s = SO_pop_idle \<Longrightarrow>
    so_pop_step s (s\<lparr>soc_pop := SO_pop_loaded (so_read_position (soc_queue s))\<rparr>)"
| so_pop_empty: "soc_pop s = SO_pop_loaded rp \<Longrightarrow> rp = so_write_position (soc_queue s) \<Longrightarrow>
    so_pop_step s (s\<lparr>soc_pop := SO_pop_idle\<rparr>)"
| so_pop_check: "soc_pop s = SO_pop_loaded rp \<Longrightarrow> rp \<noteq> so_write_position (soc_queue s) \<Longrightarrow>
    so_pop_step s (s\<lparr>soc_pop := SO_pop_loop rp\<rparr>)"
| so_pop_value: "soc_pop s = SO_pop_loop rp \<Longrightarrow>
    so_pop_step s (s\<lparr>soc_pop := SO_pop_read rp
      (so_data (soc_queue s) ! SafelyOverflowingIndexQueue_at (soc_queue s) rp)\<rparr>)"
| so_pop_cas: "soc_pop s = SO_pop_read rp v \<Longrightarrow> so_read_position (soc_queue s) = rp \<Longrightarrow>
    so_pop_step s (s\<lparr>soc_queue := (soc_queue s)\<lparr>so_read_position := rp + 1\<rparr>,
      soc_pop := SO_pop_idle, soc_winners := soc_winners s @ [By_consumer],
      soc_popped := soc_popped s @ [v]\<rparr>)"
| so_pop_cas_fails: "soc_pop s = SO_pop_read rp v \<Longrightarrow> so_read_position (soc_queue s) \<noteq> rp \<Longrightarrow>
    so_pop_step s (s\<lparr>soc_pop := SO_pop_loop (so_read_position (soc_queue s))\<rparr>)"

definition so_step :: "so_conf \<Rightarrow> so_conf \<Rightarrow> bool" where
  "so_step s t \<longleftrightarrow> so_push_step s t \<or> so_pop_step s t"

definition so_start :: "nat \<Rightarrow> so_conf" where
  "so_start capacity = \<lparr>soc_queue = SafelyOverflowingIndexQueue_new capacity,
     soc_push = SO_push_idle, soc_pop = SO_pop_idle,
     soc_pushed = [], soc_winners = [], soc_popped = [], soc_recycled = []\<rparr>"

section \<open>Invariant and sequential contract\<close>

definition SafelyOverflowingIndexQueue_inv :: "SafelyOverflowingIndexQueue \<Rightarrow> bool" where
  "SafelyOverflowingIndexQueue_inv q \<longleftrightarrow> length (so_data q) = so_capacity q + 1
     \<and> so_read_position q \<le> so_write_position q
     \<and> so_write_position q \<le> so_read_position q + so_capacity q"

definition SafelyOverflowingIndexQueue_list :: "SafelyOverflowingIndexQueue \<Rightarrow> nat list" where
  "SafelyOverflowingIndexQueue_list q =
     ring (so_data q) (so_capacity q + 1) (so_read_position q) (so_write_position q)"

lemmas so_defs = SafelyOverflowingIndexQueue_inv_def SafelyOverflowingIndexQueue_list_def
  SafelyOverflowingIndexQueue_at_def SafelyOverflowingIndexQueue_push_def
  SafelyOverflowingIndexQueue_pop_def

lemma so_new_inv: "SafelyOverflowingIndexQueue_inv (SafelyOverflowingIndexQueue_new c)"
  by (simp add: SafelyOverflowingIndexQueue_inv_def SafelyOverflowingIndexQueue_new_def)

lemma so_new_list: "SafelyOverflowingIndexQueue_list (SafelyOverflowingIndexQueue_new c) = []"
  by (simp add: SafelyOverflowingIndexQueue_list_def SafelyOverflowingIndexQueue_new_def)

lemma length_so_list:
  "length (SafelyOverflowingIndexQueue_list q) = so_write_position q - so_read_position q"
  by (simp add: SafelyOverflowingIndexQueue_list_def)

lemma so_list_cons_pos:
  "SafelyOverflowingIndexQueue_list q = v # vs \<Longrightarrow> so_read_position q < so_write_position q"
  using length_so_list[of q] by simp

lemma so_push_appends:
  assumes "SafelyOverflowingIndexQueue_inv q"
  shows "ring ((so_data q)[so_write_position q mod Suc (so_capacity q) := v])
      (Suc (so_capacity q)) (so_read_position q) (Suc (so_write_position q))
      = SafelyOverflowingIndexQueue_list q @ [v]"
  using assms by (simp add: so_defs ring_push)

lemma so_push_full_case:
  assumes inv: "SafelyOverflowingIndexQueue_inv q"
    and full: "so_write_position q = so_read_position q + so_capacity q"
    and p: "SafelyOverflowingIndexQueue_push v q = (r, q')"
  shows "r = Some (hd (SafelyOverflowingIndexQueue_list q @ [v]))
    \<and> SafelyOverflowingIndexQueue_list q' = tl (SafelyOverflowingIndexQueue_list q @ [v])
    \<and> SafelyOverflowingIndexQueue_inv q' \<and> so_capacity q' = so_capacity q"
proof -
  let ?d = "(so_data q)[so_write_position q mod Suc (so_capacity q) := v]"
  have "ring ?d (Suc (so_capacity q)) (so_read_position q) (Suc (so_write_position q))
      = ?d ! (so_read_position q mod Suc (so_capacity q))
        # ring ?d (Suc (so_capacity q)) (Suc (so_read_position q)) (Suc (so_write_position q))"
    using full by (intro ring_pop) simp
  then have e: "SafelyOverflowingIndexQueue_list q @ [v]
      = ?d ! (so_read_position q mod Suc (so_capacity q))
        # ring ?d (Suc (so_capacity q)) (Suc (so_read_position q)) (Suc (so_write_position q))"
    using so_push_appends[OF inv, of v] by simp
  have q': "r = Some (?d ! (so_read_position q mod Suc (so_capacity q)))"
    "q' = q\<lparr>so_data := ?d, so_write_position := Suc (so_write_position q),
      so_read_position := Suc (so_read_position q)\<rparr>"
    using p full
    by (auto simp: SafelyOverflowingIndexQueue_push_def SafelyOverflowingIndexQueue_at_def Let_def)
  show ?thesis
    unfolding e q' using inv full by (simp add: so_defs)
qed

interpretation so: overflowing_queue SafelyOverflowingIndexQueue_inv
  SafelyOverflowingIndexQueue_list so_capacity
  SafelyOverflowingIndexQueue_push SafelyOverflowingIndexQueue_pop
proof (unfold_locales, goal_cases)
  case (1 q)
  then show ?case
    by (auto simp: SafelyOverflowingIndexQueue_inv_def length_so_list)
next
  case (2 q v r q')
  then have "so_write_position q = so_read_position q + so_capacity q"
    by (auto simp: length_so_list SafelyOverflowingIndexQueue_inv_def)
  then show ?case
    using so_push_full_case[OF 2(1) _ 2(3)] by blast
next
  case (3 q v r q')
  then have ne: "so_write_position q \<noteq> so_read_position q + so_capacity q"
    by (auto simp: length_so_list)
  have "r = None \<and> q' = q\<lparr>so_data := (so_data q)[so_write_position q mod Suc (so_capacity q) := v],
      so_write_position := Suc (so_write_position q)\<rparr>"
    using 3(3) ne
    by (auto simp: SafelyOverflowingIndexQueue_push_def SafelyOverflowingIndexQueue_at_def Let_def)
  then show ?case
    using so_push_appends[OF 3(1), of v] 3(1) ne
    by (simp add: SafelyOverflowingIndexQueue_inv_def SafelyOverflowingIndexQueue_list_def)
next
  case (4 q)
  then have "so_read_position q = so_write_position q"
    using length_so_list[of q] by (simp add: SafelyOverflowingIndexQueue_inv_def)
  then show ?case
    by (simp add: SafelyOverflowingIndexQueue_pop_def)
next
  case (5 q v vs r q')
  then show ?case
    using so_list_cons_pos[OF 5(2)] by (auto simp: so_defs Let_def ring_pop)
qed

lemma so_queries:
  assumes "SafelyOverflowingIndexQueue_inv q"
  shows "SafelyOverflowingIndexQueue_len q = length (SafelyOverflowingIndexQueue_list q)"
    and "SafelyOverflowingIndexQueue_is_empty q \<longleftrightarrow> SafelyOverflowingIndexQueue_list q = []"
    and "SafelyOverflowingIndexQueue_is_full q \<longleftrightarrow>
      length (SafelyOverflowingIndexQueue_list q) = so_capacity q"
  using assms
  by (auto simp: SafelyOverflowingIndexQueue_len_def SafelyOverflowingIndexQueue_is_empty_def
      SafelyOverflowingIndexQueue_is_full_def
      SafelyOverflowingIndexQueue_acquire_read_and_write_position_def
      SafelyOverflowingIndexQueue_inv_def
      length_so_list length_0_conv[symmetric] simp del: length_0_conv)

section \<open>Invariant of the interleaved system\<close>

fun so_push_ok :: "SafelyOverflowingIndexQueue \<Rightarrow> so_push_pc \<Rightarrow> bool" where
  "so_push_ok q SO_push_idle = (so_write_position q \<le> so_read_position q + so_capacity q)"
| "so_push_ok q (SO_push_w v wp) =
     (wp = so_write_position q \<and> wp \<le> so_read_position q + so_capacity q)"
| "so_push_ok q (SO_push_wr v wp rp) =
     (wp = so_write_position q \<and> rp \<le> so_read_position q \<and> wp \<le> rp + so_capacity q)"
| "so_push_ok q (SO_push_written v wp rp) =
     (wp = so_write_position q \<and> rp \<le> so_read_position q \<and> wp \<le> rp + so_capacity q
       \<and> so_data q ! (wp mod (so_capacity q + 1)) = v)"
| "so_push_ok q (SO_push_stored wp rp) =
     (so_write_position q = wp + 1 \<and> rp \<le> so_read_position q \<and> wp \<le> rp + so_capacity q)"
| "so_push_ok q (SO_push_recycle rp) =
     (rp < so_read_position q \<and> so_write_position q = rp + so_capacity q + 1)"

fun so_pop_ok :: "SafelyOverflowingIndexQueue \<Rightarrow> so_pop_pc \<Rightarrow> bool" where
  "so_pop_ok q SO_pop_idle = True"
| "so_pop_ok q (SO_pop_loaded rp) = (rp = so_read_position q
     \<or> rp < so_read_position q \<and> so_read_position q < so_write_position q)"
| "so_pop_ok q (SO_pop_loop rp) =
     (rp \<le> so_read_position q \<and> so_read_position q < so_write_position q)"
| "so_pop_ok q (SO_pop_read rp v) = (so_read_position q < so_write_position q
     \<and> rp \<le> so_read_position q
     \<and> (rp = so_read_position q \<longrightarrow> v = so_data q ! (rp mod (so_capacity q + 1))))"

text \<open>The values that the winner \<open>w\<close> of the read position has received.\<close>

definition taken_by :: "receiver \<Rightarrow> receiver list \<Rightarrow> nat list \<Rightarrow> nat list" where
  "taken_by w ws vs = map snd (filter (\<lambda>p. fst p = w) (zip ws vs))"

lemma taken_by_push [simp]:
  "length ws \<le> length vs \<Longrightarrow> taken_by w ws (vs @ [v]) = taken_by w ws vs"
  by (simp add: taken_by_def zip_append2)

lemma zip_snoc_left:
  "length ws < length vs \<Longrightarrow> zip (ws @ [a]) vs = zip ws vs @ [(a, vs ! length ws)]"
proof (induction ws arbitrary: vs)
  case Nil
  then show ?case
    by (cases vs) auto
next
  case (Cons w ws)
  then show ?case
    by (cases vs) auto
qed

lemma taken_by_win:
  "length ws < length vs \<Longrightarrow>
    taken_by w (ws @ [a]) vs = taken_by w ws vs @ (if a = w then [vs ! length ws] else [])"
  by (simp add: taken_by_def zip_snoc_left)

text \<open>The value that the producer owns but has not read out of its slot yet.\<close>

fun so_pending :: "nat list \<Rightarrow> so_push_pc \<Rightarrow> nat list" where
  "so_pending vs (SO_push_recycle rp) = [vs ! rp]"
| "so_pending vs _ = []"

text \<open>The slots hold what was pushed, also the slot that the producer is about to recycle.\<close>

fun so_recycle_slot :: "nat list \<Rightarrow> nat \<Rightarrow> nat list \<Rightarrow> so_push_pc \<Rightarrow> bool" where
  "so_recycle_slot d c vs (SO_push_recycle rp) = (d ! (rp mod (c + 1)) = vs ! rp)"
| "so_recycle_slot d c vs _ = True"

definition soc_inv :: "nat \<Rightarrow> so_conf \<Rightarrow> bool" where
  "soc_inv c s \<longleftrightarrow> so_capacity (soc_queue s) = c
     \<and> length (so_data (soc_queue s)) = c + 1
     \<and> so_read_position (soc_queue s) \<le> so_write_position (soc_queue s)
     \<and> length (soc_pushed s) = so_write_position (soc_queue s)
     \<and> length (soc_winners s) = so_read_position (soc_queue s)
     \<and> SafelyOverflowingIndexQueue_list (soc_queue s)
        = drop (so_read_position (soc_queue s)) (soc_pushed s)
     \<and> soc_popped s = taken_by By_consumer (soc_winners s) (soc_pushed s)
     \<and> soc_recycled s @ so_pending (soc_pushed s) (soc_push s)
        = taken_by By_producer (soc_winners s) (soc_pushed s)
     \<and> so_recycle_slot (so_data (soc_queue s)) c (soc_pushed s) (soc_push s)
     \<and> so_push_ok (soc_queue s) (soc_push s)
     \<and> so_pop_ok (soc_queue s) (soc_pop s)"

definition soc_abs :: "so_conf \<Rightarrow> fifo" where
  "soc_abs s = \<lparr>contents = SafelyOverflowingIndexQueue_list (soc_queue s),
     pushed = soc_pushed s, removed = zip (soc_winners s) (soc_pushed s)\<rparr>"

lemma soc_inv_start: "soc_inv c (so_start c)"
  by (simp add: soc_inv_def so_start_def so_new_list taken_by_def)
    (simp add: SafelyOverflowingIndexQueue_new_def)

lemma so_list_data_update:
  assumes "so_read_position q \<le> so_write_position q"
    "so_write_position q \<le> so_read_position q + so_capacity q"
  shows "SafelyOverflowingIndexQueue_list
      (q\<lparr>so_data := (so_data q)[SafelyOverflowingIndexQueue_at q (so_write_position q) := v]\<rparr>)
    = SafelyOverflowingIndexQueue_list q"
  using assms
  by (simp add: SafelyOverflowingIndexQueue_list_def SafelyOverflowingIndexQueue_at_def
      ring_update_outside)

lemma so_list_store:
  assumes "so_read_position q \<le> so_write_position q"
  shows "SafelyOverflowingIndexQueue_list (q\<lparr>so_write_position := so_write_position q + 1\<rparr>)
    = SafelyOverflowingIndexQueue_list q
      @ [so_data q ! (so_write_position q mod (so_capacity q + 1))]"
  using assms by (simp add: SafelyOverflowingIndexQueue_list_def ring_snoc)

lemma so_list_advance:
  assumes "so_read_position q < so_write_position q"
  shows "SafelyOverflowingIndexQueue_list q = so_data q ! (so_read_position q mod (so_capacity q + 1))
    # SafelyOverflowingIndexQueue_list (q\<lparr>so_read_position := so_read_position q + 1\<rparr>)"
  using assms by (simp add: SafelyOverflowingIndexQueue_list_def ring_pop)

lemma soc_oldest:
  assumes "soc_inv c s" "so_read_position (soc_queue s) < so_write_position (soc_queue s)"
  shows "so_data (soc_queue s) ! (so_read_position (soc_queue s) mod (c + 1))
      = soc_pushed s ! so_read_position (soc_queue s)"
    and "SafelyOverflowingIndexQueue_list
        ((soc_queue s)\<lparr>so_read_position := so_read_position (soc_queue s) + 1\<rparr>)
      = drop (so_read_position (soc_queue s) + 1) (soc_pushed s)"
    and "SafelyOverflowingIndexQueue_list (soc_queue s)
      = soc_pushed s ! so_read_position (soc_queue s)
        # drop (so_read_position (soc_queue s) + 1) (soc_pushed s)"
proof -
  let ?q = "soc_queue s"
  have d: "drop (so_read_position ?q) (soc_pushed s)
      = soc_pushed s ! so_read_position ?q # drop (so_read_position ?q + 1) (soc_pushed s)"
    using assms by (simp add: soc_inv_def Cons_nth_drop_Suc)
  show "SafelyOverflowingIndexQueue_list ?q
      = soc_pushed s ! so_read_position ?q # drop (so_read_position ?q + 1) (soc_pushed s)"
    using assms(1) d by (simp add: soc_inv_def)
  then show "so_data ?q ! (so_read_position ?q mod (c + 1)) = soc_pushed s ! so_read_position ?q"
    "SafelyOverflowingIndexQueue_list (?q\<lparr>so_read_position := so_read_position ?q + 1\<rparr>)
      = drop (so_read_position ?q + 1) (soc_pushed s)"
    using so_list_advance[OF assms(2)] assms(1) by (auto simp: soc_inv_def)
qed

lemma soc_write_ok:
  assumes "soc_inv c s" "soc_push s = SO_push_wr v wp rp"
  shows "soc_inv c (s\<lparr>soc_queue := (soc_queue s)
      \<lparr>so_data := (so_data (soc_queue s))[SafelyOverflowingIndexQueue_at (soc_queue s) wp := v]\<rparr>,
      soc_push := SO_push_written v wp rp\<rparr>)"
    and "SafelyOverflowingIndexQueue_list ((soc_queue s)
      \<lparr>so_data := (so_data (soc_queue s))[SafelyOverflowingIndexQueue_at (soc_queue s) wp := v]\<rparr>)
      = SafelyOverflowingIndexQueue_list (soc_queue s)"
proof -
  let ?q = "soc_queue s"
  have q: "wp = so_write_position ?q" "so_read_position ?q \<le> so_write_position ?q"
    "so_write_position ?q \<le> so_read_position ?q + so_capacity ?q" "so_capacity ?q = c"
    "length (so_data ?q) = Suc c"
    using assms by (auto simp: soc_inv_def)
  then show l: "SafelyOverflowingIndexQueue_list
      (?q\<lparr>so_data := (so_data ?q)[SafelyOverflowingIndexQueue_at ?q wp := v]\<rparr>)
      = SafelyOverflowingIndexQueue_list ?q"
    using so_list_data_update[of ?q v] by simp
  have "so_read_position ?q mod Suc c \<noteq> wp mod Suc c" if "so_read_position ?q < so_write_position ?q"
    using mod_window_neq[of "so_read_position ?q" wp "Suc c"] that q by simp
  then have "so_pop_ok (?q\<lparr>so_data := (so_data ?q)[SafelyOverflowingIndexQueue_at ?q wp := v]\<rparr>)
      (soc_pop s)"
    using assms(1) q by (cases "soc_pop s") (auto simp: soc_inv_def SafelyOverflowingIndexQueue_at_def)
  then show "soc_inv c (s\<lparr>soc_queue := ?q
      \<lparr>so_data := (so_data ?q)[SafelyOverflowingIndexQueue_at ?q wp := v]\<rparr>,
      soc_push := SO_push_written v wp rp\<rparr>)"
    using assms l q by (simp add: soc_inv_def SafelyOverflowingIndexQueue_at_def)
qed

lemma soc_store_ok:
  assumes "soc_inv c s" "soc_push s = SO_push_written v wp rp"
  shows "soc_inv c (s\<lparr>soc_queue := (soc_queue s)\<lparr>so_write_position := wp + 1\<rparr>,
      soc_push := SO_push_stored wp rp, soc_pushed := soc_pushed s @ [v]\<rparr>)"
    and "SafelyOverflowingIndexQueue_list ((soc_queue s)\<lparr>so_write_position := wp + 1\<rparr>)
      = SafelyOverflowingIndexQueue_list (soc_queue s) @ [v]"
    and "length (SafelyOverflowingIndexQueue_list (soc_queue s)) < c + 1"
proof -
  let ?q = "soc_queue s"
  have q: "wp = so_write_position ?q" "so_read_position ?q \<le> so_write_position ?q"
    "so_write_position ?q \<le> so_read_position ?q + so_capacity ?q" "so_capacity ?q = c"
    "so_data ?q ! (wp mod Suc c) = v" "length (soc_winners s) \<le> length (soc_pushed s)"
    using assms by (auto simp: soc_inv_def)
  then show l: "SafelyOverflowingIndexQueue_list (?q\<lparr>so_write_position := wp + 1\<rparr>)
      = SafelyOverflowingIndexQueue_list ?q @ [v]"
    using so_list_store[of ?q] by simp
  show "length (SafelyOverflowingIndexQueue_list ?q) < c + 1"
    using q by (simp add: length_so_list)
  have "so_pop_ok (?q\<lparr>so_write_position := wp + 1\<rparr>) (soc_pop s)"
    using assms(1) q by (cases "soc_pop s") (auto simp: soc_inv_def)
  then show "soc_inv c (s\<lparr>soc_queue := ?q\<lparr>so_write_position := wp + 1\<rparr>,
      soc_push := SO_push_stored wp rp, soc_pushed := soc_pushed s @ [v]\<rparr>)"
    using assms l q by (simp add: soc_inv_def)
qed

lemma soc_evict_ok:
  assumes "soc_inv c s" "0 < c" "soc_push s = SO_push_stored wp rp" "wp = rp + c"
    "so_read_position (soc_queue s) = rp"
  shows "soc_inv c (s\<lparr>soc_queue := (soc_queue s)\<lparr>so_read_position := rp + 1\<rparr>,
      soc_push := SO_push_recycle rp, soc_winners := soc_winners s @ [By_producer]\<rparr>)"
proof -
  let ?q = "soc_queue s"
  have q: "so_write_position ?q = rp + c + 1" "so_capacity ?q = c"
    "length (soc_winners s) = rp" "length (soc_pushed s) = rp + c + 1"
    using assms by (auto simp: soc_inv_def)
  then have lt: "so_read_position ?q < so_write_position ?q"
    using assms(5) by simp
  have "so_pop_ok (?q\<lparr>so_read_position := rp + 1\<rparr>) (soc_pop s)"
    using assms q by (cases "soc_pop s") (auto simp: soc_inv_def)
  then show ?thesis
    using assms q soc_oldest[OF assms(1) lt] by (simp add: soc_inv_def taken_by_win)
qed

lemma soc_pop_ok:
  assumes "soc_inv c s" "soc_pop s = SO_pop_read rp v" "so_read_position (soc_queue s) = rp"
  shows "soc_inv c (s\<lparr>soc_queue := (soc_queue s)\<lparr>so_read_position := rp + 1\<rparr>,
      soc_pop := SO_pop_idle, soc_winners := soc_winners s @ [By_consumer],
      soc_popped := soc_popped s @ [v]\<rparr>)"
    and "v = soc_pushed s ! rp" and "so_read_position (soc_queue s) < so_write_position (soc_queue s)"
proof -
  let ?q = "soc_queue s"
  show lt: "so_read_position ?q < so_write_position ?q"
    using assms by (auto simp: soc_inv_def)
  show v: "v = soc_pushed s ! rp"
    using assms soc_oldest(1)[OF assms(1) lt] by (auto simp: soc_inv_def)
  have q: "length (soc_winners s) = rp" "rp < length (soc_pushed s)" "so_capacity ?q = c"
    using assms lt by (auto simp: soc_inv_def)
  have "so_push_ok (?q\<lparr>so_read_position := rp + 1\<rparr>) (soc_push s)"
    using assms q by (cases "soc_push s") (auto simp: soc_inv_def)
  then show "soc_inv c (s\<lparr>soc_queue := ?q\<lparr>so_read_position := rp + 1\<rparr>,
      soc_pop := SO_pop_idle, soc_winners := soc_winners s @ [By_consumer],
      soc_popped := soc_popped s @ [v]\<rparr>)"
    using assms(1,3) q v lt soc_oldest[OF assms(1) lt] by (simp add: soc_inv_def taken_by_win)
qed

lemma soc_push_step_ok:
  assumes "so_push_step s t" "soc_inv c s" "0 < c"
  shows "soc_inv c t
    \<and> (soc_abs t = soc_abs s \<or> fifo_step (c + 1) c True (soc_abs s) (soc_abs t))"
  using assms(1)
proof (cases rule: so_push_step.cases)
  case (so_push_write v wp rp)
  then show ?thesis
    using soc_write_ok[OF assms(2) so_push_write(2)] by (simp add: soc_abs_def)
next
  case (so_push_store_wp v wp rp)
  have "length (soc_winners s) \<le> length (soc_pushed s)"
    using assms(2) by (simp add: soc_inv_def)
  then show ?thesis
    using soc_store_ok[OF assms(2) so_push_store_wp(2)] so_push_store_wp(1)
      fifo_push[of "soc_abs s" "c + 1" c True v]
    by (simp add: soc_abs_def zip_append2)
next
  case (so_push_cas wp rp)
  have q: "so_capacity (soc_queue s) = c" "length (soc_winners s) = rp"
    "so_write_position (soc_queue s) = rp + c + 1" "length (soc_pushed s) = rp + c + 1"
    using assms(2) so_push_cas by (auto simp: soc_inv_def)
  then have lt: "so_read_position (soc_queue s) < so_write_position (soc_queue s)"
    using so_push_cas by simp
  show ?thesis
    using soc_evict_ok[OF assms(2,3) so_push_cas(2)] so_push_cas q soc_oldest[OF assms(2) lt]
      fifo_evict[of True "soc_abs s" "soc_pushed s ! rp" "drop (rp + 1) (soc_pushed s)" c "c + 1"]
    by (simp add: soc_abs_def zip_snoc_left)
qed (use assms(2) in \<open>auto simp: soc_inv_def soc_abs_def SafelyOverflowingIndexQueue_at_def\<close>)

lemma soc_pop_step_ok:
  assumes "so_pop_step s t" "soc_inv c s"
  shows "soc_inv c t
    \<and> (soc_abs t = soc_abs s \<or> fifo_step (c + 1) c True (soc_abs s) (soc_abs t))"
  using assms(1)
proof (cases rule: so_pop_step.cases)
  case (so_pop_cas rp v)
  note ok = soc_pop_ok[OF assms(2) so_pop_cas(2,3)]
  have q: "length (soc_winners s) = rp" "rp < length (soc_pushed s)"
    using assms(2) so_pop_cas ok(3) by (auto simp: soc_inv_def)
  then show ?thesis
    using ok so_pop_cas soc_oldest[OF assms(2) ok(3)]
      fifo_pop[of "soc_abs s" v "drop (rp + 1) (soc_pushed s)" "c + 1" c True]
    by (simp add: soc_abs_def zip_snoc_left)
next
  case (so_pop_value rp)
  then show ?thesis
    using assms(2)
    by (auto simp: soc_inv_def soc_abs_def SafelyOverflowingIndexQueue_at_def)
qed (use assms(2) in \<open>auto simp: soc_inv_def soc_abs_def\<close>)

interpretation soc: forward_simulation "\<lambda>s. s = so_start (Suc c)" so_step "soc_inv (Suc c)"
  fifo_init "fifo_step (Suc c + 1) (Suc c) True" soc_abs
proof unfold_locales
  show "soc_inv (Suc c) s" if "s = so_start (Suc c)" for s
    using that by (simp add: soc_inv_start)
  show "soc_inv (Suc c) t" if "soc_inv (Suc c) s" "so_step s t" for s t
    using that soc_push_step_ok soc_pop_step_ok unfolding so_step_def by blast
  show "fifo_init (soc_abs s)" if "s = so_start (Suc c)" for s
    using that by (simp add: fifo_init_def soc_abs_def so_start_def so_new_list)
  show "soc_abs t = soc_abs s \<or> fifo_step (Suc c + 1) (Suc c) True (soc_abs s) (soc_abs t)"
    if "soc_inv (Suc c) s" "so_step s t" for s t
    using that soc_push_step_ok soc_pop_step_ok unfolding so_step_def by blast
qed

section \<open>Schedules\<close>

text \<open>
  Every thread can always take its next step, and that step is a function of the
  configuration (and, when a push begins, of the value): a schedule is a list of
  threads.
\<close>

fun so_exec_push :: "nat \<Rightarrow> so_conf \<Rightarrow> so_conf" where
  "so_exec_push x s = (let q = soc_queue s in case soc_push s of
     SO_push_idle \<Rightarrow> s\<lparr>soc_push := SO_push_w x (so_write_position q)\<rparr>
   | SO_push_w v wp \<Rightarrow> s\<lparr>soc_push := SO_push_wr v wp (so_read_position q)\<rparr>
   | SO_push_wr v wp rp \<Rightarrow>
       s\<lparr>soc_queue := q\<lparr>so_data := (so_data q)[SafelyOverflowingIndexQueue_at q wp := v]\<rparr>,
         soc_push := SO_push_written v wp rp\<rparr>
   | SO_push_written v wp rp \<Rightarrow> s\<lparr>soc_queue := q\<lparr>so_write_position := wp + 1\<rparr>,
       soc_push := SO_push_stored wp rp, soc_pushed := soc_pushed s @ [v]\<rparr>
   | SO_push_stored wp rp \<Rightarrow>
       if wp = rp + so_capacity q \<and> so_read_position q = rp
       then s\<lparr>soc_queue := q\<lparr>so_read_position := rp + 1\<rparr>,
         soc_push := SO_push_recycle rp, soc_winners := soc_winners s @ [By_producer]\<rparr>
       else s\<lparr>soc_push := SO_push_idle\<rparr>
   | SO_push_recycle rp \<Rightarrow> s\<lparr>soc_push := SO_push_idle,
       soc_recycled := soc_recycled s @ [so_data q ! SafelyOverflowingIndexQueue_at q rp]\<rparr>)"

fun so_exec_pop :: "so_conf \<Rightarrow> so_conf" where
  "so_exec_pop s = (let q = soc_queue s in case soc_pop s of
     SO_pop_idle \<Rightarrow> s\<lparr>soc_pop := SO_pop_loaded (so_read_position q)\<rparr>
   | SO_pop_loaded rp \<Rightarrow> s\<lparr>soc_pop :=
       if rp = so_write_position q then SO_pop_idle else SO_pop_loop rp\<rparr>
   | SO_pop_loop rp \<Rightarrow>
       s\<lparr>soc_pop := SO_pop_read rp (so_data q ! SafelyOverflowingIndexQueue_at q rp)\<rparr>
   | SO_pop_read rp v \<Rightarrow>
       if so_read_position q = rp
       then s\<lparr>soc_queue := q\<lparr>so_read_position := rp + 1\<rparr>, soc_pop := SO_pop_idle,
         soc_winners := soc_winners s @ [By_consumer], soc_popped := soc_popped s @ [v]\<rparr>
       else s\<lparr>soc_pop := SO_pop_loop (so_read_position q)\<rparr>)"

datatype so_thread = SO_producer nat | SO_consumer

fun so_exec :: "so_thread \<Rightarrow> so_conf \<Rightarrow> so_conf" where
  "so_exec (SO_producer x) s = so_exec_push x s"
| "so_exec SO_consumer s = so_exec_pop s"

lemma so_exec_push_step: "so_push_step s (so_exec_push x s)"
  by (cases "soc_push s") (auto simp: Let_def intro: so_push_step.intros[simplified])

lemma so_exec_pop_step: "so_pop_step s (so_exec_pop s)"
  by (cases "soc_pop s") (auto simp: Let_def intro: so_pop_step.intros[simplified])

lemma so_exec_step: "so_step s (so_exec a s)"
  by (cases a) (auto simp: so_step_def so_exec_push_step so_exec_pop_step
      simp del: so_exec_push.simps so_exec_pop.simps)

lemma so_run_reachable:
  "reachable (\<lambda>s. s = so_start c) so_step (fold so_exec as (so_start c))"
  by (rule fold_reachable) (simp add: so_exec_step)

section \<open>Properties\<close>

text \<open>
  C1: However the atomic accesses of \<open>push\<close> and \<open>pop\<close> interleave, a queue with a
  positive capacity loses, duplicates and invents no index: the pushed indices are, in
  order, those that were taken out (each by exactly one of the two threads) followed by
  those in the queue; \<open>pop\<close> returned exactly the ones the consumer took, and \<open>push\<close>
  handed back exactly the ones the producer took (the last one possibly still on its way).
\<close>

theorem overflow_queue_conserves:
  assumes "0 < c" "reachable (\<lambda>s. s = so_start c) so_step s"
  shows "soc_pushed s = map snd (zip (soc_winners s) (soc_pushed s))
      @ SafelyOverflowingIndexQueue_list (soc_queue s)
    \<and> length (SafelyOverflowingIndexQueue_list (soc_queue s)) \<le> c + 1
    \<and> soc_popped s = taken_by By_consumer (soc_winners s) (soc_pushed s)
    \<and> soc_recycled s @ so_pending (soc_pushed s) (soc_push s)
      = taken_by By_producer (soc_winners s) (soc_pushed s)"
proof -
  obtain k where c: "c = Suc k"
    using assms(1) by (cases c) auto
  have "soc_inv c s"
    using soc.reachable_inv[of k s] assms(2) c by simp
  moreover have "fifo_inv (c + 1) (soc_abs s)"
    using fifo_spec.reachable_inv[OF soc.simulated[of k s]] assms(2) c by simp
  ultimately show ?thesis
    by (simp add: soc_inv_def fifo_inv_def soc_abs_def)
qed

theorem overflow_queue_conserves_witness:
  "let s = fold so_exec (replicate 5 (SO_producer 10) @ replicate 6 (SO_producer 11)
        @ replicate 4 SO_consumer) (so_start 1)
   in soc_pushed s = [10, 11] \<and> soc_recycled s = [10] \<and> soc_popped s = [11]
    \<and> soc_popped s = taken_by By_consumer (soc_winners s) (soc_pushed s)"
  using overflow_queue_conserves[OF _ so_run_reachable, of 1
      "replicate 5 (SO_producer 10) @ replicate 6 (SO_producer 11) @ replicate 4 SO_consumer"]
  by (simp add: so_start_def SafelyOverflowingIndexQueue_new_def Let_def
      SafelyOverflowingIndexQueue_at_def numeral_eq_Suc taken_by_def)

text \<open>
  With capacity zero the consumer's retry loop does not look at the write position
  again: when the producer takes the only index back in between, the consumer still
  advances the read position, which then is ahead of the write position.
\<close>

theorem overflow_queue_zero_capacity_overtakes:
  "\<exists>s. reachable (\<lambda>s. s = so_start 0) so_step s
     \<and> so_write_position (soc_queue s) < so_read_position (soc_queue s)"
proof -
  let ?as = "replicate 4 (SO_producer 7) @ [SO_consumer, SO_consumer, SO_consumer]
    @ [SO_producer 7] @ [SO_consumer, SO_consumer, SO_consumer]"
  have "so_write_position (soc_queue (fold so_exec ?as (so_start 0)))
      < so_read_position (soc_queue (fold so_exec ?as (so_start 0)))"
    by (simp add: so_start_def SafelyOverflowingIndexQueue_new_def Let_def
        SafelyOverflowingIndexQueue_at_def numeral_eq_Suc)
  then show ?thesis
    using so_run_reachable by blast
qed

end
