(* ===== verification/SpscQueue.thy ===== *)
theory SpscQueue
  imports Prelude
begin

text \<open>
  The single-producer single-consumer queue for arbitrary copyable values with a
  compile-time capacity, \<open>iceoryx2_bb/lock_free/src/spsc/queue.rs\<close>. The const parameter
  \<open>CAPACITY\<close> is the length of the slot array; a slot that was never written
  (\<open>MaybeUninit::uninit()\<close>) is \<^term>\<open>None\<close>. The atomic accesses are those of the index
  queue (theory IndexQueue), so only the operations are given here.
\<close>

record 'a Queue =
  sq_data :: "'a option list"
  sq_write_position :: nat
  sq_read_position :: nat
  sq_has_producer :: bool
  sq_has_consumer :: bool

definition Queue_new :: "nat \<Rightarrow> 'a Queue" where
  "Queue_new CAPACITY = \<lparr>sq_data = replicate CAPACITY None,
     sq_write_position = 0, sq_read_position = 0,
     sq_has_producer = True, sq_has_consumer = True\<rparr>"

definition Queue_capacity :: "'a Queue \<Rightarrow> nat" where
  "Queue_capacity q = length (sq_data q)"

definition Queue_acquire_producer :: "'a Queue \<Rightarrow> bool \<times> 'a Queue" where
  "Queue_acquire_producer q =
     (if sq_has_producer q then (True, q\<lparr>sq_has_producer := False\<rparr>) else (False, q))"

definition Queue_acquire_consumer :: "'a Queue \<Rightarrow> bool \<times> 'a Queue" where
  "Queue_acquire_consumer q =
     (if sq_has_consumer q then (True, q\<lparr>sq_has_consumer := False\<rparr>) else (False, q))"

definition Queue_Producer_drop :: "'a Queue \<Rightarrow> 'a Queue" where
  "Queue_Producer_drop q = q\<lparr>sq_has_producer := True\<rparr>"

definition Queue_Consumer_drop :: "'a Queue \<Rightarrow> 'a Queue" where
  "Queue_Consumer_drop q = q\<lparr>sq_has_consumer := True\<rparr>"

definition Queue_push :: "'a \<Rightarrow> 'a Queue \<Rightarrow> bool \<times> 'a Queue" where
  "Queue_push t q =
     (let current_write_pos = sq_write_position q;
          is_full = (current_write_pos = sq_read_position q + Queue_capacity q)
      in if is_full then (False, q)
         else (True, q\<lparr>sq_data := (sq_data q)[current_write_pos mod Queue_capacity q := Some t],
                       sq_write_position := current_write_pos + 1\<rparr>))"

definition Queue_pop :: "'a Queue \<Rightarrow> 'a option \<times> 'a Queue" where
  "Queue_pop q =
     (let current_read_pos = sq_read_position q;
          is_empty = (current_read_pos = sq_write_position q)
      in if is_empty then (None, q)
         else (Some (the (sq_data q ! (current_read_pos mod Queue_capacity q))),
               q\<lparr>sq_read_position := current_read_pos + 1\<rparr>))"

definition Queue_is_empty :: "'a Queue \<Rightarrow> bool" where
  "Queue_is_empty q \<longleftrightarrow> sq_write_position q = sq_read_position q"

definition Queue_len :: "'a Queue \<Rightarrow> nat" where
  "Queue_len q = sq_write_position q - sq_read_position q"

definition Queue_is_full :: "'a Queue \<Rightarrow> bool" where
  "Queue_is_full q \<longleftrightarrow> sq_write_position q = sq_read_position q + Queue_capacity q"

section \<open>Contract\<close>

definition Queue_ring :: "'a Queue \<Rightarrow> 'a option list" where
  "Queue_ring q = ring (sq_data q) (Queue_capacity q) (sq_read_position q) (sq_write_position q)"

definition Queue_list :: "'a Queue \<Rightarrow> 'a list" where
  "Queue_list q = map the (Queue_ring q)"

text \<open>No slot between the two positions is uninitialised.\<close>

definition Queue_inv :: "'a Queue \<Rightarrow> bool" where
  "Queue_inv q \<longleftrightarrow> sq_read_position q \<le> sq_write_position q
     \<and> sq_write_position q \<le> sq_read_position q + Queue_capacity q
     \<and> None \<notin> set (Queue_ring q)"

lemma Queue_new_inv: "Queue_inv (Queue_new n)" "Queue_list (Queue_new n) = []"
  by (simp_all add: Queue_inv_def Queue_ring_def Queue_list_def Queue_new_def)

lemma Queue_new_capacity: "Queue_capacity (Queue_new n) = n"
  by (simp add: Queue_capacity_def Queue_new_def)

lemma length_Queue_list: "length (Queue_list q) = sq_write_position q - sq_read_position q"
  by (simp add: Queue_list_def Queue_ring_def)

lemma Queue_push_appends:
  assumes "Queue_inv q" "length (Queue_list q) < Queue_capacity q" "Queue_push v q = (b, q')"
  shows "b \<and> Queue_ring q' = Queue_ring q @ [Some v] \<and> Queue_capacity q' = Queue_capacity q
    \<and> sq_read_position q' = sq_read_position q
    \<and> sq_write_position q' = sq_write_position q + 1"
proof -
  have w: "sq_write_position q < sq_read_position q + length (sq_data q)"
    "sq_read_position q \<le> sq_write_position q"
    using assms(1,2) by (auto simp: Queue_inv_def Queue_capacity_def length_Queue_list)
  then have "(b, q') = (True, q\<lparr>sq_data := (sq_data q)[sq_write_position q mod length (sq_data q) := Some v],
      sq_write_position := sq_write_position q + 1\<rparr>)"
    using assms(3) by (simp add: Queue_push_def Queue_capacity_def Let_def)
  then show ?thesis
    using w by (simp add: Queue_ring_def Queue_capacity_def ring_push)
qed

interpretation sq: bounded_queue Queue_inv Queue_list Queue_capacity Queue_push Queue_pop
proof (unfold_locales, goal_cases)
  case (1 q)
  then show ?case
    by (auto simp: Queue_inv_def length_Queue_list)
next
  case (2 q v)
  then show ?case
    by (auto simp: Queue_inv_def Queue_push_def length_Queue_list Let_def)
next
  case (3 q v b q')
  have "sq_write_position q < sq_read_position q + Queue_capacity q"
    using 3(1,2) by (auto simp: Queue_inv_def length_Queue_list)
  then show ?case
    using Queue_push_appends[OF 3] 3(1) by (auto simp: Queue_inv_def Queue_list_def)
next
  case (4 q)
  then have "sq_read_position q = sq_write_position q"
    using length_Queue_list[of q] by (simp add: Queue_inv_def)
  then show ?case
    by (simp add: Queue_pop_def)
next
  case (5 q v vs r q')
  then have "sq_read_position q < sq_write_position q"
    using length_Queue_list[of q] by simp
  then show ?case
    using 5 by (auto simp: Queue_inv_def Queue_list_def Queue_ring_def Queue_pop_def
        Queue_capacity_def Let_def ring_pop)
qed

lemma Queue_queries:
  assumes "Queue_inv q"
  shows "Queue_len q = length (Queue_list q)"
    and "Queue_is_empty q \<longleftrightarrow> Queue_list q = []"
    and "Queue_is_full q \<longleftrightarrow> length (Queue_list q) = Queue_capacity q"
  using assms
  by (auto simp: Queue_len_def Queue_is_empty_def Queue_is_full_def Queue_inv_def
      length_Queue_list length_0_conv[symmetric] simp del: length_0_conv)

section \<open>Properties\<close>

text \<open>
  The values that \<open>push\<close> accepts into a new queue come back from \<open>pop\<close> in the order
  in which they were pushed, and no uninitialised slot is read.
\<close>

theorem spsc_queue_roundtrip:
  assumes "length vs \<le> n"
  shows "sq.pop_many (length vs) (sq.push_all vs (Queue_new n)) = map Some vs
    \<and> None \<notin> set (Queue_ring (sq.push_all vs (Queue_new n)))"
proof -
  have "Queue_inv (sq.push_all vs (Queue_new n))"
    using sq.push_all_list[of "Queue_new n" vs] assms by (simp add: Queue_new_inv Queue_new_capacity)
  moreover have "sq.pop_many (length vs) (sq.push_all vs (Queue_new n)) = map Some vs"
    using sq.push_pop_all[of "Queue_new n" vs] assms by (simp add: Queue_new_inv Queue_new_capacity)
  ultimately show ?thesis
    by (simp add: Queue_inv_def)
qed

theorem spsc_queue_roundtrip_witness:
  "sq.pop_many 2 (sq.push_all [True, False] (Queue_new 3)) = [Some True, Some False]"
  using spsc_queue_roundtrip[of "[True, False]" 3] by (simp add: numeral_2_eq_2)

end
