(* ===== verification/UnrestrictedAtomic.thy ===== *)
theory UnrestrictedAtomic
  imports Prelude
begin

text \<open>
  The single-producer atomic for copyable values of any size,
  \<open>iceoryx2_bb/lock_free/src/spmc/unrestricted_atomic.rs\<close>. A value does not fit into a
  machine word, so it is modelled as the list of its words: \<open>store\<close> writes them one by
  one and \<open>load\<close> reads them one by one, with steps of the other thread in between. The
  counter \<open>write_cell\<close> is a natural number that grows with every store; it agrees with
  the code's \<open>u64\<close> for the first \<open>2 ^ 64\<close> stores. Readers do not write, so one reader
  stands for all.
\<close>

section \<open>Operations\<close>

definition NUMBER_OF_CELLS :: nat where
  "NUMBER_OF_CELLS = 2"

record UnrestrictedAtomic =
  ua_write_cell :: nat
  ua_data :: "nat list list"
  ua_has_producer :: bool

text \<open>The second cell is uninitialised; \<open>junk\<close> is whatever words it holds.\<close>

definition UnrestrictedAtomic_new :: "nat list \<Rightarrow> nat list \<Rightarrow> UnrestrictedAtomic" where
  "UnrestrictedAtomic_new junk value =
     \<lparr>ua_write_cell = 1, ua_data = [value, junk], ua_has_producer = True\<rparr>"

definition UnrestrictedAtomic_acquire_producer ::
  "UnrestrictedAtomic \<Rightarrow> bool \<times> UnrestrictedAtomic" where
  "UnrestrictedAtomic_acquire_producer a =
     (if ua_has_producer a then (True, a\<lparr>ua_has_producer := False\<rparr>) else (False, a))"

definition UnrestrictedAtomic_Producer_drop :: "UnrestrictedAtomic \<Rightarrow> UnrestrictedAtomic" where
  "UnrestrictedAtomic_Producer_drop a = a\<lparr>ua_has_producer := True\<rparr>"

definition UnrestrictedAtomic_store :: "nat list \<Rightarrow> UnrestrictedAtomic \<Rightarrow> UnrestrictedAtomic" where
  "UnrestrictedAtomic_store new_value a =
     (let write_cell = ua_write_cell a
      in a\<lparr>ua_data := (ua_data a)[write_cell mod NUMBER_OF_CELLS := new_value],
           ua_write_cell := ua_write_cell a + 1\<rparr>)"

text \<open>Without a concurrent store the loop of \<open>load\<close> ends after its first round.\<close>

definition UnrestrictedAtomic_load :: "UnrestrictedAtomic \<Rightarrow> nat list" where
  "UnrestrictedAtomic_load a =
     (let read_cell = ua_write_cell a - 1 in ua_data a ! (read_cell mod NUMBER_OF_CELLS))"

section \<open>Atomic steps\<close>

text \<open>\<open>store\<close>: the new value, the loaded counter, and how many words are written.\<close>

datatype ua_store_pc =
    UA_store_idle
  | UA_storing "nat list" nat nat

text \<open>
  \<open>load\<close>: the cell number, and the words read so far; \<open>UA_load_done\<close> keeps the returned
  value with the number of the store it is compared with in the theorem.
\<close>

datatype ua_load_pc =
    UA_load_idle
  | UA_loading nat "nat list"
  | UA_load_done nat "nat list"

record ua_conf =
  uac_atomic :: UnrestrictedAtomic
  uac_store :: ua_store_pc
  uac_load :: ua_load_pc
  uac_history :: "nat list list"

text \<open>\<open>n\<close> is the number of words of a value.\<close>

inductive ua_store_step :: "nat \<Rightarrow> ua_conf \<Rightarrow> ua_conf \<Rightarrow> bool" for n where
  ua_store_begin: "uac_store s = UA_store_idle \<Longrightarrow> length v = n \<Longrightarrow>
    ua_store_step n s (s\<lparr>uac_store := UA_storing v (ua_write_cell (uac_atomic s)) 0\<rparr>)"
| ua_store_word: "uac_store s = UA_storing v wc k \<Longrightarrow> k < n \<Longrightarrow>
    ua_store_step n s (s\<lparr>uac_atomic := (uac_atomic s)
      \<lparr>ua_data := (ua_data (uac_atomic s))[wc mod NUMBER_OF_CELLS :=
        (ua_data (uac_atomic s) ! (wc mod NUMBER_OF_CELLS))[k := v ! k]]\<rparr>,
      uac_store := UA_storing v wc (Suc k)\<rparr>)"
| ua_store_publish: "uac_store s = UA_storing v wc n \<Longrightarrow>
    ua_store_step n s (s\<lparr>uac_atomic := (uac_atomic s)
      \<lparr>ua_write_cell := ua_write_cell (uac_atomic s) + 1\<rparr>,
      uac_store := UA_store_idle, uac_history := uac_history s @ [v]\<rparr>)"

inductive ua_load_step :: "nat \<Rightarrow> ua_conf \<Rightarrow> ua_conf \<Rightarrow> bool" for n where
  ua_load_begin: "uac_load s = UA_load_idle \<Longrightarrow>
    ua_load_step n s (s\<lparr>uac_load := UA_loading (ua_write_cell (uac_atomic s) - 1) []\<rparr>)"
| ua_load_word: "uac_load s = UA_loading rc ws \<Longrightarrow> length ws < n \<Longrightarrow>
    ua_load_step n s (s\<lparr>uac_load := UA_loading rc
      (ws @ [(ua_data (uac_atomic s) ! (rc mod NUMBER_OF_CELLS)) ! length ws])\<rparr>)"
| ua_load_same: "uac_load s = UA_loading rc ws \<Longrightarrow> length ws = n \<Longrightarrow>
    ua_write_cell (uac_atomic s) - 1 = rc \<Longrightarrow>
    ua_load_step n s (s\<lparr>uac_load := UA_load_done (ua_write_cell (uac_atomic s)) ws\<rparr>)"
| ua_load_changed: "uac_load s = UA_loading rc ws \<Longrightarrow> length ws = n \<Longrightarrow>
    ua_write_cell (uac_atomic s) - 1 \<noteq> rc \<Longrightarrow>
    ua_load_step n s (s\<lparr>uac_load := UA_loading (ua_write_cell (uac_atomic s) - 1) []\<rparr>)"
| ua_load_return: "uac_load s = UA_load_done m ws \<Longrightarrow>
    ua_load_step n s (s\<lparr>uac_load := UA_load_idle\<rparr>)"

definition ua_step :: "nat \<Rightarrow> ua_conf \<Rightarrow> ua_conf \<Rightarrow> bool" where
  "ua_step n s t \<longleftrightarrow> ua_store_step n s t \<or> ua_load_step n s t"

definition ua_start :: "nat list \<Rightarrow> nat list \<Rightarrow> ua_conf" where
  "ua_start junk value = \<lparr>uac_atomic = UnrestrictedAtomic_new junk value,
     uac_store = UA_store_idle, uac_load = UA_load_idle, uac_history = [value]\<rparr>"

section \<open>Invariant\<close>

fun ua_store_ok :: "nat \<Rightarrow> UnrestrictedAtomic \<Rightarrow> ua_store_pc \<Rightarrow> bool" where
  "ua_store_ok n a UA_store_idle = True"
| "ua_store_ok n a (UA_storing v wc k) = (wc = ua_write_cell a \<and> length v = n \<and> k \<le> n
     \<and> take k (ua_data a ! (wc mod 2)) = take k v)"

fun ua_load_ok :: "nat \<Rightarrow> UnrestrictedAtomic \<Rightarrow> nat list list \<Rightarrow> ua_load_pc \<Rightarrow> bool" where
  "ua_load_ok n a h UA_load_idle = True"
| "ua_load_ok n a h (UA_loading rc ws) = (rc < ua_write_cell a \<and> length ws \<le> n
     \<and> (rc + 1 = ua_write_cell a \<longrightarrow> take (length ws) (h ! rc) = ws))"
| "ua_load_ok n a h (UA_load_done m ws) = (0 < m \<and> m \<le> ua_write_cell a \<and> ws = h ! (m - 1))"

text \<open>All values have the same number of words.\<close>

definition all_len :: "nat \<Rightarrow> 'a list list \<Rightarrow> bool" where
  "all_len n vs \<longleftrightarrow> (\<forall>v \<in> set vs. length v = n)"

lemma all_len_simps [simp]:
  "all_len n []" "all_len n (v # vs) \<longleftrightarrow> length v = n \<and> all_len n vs"
  "all_len n (vs @ ws) \<longleftrightarrow> all_len n vs \<and> all_len n ws"
  by (auto simp: all_len_def)

lemma all_len_nth: "all_len n vs \<Longrightarrow> i < length vs \<Longrightarrow> length (vs ! i) = n"
  by (simp add: all_len_def)

lemma all_len_update: "all_len n vs \<Longrightarrow> length v = n \<Longrightarrow> all_len n (vs[i := v])"
  unfolding all_len_def using set_update_subset_insert[of vs i v] by blast

definition uac_inv :: "nat \<Rightarrow> ua_conf \<Rightarrow> bool" where
  "uac_inv n s \<longleftrightarrow> length (ua_data (uac_atomic s)) = 2
     \<and> all_len n (ua_data (uac_atomic s))
     \<and> 0 < ua_write_cell (uac_atomic s)
     \<and> length (uac_history s) = ua_write_cell (uac_atomic s)
     \<and> ua_data (uac_atomic s) ! ((ua_write_cell (uac_atomic s) - 1) mod 2)
        = uac_history s ! (ua_write_cell (uac_atomic s) - 1)
     \<and> all_len n (uac_history s)
     \<and> ua_store_ok n (uac_atomic s) (uac_store s)
     \<and> ua_load_ok n (uac_atomic s) (uac_history s) (uac_load s)"

lemma uac_inv_start:
  "length value = n \<Longrightarrow> length junk = n \<Longrightarrow> uac_inv n (ua_start junk value)"
  by (simp add: uac_inv_def ua_start_def UnrestrictedAtomic_new_def)

lemma cell_len:
  assumes "uac_inv n s"
  shows "length (ua_data (uac_atomic s) ! (i mod 2)) = n"
  using assms by (simp add: uac_inv_def all_len_nth)

lemma other_cell: "0 < (w::nat) \<Longrightarrow> (w - Suc 0) mod 2 \<noteq> w mod 2"
  by (cases w) (auto simp: mod_Suc)

lemma uac_store_word_ok:
  assumes "uac_inv n s" "uac_store s = UA_storing v wc k" "k < n"
  shows "uac_inv n (s\<lparr>uac_atomic := (uac_atomic s)
      \<lparr>ua_data := (ua_data (uac_atomic s))[wc mod NUMBER_OF_CELLS :=
        (ua_data (uac_atomic s) ! (wc mod NUMBER_OF_CELLS))[k := v ! k]]\<rparr>,
      uac_store := UA_storing v wc (Suc k)\<rparr>)"
proof -
  let ?a = "uac_atomic s" and ?w = "ua_write_cell (uac_atomic s)"
  let ?c = "(ua_data ?a ! (wc mod 2))[k := v ! k]"
  have w: "wc = ?w" "0 < ?w" "length v = n" "length (ua_data ?a) = 2"
    "take k (ua_data ?a ! (?w mod 2)) = take k v"
    using assms by (auto simp: uac_inv_def)
  have lc: "length ?c = n"
    using cell_len[OF assms(1)] by simp
  have "take (Suc k) ?c = take (Suc k) v"
    using w assms(3) cell_len[OF assms(1), of ?w] by (simp add: take_Suc_conv_app_nth)
  moreover have "ua_load_ok n (?a\<lparr>ua_data := (ua_data ?a)[wc mod 2 := ?c]\<rparr>) (uac_history s) (uac_load s)"
    using assms(1) by (cases "uac_load s") (auto simp: uac_inv_def)
  moreover have "all_len n ((ua_data ?a)[wc mod 2 := ?c])"
    using assms(1) lc by (simp add: uac_inv_def all_len_update)
  ultimately show ?thesis
    using assms w other_cell[of ?w] by (simp add: uac_inv_def NUMBER_OF_CELLS_def)
qed

lemma uac_publish_ok:
  assumes "uac_inv n s" "uac_store s = UA_storing v wc n"
  shows "uac_inv n (s\<lparr>uac_atomic := (uac_atomic s)
      \<lparr>ua_write_cell := ua_write_cell (uac_atomic s) + 1\<rparr>,
      uac_store := UA_store_idle, uac_history := uac_history s @ [v]\<rparr>)"
proof -
  let ?a = "uac_atomic s" and ?w = "ua_write_cell (uac_atomic s)"
  have w: "wc = ?w" "length v = n" "length (uac_history s) = ?w"
    "take n (ua_data ?a ! (?w mod 2)) = take n v"
    using assms by (auto simp: uac_inv_def)
  have "ua_data ?a ! (?w mod 2) = v"
    using w cell_len[OF assms(1), of ?w] by simp
  moreover have "ua_load_ok n (?a\<lparr>ua_write_cell := ?w + 1\<rparr>) (uac_history s @ [v]) (uac_load s)"
    using assms(1) w by (cases "uac_load s") (auto simp: uac_inv_def nth_append)
  ultimately show ?thesis
    using assms w by (simp add: uac_inv_def nth_append)
qed

lemma uac_load_word_ok:
  assumes "uac_inv n s" "uac_load s = UA_loading rc ws" "length ws < n"
  shows "uac_inv n (s\<lparr>uac_load := UA_loading rc
      (ws @ [(ua_data (uac_atomic s) ! (rc mod NUMBER_OF_CELLS)) ! length ws])\<rparr>)"
proof -
  let ?a = "uac_atomic s"
  have "take (Suc (length ws)) (uac_history s ! rc) = ws @ [(ua_data ?a ! (rc mod 2)) ! length ws]"
    if r: "rc + 1 = ua_write_cell ?a"
  proof -
    have h: "ua_data ?a ! (rc mod 2) = uac_history s ! rc" "take (length ws) (uac_history s ! rc) = ws"
      "length (uac_history s ! rc) = n"
      using assms r[symmetric] by (auto simp: uac_inv_def all_len_nth)
    then show ?thesis
      using assms(3) by (simp add: take_Suc_conv_app_nth)
  qed
  then show ?thesis
    using assms by (simp add: uac_inv_def NUMBER_OF_CELLS_def)
qed

interpretation uac: inductive_invariant
  "\<lambda>s. \<exists>junk value. s = ua_start junk value \<and> length junk = n \<and> length value = n"
  "ua_step n" "uac_inv n"
proof unfold_locales
  show "uac_inv n s"
    if "\<exists>junk value. s = ua_start junk value \<and> length junk = n \<and> length value = n" for s
    using that by (auto intro: uac_inv_start)
  have load: "uac_inv n t" if "uac_inv n s" "ua_load_step n s t" for s t
    using that(2,1)
  proof (cases rule: ua_load_step.cases)
    case (ua_load_word rc ws)
    then show ?thesis
      using uac_load_word_ok that(1) by simp
  next
    case (ua_load_same rc ws)
    then have "length (uac_history s ! rc) = n" "take (length ws) (uac_history s ! rc) = ws"
      using that(1) by (auto simp: uac_inv_def all_len_nth)
    then show ?thesis
      using that(1) ua_load_same by (simp add: uac_inv_def)
  qed (auto simp: uac_inv_def)
  have store: "uac_inv n t" if "uac_inv n s" "ua_store_step n s t" for s t
    using that(2,1)
  proof (cases rule: ua_store_step.cases)
    case (ua_store_word v wc k)
    then show ?thesis
      using uac_store_word_ok that(1) by simp
  next
    case (ua_store_publish v wc)
    then show ?thesis
      using uac_publish_ok that(1) by simp
  qed (auto simp: uac_inv_def)
  show "uac_inv n t" if "uac_inv n s" "ua_step n s t" for s t
    using that load store unfolding ua_step_def by blast
qed

section \<open>Properties\<close>

text \<open>
  C8: A concurrent \<open>load\<close> never returns a torn or a stale value: although the words of a
  value are copied one by one while the producer may be writing, the value that is
  returned is exactly the one of the newest store that had completed when the load looked
  at the counter for the last time.
\<close>

theorem unrestricted_atomic_load_untorn:
  assumes "reachable (\<lambda>s. \<exists>junk value. s = ua_start junk value \<and> length junk = n \<and> length value = n)
      (ua_step n) s"
    and "uac_load s = UA_loading rc ws" "ua_load_step n s t" "uac_load t = UA_load_done m r"
  shows "r = last (uac_history s) \<and> m = length (uac_history s)"
proof -
  have "uac_inv n t"
    using assms(1,3) by (intro uac.reachable_inv) (auto simp: ua_step_def intro: reachable_step)
  moreover have "m = ua_write_cell (uac_atomic t) \<and> uac_history t = uac_history s"
    using assms(3,2,4) by (cases rule: ua_load_step.cases) auto
  ultimately have "m = length (uac_history s) \<and> r = uac_history s ! (length (uac_history s) - 1)
      \<and> uac_history s \<noteq> []"
    using assms(4) by (auto simp: uac_inv_def)
  then show ?thesis
    by (simp add: last_conv_nth)
qed

theorem unrestricted_atomic_load_untorn_witness:
  "\<exists>s t rc ws. uac_load s = UA_loading rc ws \<and> ua_load_step 1 s t
     \<and> uac_load t = UA_load_done 2 [8] \<and> [8] = last (uac_history s)"
proof -
  let ?s0 = "ua_start [0] [7]"
  let ?s1 = "?s0\<lparr>uac_store := UA_storing [8] 1 0\<rparr>"
  let ?s2 = "?s1\<lparr>uac_atomic := (uac_atomic ?s1)\<lparr>ua_data := [[7], [8]]\<rparr>,
    uac_store := UA_storing [8] 1 1\<rparr>"
  let ?s3 = "?s2\<lparr>uac_atomic := (uac_atomic ?s2)\<lparr>ua_write_cell := 2\<rparr>,
    uac_store := UA_store_idle, uac_history := [[7], [8]]\<rparr>"
  let ?s4 = "?s3\<lparr>uac_load := UA_loading 1 []\<rparr>"
  let ?s5 = "?s4\<lparr>uac_load := UA_loading 1 [8]\<rparr>"
  let ?s6 = "?s5\<lparr>uac_load := UA_load_done 2 [8]\<rparr>"
  let ?R = "reachable (\<lambda>s. \<exists>junk value. s = ua_start junk value \<and> length junk = 1 \<and> length value = 1)
    (ua_step 1)"
  note d = ua_step_def ua_start_def UnrestrictedAtomic_new_def NUMBER_OF_CELLS_def
  have s0: "?R ?s0"
    by (rule reachable_init) (intro exI[of _ "[0]"] exI[of _ "[7]"], simp)
  have s1: "?R ?s1"
    using ua_store_begin[of ?s0 "[8]" 1] by (intro reachable_step[OF s0]) (simp add: d)
  have s2: "?R ?s2"
    using ua_store_word[of ?s1 "[8]" 1 0 1] by (intro reachable_step[OF s1]) (simp add: d)
  have s3: "?R ?s3"
    using ua_store_publish[of ?s2 "[8]" 1 1] by (intro reachable_step[OF s2]) (simp add: d numeral_2_eq_2)
  have s4: "?R ?s4"
    using ua_load_begin[of ?s3 1] by (intro reachable_step[OF s3]) (simp add: d)
  have s5: "?R ?s5"
    using ua_load_word[of ?s4 1 "[]" 1] by (intro reachable_step[OF s4]) (simp add: d)
  have s6: "ua_load_step 1 ?s5 ?s6"
    using ua_load_same[of ?s5 1 "[8]" 1] by (simp add: d)
  have "[8] = last (uac_history ?s5)"
    using unrestricted_atomic_load_untorn[OF s5 _ s6, of 1 "[8]" 2 "[8]"] by simp
  then show ?thesis
    using s6 by (intro exI[of _ ?s5] exI[of _ ?s6] exI[of _ 1] exI[of _ "[8]"]) simp
qed

end
