(* ===== verification/UniqueIndexSet.thy ===== *)
theory UniqueIndexSet
  imports Elementary
begin

unbundle bit_operations_syntax

text \<open>
  The lock-free set of unique indices,
  \<open>iceoryx2_bb/lock_free/src/mpmc/unique_index_set.rs\<close>: a free list threaded through an
  array of 32-bit cells. The 64-bit head packs the first free index with a counter that
  is incremented by every change of the head. The arithmetic on the counter wraps, as in
  an unchecked build. The operations come first; the second part interleaves the atomic
  accesses of any number of threads.
\<close>

section \<open>Operations\<close>

datatype UniqueIndexCreationError =
    ProvidedCapacityGreaterThanMaxCapacity
  | ProvidedCapacityIsZero

record UniqueIndexSet =
  ui_data :: "32 word list"
  ui_capacity :: "32 word"
  ui_borrowed_indices :: nat
  ui_head :: "64 word"
  ui_is_memory_initialized :: bool

definition extract_head_and_aba :: "64 word \<Rightarrow> 32 word \<times> 32 word" where
  "extract_head_and_aba value =
     (ucast (drop_bit 32 value), ucast (drop_bit 32 (push_bit 32 value)))"

definition pack_from_head_and_aba :: "32 word \<Rightarrow> 32 word \<Rightarrow> 64 word" where
  "pack_from_head_and_aba value1 value2 = (push_bit 32 (ucast value1)) OR ucast value2"

definition UniqueIndexSet_new_uninit :: "nat \<Rightarrow> UniqueIndexSet" where
  "UniqueIndexSet_new_uninit capacity = \<lparr>ui_data = [], ui_capacity = word_of_nat capacity,
     ui_borrowed_indices = 0, ui_head = 0, ui_is_memory_initialized = False\<rparr>"

definition UniqueIndexSet_init ::
  "'m allocate_op \<Rightarrow> UniqueIndexSet \<Rightarrow> 'm
     \<Rightarrow> ((unit, AllocationError) result \<times> UniqueIndexSet \<times> 'm) outcome" where
  "UniqueIndexSet_init allocate s m =
     (if ui_is_memory_initialized s then Panic
      else case allocate (mk_layout (4 * unat (ui_capacity s + 1)) 4) m of
        (Err e, m') \<Rightarrow> Ret (Err e, s, m')
      | (Ok _, m') \<Rightarrow> Ret (Ok (), s\<lparr>
          ui_data := map (\<lambda>i. word_of_nat i + 1) [0..<unat (ui_capacity s + 1)],
          ui_is_memory_initialized := True\<rparr>, m'))"

definition UniqueIndexSet_const_memory_size :: "nat \<Rightarrow> nat" where
  "UniqueIndexSet_const_memory_size capacity = 4 * (capacity + 1) + 4 - 1"

definition UniqueIndexSet_acquire_raw_index ::
  "UniqueIndexSet \<Rightarrow> (32 word option \<times> UniqueIndexSet) outcome" where
  "UniqueIndexSet_acquire_raw_index s =
     (if \<not> ui_is_memory_initialized s then Panic
      else let (old_head, old_aba) = extract_head_and_aba (ui_head s)
        in if ui_capacity s \<le> old_head then Ret (None, s)
           else let new_head = ui_data s ! unat old_head;
                    new = pack_from_head_and_aba new_head (old_aba + 1)
             in Ret (Some old_head,
                  s\<lparr>ui_head := new,
                    ui_data := (ui_data s)[unat old_head := ui_capacity s + 1],
                    ui_borrowed_indices := ui_borrowed_indices s + 1\<rparr>))"

definition UniqueIndexSet_release_raw_index ::
  "32 word \<Rightarrow> UniqueIndexSet \<Rightarrow> UniqueIndexSet outcome" where
  "UniqueIndexSet_release_raw_index index s =
     (if \<not> ui_is_memory_initialized s then Panic
      else let (old_head, old_aba) = extract_head_and_aba (ui_head s);
               new = pack_from_head_and_aba index (old_aba + 1)
        in Ret (s\<lparr>ui_data := (ui_data s)[unat index := old_head],
                  ui_head := new,
                  ui_borrowed_indices := ui_borrowed_indices s - 1\<rparr>))"

text \<open>
  A \<open>UniqueIndex\<close> carries an optional callback that runs before the index is given
  back when it is dropped; \<open>cleanup\<close> is its effect on the rest of the state.
\<close>

definition UniqueIndex_drop ::
  "(32 word \<Rightarrow> 'r \<Rightarrow> 'r) option \<Rightarrow> 32 word \<Rightarrow> 'r \<times> UniqueIndexSet
     \<Rightarrow> ('r \<times> UniqueIndexSet) outcome" where
  "UniqueIndex_drop cleanup_callback value st =
     (let r = (case cleanup_callback of None \<Rightarrow> fst st | Some f \<Rightarrow> f value (fst st))
      in outcome_bind (UniqueIndexSet_release_raw_index value (snd st)) (\<lambda>s. Ret (r, s)))"

definition FixedSizeUniqueIndexSet_new :: "nat \<Rightarrow> UniqueIndexSet" where
  "FixedSizeUniqueIndexSet_new CAPACITY =
     \<lparr>ui_data = map (\<lambda>i. word_of_nat i + 1) [0..<CAPACITY] @ [word_of_nat CAPACITY + 1],
      ui_capacity = word_of_nat CAPACITY, ui_borrowed_indices = 0, ui_head = 0,
      ui_is_memory_initialized = True\<rparr>"

definition FixedSizeUniqueIndexSet_new_with_reduced_capacity ::
  "nat \<Rightarrow> nat \<Rightarrow> (UniqueIndexSet, UniqueIndexCreationError) result" where
  "FixedSizeUniqueIndexSet_new_with_reduced_capacity CAPACITY capacity =
     (if CAPACITY < capacity then Err ProvidedCapacityGreaterThanMaxCapacity
      else if capacity = 0 then Err ProvidedCapacityIsZero
      else Ok \<lparr>ui_data = map (\<lambda>i. word_of_nat i + 1) [0..<CAPACITY] @ [word_of_nat capacity + 1],
        ui_capacity = word_of_nat capacity, ui_borrowed_indices = 0, ui_head = 0,
        ui_is_memory_initialized = True\<rparr>)"

section \<open>Atomic steps\<close>

text \<open>
  Where a thread is in \<open>acquire_raw_index\<close> or \<open>release_raw_index\<close>. The head is loaded
  or comes back from a failed exchange, the cell is read or written, then the exchange is
  tried.
\<close>

datatype ui_pc =
    UI_idle
  | UI_acq_loaded "64 word"
  | UI_acq_next "64 word" "32 word"
  | UI_acq_won "32 word"
  | UI_acq_cleared "32 word"
  | UI_rel_loaded "32 word" "64 word"
  | UI_rel_linked "32 word" "64 word"
  | UI_rel_done

text \<open>
  A configuration: the shared set, the program counter of every thread and the indices
  its caller holds; as history the free list and the number of changes of the head.
\<close>

record ui_conf =
  uic_set :: UniqueIndexSet
  uic_pc :: "nat \<Rightarrow> ui_pc"
  uic_held :: "nat \<Rightarrow> 32 word set"
  uic_free :: "32 word list"
  uic_ops :: nat

inductive ui_step :: "nat \<Rightarrow> ui_conf \<Rightarrow> ui_conf \<Rightarrow> bool" for t where
  ui_acq_load: "uic_pc s t = UI_idle \<Longrightarrow>
    ui_step t s (s\<lparr>uic_pc := (uic_pc s)(t := UI_acq_loaded (ui_head (uic_set s)))\<rparr>)"
| ui_acq_none: "uic_pc s t = UI_acq_loaded old \<Longrightarrow>
    ui_capacity (uic_set s) \<le> fst (extract_head_and_aba old) \<Longrightarrow>
    ui_step t s (s\<lparr>uic_pc := (uic_pc s)(t := UI_idle)\<rparr>)"
| ui_acq_read: "uic_pc s t = UI_acq_loaded old \<Longrightarrow>
    fst (extract_head_and_aba old) < ui_capacity (uic_set s) \<Longrightarrow>
    ui_step t s (s\<lparr>uic_pc := (uic_pc s)(t := UI_acq_next old
      (ui_data (uic_set s) ! unat (fst (extract_head_and_aba old))))\<rparr>)"
| ui_acq_cas: "uic_pc s t = UI_acq_next old new_head \<Longrightarrow> ui_head (uic_set s) = old \<Longrightarrow>
    ui_step t s (s\<lparr>uic_set := (uic_set s)\<lparr>ui_head :=
        pack_from_head_and_aba new_head (snd (extract_head_and_aba old) + 1)\<rparr>,
      uic_pc := (uic_pc s)(t := UI_acq_won (fst (extract_head_and_aba old))),
      uic_free := tl (uic_free s), uic_ops := uic_ops s + 1\<rparr>)"
| ui_acq_cas_fails: "uic_pc s t = UI_acq_next old new_head \<Longrightarrow> ui_head (uic_set s) \<noteq> old \<Longrightarrow>
    ui_step t s (s\<lparr>uic_pc := (uic_pc s)(t := UI_acq_loaded (ui_head (uic_set s)))\<rparr>)"
| ui_acq_clear: "uic_pc s t = UI_acq_won i \<Longrightarrow>
    ui_step t s (s\<lparr>uic_set := (uic_set s)\<lparr>ui_data :=
        (ui_data (uic_set s))[unat i := ui_capacity (uic_set s) + 1]\<rparr>,
      uic_pc := (uic_pc s)(t := UI_acq_cleared i)\<rparr>)"
| ui_acq_return: "uic_pc s t = UI_acq_cleared i \<Longrightarrow>
    ui_step t s (s\<lparr>uic_set := (uic_set s)\<lparr>ui_borrowed_indices :=
        ui_borrowed_indices (uic_set s) + 1\<rparr>,
      uic_pc := (uic_pc s)(t := UI_idle),
      uic_held := (uic_held s)(t := insert i (uic_held s t))\<rparr>)"
| ui_rel_load: "uic_pc s t = UI_idle \<Longrightarrow> i \<in> uic_held s t \<Longrightarrow>
    ui_step t s (s\<lparr>uic_pc := (uic_pc s)(t := UI_rel_loaded i (ui_head (uic_set s))),
      uic_held := (uic_held s)(t := uic_held s t - {i})\<rparr>)"
| ui_rel_link: "uic_pc s t = UI_rel_loaded i old \<Longrightarrow>
    ui_step t s (s\<lparr>uic_set := (uic_set s)\<lparr>ui_data :=
        (ui_data (uic_set s))[unat i := fst (extract_head_and_aba old)]\<rparr>,
      uic_pc := (uic_pc s)(t := UI_rel_linked i old)\<rparr>)"
| ui_rel_cas: "uic_pc s t = UI_rel_linked i old \<Longrightarrow> ui_head (uic_set s) = old \<Longrightarrow>
    ui_step t s (s\<lparr>uic_set := (uic_set s)\<lparr>ui_head :=
        pack_from_head_and_aba i (snd (extract_head_and_aba old) + 1)\<rparr>,
      uic_pc := (uic_pc s)(t := UI_rel_done),
      uic_free := i # uic_free s, uic_ops := uic_ops s + 1\<rparr>)"
| ui_rel_cas_fails: "uic_pc s t = UI_rel_linked i old \<Longrightarrow> ui_head (uic_set s) \<noteq> old \<Longrightarrow>
    ui_step t s (s\<lparr>uic_pc := (uic_pc s)(t := UI_rel_loaded i (ui_head (uic_set s)))\<rparr>)"
| ui_rel_return: "uic_pc s t = UI_rel_done \<Longrightarrow>
    ui_step t s (s\<lparr>uic_set := (uic_set s)\<lparr>ui_borrowed_indices :=
        ui_borrowed_indices (uic_set s) - 1\<rparr>,
      uic_pc := (uic_pc s)(t := UI_idle)\<rparr>)"

definition ui_any_step :: "ui_conf \<Rightarrow> ui_conf \<Rightarrow> bool" where
  "ui_any_step s s' \<longleftrightarrow> (\<exists>t. ui_step t s s')"

definition ui_start :: "nat \<Rightarrow> ui_conf" where
  "ui_start capacity = \<lparr>uic_set = FixedSizeUniqueIndexSet_new capacity,
     uic_pc = (\<lambda>_. UI_idle), uic_held = (\<lambda>_. {}),
     uic_free = map word_of_nat [0..<capacity], uic_ops = 0\<rparr>"

section \<open>Packing\<close>

lemma extract_pack [simp]: "extract_head_and_aba (pack_from_head_and_aba h a) = (h, a)"
proof -
  have "ucast (drop_bit 32 (push_bit 32 (ucast h) OR (ucast a :: 64 word))) = h"
    by (rule bit_word_eqI) (auto simp: bit_simps dest: bit_imp_le_length)
  moreover have "ucast (drop_bit 32 (push_bit 32 (push_bit 32 (ucast h) OR (ucast a :: 64 word)))) = a"
    by (rule bit_word_eqI) (auto simp: bit_simps dest: bit_imp_le_length)
  ultimately show ?thesis
    by (simp add: extract_head_and_aba_def pack_from_head_and_aba_def)
qed

lemma pack_extract:
  "pack_from_head_and_aba (fst (extract_head_and_aba v)) (snd (extract_head_and_aba v)) = v"
  unfolding extract_head_and_aba_def pack_from_head_and_aba_def
  by (rule bit_word_eqI) (auto simp: bit_simps)

lemma extract_inj: "extract_head_and_aba u = extract_head_and_aba v \<Longrightarrow> u = v"
  by (metis pack_extract)

section \<open>The free list\<close>

text \<open>\<open>free_chain d c h xs\<close>: following the cells \<open>d\<close> from \<open>h\<close> up to the capacity \<open>c\<close> visits \<open>xs\<close>.\<close>

primrec free_chain :: "32 word list \<Rightarrow> 32 word \<Rightarrow> 32 word \<Rightarrow> 32 word list \<Rightarrow> bool" where
  "free_chain d c h [] = (h = c)"
| "free_chain d c h (x # xs) = (h = x \<and> x < c \<and> free_chain d c (d ! unat x) xs)"

primrec free_walk :: "nat \<Rightarrow> 32 word list \<Rightarrow> 32 word \<Rightarrow> 32 word \<Rightarrow> 32 word list" where
  "free_walk 0 d c h = []"
| "free_walk (Suc n) d c h = (if c \<le> h then [] else h # free_walk n d c (d ! unat h))"

lemma free_chain_walk: "free_chain d c h xs \<Longrightarrow> length xs \<le> n \<Longrightarrow> free_walk n d c h = xs"
proof (induction xs arbitrary: h n)
  case Nil
  then show ?case
    by (cases n) auto
next
  case (Cons x xs)
  then show ?case
    by (cases n) (auto simp: not_le)
qed

lemma free_chain_bound: "free_chain d c h xs \<Longrightarrow> x \<in> set xs \<Longrightarrow> x < c"
  by (induction xs arbitrary: h) auto

lemma free_chain_update:
  assumes "free_chain d c h xs" "i \<notin> set xs"
  shows "free_chain (d[unat i := v]) c h xs"
  using assms by (induction xs arbitrary: h) (auto simp: nth_list_update_neq word_unat_eq_iff)

lemma free_chain_nonempty: "free_chain d c h xs \<Longrightarrow> h < c \<Longrightarrow> \<exists>ys. xs = h # ys"
  by (cases xs) auto

lemma free_chain_empty: "free_chain d c h xs \<Longrightarrow> c \<le> h \<Longrightarrow> xs = []"
  by (cases xs) auto

lemma card_lessThan_word: "finite {i::32 word. i < c}" "card {i::32 word. i < c} = unat c"
proof -
  have "bij_betw unat {i. i < c} {..<unat c}"
  proof (rule bij_betwI')
    show "\<exists>x \<in> {i. i < c}. y = unat x" if "y \<in> {..<unat c}" for y
    proof
      have "unat c < 2 ^ LENGTH(32)"
        by (rule unsigned_less)
      then have "y < 2 ^ LENGTH(32)"
        using that by simp
      then show "y = unat (word_of_nat y :: 32 word)"
        by (simp add: unsigned_of_nat take_bit_nat_eq_self)
      then show "word_of_nat y \<in> {i. i < c}"
        using that by (simp add: word_less_nat_alt)
    qed
  qed (auto simp: word_unat_eq_iff word_less_nat_alt)
  then show "card {i. i < c} = unat c"
    using bij_betw_same_card by fastforce
qed simp

lemma distinct_below_length:
  assumes "distinct xs" "\<And>x. x \<in> set xs \<Longrightarrow> x < (c::32 word)"
  shows "length xs \<le> unat c"
proof -
  have "card (set xs) \<le> card {i. i < c}"
    using assms by (intro card_mono card_lessThan_word) auto
  then show ?thesis
    using assms(1) by (simp add: card_lessThan_word distinct_card)
qed

definition ui_free :: "UniqueIndexSet \<Rightarrow> 32 word list" where
  "ui_free s = free_walk (unat (ui_capacity s)) (ui_data s) (ui_capacity s)
     (fst (extract_head_and_aba (ui_head s)))"

definition ui_inv :: "UniqueIndexSet \<Rightarrow> bool" where
  "ui_inv s \<longleftrightarrow> ui_is_memory_initialized s \<and> unat (ui_capacity s) < length (ui_data s)
     \<and> free_chain (ui_data s) (ui_capacity s) (fst (extract_head_and_aba (ui_head s))) (ui_free s)
     \<and> distinct (ui_free s)
     \<and> ui_borrowed_indices s + length (ui_free s) = unat (ui_capacity s)"

lemma ui_inv_intro:
  assumes "ui_is_memory_initialized s" "unat (ui_capacity s) < length (ui_data s)"
    "free_chain (ui_data s) (ui_capacity s) (fst (extract_head_and_aba (ui_head s))) xs"
    "distinct xs" "ui_borrowed_indices s + length xs = unat (ui_capacity s)"
  shows "ui_inv s \<and> ui_free s = xs"
proof -
  have "ui_free s = xs"
    unfolding ui_free_def using free_chain_walk[OF assms(3)] assms(5) by simp
  then show ?thesis
    using assms by (simp add: ui_inv_def)
qed

lemma ui_acquire_ok:
  assumes "ui_inv s" "ui_free s = x # xs"
  shows "\<exists>s'. UniqueIndexSet_acquire_raw_index s = Ret (Some x, s') \<and> ui_inv s' \<and> ui_free s' = xs
    \<and> ui_capacity s' = ui_capacity s
    \<and> ui_borrowed_indices s' = ui_borrowed_indices s + 1"
proof -
  let ?h = "fst (extract_head_and_aba (ui_head s))"
  let ?s = "s\<lparr>ui_head := pack_from_head_and_aba (ui_data s ! unat x)
        (snd (extract_head_and_aba (ui_head s)) + 1),
      ui_data := (ui_data s)[unat x := ui_capacity s + 1],
      ui_borrowed_indices := ui_borrowed_indices s + 1\<rparr>"
  have c: "?h = x" "x < ui_capacity s" "free_chain (ui_data s) (ui_capacity s) (ui_data s ! unat x) xs"
    "x \<notin> set xs" "distinct xs"
    using assms by (auto simp: ui_inv_def)
  then have "UniqueIndexSet_acquire_raw_index s = Ret (Some x, ?s)"
    using assms(1)
    by (auto simp: UniqueIndexSet_acquire_raw_index_def ui_inv_def Let_def not_le split: prod.splits)
  moreover have "ui_inv ?s \<and> ui_free ?s = xs"
    using assms c by (intro ui_inv_intro) (auto simp: ui_inv_def free_chain_update)
  ultimately show ?thesis
    by auto
qed

lemma ui_acquire_none:
  assumes "ui_inv s" "ui_free s = []"
  shows "UniqueIndexSet_acquire_raw_index s = Ret (None, s)"
  using assms by (auto simp: UniqueIndexSet_acquire_raw_index_def ui_inv_def split: prod.splits)

lemma ui_release_ok:
  assumes "ui_inv s" "i < ui_capacity s" "i \<notin> set (ui_free s)"
  shows "\<exists>s'. UniqueIndexSet_release_raw_index i s = Ret s' \<and> ui_inv s'
    \<and> ui_free s' = i # ui_free s \<and> ui_capacity s' = ui_capacity s
    \<and> ui_borrowed_indices s' + 1 = ui_borrowed_indices s"
proof -
  let ?h = "fst (extract_head_and_aba (ui_head s))"
  let ?s = "s\<lparr>ui_data := (ui_data s)[unat i := ?h],
      ui_head := pack_from_head_and_aba i (snd (extract_head_and_aba (ui_head s)) + 1),
      ui_borrowed_indices := ui_borrowed_indices s - 1\<rparr>"
  have "length (i # ui_free s) \<le> unat (ui_capacity s)"
    using assms free_chain_bound
    by (intro distinct_below_length) (auto simp: ui_inv_def)
  then have b: "0 < ui_borrowed_indices s"
    using assms(1) by (simp add: ui_inv_def)
  have "unat i < length (ui_data s)"
    using assms(1,2) by (simp add: ui_inv_def word_less_nat_alt)
  then have "ui_inv ?s \<and> ui_free ?s = i # ui_free s"
    using assms b by (intro ui_inv_intro) (auto simp: ui_inv_def free_chain_update)
  moreover have "UniqueIndexSet_release_raw_index i s = Ret ?s"
    using assms(1) by (auto simp: UniqueIndexSet_release_raw_index_def ui_inv_def split: prod.splits)
  ultimately show ?thesis
    using b by auto
qed

interpretation ui: index_pool ui_inv "\<lambda>s. unat (ui_capacity s)" "\<lambda>s. set (ui_free s)"
  UniqueIndexSet_acquire_raw_index UniqueIndexSet_release_raw_index
  "\<lambda>s. {i. i < ui_capacity s}"
proof (unfold_locales, goal_cases)
  case (1 s)
  then show ?case
    by (auto simp: ui_inv_def free_chain_bound)
next
  case (2 s)
  then show ?case
    by (simp add: card_lessThan_word)
next
  case (3 s)
  then show ?case
    by (simp add: ui_acquire_none)
next
  case (4 s)
  then obtain x xs where x: "ui_free s = x # xs"
    by (cases "ui_free s") auto
  then have "x \<notin> set xs"
    using 4(1) by (simp add: ui_inv_def)
  then show ?case
    using ui_acquire_ok[OF 4(1) x] x by fastforce
next
  case (5 s i)
  then show ?case
    using ui_release_ok[OF 5(1)] by fastforce
qed

section \<open>A new set\<close>

lemma unat_word32: "n < 2 ^ 32 \<Longrightarrow> unat (word_of_nat n :: 32 word) = n"
  by (simp add: unsigned_of_nat take_bit_nat_eq_self)

lemma word32_less: "m < n \<Longrightarrow> n < 2 ^ 32 \<Longrightarrow> (word_of_nat m :: 32 word) < word_of_nat n"
  by (simp add: word_less_nat_alt unat_word32)

lemma free_chain_from:
  assumes "c < 2 ^ 32" "\<And>i. i < c \<Longrightarrow> d ! i = word_of_nat i + 1" "k \<le> c"
  shows "free_chain d (word_of_nat c) (word_of_nat k) (map word_of_nat [k..<c])"
  using assms(3)
proof (induction "c - k" arbitrary: k)
  case (Suc n)
  then have k: "k < c" "n = c - Suc k"
    by auto
  then have "free_chain d (word_of_nat c) (word_of_nat (Suc k)) (map word_of_nat [Suc k..<c])"
    using Suc.hyps(1)[of "Suc k"] by simp
  moreover have "d ! unat (word_of_nat k :: 32 word) = word_of_nat (Suc k)"
    using assms(1) assms(2)[of k] k by (simp add: unat_word32 add.commute)
  ultimately show ?case
    using k assms(1) by (simp add: upt_conv_Cons word32_less)
qed simp

lemma distinct_word32: "c \<le> 2 ^ 32 \<Longrightarrow> distinct (map word_of_nat [0..<c] :: 32 word list)"
proof -
  assume c: "c \<le> 2 ^ 32"
  have "inj_on (word_of_nat :: nat \<Rightarrow> 32 word) {0..<c}"
  proof (rule inj_on_inverseI)
    show "unat (word_of_nat x :: 32 word) = x" if "x \<in> {0..<c}" for x
      using that c by (intro unat_word32) simp
  qed
  then show ?thesis
    by (simp add: distinct_map)
qed

lemma extract_zero [simp]: "extract_head_and_aba 0 = (0, 0)"
  by (simp add: extract_head_and_aba_def)

lemma FixedSizeUniqueIndexSet_new_inv:
  assumes "c < 2 ^ 32"
  shows "ui_inv (FixedSizeUniqueIndexSet_new c)
    \<and> ui_free (FixedSizeUniqueIndexSet_new c) = map word_of_nat [0..<c]"
  using assms free_chain_from[of c "map (\<lambda>i. word_of_nat i + 1) [0..<c] @ [word_of_nat c + 1]" 0]
  by (intro ui_inv_intro)
    (auto simp: FixedSizeUniqueIndexSet_new_def unat_word32 distinct_word32 nth_append)

lemma new_with_reduced_capacity_inv:
  assumes "CAPACITY < 2 ^ 32"
    "FixedSizeUniqueIndexSet_new_with_reduced_capacity CAPACITY c = Ok s"
  shows "ui_inv s \<and> ui_free s = map word_of_nat [0..<c]"
  using assms free_chain_from[of c "map (\<lambda>i. word_of_nat i + 1) [0..<CAPACITY] @ [word_of_nat c + 1]" 0]
  by (intro ui_inv_intro)
    (auto simp: FixedSizeUniqueIndexSet_new_with_reduced_capacity_def unat_word32 distinct_word32
      nth_append split: if_splits)

lemma UniqueIndexSet_init_inv:
  assumes "c + 1 < 2 ^ 32" "alloc (mk_layout (4 * (c + 1)) 4) m = (Ok p, m')"
  shows "\<exists>s. UniqueIndexSet_init alloc (UniqueIndexSet_new_uninit c) m = Ret (Ok (), s, m')
    \<and> ui_inv s \<and> ui_free s = map word_of_nat [0..<c]
    \<and> ui_capacity s = word_of_nat c"
proof -
  let ?s = "(UniqueIndexSet_new_uninit c)
    \<lparr>ui_data := map (\<lambda>i. word_of_nat i + 1) [0..<Suc c], ui_is_memory_initialized := True\<rparr>"
  have c: "unat (word_of_nat c + 1 :: 32 word) = Suc c"
    using unat_word32[of "Suc c"] assms(1) by (simp add: add.commute)
  have "UniqueIndexSet_init alloc (UniqueIndexSet_new_uninit c) m = Ret (Ok (), ?s, m')"
    using assms(2) by (simp add: UniqueIndexSet_init_def UniqueIndexSet_new_uninit_def c)
  moreover have "ui_inv ?s \<and> ui_free ?s = map word_of_nat [0..<c]"
    using assms(1) free_chain_from[of c "map (\<lambda>i. word_of_nat i + 1) [0..<Suc c]" 0]
    by (intro ui_inv_intro)
      (auto simp: UniqueIndexSet_new_uninit_def unat_word32 distinct_word32 nth_append)
  moreover have "ui_capacity ?s = word_of_nat c"
    by (simp add: UniqueIndexSet_new_uninit_def)
  ultimately show ?thesis
    by blast
qed

section \<open>Invariant of the interleaved system\<close>

fun ui_pc_index :: "ui_pc \<Rightarrow> 32 word set" where
  "ui_pc_index (UI_acq_won i) = {i}"
| "ui_pc_index (UI_acq_cleared i) = {i}"
| "ui_pc_index (UI_rel_loaded i old) = {i}"
| "ui_pc_index (UI_rel_linked i old) = {i}"
| "ui_pc_index _ = {}"

text \<open>The indices that a thread owns: held by its caller, or on their way in a call.\<close>

definition ui_owned :: "(nat \<Rightarrow> 32 word set) \<Rightarrow> (nat \<Rightarrow> ui_pc) \<Rightarrow> nat \<Rightarrow> 32 word set" where
  "ui_owned held pc t = held t \<union> ui_pc_index (pc t)"

text \<open>Every index below the capacity is free or owned by exactly one thread.\<close>

definition ui_partition :: "32 word \<Rightarrow> (nat \<Rightarrow> 32 word set) \<Rightarrow> 32 word list \<Rightarrow> bool" where
  "ui_partition c own free \<longleftrightarrow>
     (\<forall>t i. i \<in> own t \<longrightarrow> i < c \<and> i \<notin> set free)
     \<and> (\<forall>t t' i. i \<in> own t \<longrightarrow> i \<in> own t' \<longrightarrow> t = t')
     \<and> (\<forall>i < c. i \<in> set free \<or> (\<exists>t. i \<in> own t))"

lemma ui_partition_take:
  assumes "ui_partition c own (x # xs)" "distinct (x # xs)" "x < c"
  shows "ui_partition c (own(t := insert x (own t))) xs"
  using assms unfolding ui_partition_def by (auto split: if_splits)

lemma ui_partition_give:
  assumes "ui_partition c own xs" "i \<in> own t"
  shows "ui_partition c (own(t := own t - {i})) (i # xs)"
  using assms unfolding ui_partition_def by (auto split: if_splits)

text \<open>
  A head value that was read earlier: if its counter is the current number of changes, it
  still is the head. This is what the counter is for.
\<close>

definition ui_recent :: "nat \<Rightarrow> 64 word \<Rightarrow> 64 word \<Rightarrow> bool" where
  "ui_recent ops cur old \<longleftrightarrow> unat (snd (extract_head_and_aba old)) \<le> ops
     \<and> (unat (snd (extract_head_and_aba old)) = ops \<longrightarrow> old = cur)"

fun ui_pc_ok :: "UniqueIndexSet \<Rightarrow> nat \<Rightarrow> ui_pc \<Rightarrow> bool" where
  "ui_pc_ok u ops (UI_acq_loaded old) = ui_recent ops (ui_head u) old"
| "ui_pc_ok u ops (UI_acq_next old nh) = (ui_recent ops (ui_head u) old
     \<and> fst (extract_head_and_aba old) < ui_capacity u
     \<and> (old = ui_head u \<longrightarrow> nh = ui_data u ! unat (fst (extract_head_and_aba old))))"
| "ui_pc_ok u ops (UI_rel_loaded i old) = ui_recent ops (ui_head u) old"
| "ui_pc_ok u ops (UI_rel_linked i old) = (ui_recent ops (ui_head u) old
     \<and> ui_data u ! unat i = fst (extract_head_and_aba old))"
| "ui_pc_ok u ops _ = True"

definition ui_live :: "ui_conf \<Rightarrow> bool" where
  "ui_live s \<longleftrightarrow>
     unat (snd (extract_head_and_aba (ui_head (uic_set s)))) = uic_ops s
     \<and> free_chain (ui_data (uic_set s)) (ui_capacity (uic_set s))
         (fst (extract_head_and_aba (ui_head (uic_set s)))) (uic_free s)
     \<and> distinct (uic_free s)
     \<and> ui_partition (ui_capacity (uic_set s)) (ui_owned (uic_held s) (uic_pc s)) (uic_free s)
     \<and> (\<forall>t. uic_held s t \<inter> ui_pc_index (uic_pc s t) = {})
     \<and> (\<forall>t. ui_pc_ok (uic_set s) (uic_ops s) (uic_pc s t))"

definition uic_inv :: "nat \<Rightarrow> ui_conf \<Rightarrow> bool" where
  "uic_inv c s \<longleftrightarrow> c < 2 ^ 32 \<and> ui_capacity (uic_set s) = word_of_nat c
     \<and> length (ui_data (uic_set s)) = c + 1
     \<and> (uic_ops s < 2 ^ 32 \<longrightarrow> ui_live s)"

lemma ui_owned_update:
  "ui_owned (held(t := H)) (pc(t := p)) = (ui_owned held pc)(t := H \<union> ui_pc_index p)"
  "ui_owned held (pc(t := p)) = (ui_owned held pc)(t := held t \<union> ui_pc_index p)"
  by (auto simp: fun_eq_iff ui_owned_def)

lemma ui_owned_same:
  assumes "H \<union> ui_pc_index p = held t \<union> ui_pc_index (pc t)"
  shows "ui_owned (held(t := H)) (pc(t := p)) = ui_owned held pc"
  using assms by (auto simp: fun_eq_iff ui_owned_def)

lemma ui_owned_same_pc:
  assumes "ui_pc_index p = ui_pc_index (pc t)"
  shows "ui_owned held (pc(t := p)) = ui_owned held pc"
  using assms by (auto simp: fun_eq_iff ui_owned_def)

lemma ui_pc_ok_borrowed [simp]: "ui_pc_ok (u\<lparr>ui_borrowed_indices := b\<rparr>) ops p = ui_pc_ok u ops p"
  by (cases p) auto

lemma ui_recent_refl:
  "unat (snd (extract_head_and_aba h)) = ops \<Longrightarrow> ui_recent ops h h"
  by (simp add: ui_recent_def)

lemma ui_live_pc:
  assumes "ui_live s" "ui_pc_index p = ui_pc_index (uic_pc s t)"
    "ui_pc_ok (uic_set s) (uic_ops s) p"
  shows "ui_live (s\<lparr>uic_pc := (uic_pc s)(t := p)\<rparr>)"
proof -
  have "ui_owned (uic_held s) ((uic_pc s)(t := p)) = ui_owned (uic_held s) (uic_pc s)"
    using assms(2) by (rule ui_owned_same_pc)
  then show ?thesis
    using assms by (simp add: ui_live_def)
qed

lemma ui_live_return:
  assumes "ui_live s" "H \<union> ui_pc_index p = uic_held s t \<union> ui_pc_index (uic_pc s t)"
    "H \<inter> ui_pc_index p = {}" "ui_pc_ok (uic_set s) (uic_ops s) p"
  shows "ui_live (s\<lparr>uic_set := (uic_set s)\<lparr>ui_borrowed_indices := b\<rparr>,
    uic_pc := (uic_pc s)(t := p), uic_held := (uic_held s)(t := H)\<rparr>)"
proof -
  have "ui_owned ((uic_held s)(t := H)) ((uic_pc s)(t := p)) = ui_owned (uic_held s) (uic_pc s)"
    using assms(2) by (rule ui_owned_same)
  then show ?thesis
    using assms by (simp add: ui_live_def)
qed

text \<open>Only the owner of an index writes its cell.\<close>

lemma ui_pc_ok_write:
  assumes "ui_live s" "i \<in> ui_owned (uic_held s) (uic_pc s) t" "t' \<noteq> t"
  shows "ui_pc_ok ((uic_set s)\<lparr>ui_data := (ui_data (uic_set s))[unat i := v]\<rparr>) (uic_ops s) (uic_pc s t')"
proof (cases "uic_pc s t'")
  case (UI_acq_next old nh)
  have ok: "ui_pc_ok (uic_set s) (uic_ops s) (uic_pc s t')"
    using assms(1) by (simp add: ui_live_def)
  have "fst (extract_head_and_aba old) \<noteq> i" if "old = ui_head (uic_set s)"
    using ok UI_acq_next that assms(1,2) free_chain_nonempty
    by (fastforce simp: ui_live_def ui_partition_def)
  then show ?thesis
    using ok UI_acq_next by (auto simp: nth_list_update_neq word_unat_eq_iff)
next
  case (UI_rel_linked j old)
  then have "j \<in> ui_owned (uic_held s) (uic_pc s) t'"
    by (simp add: ui_owned_def)
  then have "j \<noteq> i"
    using assms unfolding ui_live_def ui_partition_def by blast
  moreover have "ui_pc_ok (uic_set s) (uic_ops s) (uic_pc s t')"
    using assms(1) by (simp add: ui_live_def)
  ultimately show ?thesis
    using UI_rel_linked by (auto simp: nth_list_update_neq word_unat_eq_iff)
next
  case (UI_acq_loaded old)
  then show ?thesis
    using assms(1) by (simp add: ui_live_def) (metis ui_pc_ok.simps(1))
next
  case (UI_rel_loaded j old)
  then show ?thesis
    using assms(1) by (simp add: ui_live_def) (metis ui_pc_ok.simps(3))
qed simp_all

lemma ui_live_write:
  assumes "ui_live s" "i \<in> ui_pc_index (uic_pc s t)" "ui_pc_index p = {i}"
    "ui_pc_ok ((uic_set s)\<lparr>ui_data := (ui_data (uic_set s))[unat i := v]\<rparr>) (uic_ops s) p"
  shows "ui_live (s\<lparr>uic_set := (uic_set s)\<lparr>ui_data := (ui_data (uic_set s))[unat i := v]\<rparr>,
    uic_pc := (uic_pc s)(t := p)\<rparr>)"
proof -
  have own: "i \<in> ui_owned (uic_held s) (uic_pc s) t"
    using assms(2) by (simp add: ui_owned_def)
  have idx: "ui_pc_index p = ui_pc_index (uic_pc s t)"
    using assms(2,3) by (cases "uic_pc s t") auto
  have same: "ui_owned (uic_held s) ((uic_pc s)(t := p)) = ui_owned (uic_held s) (uic_pc s)"
    using idx by (rule ui_owned_same_pc)
  have "i \<notin> set (uic_free s)"
    using assms(1) own unfolding ui_live_def ui_partition_def by blast
  then show ?thesis
    using assms(1,4) same idx ui_pc_ok_write[OF assms(1) own] free_chain_update
    by (simp add: ui_live_def)
qed

lemma ui_pc_ok_cas:
  assumes "ui_pc_ok u ops p" "unat (snd (extract_head_and_aba new)) = ops + 1"
  shows "ui_pc_ok (u\<lparr>ui_head := new\<rparr>) (ops + 1) p"
  using assms by (cases p) (auto simp: ui_recent_def)

lemma ui_next_aba:
  assumes "unat (snd (extract_head_and_aba old)) = ops" "ops + 1 < 2 ^ 32"
  shows "unat (snd (extract_head_and_aba old) + 1) = ops + 1"
proof -
  have "snd (extract_head_and_aba old) = word_of_nat ops"
    by (simp flip: assms(1))
  then show ?thesis
    using unat_word32[of "ops + 1"] assms(2) by (simp add: add.commute)
qed

lemma ui_live_acquire:
  assumes live: "ui_live s" and pc: "uic_pc s t = UI_acq_next old nh"
    and head: "ui_head (uic_set s) = old" and ops: "uic_ops s + 1 < 2 ^ 32"
  shows "ui_live (s\<lparr>uic_set := (uic_set s)\<lparr>ui_head :=
        pack_from_head_and_aba nh (snd (extract_head_and_aba old) + 1)\<rparr>,
      uic_pc := (uic_pc s)(t := UI_acq_won (fst (extract_head_and_aba old))),
      uic_free := tl (uic_free s), uic_ops := uic_ops s + 1\<rparr>)"
proof -
  let ?i = "fst (extract_head_and_aba old)" and ?u = "uic_set s"
  let ?new = "pack_from_head_and_aba nh (snd (extract_head_and_aba old) + 1)"
  have ok: "?i < ui_capacity ?u" "nh = ui_data ?u ! unat ?i"
    using live pc head unfolding ui_live_def by (metis ui_pc_ok.simps(2))+
  then obtain xs where xs: "uic_free s = ?i # xs"
    using free_chain_nonempty live head unfolding ui_live_def by blast
  have aba: "unat (snd (extract_head_and_aba ?new)) = uic_ops s + 1"
    using ui_next_aba[of old "uic_ops s"] live head ops by (simp add: ui_live_def)
  have part: "ui_partition (ui_capacity ?u)
      (ui_owned (uic_held s) ((uic_pc s)(t := UI_acq_won ?i))) xs"
    using ui_partition_take[of "ui_capacity ?u" "ui_owned (uic_held s) (uic_pc s)" ?i xs t]
      live xs ok pc
    by (simp add: ui_owned_update ui_live_def) (simp add: ui_owned_def)
  have "?i \<notin> ui_owned (uic_held s) (uic_pc s) t"
    using live xs unfolding ui_live_def ui_partition_def by auto
  then have "?i \<notin> uic_held s t"
    by (simp add: ui_owned_def)
  then show ?thesis
    using live part xs ok aba head ui_pc_ok_cas[OF _ aba] by (simp add: ui_live_def)
qed

lemma ui_live_release:
  assumes live: "ui_live s" and pc: "uic_pc s t = UI_rel_linked i old"
    and head: "ui_head (uic_set s) = old" and ops: "uic_ops s + 1 < 2 ^ 32"
  shows "ui_live (s\<lparr>uic_set := (uic_set s)\<lparr>ui_head :=
        pack_from_head_and_aba i (snd (extract_head_and_aba old) + 1)\<rparr>,
      uic_pc := (uic_pc s)(t := UI_rel_done),
      uic_free := i # uic_free s, uic_ops := uic_ops s + 1\<rparr>)"
proof -
  let ?u = "uic_set s"
  let ?new = "pack_from_head_and_aba i (snd (extract_head_and_aba old) + 1)"
  have ok: "ui_data ?u ! unat i = fst (extract_head_and_aba old)"
    using live pc unfolding ui_live_def by (metis ui_pc_ok.simps(4))
  have own: "i \<in> ui_owned (uic_held s) (uic_pc s) t" "uic_held s t \<inter> {i} = {}"
    using live pc unfolding ui_live_def ui_owned_def by (auto dest: spec[of _ t])
  then have i: "i < ui_capacity ?u" "i \<notin> set (uic_free s)"
    using live unfolding ui_live_def ui_partition_def by blast+
  have aba: "unat (snd (extract_head_and_aba ?new)) = uic_ops s + 1"
    using ui_next_aba[of old "uic_ops s"] live head ops by (simp add: ui_live_def)
  have "ui_owned (uic_held s) ((uic_pc s)(t := UI_rel_done))
      = (ui_owned (uic_held s) (uic_pc s))(t := ui_owned (uic_held s) (uic_pc s) t - {i})"
    using own(2) pc by (auto simp: ui_owned_def fun_eq_iff)
  then have part: "ui_partition (ui_capacity ?u)
      (ui_owned (uic_held s) ((uic_pc s)(t := UI_rel_done))) (i # uic_free s)"
    using ui_partition_give[of "ui_capacity ?u" "ui_owned (uic_held s) (uic_pc s)" "uic_free s" i t]
      own(1) live by (simp add: ui_live_def)
  show ?thesis
    using live part ok i aba head ui_pc_ok_cas[OF _ aba] by (simp add: ui_live_def)
qed

lemma ui_live_step:
  assumes step: "ui_step t s s'" and live: "ui_live s" and ops: "uic_ops s' < 2 ^ 32"
    and len: "unat (ui_capacity (uic_set s)) < length (ui_data (uic_set s))"
  shows "ui_live s'"
proof -
  have rec: "ui_recent (uic_ops s) (ui_head (uic_set s)) (ui_head (uic_set s))"
    using live by (simp add: ui_live_def ui_recent_refl)
  have ok: "ui_pc_ok (uic_set s) (uic_ops s) (uic_pc s t)"
    and disj: "uic_held s t \<inter> ui_pc_index (uic_pc s t) = {}"
    using live by (simp_all add: ui_live_def)
  from step show ?thesis
  proof (cases rule: ui_step.cases)
    case (ui_acq_return i)
    then show ?thesis
      using ui_live_return[OF live, of "insert i (uic_held s t)" UI_idle t] disj by simp
  next
    case (ui_rel_load i)
    then show ?thesis
      using ui_live_return[OF live, of "uic_held s t - {i}" "UI_rel_loaded i (ui_head (uic_set s))" t
          "ui_borrowed_indices (uic_set s)"] rec
      by (simp add: insert_absorb)
  next
    case ui_rel_return
    then show ?thesis
      using ui_live_return[OF live, of "uic_held s t" UI_idle t] by (simp add: fun_upd_idem)
  next
    case (ui_acq_clear i)
    then show ?thesis
      using ui_live_write[OF live, of i t "UI_acq_cleared i"] by simp
  next
    case (ui_rel_link i old)
    have "i \<in> ui_owned (uic_held s) (uic_pc s) t"
      using ui_rel_link by (simp add: ui_owned_def)
    then have "i < ui_capacity (uic_set s)"
      using live unfolding ui_live_def ui_partition_def by blast
    then have "unat i < length (ui_data (uic_set s))"
      using len by (simp add: word_less_nat_alt)
    then show ?thesis
      using ui_live_write[OF live, of i t "UI_rel_linked i old" "fst (extract_head_and_aba old)"]
        ok ui_rel_link by simp
  next
    case (ui_acq_cas old nh)
    then show ?thesis
      using ui_live_acquire[OF live, of t old nh] ops by simp
  next
    case (ui_rel_cas i old)
    then show ?thesis
      using ui_live_release[OF live, of t i old] ops by simp
  qed (use ui_live_pc[OF live] rec ok in auto)
qed

lemma uic_inv_start:
  assumes "c < 2 ^ 32"
  shows "uic_inv c (ui_start c)"
proof -
  have "ui_inv (FixedSizeUniqueIndexSet_new c)"
    "ui_free (FixedSizeUniqueIndexSet_new c) = map word_of_nat [0..<c]"
    using FixedSizeUniqueIndexSet_new_inv[OF assms] by auto
  then have "free_chain (ui_data (FixedSizeUniqueIndexSet_new c)) (word_of_nat c) 0
      (map word_of_nat [0..<c])"
    by (simp add: ui_inv_def) (simp add: FixedSizeUniqueIndexSet_new_def)
  moreover have "i \<in> word_of_nat ` {0..<c}" if "i < word_of_nat c" for i :: "32 word"
    using that assms by (intro image_eqI[of _ _ "unat i"]) (auto simp: word_less_nat_alt unat_word32)
  ultimately show ?thesis
    using assms distinct_word32[of c]
    by (simp add: uic_inv_def ui_live_def ui_start_def ui_partition_def ui_owned_def)
      (simp add: FixedSizeUniqueIndexSet_new_def)
qed

lemma uic_inv_step:
  assumes "uic_inv c s" "ui_any_step s s'"
  shows "uic_inv c s'"
proof -
  obtain t where t: "ui_step t s s'"
    using assms(2) by (auto simp: ui_any_step_def)
  then have "uic_ops s \<le> uic_ops s'" "ui_capacity (uic_set s') = ui_capacity (uic_set s)"
    "length (ui_data (uic_set s')) = length (ui_data (uic_set s))"
    by (cases rule: ui_step.cases; simp)+
  then show ?thesis
    using assms ui_live_step[OF t] by (auto simp: uic_inv_def unat_word32)
qed

interpretation uic: inductive_invariant "\<lambda>s. c < 2 ^ 32 \<and> s = ui_start c"
  ui_any_step "uic_inv c"
  by unfold_locales (auto intro: uic_inv_start uic_inv_step)

section \<open>Properties\<close>

text \<open>
  C4: However the acquisitions and releases of any number of threads interleave, no index
  is owned by two threads at once, no owned index is in the free list, and every index
  below the capacity is in the free list or owned by a thread, so none is lost. The free list
  is what one visits when one follows the cells from the head. The bound
  is the one of the 32-bit counter against the ABA problem: it holds for runs with fewer
  than \<open>2 ^ 32\<close> changes of the head.
\<close>

theorem unique_index_set_unique:
  assumes "reachable (\<lambda>s. c < 2 ^ 32 \<and> s = ui_start c) ui_any_step s" "uic_ops s < 2 ^ 32"
  shows "(\<forall>t t' i. i \<in> ui_owned (uic_held s) (uic_pc s) t \<and> i \<in> ui_owned (uic_held s) (uic_pc s) t'
      \<longrightarrow> t = t')
    \<and> (\<forall>t i. i \<in> ui_owned (uic_held s) (uic_pc s) t \<longrightarrow> i \<notin> set (uic_free s))
    \<and> {i. i < word_of_nat c} = set (uic_free s) \<union> (\<Union>t. ui_owned (uic_held s) (uic_pc s) t)
    \<and> distinct (uic_free s) \<and> free_chain (ui_data (uic_set s)) (word_of_nat c)
        (fst (extract_head_and_aba (ui_head (uic_set s)))) (uic_free s)"
proof -
  have cap: "ui_capacity (uic_set s) = word_of_nat c" and live: "ui_live s"
    using uic.reachable_inv[OF assms(1)] assms(2) by (simp_all add: uic_inv_def)
  then have "\<And>i. i \<in> set (uic_free s) \<Longrightarrow> i < word_of_nat c"
    using free_chain_bound unfolding ui_live_def by metis
  then show ?thesis
    using live cap unfolding ui_live_def ui_partition_def by auto
qed

theorem unique_index_set_unique_witness:
  "let s = (ui_start 2)\<lparr>uic_set := (uic_set (ui_start 2))\<lparr>ui_head := pack_from_head_and_aba 1 1\<rparr>,
      uic_pc := (\<lambda>_. UI_idle)(5 := UI_acq_won 0), uic_free := [1], uic_ops := 1\<rparr>
   in 0 \<in> ui_owned (uic_held s) (uic_pc s) 5
    \<and> {i. i < 2} = set (uic_free s) \<union> (\<Union>t. ui_owned (uic_held s) (uic_pc s) t)"
proof -
  let ?s0 = "ui_start 2"
  let ?s1 = "?s0\<lparr>uic_pc := (uic_pc ?s0)(5 := UI_acq_loaded 0)\<rparr>"
  let ?s2 = "?s1\<lparr>uic_pc := (uic_pc ?s1)(5 := UI_acq_next 0 1)\<rparr>"
  let ?s3 = "?s0\<lparr>uic_set := (uic_set ?s0)\<lparr>ui_head := pack_from_head_and_aba 1 1\<rparr>,
      uic_pc := (\<lambda>_. UI_idle)(5 := UI_acq_won 0), uic_free := [1], uic_ops := 1\<rparr>"
  let ?R = "reachable (\<lambda>s. 2 < (2::nat) ^ 32 \<and> s = ui_start 2) ui_any_step"
  note d = ui_any_step_def ui_start_def FixedSizeUniqueIndexSet_new_def
  have "?R ?s0"
    by (rule reachable_init) simp
  then have "?R ?s1"
    by (rule reachable_step) (use ui_acq_load[of ?s0 5] in \<open>auto simp: d\<close>)
  moreover have "ui_step 5 ?s1 ?s2"
    using ui_acq_read[of ?s1 5 0]
    by (simp add: ui_start_def FixedSizeUniqueIndexSet_new_def nth_append)
  ultimately have "?R ?s2"
    by (intro reachable_step[of _ _ ?s1 ?s2]) (auto simp: ui_any_step_def)
  moreover have "ui_step 5 ?s2 ?s3"
    using ui_acq_cas[of ?s2 5 0 1]
    by (simp add: ui_start_def FixedSizeUniqueIndexSet_new_def numeral_2_eq_2)
  ultimately have s3: "?R ?s3"
    by (intro reachable_step[of _ _ ?s2 ?s3]) (auto simp: ui_any_step_def)
  have "uic_ops ?s3 < 2 ^ 32"
    by simp
  note unique = unique_index_set_unique[OF s3 this, THEN conjunct2, THEN conjunct2, THEN conjunct1]
  have "0 \<in> ui_owned (uic_held ?s3) (uic_pc ?s3) 5"
    by (simp add: ui_owned_def)
  then show ?thesis
    using unique unfolding Let_def by (simp only: of_nat_numeral simp_thms)
qed

text \<open>
  Acquiring from a new set of capacity \<open>c\<close> yields exactly the indices below \<open>c\<close>, each
  once, and then \<^term>\<open>None\<close>; the number of borrowed indices is counted.
\<close>

theorem unique_index_set_exhausts:
  assumes "c < 2 ^ 32"
  shows "\<exists>is s. ui.acquire_many c (FixedSizeUniqueIndexSet_new c) = Ret (is, s) \<and> distinct is
    \<and> set is = {i. i < word_of_nat c} \<and> UniqueIndexSet_acquire_raw_index s = Ret (None, s)
    \<and> ui_borrowed_indices s = c"
proof -
  let ?s = "FixedSizeUniqueIndexSet_new c"
  have new: "ui_inv ?s" "ui_free ?s = map word_of_nat [0..<c]"
    using FixedSizeUniqueIndexSet_new_inv[OF assms] by auto
  have cap: "ui_capacity ?s = word_of_nat c"
    by (simp add: FixedSizeUniqueIndexSet_new_def)
  have "distinct (ui_free ?s)"
    using new(1) by (simp add: ui_inv_def)
  then have card: "card (set (ui_free ?s)) = c"
    using distinct_card new(2) by fastforce
  obtain xs s where s: "ui.acquire_many c ?s = Ret (xs, s)" "distinct xs"
    "set xs \<subseteq> set (ui_free ?s)" "length xs = c" "ui_inv s"
    "set (ui_free s) = set (ui_free ?s) - set xs"
    "{i. i < ui_capacity s} = {i. i < ui_capacity ?s}"
    using ui.acquire_many_distinct[OF new(1), of c] card by auto
  have all: "set xs = set (ui_free ?s)"
    using s(2,3,4) card by (metis List.finite_set card_subset_eq distinct_card)
  then have free: "ui_free s = []"
    using s(6) by simp
  have eq: "unat (ui_capacity s) = c"
    using s(7) cap card_lessThan_word(2)[of "ui_capacity s"] card_lessThan_word(2)[of "ui_capacity ?s"]
      assms by (simp add: unat_word32)
  have "set (ui_free ?s) = {i. i < word_of_nat c}"
    using card ui.free_sub[OF new(1)] cap assms
    by (intro card_subset_eq) (simp_all add: card_lessThan_word unat_word32)
  then show ?thesis
    using s all free eq ui_acquire_none[OF s(5) free] by (auto simp: ui_inv_def)
qed

theorem unique_index_set_exhausts_witness:
  "\<exists>is s. ui.acquire_many 3 (FixedSizeUniqueIndexSet_new 3) = Ret (is, s) \<and> distinct is
    \<and> set is = {i. i < 3} \<and> ui_borrowed_indices s = 3"
  using unique_index_set_exhausts[of 3] by auto

end
