(* ===== verification/Allocators.thy ===== *)
theory Allocators
  imports UniqueIndexSet IndexQueue OverflowQueue
begin

text \<open>
  The allocators of \<open>iceoryx2_bb/memory/src\<close> over a fixed piece of memory: bump allocator,
  one-chunk allocator and pool allocator. Addresses and sizes are natural numbers; a
  subtraction or division that a checked build would abort is a panic. A chunk is its
  address and its length. Each allocator is shown to satisfy the contract
  \<open>base_allocator\<close> of theory Elementary.
\<close>

section \<open>bump_allocator.rs\<close>

record BumpAllocator =
  ba_start :: nat
  ba_size :: nat
  ba_current_position :: nat

definition BumpAllocator_new :: "nat \<Rightarrow> nat \<Rightarrow> BumpAllocator" where
  "BumpAllocator_new ptr mem_size = \<lparr>ba_start = ptr, ba_size = mem_size, ba_current_position = 0\<rparr>"

definition BumpAllocator_used_space :: "BumpAllocator \<Rightarrow> nat" where
  "BumpAllocator_used_space b = ba_current_position b"

definition BumpAllocator_free_space :: "BumpAllocator \<Rightarrow> nat" where
  "BumpAllocator_free_space b = ba_size b - BumpAllocator_used_space b"

definition BumpAllocator_total_space :: "BumpAllocator \<Rightarrow> nat" where
  "BumpAllocator_total_space b = ba_size b"

text \<open>Without a concurrent allocation the exchange succeeds in the first round.\<close>

definition BumpAllocator_allocate ::
  "Layout \<Rightarrow> BumpAllocator \<Rightarrow> (chunk, AllocationError) result \<times> BumpAllocator" where
  "BumpAllocator_allocate layout b =
     (if layout_size layout = 0 then (Err AE_SizeIsZero, b)
      else let current_position = ba_current_position b;
               aligned_position =
                 align (ba_start b + current_position) (layout_align layout) - ba_start b
        in if ba_size b < aligned_position + layout_size layout then (Err AE_OutOfMemory, b)
           else (Ok (ba_start b + aligned_position, layout_size layout),
                 b\<lparr>ba_current_position := aligned_position + layout_size layout\<rparr>))"

definition BumpAllocator_deallocate ::
  "nat \<Rightarrow> Layout \<Rightarrow> BumpAllocator \<Rightarrow> (unit, DeallocationError) result \<times> BumpAllocator" where
  "BumpAllocator_deallocate ptr layout b = (Ok (), b\<lparr>ba_current_position := 0\<rparr>)"

section \<open>one_chunk_allocator.rs\<close>

record OneChunkAllocator =
  oc_start :: nat
  oc_size :: nat
  oc_allocated_chunk_start :: nat

definition OneChunkAllocator_new :: "nat \<Rightarrow> nat \<Rightarrow> OneChunkAllocator" where
  "OneChunkAllocator_new ptr mem_size =
     \<lparr>oc_start = ptr, oc_size = mem_size, oc_allocated_chunk_start = 0\<rparr>"

definition OneChunkAllocator_has_chunk_available :: "OneChunkAllocator \<Rightarrow> bool" where
  "OneChunkAllocator_has_chunk_available c \<longleftrightarrow> oc_allocated_chunk_start c = 0"

definition OneChunkAllocator_is_allocated_chunk :: "nat \<Rightarrow> OneChunkAllocator \<Rightarrow> bool" where
  "OneChunkAllocator_is_allocated_chunk ptr c \<longleftrightarrow> ptr = oc_allocated_chunk_start c"

definition OneChunkAllocator_release_chunk :: "OneChunkAllocator \<Rightarrow> OneChunkAllocator" where
  "OneChunkAllocator_release_chunk c = c\<lparr>oc_allocated_chunk_start := 0\<rparr>"

definition OneChunkAllocator_allocate ::
  "Layout \<Rightarrow> OneChunkAllocator
     \<Rightarrow> ((chunk, AllocationError) result \<times> OneChunkAllocator) outcome" where
  "OneChunkAllocator_allocate layout c =
     (let adjusted_start = align (oc_start c) (layout_align layout)
      in if \<not> OneChunkAllocator_has_chunk_available c then Ret (Err AE_OutOfMemory, c)
         else if oc_size c < adjusted_start - oc_start c then Panic
         else let available_size = oc_size c - (adjusted_start - oc_start c)
           in if available_size \<le> layout_size layout then Ret (Err AE_OutOfMemory, c)
              else Ret (Ok (adjusted_start, available_size),
                        c\<lparr>oc_allocated_chunk_start := adjusted_start\<rparr>))"

definition OneChunkAllocator_deallocate ::
  "nat \<Rightarrow> Layout \<Rightarrow> OneChunkAllocator \<Rightarrow> (unit, DeallocationError) result \<times> OneChunkAllocator"
  where
  "OneChunkAllocator_deallocate ptr layout c =
     (if OneChunkAllocator_is_allocated_chunk ptr c
      then (Ok (), OneChunkAllocator_release_chunk c)
      else (Err DE_ProvidedPointerNotContainedInAllocator, c))"

definition OneChunkAllocator_grow ::
  "nat \<Rightarrow> Layout \<Rightarrow> Layout \<Rightarrow> OneChunkAllocator \<Rightarrow> (chunk, AllocationGrowError) result" where
  "OneChunkAllocator_grow ptr old_layout new_layout c =
     (if \<not> OneChunkAllocator_is_allocated_chunk ptr c
      then Err AGE_ProvidedPointerNotContainedInAllocator
      else if layout_size new_layout \<le> layout_size old_layout then Err AGE_GrowWouldShrink
      else if layout_align old_layout < layout_align new_layout then Err AGE_AlignmentFailure
      else let available_size = oc_size c - (oc_allocated_chunk_start c - oc_start c)
        in if available_size < layout_size new_layout then Err AGE_OutOfMemory
           else Ok (ptr, available_size))"

definition OneChunkAllocator_shrink ::
  "nat \<Rightarrow> Layout \<Rightarrow> Layout \<Rightarrow> OneChunkAllocator \<Rightarrow> (chunk, AllocationShrinkError) result" where
  "OneChunkAllocator_shrink ptr old_layout new_layout c =
     (if \<not> OneChunkAllocator_is_allocated_chunk ptr c
      then Err ASE_ProvidedPointerNotContainedInAllocator
      else if layout_size old_layout \<le> layout_size new_layout then Err ASE_ShrinkWouldGrow
      else if layout_align old_layout < layout_align new_layout then Err ASE_AlignmentFailure
      else Ok (ptr, layout_size new_layout))"

section \<open>pool_allocator.rs\<close>

record PoolAllocator =
  pa_buckets :: UniqueIndexSet
  pa_bucket_size :: nat
  pa_bucket_alignment :: nat
  pa_start :: nat
  pa_size :: nat
  pa_is_memory_initialized :: bool

definition PoolAllocator_calc_number_of_buckets :: "Layout \<Rightarrow> nat \<Rightarrow> nat \<Rightarrow> nat outcome" where
  "PoolAllocator_calc_number_of_buckets bucket_layout ptr mem_size =
     (let adjusted_start = align ptr (layout_align bucket_layout);
          bucket_size = align (layout_size bucket_layout) (layout_align bucket_layout)
      in if ptr + mem_size < adjusted_start \<or> bucket_size = 0 then Panic
         else Ret ((ptr + mem_size - adjusted_start) div bucket_size))"

definition PoolAllocator_new_uninit :: "Layout \<Rightarrow> nat \<Rightarrow> nat \<Rightarrow> PoolAllocator outcome" where
  "PoolAllocator_new_uninit bucket_layout ptr mem_size =
     outcome_bind (PoolAllocator_calc_number_of_buckets bucket_layout ptr mem_size) (\<lambda>n.
       Ret \<lparr>pa_buckets = UniqueIndexSet_new_uninit n,
            pa_bucket_size = layout_size bucket_layout,
            pa_bucket_alignment = layout_align bucket_layout,
            pa_start = align ptr (layout_align bucket_layout),
            pa_size = mem_size,
            pa_is_memory_initialized = False\<rparr>)"

definition PoolAllocator_init ::
  "'m allocate_op \<Rightarrow> PoolAllocator \<Rightarrow> 'm
     \<Rightarrow> ((unit, AllocationError) result \<times> PoolAllocator \<times> 'm) outcome" where
  "PoolAllocator_init allocate p m =
     (if pa_is_memory_initialized p then Panic
      else outcome_bind (UniqueIndexSet_init allocate (pa_buckets p) m) (\<lambda>(r, b, m').
        case r of Err e \<Rightarrow> Ret (Err e, p, m')
        | Ok _ \<Rightarrow> Ret (Ok (), p\<lparr>pa_buckets := b, pa_is_memory_initialized := True\<rparr>, m')))"

definition PoolAllocator_memory_size :: "Layout \<Rightarrow> nat \<Rightarrow> nat" where
  "PoolAllocator_memory_size bucket_layout mem_size =
     UniqueIndexSet_const_memory_size (mem_size div layout_size bucket_layout)"

definition PoolAllocator_number_of_buckets :: "PoolAllocator \<Rightarrow> 32 word" where
  "PoolAllocator_number_of_buckets p = ui_capacity (pa_buckets p)"

definition PoolAllocator_get_index :: "nat \<Rightarrow> PoolAllocator \<Rightarrow> 32 word option" where
  "PoolAllocator_get_index position p =
     (if position < pa_start p \<or> pa_start p + pa_size p < position then None
      else Some (word_of_nat ((position - pa_start p) div pa_bucket_size p)))"

definition PoolAllocator_allocate ::
  "Layout \<Rightarrow> PoolAllocator \<Rightarrow> ((chunk, AllocationError) result \<times> PoolAllocator) outcome" where
  "PoolAllocator_allocate layout p =
     (if \<not> pa_is_memory_initialized p then Panic
      else if pa_bucket_size p < layout_size layout then Ret (Err AE_SizeTooLarge, p)
      else if pa_bucket_alignment p < layout_align layout then Ret (Err AE_AlignmentFailure, p)
      else outcome_bind (UniqueIndexSet_acquire_raw_index (pa_buckets p)) (\<lambda>(r, b).
        case r of
          Some v \<Rightarrow> Ret (Ok (pa_start p + unat v * pa_bucket_size p, layout_size layout),
                        p\<lparr>pa_buckets := b\<rparr>)
        | None \<Rightarrow> Ret (Err AE_OutOfMemory, p\<lparr>pa_buckets := b\<rparr>)))"

definition PoolAllocator_deallocate ::
  "nat \<Rightarrow> Layout \<Rightarrow> PoolAllocator
     \<Rightarrow> ((unit, DeallocationError) result \<times> PoolAllocator) outcome" where
  "PoolAllocator_deallocate ptr layout p =
     (if \<not> pa_is_memory_initialized p then Panic
      else case PoolAllocator_get_index ptr p of
        Some index \<Rightarrow>
          outcome_bind (UniqueIndexSet_release_raw_index index (pa_buckets p)) (\<lambda>b.
            Ret (Ok (), p\<lparr>pa_buckets := b\<rparr>))
      | None \<Rightarrow> Ret (Err DE_ProvidedPointerNotContainedInAllocator, p))"

definition PoolAllocator_grow ::
  "nat \<Rightarrow> Layout \<Rightarrow> Layout \<Rightarrow> PoolAllocator \<Rightarrow> (chunk, AllocationGrowError) result outcome" where
  "PoolAllocator_grow ptr old_layout new_layout p =
     (if \<not> pa_is_memory_initialized p then Panic
      else if PoolAllocator_get_index ptr p = None
        then Ret (Err AGE_ProvidedPointerNotContainedInAllocator)
      else if layout_size new_layout \<le> layout_size old_layout then Ret (Err AGE_GrowWouldShrink)
      else if pa_bucket_alignment p < layout_align new_layout then Ret (Err AGE_AlignmentFailure)
      else if pa_bucket_size p < layout_size new_layout then Ret (Err AGE_OutOfMemory)
      else Ret (Ok (ptr, layout_size new_layout)))"

definition PoolAllocator_shrink ::
  "nat \<Rightarrow> Layout \<Rightarrow> Layout \<Rightarrow> PoolAllocator
     \<Rightarrow> (chunk, AllocationShrinkError) result outcome" where
  "PoolAllocator_shrink ptr old_layout new_layout p =
     (if \<not> pa_is_memory_initialized p then Panic
      else if PoolAllocator_get_index ptr p = None
        then Ret (Err ASE_ProvidedPointerNotContainedInAllocator)
      else if layout_size old_layout \<le> layout_size new_layout then Ret (Err ASE_ShrinkWouldGrow)
      else if pa_bucket_alignment p < layout_align new_layout then Ret (Err ASE_AlignmentFailure)
      else Ret (Ok (ptr, layout_size new_layout)))"

text \<open>
  The compile-time version has the cells of its index set in the struct; the number of
  buckets is limited by their number.
\<close>

definition FixedSizePoolAllocator_new ::
  "nat \<Rightarrow> Layout \<Rightarrow> nat \<Rightarrow> nat \<Rightarrow> PoolAllocator outcome" where
  "FixedSizePoolAllocator_new MAX_NUMBER_OF_BUCKETS bucket_layout ptr mem_size =
     (let adjusted_start = align ptr (layout_align bucket_layout);
          bucket_size = align (layout_size bucket_layout) (layout_align bucket_layout)
      in if ptr + mem_size < adjusted_start \<or> bucket_size = 0 then Panic
         else let number_of_buckets = (ptr + mem_size - adjusted_start) div bucket_size
           in Ret \<lparr>pa_buckets =
                 \<lparr>ui_data = map (\<lambda>i. word_of_nat i + 1) [0..<MAX_NUMBER_OF_BUCKETS]
                    @ [word_of_nat MAX_NUMBER_OF_BUCKETS + 1],
                  ui_capacity = word_of_nat (min number_of_buckets MAX_NUMBER_OF_BUCKETS),
                  ui_borrowed_indices = 0, ui_head = 0, ui_is_memory_initialized = True\<rparr>,
                pa_bucket_size = layout_size bucket_layout,
                pa_bucket_alignment = layout_align bucket_layout,
                pa_start = adjusted_start, pa_size = mem_size,
                pa_is_memory_initialized = True\<rparr>)"

section \<open>The contract\<close>

text \<open>A panic hands out no chunk.\<close>

definition as_op :: "(Layout \<Rightarrow> 'm \<Rightarrow> ((chunk, AllocationError) result \<times> 'm) outcome) \<Rightarrow> 'm allocate_op"
  where
  "as_op f l m = (case f l m of Ret r \<Rightarrow> r | Panic \<Rightarrow> (Err AE_InternalError, m))"

definition BumpAllocator_inv :: "BumpAllocator \<Rightarrow> bool" where
  "BumpAllocator_inv b \<longleftrightarrow> ba_current_position b \<le> ba_size b"

lemma BumpAllocator_new_inv: "BumpAllocator_inv (BumpAllocator_new p n)"
  by (simp add: BumpAllocator_inv_def BumpAllocator_new_def)

lemma BumpAllocator_allocate_ok:
  assumes "0 < layout_align l" "BumpAllocator_allocate l b = (Ok c, b')"
  shows "\<exists>a. c = (ba_start b + a, layout_size l) \<and> ba_current_position b \<le> a
    \<and> a + layout_size l \<le> ba_size b \<and> layout_align l dvd ba_start b + a
    \<and> b' = b\<lparr>ba_current_position := a + layout_size l\<rparr>"
proof -
  let ?x = "align (ba_start b + ba_current_position b) (layout_align l)"
  have "ba_start b + ba_current_position b \<le> ?x"
    using align_ge[OF assms(1)] by simp
  moreover have "layout_align l dvd ?x"
    using align_dvd[OF assms(1)] .
  ultimately show ?thesis
    using assms(2)
    by (intro exI[of _ "?x - ba_start b"])
      (auto simp: BumpAllocator_allocate_def Let_def split: if_splits)
qed

lemma BumpAllocator_allocate_succeeds:
  assumes "0 < layout_size l" "0 < layout_align l"
    "ba_current_position b + layout_size l + (layout_align l - 1) \<le> ba_size b"
  shows "\<exists>c b'. BumpAllocator_allocate l b = (Ok c, b') \<and> ba_size b' = ba_size b
    \<and> ba_current_position b' \<le> ba_current_position b + layout_size l + (layout_align l - 1)"
proof -
  let ?x = "align (ba_start b + ba_current_position b) (layout_align l)"
  have "?x < ba_start b + ba_current_position b + layout_align l"
    using align_lt[OF assms(2)] by simp
  then have "?x - ba_start b \<le> ba_current_position b + (layout_align l - 1)"
    by linarith
  then show ?thesis
    using assms by (auto simp: BumpAllocator_allocate_def Let_def)
qed

interpretation ba: base_allocator BumpAllocator_inv
  "\<lambda>b. {ba_start b ..< ba_start b + ba_current_position b}"
  "\<lambda>b. {ba_start b ..< ba_start b + ba_size b}" BumpAllocator_allocate
proof (unfold_locales, goal_cases)
  case (1 b)
  then show ?case
    by (auto simp: BumpAllocator_inv_def)
next
  case (2 b l c b')
  then obtain a where "c = (ba_start b + a, layout_size l)" "ba_current_position b \<le> a"
    "a + layout_size l \<le> ba_size b" "layout_align l dvd ba_start b + a"
    "b' = b\<lparr>ba_current_position := a + layout_size l\<rparr>"
    using BumpAllocator_allocate_ok valid_layout_pos by blast
  then show ?case
    by (auto simp: BumpAllocator_inv_def chunk_bytes_def)
next
  case (3 b l e b')
  then show ?case
    by (auto simp: BumpAllocator_allocate_def Let_def split: if_splits)
qed

definition OneChunkAllocator_used :: "OneChunkAllocator \<Rightarrow> nat set" where
  "OneChunkAllocator_used c = (if OneChunkAllocator_has_chunk_available c then {}
     else {oc_allocated_chunk_start c ..< oc_start c + oc_size c})"

definition OneChunkAllocator_inv :: "OneChunkAllocator \<Rightarrow> bool" where
  "OneChunkAllocator_inv c \<longleftrightarrow> 0 < oc_start c
     \<and> (oc_allocated_chunk_start c = 0 \<or> oc_start c \<le> oc_allocated_chunk_start c)"

interpretation oc: base_allocator OneChunkAllocator_inv OneChunkAllocator_used
  "\<lambda>c. {oc_start c ..< oc_start c + oc_size c}" "as_op OneChunkAllocator_allocate"
proof (unfold_locales, goal_cases)
  case (1 c)
  then show ?case
    by (auto simp: OneChunkAllocator_inv_def OneChunkAllocator_used_def
        OneChunkAllocator_has_chunk_available_def)
next
  case (2 c l k c')
  let ?x = "align (oc_start c) (layout_align l)"
  have x: "oc_start c \<le> ?x" "layout_align l dvd ?x"
    using align_ge align_dvd valid_layout_pos[OF 2(2)] by auto
  have "k = (?x, oc_size c - (?x - oc_start c)) \<and> c' = c\<lparr>oc_allocated_chunk_start := ?x\<rparr>
      \<and> OneChunkAllocator_has_chunk_available c \<and> ?x - oc_start c \<le> oc_size c
      \<and> layout_size l < oc_size c - (?x - oc_start c)"
    using 2(3) by (auto simp: as_op_def OneChunkAllocator_allocate_def Let_def split: if_splits)
  then show ?case
    using x 2(1) by (auto simp: OneChunkAllocator_inv_def OneChunkAllocator_used_def
        OneChunkAllocator_has_chunk_available_def chunk_bytes_def)
next
  case (3 c l e c')
  then show ?case
    by (auto simp: as_op_def OneChunkAllocator_allocate_def Let_def split: if_splits)
qed

section \<open>The pool allocator\<close>

definition bucket :: "PoolAllocator \<Rightarrow> 32 word \<Rightarrow> nat set" where
  "bucket p i = {pa_start p + unat i * pa_bucket_size p
     ..< pa_start p + unat i * pa_bucket_size p + pa_bucket_size p}"

definition PoolAllocator_free :: "PoolAllocator \<Rightarrow> 32 word set" where
  "PoolAllocator_free p = set (ui_free (pa_buckets p))"

definition PoolAllocator_used :: "PoolAllocator \<Rightarrow> nat set" where
  "PoolAllocator_used p =
     (\<Union>i \<in> {i. i < ui_capacity (pa_buckets p)} - PoolAllocator_free p. bucket p i)"

text \<open>
  The invariant requires that the bucket size is a multiple of the bucket alignment, which
  the layout of a Rust type is.
\<close>

definition PoolAllocator_inv :: "PoolAllocator \<Rightarrow> bool" where
  "PoolAllocator_inv p \<longleftrightarrow> pa_is_memory_initialized p \<and> ui_inv (pa_buckets p)
     \<and> 0 < pa_bucket_size p \<and> (\<exists>k. pa_bucket_alignment p = 2 ^ k)
     \<and> pa_bucket_alignment p dvd pa_start p \<and> pa_bucket_alignment p dvd pa_bucket_size p
     \<and> unat (ui_capacity (pa_buckets p)) * pa_bucket_size p \<le> pa_size p"

lemma bucket_disjoint: "i \<noteq> j \<Longrightarrow> bucket p i \<inter> bucket p j = {}"
proof -
  assume "i \<noteq> j"
  then consider "unat i < unat j" | "unat j < unat i"
    by (metis linorder_neqE_nat word_unat_eq_iff)
  then show ?thesis
  proof cases
    case 1
    then have "(unat i + 1) * pa_bucket_size p \<le> unat j * pa_bucket_size p"
      by (intro mult_right_mono) auto
    then show ?thesis
      by (auto simp: bucket_def)
  next
    case 2
    then have "(unat j + 1) * pa_bucket_size p \<le> unat i * pa_bucket_size p"
      by (intro mult_right_mono) auto
    then show ?thesis
      by (auto simp: bucket_def)
  qed
qed

lemma bucket_in_region:
  assumes "i < c"
  shows "bucket p i \<subseteq> {pa_start p ..< pa_start p + unat c * pa_bucket_size p}"
proof -
  have "(unat i + 1) * pa_bucket_size p \<le> unat c * pa_bucket_size p"
    using assms by (intro mult_right_mono) (auto simp: word_less_nat_alt)
  then show ?thesis
    by (auto simp: bucket_def)
qed

lemma PoolAllocator_allocate_ok:
  assumes "PoolAllocator_inv p" "PoolAllocator_allocate l p = Ret (Ok c, p')"
  shows "\<exists>i \<in> PoolAllocator_free p. c = (pa_start p + unat i * pa_bucket_size p, layout_size l)
    \<and> layout_size l \<le> pa_bucket_size p \<and> layout_align l \<le> pa_bucket_alignment p
    \<and> PoolAllocator_inv p' \<and> PoolAllocator_free p' = PoolAllocator_free p - {i}
    \<and> bucket p' = bucket p \<and> pa_start p' = pa_start p \<and> pa_bucket_size p' = pa_bucket_size p
    \<and> pa_size p' = pa_size p
    \<and> ui_capacity (pa_buckets p') = ui_capacity (pa_buckets p)"
proof -
  have inv: "ui_inv (pa_buckets p)"
    using assms(1) by (simp add: PoolAllocator_inv_def)
  have g: "layout_size l \<le> pa_bucket_size p" "layout_align l \<le> pa_bucket_alignment p"
    using assms by (auto simp: PoolAllocator_allocate_def split: if_splits)
  show ?thesis
  proof (cases "ui_free (pa_buckets p)")
    case Nil
    then show ?thesis
      using assms ui_acquire_none[OF inv Nil]
      by (auto simp: PoolAllocator_allocate_def split: if_splits)
  next
    case (Cons x xs)
    obtain b where b: "UniqueIndexSet_acquire_raw_index (pa_buckets p) = Ret (Some x, b)" "ui_inv b"
      "ui_free b = xs" "ui_capacity b = ui_capacity (pa_buckets p)"
      using ui_acquire_ok[OF inv Cons] by blast
    have "x \<notin> set xs"
      using inv Cons by (simp add: ui_inv_def)
    then show ?thesis
      using assms b g Cons
      by (intro bexI[of _ x])
        (auto simp: PoolAllocator_allocate_def PoolAllocator_inv_def PoolAllocator_free_def
          bucket_def fun_eq_iff split: if_splits)
  qed
qed

interpretation pa: base_allocator PoolAllocator_inv PoolAllocator_used
  "\<lambda>p. {pa_start p ..< pa_start p + unat (ui_capacity (pa_buckets p)) * pa_bucket_size p}"
  "as_op PoolAllocator_allocate"
proof (unfold_locales, goal_cases)
  case (1 p)
  then show ?case
    using bucket_in_region[of _ "ui_capacity (pa_buckets p)" p] by (auto simp: PoolAllocator_used_def)
next
  case (2 p l c p')
  then have a: "PoolAllocator_allocate l p = Ret (Ok c, p')"
    by (auto simp: as_op_def split: outcome.splits)
  obtain i where i: "i \<in> PoolAllocator_free p" "c = (pa_start p + unat i * pa_bucket_size p, layout_size l)"
    "layout_size l \<le> pa_bucket_size p" "layout_align l \<le> pa_bucket_alignment p"
    "PoolAllocator_inv p'" "PoolAllocator_free p' = PoolAllocator_free p - {i}"
    "bucket p' = bucket p" "pa_start p' = pa_start p" "pa_bucket_size p' = pa_bucket_size p"
    "ui_capacity (pa_buckets p') = ui_capacity (pa_buckets p)"
    using PoolAllocator_allocate_ok[OF 2(1) a] by blast
  have cap: "i < ui_capacity (pa_buckets p)"
    using i(1) 2(1) free_chain_bound by (auto simp: PoolAllocator_free_def PoolAllocator_inv_def ui_inv_def)
  have "layout_align l dvd pa_bucket_alignment p"
    using 2(1,2) i(4) pow2_le_dvd by (auto simp: PoolAllocator_inv_def valid_layout_def)
  then have "layout_align l dvd pa_start p" "layout_align l dvd pa_bucket_size p"
    using 2(1) dvd_trans unfolding PoolAllocator_inv_def by blast+
  then have al: "layout_align l dvd fst c"
    using i(2) by simp
  have sub: "chunk_bytes c \<subseteq> bucket p i"
    using i(2,3) by (auto simp: chunk_bytes_def bucket_def)
  have "bucket p i \<inter> bucket p j = {}" if "j \<notin> PoolAllocator_free p" for j
    using that i(1) by (intro bucket_disjoint) auto
  then have "bucket p i \<inter> PoolAllocator_used p = {}"
    unfolding PoolAllocator_used_def by blast
  moreover have "bucket p i \<subseteq> PoolAllocator_used p'"
    using i cap by (auto simp: PoolAllocator_used_def)
  moreover have "PoolAllocator_used p \<subseteq> PoolAllocator_used p'"
    using i by (auto simp: PoolAllocator_used_def)
  ultimately show ?case
    using i al sub by auto
next
  case (3 p l e p')
  then show ?case
    using ui_acquire_none[of "pa_buckets p"] ui_acquire_ok[of "pa_buckets p"]
    by (cases "ui_free (pa_buckets p)")
      (fastforce simp: as_op_def PoolAllocator_allocate_def PoolAllocator_inv_def split: if_splits)+
qed

lemma PoolAllocator_get_index_bucket:
  assumes "PoolAllocator_inv p" "i < ui_capacity (pa_buckets p)"
  shows "PoolAllocator_get_index (pa_start p + unat i * pa_bucket_size p) p = Some i"
proof -
  have "unat i * pa_bucket_size p \<le> unat (ui_capacity (pa_buckets p)) * pa_bucket_size p"
    using assms(2) by (intro mult_right_mono) (auto simp: word_less_nat_alt)
  also have "\<dots> \<le> pa_size p"
    using assms(1) by (simp add: PoolAllocator_inv_def)
  finally have "unat i * pa_bucket_size p \<le> pa_size p" .
  then show ?thesis
    using assms(1) by (simp add: PoolAllocator_get_index_def PoolAllocator_inv_def)
qed

lemma PoolAllocator_deallocate_ok:
  assumes "PoolAllocator_inv p" "i < ui_capacity (pa_buckets p)" "i \<notin> PoolAllocator_free p"
  shows "\<exists>p'. PoolAllocator_deallocate (pa_start p + unat i * pa_bucket_size p) l p = Ret (Ok (), p')
    \<and> PoolAllocator_inv p' \<and> PoolAllocator_free p' = insert i (PoolAllocator_free p)
    \<and> pa_start p' = pa_start p \<and> pa_bucket_size p' = pa_bucket_size p
    \<and> ui_capacity (pa_buckets p') = ui_capacity (pa_buckets p)"
proof -
  have inv: "ui_inv (pa_buckets p)"
    using assms(1) by (simp add: PoolAllocator_inv_def)
  obtain b where b: "UniqueIndexSet_release_raw_index i (pa_buckets p) = Ret b" "ui_inv b"
    "ui_free b = i # ui_free (pa_buckets p)" "ui_capacity b = ui_capacity (pa_buckets p)"
    using ui_release_ok[OF inv assms(2)] assms(3) by (auto simp: PoolAllocator_free_def)
  then show ?thesis
    using assms(1) PoolAllocator_get_index_bucket[OF assms(1,2)]
    by (auto simp: PoolAllocator_deallocate_def PoolAllocator_inv_def PoolAllocator_free_def)
qed

lemma PoolAllocator_new_init:
  assumes l: "valid_layout l" "0 < layout_size l" "layout_align l dvd layout_size l"
    and fits: "align ptr (layout_align l) \<le> ptr + sz"
    and n: "n = (ptr + sz - align ptr (layout_align l)) div layout_size l" "n + 1 < 2 ^ 32"
    and alloc: "alloc (mk_layout (4 * (n + 1)) 4) m = (Ok c, m')"
  shows "\<exists>p q. PoolAllocator_new_uninit l ptr sz = Ret p
    \<and> PoolAllocator_init alloc p m = Ret (Ok (), q, m') \<and> PoolAllocator_inv q
    \<and> PoolAllocator_free q = {i. i < word_of_nat n}
    \<and> ui_capacity (pa_buckets q) = word_of_nat n
    \<and> pa_bucket_size q = layout_size l \<and> pa_bucket_alignment q = layout_align l
    \<and> pa_start q = align ptr (layout_align l)"
proof -
  let ?a = "align ptr (layout_align l)"
  have a: "0 < layout_align l" "align (layout_size l) (layout_align l) = layout_size l"
    using l valid_layout_pos by (auto simp: align_def)
  have c: "PoolAllocator_calc_number_of_buckets l ptr sz = Ret n"
    using a l fits n(1) by (simp add: PoolAllocator_calc_number_of_buckets_def)
  obtain b where b: "UniqueIndexSet_init alloc (UniqueIndexSet_new_uninit n) m = Ret (Ok (), b, m')"
    "ui_inv b" "ui_free b = map word_of_nat [0..<n]" "ui_capacity b = word_of_nat n"
    using UniqueIndexSet_init_inv[of n alloc m c m'] n(2) alloc by blast
  let ?p = "\<lparr>pa_buckets = UniqueIndexSet_new_uninit n, pa_bucket_size = layout_size l,
    pa_bucket_alignment = layout_align l, pa_start = ?a, pa_size = sz,
    pa_is_memory_initialized = False\<rparr>"
  let ?q = "?p\<lparr>pa_buckets := b, pa_is_memory_initialized := True\<rparr>"
  have "n * layout_size l \<le> ptr + sz - ?a"
    unfolding n(1) by simp
  then have "n * layout_size l \<le> sz"
    using align_ge[OF a(1), of ptr] by linarith
  then have "PoolAllocator_inv ?q"
    using b l a n(2) align_dvd[OF a(1)]
    by (auto simp: PoolAllocator_inv_def valid_layout_def unat_word32)
  moreover have "set (ui_free b) = {i. i < word_of_nat n}"
  proof (rule card_subset_eq)
    show "set (ui_free b) \<subseteq> {i. i < word_of_nat n}"
      using b(2,4) free_chain_bound by (auto simp: ui_inv_def)
    have "card (set (ui_free b)) = length (ui_free b)"
      using b(2) by (intro distinct_card) (simp add: ui_inv_def)
    then show "card (set (ui_free b)) = card {i::32 word. i < word_of_nat n}"
      using b(3) n(2) by (simp add: card_lessThan_word unat_word32)
  qed (rule card_lessThan_word)
  ultimately show ?thesis
    using c b a
    by (intro exI[of _ ?p] exI[of _ ?q])
      (simp add: PoolAllocator_new_uninit_def PoolAllocator_init_def PoolAllocator_free_def)
qed

lemma PoolAllocator_allocate_first:
  assumes "pa_is_memory_initialized p" "ui_inv (pa_buckets p)" "ui_free (pa_buckets p) = x # xs"
    "layout_size l \<le> pa_bucket_size p" "layout_align l \<le> pa_bucket_alignment p"
  shows "\<exists>b. PoolAllocator_allocate l p
      = Ret (Ok (pa_start p + unat x * pa_bucket_size p, layout_size l), p\<lparr>pa_buckets := b\<rparr>)
    \<and> ui_inv b \<and> ui_free b = xs"
  using assms ui_acquire_ok[OF assms(2,3)] by (auto simp: PoolAllocator_allocate_def)

lemma FixedSizePoolAllocator_new_buckets:
  assumes "0 < layout_align l" "0 < layout_size l" "align ptr (layout_align l) \<le> ptr + sz"
    "n = min ((ptr + sz - align ptr (layout_align l)) div align (layout_size l) (layout_align l)) maxn"
    "maxn < 2 ^ 32"
  shows "\<exists>p. FixedSizePoolAllocator_new maxn l ptr sz = Ret p \<and> pa_is_memory_initialized p
    \<and> ui_inv (pa_buckets p) \<and> ui_free (pa_buckets p) = map word_of_nat [0..<n]
    \<and> ui_capacity (pa_buckets p) = word_of_nat n \<and> pa_size p = sz
    \<and> pa_bucket_size p = layout_size l \<and> pa_bucket_alignment p = layout_align l
    \<and> pa_start p = align ptr (layout_align l)"
proof -
  let ?d = "map (\<lambda>i. word_of_nat i + 1) [0..<maxn] @ [word_of_nat maxn + 1] :: 32 word list"
  let ?u = "\<lparr>ui_data = ?d, ui_capacity = word_of_nat n, ui_borrowed_indices = 0, ui_head = 0,
    ui_is_memory_initialized = True\<rparr>"
  have "0 < align (layout_size l) (layout_align l)"
    using assms(1,2) align_ge less_le_trans by blast
  moreover have "n \<le> maxn"
    using assms(4) by simp
  then have "ui_inv ?u \<and> ui_free ?u = map word_of_nat [0..<n]"
    using assms(5) free_chain_from[of n ?d 0]
    by (intro ui_inv_intro) (auto simp: unat_word32 distinct_word32 nth_append)
  ultimately show ?thesis
    using assms(3,4) by (simp add: FixedSizePoolAllocator_new_def Let_def)
qed

lemma FixedSizePoolAllocator_new_inv:
  assumes "valid_layout l" "0 < layout_size l" "layout_align l dvd layout_size l"
    "align ptr (layout_align l) \<le> ptr + sz"
    "n = min ((ptr + sz - align ptr (layout_align l)) div layout_size l) maxn" "maxn < 2 ^ 32"
  shows "\<exists>p. FixedSizePoolAllocator_new maxn l ptr sz = Ret p \<and> PoolAllocator_inv p
    \<and> ui_free (pa_buckets p) = map word_of_nat [0..<n]
    \<and> ui_capacity (pa_buckets p) = word_of_nat n \<and> pa_size p = sz
    \<and> pa_bucket_size p = layout_size l \<and> pa_bucket_alignment p = layout_align l
    \<and> pa_start p = align ptr (layout_align l)"
proof -
  have a: "0 < layout_align l" "align (layout_size l) (layout_align l) = layout_size l"
    using assms(1,3) valid_layout_pos by (auto simp: align_def)
  obtain p where p: "FixedSizePoolAllocator_new maxn l ptr sz = Ret p" "pa_is_memory_initialized p"
    "ui_inv (pa_buckets p)" "ui_free (pa_buckets p) = map word_of_nat [0..<n]"
    "ui_capacity (pa_buckets p) = word_of_nat n" "pa_size p = sz"
    "pa_bucket_size p = layout_size l" "pa_bucket_alignment p = layout_align l"
    "pa_start p = align ptr (layout_align l)"
    using FixedSizePoolAllocator_new_buckets[of l ptr sz n maxn] a assms by auto
  have "n * layout_size l \<le> ((ptr + sz - align ptr (layout_align l)) div layout_size l) * layout_size l"
    using assms(5) by (intro mult_right_mono) auto
  also have "\<dots> \<le> ptr + sz - align ptr (layout_align l)"
    by simp
  also have "\<dots> \<le> sz"
    using align_ge[OF a(1), of ptr] by linarith
  finally have "n * layout_size l \<le> sz" .
  then have "PoolAllocator_inv p"
    using p assms a align_dvd[OF a(1)]
    by (auto simp: PoolAllocator_inv_def valid_layout_def unat_word32)
  then show ?thesis
    using p by blast
qed

section \<open>Properties\<close>

text \<open>
  C9: A pool allocator that was set up for a bucket layout (a size that is a multiple of a
  power-of-two alignment) hands out chunks that are large enough, aligned as requested,
  inside the managed memory and pairwise disjoint, whatever the sequence of requests.
\<close>

theorem pool_allocator_chunks_disjoint:
  assumes "PoolAllocator_inv p" "\<forall>l \<in> set ls. valid_layout l" "pa.allocate_all ls p = (Ok cs, p')"
  shows "list_all2 (\<lambda>l c. layout_size l \<le> snd c \<and> layout_align l dvd fst c) ls cs
    \<and> (\<forall>i < length cs. \<forall>j < i. chunk_bytes (cs ! j) \<inter> chunk_bytes (cs ! i) = {})
    \<and> (\<forall>c \<in> set cs. chunk_bytes c \<subseteq>
        {pa_start p ..< pa_start p + unat (PoolAllocator_number_of_buckets p) * pa_bucket_size p})
    \<and> PoolAllocator_inv p'"
proof -
  note all = pa.allocate_all_disjoint[OF assms]
  then have "PoolAllocator_used p' \<subseteq>
      {pa_start p ..< pa_start p + unat (PoolAllocator_number_of_buckets p) * pa_bucket_size p}"
    using pa.used_region[of p'] by (simp add: PoolAllocator_number_of_buckets_def)
  then show ?thesis
    using all pa.allocate_all_layouts[OF assms] by blast
qed

text \<open>A pool of four 16-byte buckets at address 4096.\<close>

lemma valid_layout_8: "valid_layout (mk_layout s 8)"
  unfolding valid_layout_def by (rule exI[of _ 3]) simp

lemma example_pool:
  "\<exists>p. FixedSizePoolAllocator_new 4 (mk_layout 16 8) 4096 64 = Ret p \<and> PoolAllocator_inv p
    \<and> ui_free (pa_buckets p) = map word_of_nat [0..<4] \<and> pa_bucket_size p = 16
    \<and> pa_bucket_alignment p = 8 \<and> pa_start p = 4096 \<and> pa_size p = 64
    \<and> ui_capacity (pa_buckets p) = 4"
  using FixedSizePoolAllocator_new_inv[of "mk_layout 16 8" 4096 64 4 4]
  by (auto simp: valid_layout_8 align_def)

lemma example_pool_allocate:
  assumes "PoolAllocator_inv p" "ui_free (pa_buckets p) = map word_of_nat [0..<4]"
    "pa_bucket_size p = 16" "pa_bucket_alignment p = 8" "pa_start p = 4096"
  shows "\<exists>b. PoolAllocator_allocate (mk_layout 16 8) p = Ret (Ok (4096, 16), p\<lparr>pa_buckets := b\<rparr>)"
  using PoolAllocator_allocate_first[of p 0 "map word_of_nat [1..<4]" "mk_layout 16 8"] assms
  by (auto simp: PoolAllocator_inv_def upt_conv_Cons)

theorem pool_allocator_chunks_disjoint_witness:
  "\<exists>p cs p'. FixedSizePoolAllocator_new 4 (mk_layout 16 8) 4096 64 = Ret p
    \<and> pa.allocate_all [mk_layout 16 8] p = (Ok cs, p')
    \<and> list_all2 (\<lambda>l c. layout_size l \<le> snd c \<and> layout_align l dvd fst c) [mk_layout 16 8] cs
    \<and> (\<forall>c \<in> set cs. chunk_bytes c \<subseteq> {4096 ..< 4096 + 64}) \<and> PoolAllocator_inv p'"
proof -
  obtain p where p: "FixedSizePoolAllocator_new 4 (mk_layout 16 8) 4096 64 = Ret p"
    "PoolAllocator_inv p" "ui_free (pa_buckets p) = map word_of_nat [0..<4]"
    "pa_bucket_size p = 16" "pa_bucket_alignment p = 8" "pa_start p = 4096"
    "ui_capacity (pa_buckets p) = 4"
    using example_pool by blast
  then obtain b where "PoolAllocator_allocate (mk_layout 16 8) p = Ret (Ok (4096, 16), p\<lparr>pa_buckets := b\<rparr>)"
    using example_pool_allocate by blast
  then have a: "pa.allocate_all [mk_layout 16 8] p = (Ok [(4096, 16)], p\<lparr>pa_buckets := b\<rparr>)"
    by (simp add: as_op_def)
  have "\<forall>l \<in> set [mk_layout 16 8]. valid_layout l"
    by (simp add: valid_layout_8)
  from pool_allocator_chunks_disjoint[OF p(2) this a] show ?thesis
    using p a by (auto simp: PoolAllocator_number_of_buckets_def)
qed

text \<open>
  Deallocating a chunk that the pool allocator handed out succeeds and makes exactly
  this bucket available again.
\<close>

theorem pool_allocator_roundtrip:
  assumes "PoolAllocator_inv p" "PoolAllocator_allocate l p = Ret (Ok c, p')"
  shows "\<exists>p''. PoolAllocator_deallocate (fst c) l p' = Ret (Ok (), p'')
    \<and> PoolAllocator_inv p'' \<and> PoolAllocator_free p'' = PoolAllocator_free p"
proof -
  obtain i where i: "i \<in> PoolAllocator_free p" "c = (pa_start p + unat i * pa_bucket_size p, layout_size l)"
    "PoolAllocator_inv p'" "PoolAllocator_free p' = PoolAllocator_free p - {i}"
    "pa_start p' = pa_start p" "pa_bucket_size p' = pa_bucket_size p"
    "ui_capacity (pa_buckets p') = ui_capacity (pa_buckets p)"
    using PoolAllocator_allocate_ok[OF assms] by blast
  have "i < ui_capacity (pa_buckets p')"
    using i assms(1) free_chain_bound
    by (auto simp: PoolAllocator_free_def PoolAllocator_inv_def ui_inv_def)
  then obtain p'' where "PoolAllocator_deallocate (fst c) l p' = Ret (Ok (), p'')"
    "PoolAllocator_inv p''" "PoolAllocator_free p'' = insert i (PoolAllocator_free p')"
    using PoolAllocator_deallocate_ok[OF i(3), of i l] i by auto
  then show ?thesis
    using i by (simp add: insert_absorb)
qed

theorem pool_allocator_roundtrip_witness:
  "\<exists>p p' p''. FixedSizePoolAllocator_new 4 (mk_layout 16 8) 4096 64 = Ret p
    \<and> PoolAllocator_allocate (mk_layout 16 8) p = Ret (Ok (4096, 16), p')
    \<and> PoolAllocator_deallocate 4096 (mk_layout 16 8) p' = Ret (Ok (), p'')
    \<and> PoolAllocator_free p'' = PoolAllocator_free p"
proof -
  obtain p where p: "FixedSizePoolAllocator_new 4 (mk_layout 16 8) 4096 64 = Ret p"
    "PoolAllocator_inv p" "ui_free (pa_buckets p) = map word_of_nat [0..<4]"
    "pa_bucket_size p = 16" "pa_bucket_alignment p = 8" "pa_start p = 4096"
    using example_pool by blast
  then obtain p' where a: "PoolAllocator_allocate (mk_layout 16 8) p = Ret (Ok (4096, 16), p')"
    using example_pool_allocate by blast
  from pool_allocator_roundtrip[OF p(2) a] show ?thesis
    using p(1) a by auto
qed

text \<open>
  C35: \<open>deallocate\<close> accepts the address one past the managed memory, which no allocation
  returned: it reports success, and from then on the allocator is out of memory although
  buckets are free.
\<close>

theorem pool_allocator_end_pointer_accepted:
  assumes "PoolAllocator_inv p"
    "pa_size p = unat (PoolAllocator_number_of_buckets p) * pa_bucket_size p"
  shows "\<exists>p'. PoolAllocator_deallocate (pa_start p + pa_size p) l p = Ret (Ok (), p')
    \<and> (\<forall>k c p''. PoolAllocator_allocate k p' \<noteq> Ret (Ok c, p''))"
proof -
  let ?c = "ui_capacity (pa_buckets p)"
  have p: "pa_is_memory_initialized p" "ui_is_memory_initialized (pa_buckets p)"
    "0 < pa_bucket_size p" "pa_size p = unat ?c * pa_bucket_size p"
    using assms by (auto simp: PoolAllocator_inv_def ui_inv_def PoolAllocator_number_of_buckets_def)
  then have i: "PoolAllocator_get_index (pa_start p + pa_size p) p = Some ?c"
    by (simp add: PoolAllocator_get_index_def)
  obtain b where b: "UniqueIndexSet_release_raw_index ?c (pa_buckets p) = Ret b"
    "fst (extract_head_and_aba (ui_head b)) = ?c" "ui_capacity b = ?c" "ui_is_memory_initialized b"
    using p(2) by (cases "extract_head_and_aba (ui_head (pa_buckets p))")
      (auto simp: UniqueIndexSet_release_raw_index_def)
  have "UniqueIndexSet_acquire_raw_index b = Ret (None, b)"
    using b by (auto simp: UniqueIndexSet_acquire_raw_index_def split: prod.splits)
  then have "PoolAllocator_allocate k (p\<lparr>pa_buckets := b\<rparr>) \<noteq> Ret (Ok c, p'')" for k c p''
    by (simp add: PoolAllocator_allocate_def)
  moreover have "PoolAllocator_deallocate (pa_start p + pa_size p) l p
      = Ret (Ok (), p\<lparr>pa_buckets := b\<rparr>)"
    using p(1) i b(1) by (simp add: PoolAllocator_deallocate_def)
  ultimately show ?thesis
    by blast
qed

theorem pool_allocator_end_pointer_accepted_witness:
  "\<exists>p p'. FixedSizePoolAllocator_new 4 (mk_layout 16 8) 4096 64 = Ret p
    \<and> PoolAllocator_deallocate (4096 + 64) (mk_layout 16 8) p = Ret (Ok (), p')
    \<and> (\<forall>c p''. PoolAllocator_allocate (mk_layout 16 8) p' \<noteq> Ret (Ok c, p''))"
proof -
  obtain p where p: "FixedSizePoolAllocator_new 4 (mk_layout 16 8) 4096 64 = Ret p"
    "PoolAllocator_inv p" "pa_bucket_size p = 16" "pa_start p = 4096" "pa_size p = 64"
    "ui_capacity (pa_buckets p) = 4"
    using example_pool by blast
  then have "pa_size p = unat (PoolAllocator_number_of_buckets p) * pa_bucket_size p"
    by (simp add: PoolAllocator_number_of_buckets_def)
  from pool_allocator_end_pointer_accepted[OF p(2) this, of "mk_layout 16 8"] show ?thesis
    using p by auto
qed

text \<open>
  The bucket size is stored as requested while the number of buckets is computed from
  the aligned size: with a bucket layout of 12 bytes aligned to 8 the second chunk is not
  aligned to 8.
\<close>

theorem pool_allocator_misaligned_bucket:
  "\<exists>p p1 p2 c1 c2. FixedSizePoolAllocator_new 4 (mk_layout 12 8) 4096 64 = Ret p
    \<and> PoolAllocator_allocate (mk_layout 12 8) p = Ret (Ok c1, p1)
    \<and> PoolAllocator_allocate (mk_layout 12 8) p1 = Ret (Ok c2, p2) \<and> \<not> 8 dvd fst c2"
proof -
  let ?l = "mk_layout 12 8"
  obtain p where p: "FixedSizePoolAllocator_new 4 ?l 4096 64 = Ret p" "pa_is_memory_initialized p"
    "ui_inv (pa_buckets p)" "ui_free (pa_buckets p) = map word_of_nat [0..<4]"
    "pa_bucket_size p = 12" "pa_bucket_alignment p = 8" "pa_start p = 4096"
    using FixedSizePoolAllocator_new_buckets[of ?l 4096 64 4 4] by (auto simp: align_def)
  obtain b where b: "PoolAllocator_allocate ?l p = Ret (Ok (4096, 12), p\<lparr>pa_buckets := b\<rparr>)"
    "ui_inv b" "ui_free b = map word_of_nat [1..<4]"
    using PoolAllocator_allocate_first[of p 0 "map word_of_nat [1..<4]" ?l] p
    by (auto simp: upt_conv_Cons)
  obtain b' where "PoolAllocator_allocate ?l (p\<lparr>pa_buckets := b\<rparr>)
      = Ret (Ok (4108, 12), p\<lparr>pa_buckets := b'\<rparr>)"
    using PoolAllocator_allocate_first[of "p\<lparr>pa_buckets := b\<rparr>" 1 "map word_of_nat [2..<4]" ?l] p b
    by (auto simp: upt_conv_Cons)
  then show ?thesis
    using p(1) b(1) by fastforce
qed

text \<open>
  C33: The advertised memory size is enough: a bump allocator over that many bytes, at any
  address, lets the index queue, the overflowing index queue and the unique index set
  initialise themselves, and the result is the empty queue, respectively the full set.
\<close>

theorem const_memory_size_suffices:
  assumes "0 < c" "c + 1 < 2 ^ 32"
  shows "(\<exists>b. IndexQueue_init BumpAllocator_allocate (IndexQueue_new_uninit c)
        (BumpAllocator_new ptr (IndexQueue_const_memory_size c)) = Ret (Ok (), IndexQueue_new c, b))
    \<and> (\<exists>b. SafelyOverflowingIndexQueue_init BumpAllocator_allocate
        (SafelyOverflowingIndexQueue_new_uninit c)
        (BumpAllocator_new ptr (SafelyOverflowingIndexQueue_const_memory_size c))
        = Ret (Ok (), SafelyOverflowingIndexQueue_new c, b))
    \<and> (\<exists>b s. UniqueIndexSet_init BumpAllocator_allocate (UniqueIndexSet_new_uninit c)
        (BumpAllocator_new ptr (UniqueIndexSet_const_memory_size c)) = Ret (Ok (), s, b)
        \<and> ui_inv s \<and> ui_free s = map word_of_nat [0..<c])"
proof (intro conjI)
  obtain k b where "BumpAllocator_allocate (mk_layout (8 * c) 8)
      (BumpAllocator_new ptr (IndexQueue_const_memory_size c)) = (Ok k, b)"
    using BumpAllocator_allocate_succeeds[of "mk_layout (8 * c) 8"
        "BumpAllocator_new ptr (IndexQueue_const_memory_size c)"] assms
    by (auto simp: BumpAllocator_new_def IndexQueue_const_memory_size_def)
  then show "\<exists>b. IndexQueue_init BumpAllocator_allocate (IndexQueue_new_uninit c)
      (BumpAllocator_new ptr (IndexQueue_const_memory_size c)) = Ret (Ok (), IndexQueue_new c, b)"
    by (simp add: IndexQueue_init_def IndexQueue_new_uninit_def IndexQueue_new_def)
  obtain k b where "BumpAllocator_allocate (mk_layout (8 * (c + 1)) 8)
      (BumpAllocator_new ptr (SafelyOverflowingIndexQueue_const_memory_size c)) = (Ok k, b)"
    using BumpAllocator_allocate_succeeds[of "mk_layout (8 * (c + 1)) 8"
        "BumpAllocator_new ptr (SafelyOverflowingIndexQueue_const_memory_size c)"]
    by (auto simp: BumpAllocator_new_def SafelyOverflowingIndexQueue_const_memory_size_def)
  then show "\<exists>b. SafelyOverflowingIndexQueue_init BumpAllocator_allocate
      (SafelyOverflowingIndexQueue_new_uninit c)
      (BumpAllocator_new ptr (SafelyOverflowingIndexQueue_const_memory_size c))
      = Ret (Ok (), SafelyOverflowingIndexQueue_new c, b)"
    by (simp add: SafelyOverflowingIndexQueue_init_def SafelyOverflowingIndexQueue_new_uninit_def
        SafelyOverflowingIndexQueue_new_def)
  obtain k b where "BumpAllocator_allocate (mk_layout (4 * (c + 1)) 4)
      (BumpAllocator_new ptr (UniqueIndexSet_const_memory_size c)) = (Ok k, b)"
    using BumpAllocator_allocate_succeeds[of "mk_layout (4 * (c + 1)) 4"
        "BumpAllocator_new ptr (UniqueIndexSet_const_memory_size c)"]
    by (auto simp: BumpAllocator_new_def UniqueIndexSet_const_memory_size_def)
  then show "\<exists>b s. UniqueIndexSet_init BumpAllocator_allocate (UniqueIndexSet_new_uninit c)
      (BumpAllocator_new ptr (UniqueIndexSet_const_memory_size c)) = Ret (Ok (), s, b)
      \<and> ui_inv s \<and> ui_free s = map word_of_nat [0..<c]"
    using UniqueIndexSet_init_inv[of c BumpAllocator_allocate] assms(2) by blast
qed

theorem const_memory_size_suffices_witness:
  "\<exists>b. IndexQueue_init BumpAllocator_allocate (IndexQueue_new_uninit 3)
      (BumpAllocator_new 4097 (IndexQueue_const_memory_size 3)) = Ret (Ok (), IndexQueue_new 3, b)"
  using const_memory_size_suffices[of 3 4097] by simp

end
