(* ===== verification/LockFreeContainer.thy ===== *)
theory LockFreeContainer
  imports Allocators
begin

text \<open>
  The lock-free container of registered ports,
  \<open>iceoryx2_bb/lock_free/src/mpmc/container.rs\<close>: values at unique indices, an activity
  flag per index, and snapshots (\<open>ContainerState\<close>) that are refreshed when the head of the
  index set has changed. \<open>add\<close> is given as the two parts between which other threads may
  run: the acquisition of the index, and the publication of the value. A slot that was
  never written is \<^term>\<open>None\<close>.
\<close>

section \<open>Operations\<close>

record 'a Container =
  ct_active_index :: "bool list"
  ct_data :: "'a option list"
  ct_capacity :: nat
  ct_is_memory_initialized :: bool
  ct_index_set :: UniqueIndexSet

record 'a ContainerState =
  cs_current_index_set_head :: "64 word"
  cs_data :: "(32 word \<times> 'a) option list"
  cs_active_index :: "bool list"

definition Container_new_uninit :: "nat \<Rightarrow> 'a Container" where
  "Container_new_uninit capacity = \<lparr>ct_active_index = [], ct_data = [], ct_capacity = capacity,
     ct_is_memory_initialized = False, ct_index_set = UniqueIndexSet_new_uninit capacity\<rparr>"

text \<open>\<open>size_T\<close> and \<open>align_T\<close> are the size and the alignment of the element type.\<close>

definition Container_init ::
  "nat \<Rightarrow> nat \<Rightarrow> 'm allocate_op \<Rightarrow> 'a Container \<Rightarrow> 'm
     \<Rightarrow> ((unit, AllocationError) result \<times> 'a Container \<times> 'm) outcome" where
  "Container_init size_T align_T allocate c m =
     (if ct_is_memory_initialized c then Panic
      else outcome_bind (UniqueIndexSet_init allocate (ct_index_set c) m) (\<lambda>(r, u, m1).
        let c1 = c\<lparr>ct_index_set := u\<rparr> in
        case r of Err e \<Rightarrow> Ret (Err e, c1, m1)
        | Ok _ \<Rightarrow> (case allocate (mk_layout (1 * ct_capacity c) 1) m1 of
            (Err e, m2) \<Rightarrow> Ret (Err e, c1, m2)
          | (Ok _, m2) \<Rightarrow> (case allocate (mk_layout (size_T * ct_capacity c) align_T) m2 of
              (Err e, m3) \<Rightarrow> Ret (Err e, c1, m3)
            | (Ok _, m3) \<Rightarrow> Ret (Ok (),
                c1\<lparr>ct_active_index := replicate (ct_capacity c) False,
                   ct_data := replicate (ct_capacity c) None,
                   ct_is_memory_initialized := True\<rparr>, m3)))))"

definition Container_const_memory_size :: "nat \<Rightarrow> nat \<Rightarrow> nat \<Rightarrow> nat" where
  "Container_const_memory_size size_T align_T capacity =
     4 * (capacity + 1) + (1 + size_T) * capacity + 4 - 1 + align_T - 1"

definition FixedSizeContainer_new :: "nat \<Rightarrow> 'a Container" where
  "FixedSizeContainer_new CAPACITY = \<lparr>ct_active_index = replicate CAPACITY False,
     ct_data = replicate CAPACITY None, ct_capacity = CAPACITY,
     ct_is_memory_initialized = True, ct_index_set = FixedSizeUniqueIndexSet_new CAPACITY\<rparr>"

definition Container_len :: "'a Container \<Rightarrow> nat" where
  "Container_len c = ui_borrowed_indices (ct_index_set c)"

definition Container_is_empty :: "'a Container \<Rightarrow> bool" where
  "Container_is_empty c \<longleftrightarrow> Container_len c = 0"

definition Container_add_acquire :: "'a Container \<Rightarrow> (32 word option \<times> 'a Container) outcome" where
  "Container_add_acquire c =
     (if \<not> ct_is_memory_initialized c then Panic
      else outcome_bind (UniqueIndexSet_acquire_raw_index (ct_index_set c)) (\<lambda>(r, u).
        Ret (r, c\<lparr>ct_index_set := u\<rparr>)))"

definition Container_add_publish :: "'a \<Rightarrow> 32 word \<Rightarrow> 'a Container \<Rightarrow> 'a Container" where
  "Container_add_publish v index c =
     c\<lparr>ct_data := (ct_data c)[unat index := Some v],
       ct_active_index := (ct_active_index c)[unat index := True]\<rparr>"

definition Container_add :: "'a \<Rightarrow> 'a Container \<Rightarrow> (32 word option \<times> 'a Container) outcome" where
  "Container_add v c =
     outcome_bind (Container_add_acquire c) (\<lambda>(r, c1).
       case r of None \<Rightarrow> Ret (None, c1)
       | Some index \<Rightarrow> Ret (Some index, Container_add_publish v index c1))"

text \<open>
  Removal: the \<open>UniqueIndex\<close> is dropped, its callback clears the activity flag and the
  index goes back to the set. \<open>remove_raw_index\<close> does the same for a lost \<open>UniqueIndex\<close>.
\<close>

definition Container_cleanup :: "32 word \<Rightarrow> bool list \<Rightarrow> bool list" where
  "Container_cleanup index active = active[unat index := False]"

definition Container_remove :: "32 word \<Rightarrow> 'a Container \<Rightarrow> 'a Container outcome" where
  "Container_remove index c =
     outcome_bind
       (UniqueIndex_drop (Some Container_cleanup) index (ct_active_index c, ct_index_set c))
       (\<lambda>(a, u). Ret (c\<lparr>ct_active_index := a, ct_index_set := u\<rparr>))"

definition Container_remove_raw_index :: "32 word \<Rightarrow> 'a Container \<Rightarrow> 'a Container outcome" where
  "Container_remove_raw_index index c =
     (if \<not> ct_is_memory_initialized c then Panic
      else let c1 = c\<lparr>ct_active_index := (ct_active_index c)[unat index := False]\<rparr>
        in outcome_bind (UniqueIndexSet_release_raw_index index (ct_index_set c1)) (\<lambda>u.
             Ret (c1\<lparr>ct_index_set := u\<rparr>)))"

text \<open>
  \<open>update_state\<close> without a concurrent change: every entry is copied in the first round of
  its loop.
\<close>

definition Container_update_state ::
  "'a Container \<Rightarrow> 'a ContainerState \<Rightarrow> bool \<times> 'a ContainerState" where
  "Container_update_state c previous_state =
     (let current_index_set_head = ui_head (ct_index_set c)
      in if cs_current_index_set_head previous_state = current_index_set_head
         then (False, previous_state)
         else (True, previous_state\<lparr>
           cs_current_index_set_head := current_index_set_head,
           cs_active_index := map (\<lambda>i. ct_active_index c ! i) [0..<ct_capacity c],
           cs_data := map (\<lambda>i. if ct_active_index c ! i
                               then Some (word_of_nat i, the (ct_data c ! i))
                               else cs_data previous_state ! i) [0..<ct_capacity c]\<rparr>))"

definition Container_get_state :: "'a Container \<Rightarrow> 'a ContainerState outcome" where
  "Container_get_state c =
     (if \<not> ct_is_memory_initialized c then Panic
      else Ret (snd (Container_update_state c
        \<lparr>cs_current_index_set_head = 0, cs_data = replicate (ct_capacity c) None,
         cs_active_index = replicate (ct_capacity c) False\<rparr>)))"

text \<open>The arguments of the callback of \<open>for_each\<close>, call by call.\<close>

definition ContainerState_for_each :: "'a ContainerState \<Rightarrow> (32 word \<times> 'a) list" where
  "ContainerState_for_each st =
     map (\<lambda>i. the (cs_data st ! i)) (filter (\<lambda>i. cs_active_index st ! i) [0..<length (cs_data st)])"

section \<open>Invariant\<close>

definition Container_inv :: "'a Container \<Rightarrow> bool" where
  "Container_inv c \<longleftrightarrow> ct_is_memory_initialized c \<and> ui_inv (ct_index_set c)
     \<and> ct_capacity c < 2 ^ 32 \<and> ui_capacity (ct_index_set c) = word_of_nat (ct_capacity c)
     \<and> length (ct_active_index c) = ct_capacity c \<and> length (ct_data c) = ct_capacity c
     \<and> (\<forall>i < ct_capacity c. ct_active_index c ! i \<longleftrightarrow> word_of_nat i \<notin> set (ui_free (ct_index_set c)))
     \<and> (\<forall>i < ct_capacity c. ct_active_index c ! i \<longrightarrow> ct_data c ! i \<noteq> None)"

text \<open>The registered values, by index.\<close>

definition Container_contents :: "'a Container \<Rightarrow> (32 word \<times> 'a) list" where
  "Container_contents c = map (\<lambda>i. (word_of_nat i, the (ct_data c ! i)))
     (filter (\<lambda>i. ct_active_index c ! i) [0..<ct_capacity c])"

lemma FixedSizeContainer_new_inv:
  assumes "n < 2 ^ 32"
  shows "Container_inv (FixedSizeContainer_new n)"
    and "Container_contents (FixedSizeContainer_new n) = []"
  using FixedSizeUniqueIndexSet_new_inv[OF assms] assms
  by (auto simp: Container_inv_def FixedSizeContainer_new_def Container_contents_def
      FixedSizeUniqueIndexSet_new_def filter_empty_conv)

lemma word_of_nat_eq32: "i < 2 ^ 32 \<Longrightarrow> (word_of_nat i :: 32 word) = w \<longleftrightarrow> i = unat w"
  by (metis unat_word32 word_unat_eq_iff)

lemma Container_add_ok:
  assumes inv: "Container_inv c" and free: "ui_free (ct_index_set c) = x # xs"
  shows "\<exists>c'. Container_add v c = Ret (Some x, c') \<and> Container_inv c'
    \<and> unat x < ct_capacity c \<and> \<not> ct_active_index c ! unat x
    \<and> ct_active_index c' = (ct_active_index c)[unat x := True]
    \<and> ct_data c' = (ct_data c)[unat x := Some v] \<and> ct_capacity c' = ct_capacity c
    \<and> ui_free (ct_index_set c') = xs"
proof -
  let ?u = "ct_index_set c"
  have u: "ui_inv ?u" "ct_capacity c < 2 ^ 32" "ui_capacity ?u = word_of_nat (ct_capacity c)"
    using inv by (auto simp: Container_inv_def)
  obtain u' where u': "UniqueIndexSet_acquire_raw_index ?u = Ret (Some x, u')" "ui_inv u'"
    "ui_free u' = xs" "ui_capacity u' = ui_capacity ?u"
    using ui_acquire_ok[OF u(1) free] by blast
  have x: "x < ui_capacity ?u" "x \<notin> set xs"
    using u(1) free free_chain_bound[of _ _ _ "x # xs" x] by (auto simp: ui_inv_def)
  then have lt: "unat x < ct_capacity c"
    using u by (simp add: word_less_nat_alt unat_word32)
  have act: "(ct_active_index c)[unat x := True] ! i \<longleftrightarrow> word_of_nat i \<notin> set xs"
    if i: "i < ct_capacity c" for i
  proof (cases "i = unat x")
    case True
    then show ?thesis
      using i inv x(2) by (simp add: Container_inv_def)
  next
    case False
    then have "(word_of_nat i :: 32 word) \<noteq> x"
      using i u(2) by (simp add: word_of_nat_eq32)
    then show ?thesis
      using False i inv free by (simp add: Container_inv_def)
  qed
  have dat: "(ct_data c)[unat x := Some v] ! i \<noteq> None"
    if "i < ct_capacity c" "(ct_active_index c)[unat x := True] ! i" for i
    using that inv by (cases "i = unat x") (auto simp: Container_inv_def)
  have "Container_inv (Container_add_publish v x (c\<lparr>ct_index_set := u'\<rparr>))"
    unfolding Container_inv_def
  proof (intro conjI allI impI)
    show "ct_active_index (Container_add_publish v x (c\<lparr>ct_index_set := u'\<rparr>)) ! i
        \<longleftrightarrow> word_of_nat i \<notin> set (ui_free (ct_index_set (Container_add_publish v x (c\<lparr>ct_index_set := u'\<rparr>))))"
      if "i < ct_capacity (Container_add_publish v x (c\<lparr>ct_index_set := u'\<rparr>))" for i
      using act[of i] that u'(3) by (simp add: Container_add_publish_def)
    show "ct_data (Container_add_publish v x (c\<lparr>ct_index_set := u'\<rparr>)) ! i \<noteq> None"
      if "i < ct_capacity (Container_add_publish v x (c\<lparr>ct_index_set := u'\<rparr>))"
        "ct_active_index (Container_add_publish v x (c\<lparr>ct_index_set := u'\<rparr>)) ! i" for i
      using dat[of i] that by (simp add: Container_add_publish_def)
  qed (use inv u' in \<open>simp_all add: Container_inv_def Container_add_publish_def\<close>)
  moreover have "Container_add v c = Ret (Some x, Container_add_publish v x (c\<lparr>ct_index_set := u'\<rparr>))"
    using inv u'(1) by (simp add: Container_add_def Container_add_acquire_def Container_inv_def)
  moreover have "\<not> ct_active_index c ! unat x"
    using inv lt free by (auto simp: Container_inv_def)
  ultimately show ?thesis
    using lt u'(3) by (auto simp: Container_add_publish_def)
qed

lemma Container_add_full:
  assumes "Container_inv c" "ui_free (ct_index_set c) = []"
  shows "Container_add v c = Ret (None, c)"
  using assms ui_acquire_none[of "ct_index_set c"]
  by (simp add: Container_add_def Container_add_acquire_def Container_inv_def)

lemma Container_remove_ok:
  assumes inv: "Container_inv c" and i: "unat i < ct_capacity c" "ct_active_index c ! unat i"
  shows "\<exists>c'. Container_remove i c = Ret c' \<and> Container_remove_raw_index i c = Ret c'
    \<and> Container_inv c' \<and> ct_capacity c' = ct_capacity c \<and> ct_data c' = ct_data c
    \<and> ct_active_index c' = (ct_active_index c)[unat i := False]"
proof -
  let ?u = "ct_index_set c"
  have u: "ui_inv ?u" "ct_capacity c < 2 ^ 32" "ui_capacity ?u = word_of_nat (ct_capacity c)"
    using inv by (auto simp: Container_inv_def)
  have "i < ui_capacity ?u" "i \<notin> set (ui_free ?u)"
    using inv i u by (auto simp: Container_inv_def word_less_nat_alt unat_word32)
  then obtain u' where u': "UniqueIndexSet_release_raw_index i ?u = Ret u'" "ui_inv u'"
    "ui_free u' = i # ui_free ?u" "ui_capacity u' = ui_capacity ?u"
    using ui_release_ok[OF u(1)] by blast
  let ?c = "c\<lparr>ct_active_index := (ct_active_index c)[unat i := False], ct_index_set := u'\<rparr>"
  have act: "(ct_active_index c)[unat i := False] ! j \<longleftrightarrow> word_of_nat j \<notin> set (i # ui_free ?u)"
    if j: "j < ct_capacity c" for j
    using inv j u(2) by (cases "j = unat i") (auto simp: Container_inv_def word_of_nat_eq32)
  have dat: "ct_data c ! j \<noteq> None"
    if "j < ct_capacity c" "(ct_active_index c)[unat i := False] ! j" for j
    using that inv by (cases "j = unat i") (auto simp: Container_inv_def)
  have "Container_inv ?c"
    unfolding Container_inv_def
  proof (intro conjI allI impI)
    show "ct_active_index ?c ! j \<longleftrightarrow> word_of_nat j \<notin> set (ui_free (ct_index_set ?c))"
      if "j < ct_capacity ?c" for j
      using act[of j] that u'(3) by simp
    show "ct_data ?c ! j \<noteq> None" if "j < ct_capacity ?c" "ct_active_index ?c ! j" for j
      using dat[of j] that by simp
  qed (use inv u' in \<open>simp_all add: Container_inv_def\<close>)
  moreover have "Container_remove i c = Ret ?c \<and> Container_remove_raw_index i c = Ret ?c"
    using u'(1) inv
    by (simp add: Container_remove_def Container_remove_raw_index_def UniqueIndex_drop_def
        Container_cleanup_def Container_inv_def)
  ultimately show ?thesis
    by auto
qed

section \<open>Snapshots\<close>

lemma for_each_update:
  assumes "Container_inv c" "cs_current_index_set_head st \<noteq> ui_head (ct_index_set c)"
  shows "\<exists>st'. Container_update_state c st = (True, st')
    \<and> ContainerState_for_each st' = Container_contents c
    \<and> cs_current_index_set_head st' = ui_head (ct_index_set c)"
  using assms
  by (auto simp: Container_update_state_def ContainerState_for_each_def Container_contents_def
      intro!: map_cong filter_cong)

lemma head_changes:
  assumes "Container_inv c" "Container_add v c = Ret (Some i, c')"
  shows "ui_head (ct_index_set c') \<noteq> ui_head (ct_index_set c)"
proof -
  obtain u where u: "UniqueIndexSet_acquire_raw_index (ct_index_set c) = Ret (Some i, u)"
    "ct_index_set c' = u"
    using assms by (auto simp: Container_add_def Container_add_acquire_def Container_inv_def
        Container_add_publish_def outcome_bind_eq_Ret split: option.splits)
  have "snd (extract_head_and_aba (ui_head u))
      = snd (extract_head_and_aba (ui_head (ct_index_set c))) + 1"
    using u(1) by (auto simp: UniqueIndexSet_acquire_raw_index_def Let_def split: prod.splits if_splits)
  then show ?thesis
    using u(2) by auto
qed

lemma mem_contents:
  assumes "ct_capacity c < 2 ^ 32"
  shows "(w, x) \<in> set (Container_contents c) \<longleftrightarrow>
    unat w < ct_capacity c \<and> ct_active_index c ! unat w \<and> x = the (ct_data c ! unat w)"
proof
  assume "(w, x) \<in> set (Container_contents c)"
  then obtain j where "j < ct_capacity c" "ct_active_index c ! j" "w = word_of_nat j"
    "x = the (ct_data c ! j)"
    by (auto simp: Container_contents_def)
  then show "unat w < ct_capacity c \<and> ct_active_index c ! unat w \<and> x = the (ct_data c ! unat w)"
    using assms by (simp add: unat_word32)
qed (auto simp: Container_contents_def image_iff intro!: bexI[of _ "unat w"])

lemma example_free: "ui_free (ct_index_set (FixedSizeContainer_new 2)) = [0, 1]"
proof -
  have "[0..<2] = [0, 1::nat]"
    by (simp add: numeral_2_eq_2)
  then show ?thesis
    using FixedSizeUniqueIndexSet_new_inv[of 2] by (simp add: FixedSizeContainer_new_def)
qed

lemma Container_add_some:
  assumes "Container_inv c" "Container_add v c = Ret (Some i, c')"
  shows "Container_inv c' \<and> unat i < ct_capacity c \<and> \<not> ct_active_index c ! unat i
    \<and> ct_active_index c' = (ct_active_index c)[unat i := True]
    \<and> ct_data c' = (ct_data c)[unat i := Some v] \<and> ct_capacity c' = ct_capacity c"
proof (cases "ui_free (ct_index_set c)")
  case Nil
  then show ?thesis
    using Container_add_full[OF assms(1) Nil, of v] assms(2) by simp
next
  case (Cons x xs)
  then show ?thesis
    using Container_add_ok[OF assms(1) Cons, of v] assms(2) by auto
qed

section \<open>Properties\<close>

text \<open>
  C30: Adding a value registers it under a fresh index without touching the others, and a
  snapshot that was current before the addition notices it: its next update reports a
  change and afterwards lists exactly the registered values.
\<close>

theorem container_add_seen_by_update:
  assumes inv: "Container_inv c" and cur: "cs_current_index_set_head st = ui_head (ct_index_set c)"
    and add: "Container_add v c = Ret (Some i, c')"
  shows "\<exists>st'. Container_update_state c' st = (True, st')
    \<and> ContainerState_for_each st' = Container_contents c'
    \<and> set (Container_contents c') = insert (i, v) (set (Container_contents c))
    \<and> i \<notin> fst ` set (Container_contents c)"
proof -
  note c' = Container_add_some[OF inv add]
  have len: "length (ct_active_index c) = ct_capacity c" "length (ct_data c) = ct_capacity c"
    "ct_capacity c < 2 ^ 32"
    using inv by (auto simp: Container_inv_def)
  have "(w, x) \<in> set (Container_contents c') \<longleftrightarrow> (w, x) \<in> insert (i, v) (set (Container_contents c))"
    for w x
    using c' len by (auto simp: mem_contents nth_list_update word_unat_eq_iff)
  then have "set (Container_contents c') = insert (i, v) (set (Container_contents c))"
    by auto
  moreover have "i \<notin> fst ` set (Container_contents c)"
    using c' len by (auto simp: mem_contents)
  moreover have "cs_current_index_set_head st \<noteq> ui_head (ct_index_set c')"
    using head_changes[OF inv add] cur by simp
  ultimately show ?thesis
    using for_each_update[of c' st] c' by blast
qed

theorem container_add_seen_by_update_witness:
  "\<exists>i c' st st'. Container_add True (FixedSizeContainer_new 2) = Ret (Some i, c')
    \<and> Container_get_state (FixedSizeContainer_new 2) = Ret st
    \<and> Container_update_state c' st = (True, st')
    \<and> set (ContainerState_for_each st') = {(i, True)}"
proof -
  let ?c = "FixedSizeContainer_new 2 :: bool Container"
  have c: "Container_inv ?c" "Container_contents ?c = []"
    by (rule FixedSizeContainer_new_inv; simp)+
  obtain st where st: "Container_get_state ?c = Ret st"
    "cs_current_index_set_head st = ui_head (ct_index_set ?c)"
    by (simp add: Container_get_state_def Container_update_state_def FixedSizeContainer_new_def
        FixedSizeUniqueIndexSet_new_def)
  obtain c' where add: "Container_add True ?c = Ret (Some 0, c')"
    using Container_add_ok[OF c(1) example_free] by blast
  from container_add_seen_by_update[OF c(1) st(2) add] show ?thesis
    using st(1) add c(2) by auto
qed

text \<open>
  Removing an added value, by dropping its \<open>UniqueIndex\<close> or through
  \<open>remove_raw_index\<close>, restores the registered values.
\<close>

theorem container_add_remove:
  assumes inv: "Container_inv c" and add: "Container_add v c = Ret (Some i, c')"
  shows "\<exists>c''. Container_remove i c' = Ret c'' \<and> Container_remove_raw_index i c' = Ret c''
    \<and> Container_inv c'' \<and> set (Container_contents c'') = set (Container_contents c)"
proof -
  note c' = Container_add_some[OF inv add]
  have len: "length (ct_active_index c) = ct_capacity c" "length (ct_data c) = ct_capacity c"
    "ct_capacity c < 2 ^ 32"
    using inv by (auto simp: Container_inv_def)
  obtain c'' where c'': "Container_remove i c' = Ret c''" "Container_remove_raw_index i c' = Ret c''"
    "Container_inv c''" "ct_capacity c'' = ct_capacity c'" "ct_data c'' = ct_data c'"
    "ct_active_index c'' = (ct_active_index c')[unat i := False]"
    using Container_remove_ok[of c' i] c' len by auto
  have "(w, x) \<in> set (Container_contents c'') \<longleftrightarrow> (w, x) \<in> set (Container_contents c)" for w x
    using c' c'' len by (auto simp: mem_contents nth_list_update word_unat_eq_iff split: if_splits)
  then have "set (Container_contents c'') = set (Container_contents c)"
    by auto
  then show ?thesis
    using c'' by blast
qed

theorem container_add_remove_witness:
  "\<exists>i c' c''. Container_add True (FixedSizeContainer_new 2) = Ret (Some i, c')
    \<and> Container_remove i c' = Ret c'' \<and> set (Container_contents c'') = {}"
proof -
  let ?c = "FixedSizeContainer_new 2 :: bool Container"
  have c: "Container_inv ?c" "Container_contents ?c = []"
    by (rule FixedSizeContainer_new_inv; simp)+
  obtain c' where add: "Container_add True ?c = Ret (Some 0, c')"
    using Container_add_ok[OF c(1) example_free] by blast
  from container_add_remove[OF c(1) add] show ?thesis
    using add c(2) by auto
qed

text \<open>
  C31: An addition can be missed: when a snapshot is taken after \<open>add\<close> has acquired its index
  and before it has published the value, the snapshot already carries the new head of the
  index set. However often it is then updated from the otherwise unchanged container, it reports no
  change and the value stays invisible, although the addition has completed; only a further
  addition or removal moves the head and lets an update copy the value.
\<close>

theorem container_update_misses_add:
  assumes inv: "Container_inv c" and acq: "Container_add_acquire c = Ret (Some i, c1)"
    and st: "Container_get_state c1 = Ret st" and head: "ui_head (ct_index_set c1) \<noteq> 0"
  shows "Container_add v c = Ret (Some i, Container_add_publish v i c1)
    \<and> Container_update_state (Container_add_publish v i c1) st = (False, st)
    \<and> ((\<lambda>st. snd (Container_update_state (Container_add_publish v i c1) st)) ^^ n) st = st
    \<and> (i, v) \<in> set (Container_contents (Container_add_publish v i c1))
    \<and> i \<notin> fst ` set (ContainerState_for_each st)"
proof -
  have add: "Container_add v c = Ret (Some i, Container_add_publish v i c1)"
    using acq by (simp add: Container_add_def)
  note c' = Container_add_some[OF inv add]
  have c1: "ct_active_index c1 = ct_active_index c" "ct_capacity c1 = ct_capacity c"
    "ct_data c1 = ct_data c" "ct_is_memory_initialized c1"
    using acq by (auto simp: Container_add_acquire_def outcome_bind_eq_Ret split: if_splits)
  have st': "cs_current_index_set_head st = ui_head (ct_index_set c1)"
    "cs_active_index st = map (\<lambda>i. ct_active_index c ! i) [0..<ct_capacity c]"
    "cs_data st = map (\<lambda>i. if ct_active_index c ! i then Some (word_of_nat i, the (ct_data c ! i))
        else replicate (ct_capacity c) None ! i) [0..<ct_capacity c]"
    using st head c1 by (auto simp: Container_get_state_def Container_update_state_def)
  have len: "length (ct_active_index c) = ct_capacity c" "length (ct_data c) = ct_capacity c"
    "ct_capacity c < 2 ^ 32"
    using inv by (auto simp: Container_inv_def)
  have "(i, v) \<in> set (Container_contents (Container_add_publish v i c1))"
    using c' len by (simp add: mem_contents)
  moreover have "i \<notin> fst ` set (ContainerState_for_each st)"
    using c' st' len by (auto simp: ContainerState_for_each_def unat_word32)
  moreover have "Container_update_state (Container_add_publish v i c1) st = (False, st)"
    using st'(1) by (simp add: Container_update_state_def Container_add_publish_def)
  moreover from this have "((\<lambda>st. snd (Container_update_state (Container_add_publish v i c1) st)) ^^ n) st = st"
    by (induction n) simp_all
  ultimately show ?thesis
    using add by blast
qed

theorem container_update_misses_add_witness:
  "\<exists>c1 st. Container_add_acquire (FixedSizeContainer_new 2) = Ret (Some 0, c1)
    \<and> Container_get_state c1 = Ret st
    \<and> Container_update_state (Container_add_publish True 0 c1) st = (False, st)
    \<and> (0, True) \<in> set (Container_contents (Container_add_publish True 0 c1))
    \<and> 0 \<notin> fst ` set (ContainerState_for_each st)"
proof -
  let ?c = "FixedSizeContainer_new 2 :: bool Container"
  have c: "Container_inv ?c"
    by (rule FixedSizeContainer_new_inv) simp
  obtain c' where add: "Container_add True ?c = Ret (Some 0, c')"
    using Container_add_ok[OF c example_free] by blast
  then obtain c1 where acq: "Container_add_acquire ?c = Ret (Some 0, c1)"
    "c' = Container_add_publish True 0 c1"
    by (auto simp: Container_add_def outcome_bind_eq_Ret split: option.splits)
  have head: "ui_head (ct_index_set c1) \<noteq> 0"
    using head_changes[OF c add] acq(2)
    by (simp add: Container_add_publish_def FixedSizeContainer_new_def FixedSizeUniqueIndexSet_new_def)
  have "ct_is_memory_initialized c1"
    using acq(1) by (auto simp: Container_add_acquire_def outcome_bind_eq_Ret split: if_splits)
  then obtain st where st: "Container_get_state c1 = Ret st"
    by (simp add: Container_get_state_def)
  from container_update_misses_add[OF c acq(1) st head, of True] show ?thesis
    using acq(1) st by blast
qed

text \<open>
  The advertised memory size of the container is enough: a bump allocator that has that many bytes
  left, at any address, lets a container with elements of a positive size initialise itself, and
  the result is an empty container.
\<close>

lemma container_memory_size_suffices:
  assumes "0 < n" "n + 1 < 2 ^ 32" "0 < size_T" "0 < align_T"
    and room: "ba_current_position b + Container_const_memory_size size_T align_T n \<le> ba_size b"
  shows "\<exists>c b'. Container_init size_T align_T BumpAllocator_allocate (Container_new_uninit n) b = Ret (Ok (), c, b')
    \<and> Container_inv c \<and> Container_contents c = [] \<and> ct_capacity c = n
    \<and> ba_size b' = ba_size b
    \<and> ba_current_position b' \<le> ba_current_position b + Container_const_memory_size size_T align_T n"
proof -
  have tot: "Container_const_memory_size size_T align_T n = 4 * (n + 1) + 3 + n + size_T * n + (align_T - 1)"
    using assms by (simp add: Container_const_memory_size_def algebra_simps)
  obtain k1 b1 where b1: "BumpAllocator_allocate (mk_layout (4 * (n + 1)) 4) b = (Ok k1, b1)"
    "ba_size b1 = ba_size b" "ba_current_position b1 \<le> ba_current_position b + (4 * (n + 1) + 3)"
    using BumpAllocator_allocate_succeeds[of "mk_layout (4 * (n + 1)) 4" b] tot room by auto
  obtain k2 b2 where b2: "BumpAllocator_allocate (mk_layout (1 * n) 1) b1 = (Ok k2, b2)"
    "ba_size b2 = ba_size b" "ba_current_position b2 \<le> ba_current_position b + (4 * (n + 1) + 3 + n)"
    using BumpAllocator_allocate_succeeds[of "mk_layout (1 * n) 1" b1] tot b1 assms by auto
  have "ba_current_position b2 + size_T * n + (align_T - 1) \<le> ba_size b2"
    using b2(2,3) tot room by linarith
  then obtain k3 b3 where b3: "BumpAllocator_allocate (mk_layout (size_T * n) align_T) b2 = (Ok k3, b3)"
    "ba_size b3 = ba_size b" "ba_current_position b3 \<le> ba_current_position b2 + size_T * n + (align_T - 1)"
    using BumpAllocator_allocate_succeeds[of "mk_layout (size_T * n) align_T" b2] assms b2(2)
    by (metis Layout.select_convs(1,2) nat_0_less_mult_iff)
  obtain u where u: "UniqueIndexSet_init BumpAllocator_allocate (UniqueIndexSet_new_uninit n) b
      = Ret (Ok (), u, b1)" "ui_inv u" "ui_free u = map word_of_nat [0..<n]"
    "ui_capacity u = word_of_nat n"
    using UniqueIndexSet_init_inv[of n BumpAllocator_allocate b k1 b1] b1(1) assms(2) by blast
  let ?c = "(Container_new_uninit n)\<lparr>ct_index_set := u, ct_active_index := replicate n False,
    ct_data := replicate n None, ct_is_memory_initialized := True\<rparr>"
  have "Container_init size_T align_T BumpAllocator_allocate (Container_new_uninit n) b
      = Ret (Ok (), ?c, b3)"
    using u(1) b2(1) b3(1) by (simp add: Container_init_def Container_new_uninit_def Let_def)
  moreover have "Container_inv ?c" "Container_contents ?c = []" "ct_capacity ?c = n"
    using u assms(2)
    by (auto simp: Container_inv_def Container_new_uninit_def Container_contents_def filter_empty_conv)
  moreover have "ba_current_position b3 \<le> ba_current_position b + Container_const_memory_size size_T align_T n"
    using b2(3) b3(3) tot by linarith
  ultimately show ?thesis
    using b3(2) by blast
qed

end
