(* ===== verification/Containers.thy ===== *)
theory Containers
  imports Elementary
begin

text \<open>
  The relocatable sequential containers, \<open>iceoryx2_bb/container/src/queue.rs\<close> and
  \<open>iceoryx2_bb/container/src/vec.rs\<close>. A slot that holds no value
  (\<open>MaybeUninit::uninit()\<close>) is \<^term>\<open>None\<close>; the use of a container before \<open>init\<close> and
  the remainder by a zero capacity are panics. The queue is shown to be a bounded and an
  overflowing queue in the sense of theory Prelude.
\<close>

section \<open>queue.rs\<close>

record 'a ContainerQueue =
  cq_data :: "'a option list"
  cq_start :: nat
  cq_len :: nat
  cq_capacity :: nat
  cq_is_initialized :: bool

definition ContainerQueue_new :: "nat \<Rightarrow> 'a ContainerQueue" where
  "ContainerQueue_new capacity = \<lparr>cq_data = replicate capacity None, cq_start = 0, cq_len = 0,
     cq_capacity = capacity, cq_is_initialized = True\<rparr>"

definition ContainerQueue_new_uninit :: "nat \<Rightarrow> 'a ContainerQueue" where
  "ContainerQueue_new_uninit capacity = \<lparr>cq_data = [], cq_start = 0, cq_len = 0,
     cq_capacity = capacity, cq_is_initialized = False\<rparr>"

definition ContainerQueue_init ::
  "nat \<Rightarrow> nat \<Rightarrow> 'm allocate_op \<Rightarrow> 'a ContainerQueue \<Rightarrow> 'm
     \<Rightarrow> ((unit, AllocationError) result \<times> 'a ContainerQueue \<times> 'm) outcome" where
  "ContainerQueue_init size_T align_T allocate q m =
     (if cq_is_initialized q then Panic
      else case allocate (mk_layout (size_T * cq_capacity q) align_T) m of
        (Err e, m') \<Rightarrow> Ret (Err e, q, m')
      | (Ok _, m') \<Rightarrow> Ret (Ok (), q\<lparr>cq_data := replicate (cq_capacity q) None,
                                   cq_is_initialized := True\<rparr>, m'))"

definition ContainerQueue_const_memory_size :: "nat \<Rightarrow> nat \<Rightarrow> nat \<Rightarrow> nat" where
  "ContainerQueue_const_memory_size size_T align_T capacity = size_T * capacity + align_T - 1"

definition ContainerQueue_is_empty :: "'a ContainerQueue \<Rightarrow> bool" where
  "ContainerQueue_is_empty q \<longleftrightarrow> cq_len q = 0"

definition ContainerQueue_is_full :: "'a ContainerQueue \<Rightarrow> bool" where
  "ContainerQueue_is_full q \<longleftrightarrow> cq_len q = cq_capacity q"

definition ContainerQueue_get_unchecked :: "nat \<Rightarrow> 'a ContainerQueue \<Rightarrow> 'a" where
  "ContainerQueue_get_unchecked index q =
     the (cq_data q ! ((cq_start q - cq_len q + index) mod cq_capacity q))"

definition ContainerQueue_get :: "nat \<Rightarrow> 'a ContainerQueue \<Rightarrow> 'a outcome" where
  "ContainerQueue_get index q =
     (if cq_len q \<le> index then Panic else Ret (ContainerQueue_get_unchecked index q))"

definition ContainerQueue_pop ::
  "'a ContainerQueue \<Rightarrow> ('a option \<times> 'a ContainerQueue) outcome" where
  "ContainerQueue_pop q =
     (if ContainerQueue_is_empty q then Ret (None, q)
      else if \<not> cq_is_initialized q then Panic
      else let index = (cq_start q - cq_len q) mod cq_capacity q
        in Ret (Some (the (cq_data q ! index)),
                q\<lparr>cq_len := cq_len q - 1, cq_data := (cq_data q)[index := None]\<rparr>))"

definition ContainerQueue_unchecked_push :: "'a \<Rightarrow> 'a ContainerQueue \<Rightarrow> 'a ContainerQueue outcome"
  where
  "ContainerQueue_unchecked_push v q =
     (if cq_capacity q = 0 then Panic
      else let index = cq_start q mod cq_capacity q
        in Ret (q\<lparr>cq_data := (cq_data q)[index := Some v],
                  cq_start := cq_start q + 1, cq_len := cq_len q + 1\<rparr>))"

definition ContainerQueue_push ::
  "'a \<Rightarrow> 'a ContainerQueue \<Rightarrow> (bool \<times> 'a ContainerQueue) outcome" where
  "ContainerQueue_push v q =
     (if cq_len q = cq_capacity q then Ret (False, q)
      else if \<not> cq_is_initialized q then Panic
      else outcome_bind (ContainerQueue_unchecked_push v q) (\<lambda>q'. Ret (True, q')))"

definition ContainerQueue_push_with_overflow ::
  "'a \<Rightarrow> 'a ContainerQueue \<Rightarrow> ('a option \<times> 'a ContainerQueue) outcome" where
  "ContainerQueue_push_with_overflow v q =
     outcome_bind (if cq_len q = cq_capacity q then ContainerQueue_pop q else Ret (None, q))
       (\<lambda>(overridden_value, q1).
         if \<not> cq_is_initialized q1 then Panic
         else outcome_bind (ContainerQueue_unchecked_push v q1) (\<lambda>q2. Ret (overridden_value, q2)))"

text \<open>\<open>clear\<close> pops until nothing is left; the number of elements bounds the loop.\<close>

primrec ContainerQueue_clear_loop :: "nat \<Rightarrow> 'a ContainerQueue \<Rightarrow> 'a ContainerQueue outcome" where
  "ContainerQueue_clear_loop 0 q = Ret q"
| "ContainerQueue_clear_loop (Suc n) q = outcome_bind (ContainerQueue_pop q) (\<lambda>(r, q').
     case r of None \<Rightarrow> Ret q' | Some _ \<Rightarrow> ContainerQueue_clear_loop n q')"

definition ContainerQueue_clear :: "'a ContainerQueue \<Rightarrow> 'a ContainerQueue outcome" where
  "ContainerQueue_clear q = ContainerQueue_clear_loop (Suc (cq_len q)) q"

section \<open>vec.rs\<close>

record 'a ContainerVec =
  cv_data :: "'a option list"
  cv_capacity :: nat
  cv_len :: nat
  cv_is_initialized :: bool

definition ContainerVec_new :: "nat \<Rightarrow> 'a ContainerVec" where
  "ContainerVec_new capacity = \<lparr>cv_data = replicate capacity None, cv_capacity = capacity,
     cv_len = 0, cv_is_initialized = True\<rparr>"

definition ContainerVec_new_uninit :: "nat \<Rightarrow> 'a ContainerVec" where
  "ContainerVec_new_uninit capacity = \<lparr>cv_data = [], cv_capacity = capacity,
     cv_len = 0, cv_is_initialized = False\<rparr>"

definition ContainerVec_init ::
  "nat \<Rightarrow> nat \<Rightarrow> 'm allocate_op \<Rightarrow> 'a ContainerVec \<Rightarrow> 'm
     \<Rightarrow> ((unit, AllocationError) result \<times> 'a ContainerVec \<times> 'm) outcome" where
  "ContainerVec_init size_T align_T allocate v m =
     (if cv_is_initialized v then Panic
      else case allocate (mk_layout (size_T * cv_capacity v) align_T) m of
        (Err e, m') \<Rightarrow> Ret (Err e, v, m')
      | (Ok _, m') \<Rightarrow> Ret (Ok (), v\<lparr>cv_data := replicate (cv_capacity v) None,
                                   cv_is_initialized := True\<rparr>, m'))"

definition ContainerVec_const_memory_size :: "nat \<Rightarrow> nat \<Rightarrow> nat \<Rightarrow> nat" where
  "ContainerVec_const_memory_size size_T align_T capacity = size_T * capacity + align_T - 1"

definition ContainerVec_is_empty :: "'a ContainerVec \<Rightarrow> bool" where
  "ContainerVec_is_empty v \<longleftrightarrow> cv_len v = 0"

definition ContainerVec_is_full :: "'a ContainerVec \<Rightarrow> bool" where
  "ContainerVec_is_full v \<longleftrightarrow> cv_len v = cv_capacity v"

definition ContainerVec_push_unchecked :: "'a \<Rightarrow> 'a ContainerVec \<Rightarrow> 'a ContainerVec" where
  "ContainerVec_push_unchecked x v =
     v\<lparr>cv_data := (cv_data v)[cv_len v := Some x], cv_len := cv_len v + 1\<rparr>"

definition ContainerVec_push :: "'a \<Rightarrow> 'a ContainerVec \<Rightarrow> (bool \<times> 'a ContainerVec) outcome" where
  "ContainerVec_push x v =
     (if ContainerVec_is_full v then Ret (False, v)
      else if \<not> cv_is_initialized v then Panic
      else Ret (True, ContainerVec_push_unchecked x v))"

definition ContainerVec_fill :: "'a \<Rightarrow> 'a ContainerVec \<Rightarrow> 'a ContainerVec" where
  "ContainerVec_fill x v =
     (ContainerVec_push_unchecked x ^^ (cv_capacity v - cv_len v)) v"

definition ContainerVec_pop_unchecked :: "'a ContainerVec \<Rightarrow> 'a \<times> 'a ContainerVec" where
  "ContainerVec_pop_unchecked v =
     (the (cv_data v ! (cv_len v - 1)),
      v\<lparr>cv_data := (cv_data v)[cv_len v - 1 := None], cv_len := cv_len v - 1\<rparr>)"

definition ContainerVec_pop :: "'a ContainerVec \<Rightarrow> ('a option \<times> 'a ContainerVec) outcome" where
  "ContainerVec_pop v =
     (if ContainerVec_is_empty v then Ret (None, v)
      else if \<not> cv_is_initialized v then Panic
      else let (x, v') = ContainerVec_pop_unchecked v in Ret (Some x, v'))"

definition ContainerVec_clear :: "'a ContainerVec \<Rightarrow> 'a ContainerVec" where
  "ContainerVec_clear v = ((\<lambda>v. snd (ContainerVec_pop_unchecked v)) ^^ cv_len v) v"

definition ContainerVec_get_unchecked :: "nat \<Rightarrow> 'a ContainerVec \<Rightarrow> 'a" where
  "ContainerVec_get_unchecked index v = the (cv_data v ! index)"

definition ContainerVec_get :: "nat \<Rightarrow> 'a ContainerVec \<Rightarrow> 'a option outcome" where
  "ContainerVec_get index v =
     (if cv_len v \<le> index then Ret None
      else if \<not> cv_is_initialized v then Panic
      else Ret (Some (ContainerVec_get_unchecked index v)))"

section \<open>The queue as a list\<close>

definition ContainerQueue_ring :: "'a ContainerQueue \<Rightarrow> 'a option list" where
  "ContainerQueue_ring q = ring (cq_data q) (cq_capacity q) (cq_start q - cq_len q) (cq_start q)"

definition ContainerQueue_list :: "'a ContainerQueue \<Rightarrow> 'a list" where
  "ContainerQueue_list q = map the (ContainerQueue_ring q)"

definition ContainerQueue_inv :: "'a ContainerQueue \<Rightarrow> bool" where
  "ContainerQueue_inv q \<longleftrightarrow> cq_is_initialized q \<and> length (cq_data q) = cq_capacity q
     \<and> cq_len q \<le> cq_capacity q \<and> cq_len q \<le> cq_start q
     \<and> None \<notin> set (ContainerQueue_ring q)"

lemma ContainerQueue_new_inv:
  "ContainerQueue_inv (ContainerQueue_new n)" "ContainerQueue_list (ContainerQueue_new n) = []"
  by (simp_all add: ContainerQueue_inv_def ContainerQueue_ring_def ContainerQueue_list_def
      ContainerQueue_new_def)

lemma ContainerQueue_new_capacity [simp]: "cq_capacity (ContainerQueue_new n) = n"
  by (simp add: ContainerQueue_new_def)

lemma length_ContainerQueue_list:
  "ContainerQueue_inv q \<Longrightarrow> length (ContainerQueue_list q) = cq_len q"
  by (simp add: ContainerQueue_list_def ContainerQueue_ring_def ContainerQueue_inv_def)

lemma ContainerQueue_pop_ok:
  assumes inv: "ContainerQueue_inv q" and pos: "0 < cq_len q"
  shows "\<exists>q' v. ContainerQueue_pop q = Ret (Some v, q') \<and> ContainerQueue_inv q'
    \<and> ContainerQueue_list q = v # ContainerQueue_list q' \<and> cq_capacity q' = cq_capacity q
    \<and> cq_len q' + 1 = cq_len q"
proof -
  let ?r = "cq_start q - cq_len q" and ?n = "cq_capacity q"
  let ?q = "q\<lparr>cq_len := cq_len q - 1, cq_data := (cq_data q)[?r mod ?n := None]\<rparr>"
  have l: "cq_len q \<le> cq_start q" "cq_len q \<le> ?n"
    using inv by (auto simp: ContainerQueue_inv_def)
  have r: "cq_start q - (cq_len q - 1) = Suc ?r"
    using l pos by simp
  have "ring ((cq_data q)[?r mod ?n := None]) ?n (Suc ?r) (cq_start q) = ring (cq_data q) ?n (Suc ?r) (cq_start q)"
    using l by (intro ring_update_before) auto
  then have ring: "ContainerQueue_ring q = cq_data q ! (?r mod ?n) # ContainerQueue_ring ?q"
    using l pos r by (simp add: ContainerQueue_ring_def ring_pop)
  have "ContainerQueue_pop q = Ret (Some (the (cq_data q ! (?r mod ?n))), ?q)"
    using inv pos by (simp add: ContainerQueue_pop_def ContainerQueue_is_empty_def
        ContainerQueue_inv_def Let_def)
  moreover have "ContainerQueue_inv ?q"
    using inv ring by (auto simp: ContainerQueue_inv_def)
  ultimately show ?thesis
    using ring pos by (auto simp: ContainerQueue_list_def)
qed

lemma ContainerQueue_unchecked_push_ok:
  assumes inv: "ContainerQueue_inv q" and room: "cq_len q < cq_capacity q"
  shows "\<exists>q'. ContainerQueue_unchecked_push v q = Ret q' \<and> ContainerQueue_inv q'
    \<and> ContainerQueue_list q' = ContainerQueue_list q @ [v] \<and> cq_capacity q' = cq_capacity q
    \<and> cq_is_initialized q'"
proof -
  let ?r = "cq_start q - cq_len q" and ?n = "cq_capacity q"
  let ?q = "q\<lparr>cq_data := (cq_data q)[cq_start q mod ?n := Some v],
    cq_start := cq_start q + 1, cq_len := cq_len q + 1\<rparr>"
  have l: "cq_len q \<le> cq_start q" "length (cq_data q) = ?n"
    using inv by (auto simp: ContainerQueue_inv_def)
  have "ring ((cq_data q)[cq_start q mod ?n := Some v]) ?n ?r (Suc (cq_start q))
      = ring (cq_data q) ?n ?r (cq_start q) @ [Some v]"
    using l room by (intro ring_push) auto
  then have ring: "ContainerQueue_ring ?q = ContainerQueue_ring q @ [Some v]"
    by (simp add: ContainerQueue_ring_def)
  have "ContainerQueue_unchecked_push v q = Ret ?q"
    using room by (simp add: ContainerQueue_unchecked_push_def Let_def)
  moreover have "ContainerQueue_inv ?q"
    using inv room ring by (auto simp: ContainerQueue_inv_def)
  ultimately show ?thesis
    using ring inv by (auto simp: ContainerQueue_list_def ContainerQueue_inv_def)
qed

interpretation cq: bounded_queue ContainerQueue_inv ContainerQueue_list cq_capacity
  "\<lambda>v q. the_ret (ContainerQueue_push v q)" "\<lambda>q. the_ret (ContainerQueue_pop q)"
proof (unfold_locales, goal_cases)
  case (1 q)
  then show ?case
    by (simp add: length_ContainerQueue_list ContainerQueue_inv_def)
next
  case (2 q v)
  then show ?case
    by (simp add: ContainerQueue_push_def length_ContainerQueue_list)
next
  case (3 q v b q')
  then show ?case
    using ContainerQueue_unchecked_push_ok[OF 3(1), of v]
    by (auto simp: ContainerQueue_push_def length_ContainerQueue_list ContainerQueue_inv_def)
next
  case (4 q)
  then show ?case
    using length_ContainerQueue_list[OF 4(1)]
    by (simp add: ContainerQueue_pop_def ContainerQueue_is_empty_def)
next
  case (5 q v vs r q')
  then show ?case
    using ContainerQueue_pop_ok[OF 5(1)] length_ContainerQueue_list[OF 5(1)] by auto
qed

lemma ContainerQueue_overflow_ok:
  assumes inv: "ContainerQueue_inv q" and pos: "0 < cq_capacity q"
  shows "\<exists>r q'. ContainerQueue_push_with_overflow v q = Ret (r, q') \<and> ContainerQueue_inv q'
    \<and> cq_capacity q' = cq_capacity q
    \<and> (if cq_len q = cq_capacity q
        then r = Some (hd (ContainerQueue_list q)) \<and> ContainerQueue_list q' = tl (ContainerQueue_list q) @ [v]
        else r = None \<and> ContainerQueue_list q' = ContainerQueue_list q @ [v])"
proof (cases "cq_len q = cq_capacity q")
  case True
  then obtain q1 x where 1: "ContainerQueue_pop q = Ret (Some x, q1)" "ContainerQueue_inv q1"
    "ContainerQueue_list q = x # ContainerQueue_list q1" "cq_capacity q1 = cq_capacity q"
    "cq_len q1 + 1 = cq_len q"
    using ContainerQueue_pop_ok[OF inv] pos by auto
  then obtain q2 where "ContainerQueue_unchecked_push v q1 = Ret q2" "ContainerQueue_inv q2"
    "ContainerQueue_list q2 = ContainerQueue_list q1 @ [v]" "cq_capacity q2 = cq_capacity q1"
    using ContainerQueue_unchecked_push_ok[OF 1(2), of v] True by auto
  then show ?thesis
    using True 1 by (auto simp: ContainerQueue_push_with_overflow_def ContainerQueue_inv_def)
next
  case False
  then have "cq_len q < cq_capacity q"
    using inv by (simp add: ContainerQueue_inv_def)
  then show ?thesis
    using ContainerQueue_unchecked_push_ok[OF inv, of v] False inv
    by (auto simp: ContainerQueue_push_with_overflow_def ContainerQueue_inv_def)
qed

interpretation co: overflowing_queue "\<lambda>q. ContainerQueue_inv q \<and> 0 < cq_capacity q"
  ContainerQueue_list cq_capacity
  "\<lambda>v q. the_ret (ContainerQueue_push_with_overflow v q)" "\<lambda>q. the_ret (ContainerQueue_pop q)"
proof (unfold_locales, goal_cases)
  case (1 q)
  then show ?case
    using cq.bounded by blast
next
  case (2 q v r q')
  then have "ContainerQueue_list q \<noteq> []"
    by auto
  then show ?case
    using 2 ContainerQueue_overflow_ok[of q v] by (auto simp: length_ContainerQueue_list)
next
  case (3 q v r q')
  then show ?case
    using ContainerQueue_overflow_ok[of q v] by (auto simp: length_ContainerQueue_list)
next
  case (4 q)
  then show ?case
    using cq.pop_empty by blast
next
  case (5 q v vs r q')
  then show ?case
    using cq.pop_some[of q v vs r q'] by auto
qed

lemma ContainerQueue_get_nth:
  assumes "ContainerQueue_inv q" "i < cq_len q"
  shows "ContainerQueue_get i q = Ret (ContainerQueue_list q ! i)"
  using assms by (simp add: ContainerQueue_get_def ContainerQueue_get_unchecked_def
      ContainerQueue_list_def ContainerQueue_ring_def ContainerQueue_inv_def)

lemma ContainerQueue_clear_loop_ok:
  "ContainerQueue_inv q \<Longrightarrow> cq_len q < n \<Longrightarrow>
    \<exists>q'. ContainerQueue_clear_loop n q = Ret q' \<and> ContainerQueue_inv q' \<and> cq_len q' = 0
      \<and> cq_capacity q' = cq_capacity q"
proof (induction n arbitrary: q)
  case (Suc n)
  show ?case
  proof (cases "cq_len q = 0")
    case True
    then show ?thesis
      using Suc.prems by (simp add: ContainerQueue_pop_def ContainerQueue_is_empty_def)
  next
    case False
    then obtain q' v where "ContainerQueue_pop q = Ret (Some v, q')" "ContainerQueue_inv q'"
      "cq_capacity q' = cq_capacity q" "cq_len q' + 1 = cq_len q"
      using ContainerQueue_pop_ok[OF Suc.prems(1)] by auto
    then show ?thesis
      using Suc.IH[of q'] Suc.prems(2) by auto
  qed
qed simp

section \<open>The vector as a list\<close>

definition ContainerVec_list :: "'a ContainerVec \<Rightarrow> 'a list" where
  "ContainerVec_list v = map the (take (cv_len v) (cv_data v))"

definition ContainerVec_inv :: "'a ContainerVec \<Rightarrow> bool" where
  "ContainerVec_inv v \<longleftrightarrow> cv_is_initialized v \<and> length (cv_data v) = cv_capacity v
     \<and> cv_len v \<le> cv_capacity v \<and> None \<notin> set (take (cv_len v) (cv_data v))"

lemma length_ContainerVec_list: "ContainerVec_inv v \<Longrightarrow> length (ContainerVec_list v) = cv_len v"
  by (simp add: ContainerVec_list_def ContainerVec_inv_def)

lemma ContainerVec_new_inv:
  "ContainerVec_inv (ContainerVec_new n)" "ContainerVec_list (ContainerVec_new n) = []"
  by (simp_all add: ContainerVec_inv_def ContainerVec_list_def ContainerVec_new_def)

lemma ContainerVec_new_capacity [simp]: "cv_capacity (ContainerVec_new n) = n"
  by (simp add: ContainerVec_new_def)

lemma ContainerVec_push_unchecked_ok:
  assumes "ContainerVec_inv v" "cv_len v < cv_capacity v"
  shows "ContainerVec_inv (ContainerVec_push_unchecked x v)
    \<and> ContainerVec_list (ContainerVec_push_unchecked x v) = ContainerVec_list v @ [x]
    \<and> cv_capacity (ContainerVec_push_unchecked x v) = cv_capacity v
    \<and> cv_len (ContainerVec_push_unchecked x v) = cv_len v + 1"
  using assms by (auto simp: ContainerVec_push_unchecked_def ContainerVec_inv_def
      ContainerVec_list_def take_Suc_conv_app_nth)

lemma ContainerVec_pop_unchecked_ok:
  assumes "ContainerVec_inv v" "0 < cv_len v"
  shows "ContainerVec_inv (snd (ContainerVec_pop_unchecked v))
    \<and> ContainerVec_list v = ContainerVec_list (snd (ContainerVec_pop_unchecked v))
        @ [fst (ContainerVec_pop_unchecked v)]
    \<and> cv_capacity (snd (ContainerVec_pop_unchecked v)) = cv_capacity v
    \<and> cv_len (snd (ContainerVec_pop_unchecked v)) = cv_len v - 1"
proof -
  obtain n where n: "cv_len v = Suc n"
    using assms(2) gr0_implies_Suc by blast
  then have "take (Suc n) (cv_data v) = take n (cv_data v) @ [cv_data v ! n]"
    using assms(1) by (intro take_Suc_conv_app_nth) (simp add: ContainerVec_inv_def)
  then show ?thesis
    using assms(1) n
    by (auto simp: ContainerVec_pop_unchecked_def ContainerVec_inv_def ContainerVec_list_def)
qed

lemma ContainerVec_fill_steps:
  "ContainerVec_inv v \<Longrightarrow> cv_len v + k \<le> cv_capacity v \<Longrightarrow>
    (let w = (ContainerVec_push_unchecked x ^^ k) v
     in ContainerVec_inv w \<and> ContainerVec_list w = ContainerVec_list v @ replicate k x
      \<and> cv_capacity w = cv_capacity v \<and> cv_len w = cv_len v + k)"
proof (induction k)
  case (Suc k)
  let ?w = "(ContainerVec_push_unchecked x ^^ k) v"
  have w: "ContainerVec_inv ?w" "ContainerVec_list ?w = ContainerVec_list v @ replicate k x"
    "cv_capacity ?w = cv_capacity v" "cv_len ?w = cv_len v + k"
    using Suc by (simp_all add: Let_def)
  then show ?case
    using ContainerVec_push_unchecked_ok[of ?w x] Suc.prems(2)
    by (simp add: Let_def replicate_append_same)
qed simp

lemma ContainerVec_clear_steps:
  "ContainerVec_inv v \<Longrightarrow> k \<le> cv_len v \<Longrightarrow>
    (let w = ((\<lambda>v. snd (ContainerVec_pop_unchecked v)) ^^ k) v
     in ContainerVec_inv w \<and> cv_len w = cv_len v - k)"
proof (induction k)
  case (Suc k)
  then show ?case
    using ContainerVec_pop_unchecked_ok[of "((\<lambda>v. snd (ContainerVec_pop_unchecked v)) ^^ k) v"]
    by (simp add: Let_def)
qed simp

section \<open>Properties\<close>

text \<open>
  \<open>push_with_overflow\<close> keeps the newest values and hands every displaced value back, in
  order: over any sequence of pushes into a queue of positive capacity the values handed
  back followed by the values in the queue are the initial values followed by the pushed
  ones, and the queue holds at most its capacity.
\<close>

theorem container_queue_overflow_conserves:
  assumes "ContainerQueue_inv q" "0 < cq_capacity q" "co.o_push_all vs q = (rs, q')"
  shows "rs @ ContainerQueue_list q' = ContainerQueue_list q @ vs
    \<and> length (ContainerQueue_list q') \<le> cq_capacity q
    \<and> ContainerQueue_inv q'"
  using co.o_push_all_conserves[of q vs rs q'] co.o_push_all_newest[of q vs rs q'] assms by auto

theorem container_queue_overflow_conserves_witness:
  "\<exists>rs q'. co.o_push_all [1, 2, 3::nat] (ContainerQueue_new 2) = (rs, q')
    \<and> rs @ ContainerQueue_list q' = [1, 2, 3]"
proof -
  obtain rs q' where "co.o_push_all [1, 2, 3::nat] (ContainerQueue_new 2) = (rs, q')"
    by fastforce
  then show ?thesis
    using container_queue_overflow_conserves[OF ContainerQueue_new_inv(1)[of 2], of "[1, 2, 3]" rs q']
    by (simp add: ContainerQueue_new_inv del: co.o_push_all.simps)
qed

text \<open>
  C32: The vector behaves like a list of bounded length: on an initialised vector \<open>push\<close>
  appends or reports that the vector is full, \<open>pop\<close> takes the last element, \<open>fill\<close> appends
  copies up to the capacity, \<open>clear\<close> leaves nothing, \<open>get\<close> reads the element at an index
  below the length and nothing else; none of them panics or reads an uninitialised slot.
\<close>

theorem container_vec_refines_list:
  assumes inv: "ContainerVec_inv v"
  shows "ContainerVec_push x v = (if length (ContainerVec_list v) = cv_capacity v then Ret (False, v)
      else Ret (True, ContainerVec_push_unchecked x v))
    \<and> (length (ContainerVec_list v) < cv_capacity v \<longrightarrow>
      ContainerVec_list (ContainerVec_push_unchecked x v) = ContainerVec_list v @ [x])
    \<and> (ContainerVec_list v = [] \<longrightarrow> ContainerVec_pop v = Ret (None, v))
    \<and> (ContainerVec_list v \<noteq> [] \<longrightarrow> (\<exists>v'. ContainerVec_pop v = Ret (Some (last (ContainerVec_list v)), v')
      \<and> ContainerVec_list v' = butlast (ContainerVec_list v) \<and> ContainerVec_inv v'))
    \<and> ContainerVec_list (ContainerVec_fill x v)
      = ContainerVec_list v @ replicate (cv_capacity v - length (ContainerVec_list v)) x
    \<and> ContainerVec_list (ContainerVec_clear v) = []
    \<and> ContainerVec_get i v = Ret (if i < length (ContainerVec_list v)
      then Some (ContainerVec_list v ! i) else None)"
proof -
  note len = length_ContainerVec_list[OF inv]
  have ini: "cv_is_initialized v" "cv_len v \<le> cv_capacity v" "length (cv_data v) = cv_capacity v"
    using inv by (auto simp: ContainerVec_inv_def)
  have pop: "\<exists>v'. ContainerVec_pop v = Ret (Some (last (ContainerVec_list v)), v')
      \<and> ContainerVec_list v' = butlast (ContainerVec_list v) \<and> ContainerVec_inv v'"
    if "ContainerVec_list v \<noteq> []"
  proof -
    have "0 < cv_len v"
      using that len by (cases "ContainerVec_list v") auto
    then show ?thesis
      using ContainerVec_pop_unchecked_ok[OF inv] ini(1)
      by (auto simp: ContainerVec_pop_def ContainerVec_is_empty_def split: prod.splits)
  qed
  have fill: "ContainerVec_list (ContainerVec_fill x v)
      = ContainerVec_list v @ replicate (cv_capacity v - cv_len v) x"
    using ContainerVec_fill_steps[OF inv, of "cv_capacity v - cv_len v" x] ini(2)
    by (simp add: ContainerVec_fill_def Let_def)
  have "cv_len (ContainerVec_clear v) = 0"
    using ContainerVec_clear_steps[OF inv, of "cv_len v"] by (simp add: ContainerVec_clear_def Let_def)
  then have clear: "ContainerVec_list (ContainerVec_clear v) = []"
    by (simp add: ContainerVec_list_def)
  show ?thesis
    using pop fill clear len ini ContainerVec_push_unchecked_ok[OF inv, of x]
    by (simp add: ContainerVec_push_def ContainerVec_is_full_def ContainerVec_pop_def
        ContainerVec_is_empty_def ContainerVec_get_def ContainerVec_get_unchecked_def)
      (auto simp: ContainerVec_list_def)
qed

theorem container_vec_refines_list_witness:
  "ContainerVec_list (ContainerVec_fill True (ContainerVec_new 2)) = [True, True]"
  using container_vec_refines_list[OF ContainerVec_new_inv(1)[of 2], of True 0]
  by (simp add: ContainerVec_new_inv numeral_2_eq_2)

end
