(* ===== verification/ByteString.thy ===== *)
theory ByteString
  imports Prelude
begin

text \<open>
  The fixed-size byte string, \<open>iceoryx2_bb/container/src/byte_string.rs\<close>. A byte is a
  \<^typ>\<open>char\<close>; the const parameter \<open>CAPACITY\<close> is the length of the data array, whose
  content beyond the string is uninitialised memory. Slice indexing out of range, an
  underflowing subtraction and \<open>fatal_panic!\<close> are panics.
\<close>

abbreviation NUL :: char where
  "NUL \<equiv> CHR 0x00"

section \<open>Operations\<close>

datatype FixedSizeByteStringModificationError = InsertWouldExceedCapacity

record FixedSizeByteString =
  bs_len :: nat
  bs_data :: "char list"
  bs_terminator :: char

abbreviation CAPACITY :: "FixedSizeByteString \<Rightarrow> nat" where
  "CAPACITY s \<equiv> length (bs_data s)"

text \<open>\<open>ptr::copy\<close> within an array: \<open>n\<close> elements from position \<open>src\<close> to position \<open>dst\<close>.\<close>

definition mem_copy :: "nat \<Rightarrow> nat \<Rightarrow> nat \<Rightarrow> 'a list \<Rightarrow> 'a list" where
  "mem_copy src dst n d = take dst d @ take n (drop src d) @ drop (dst + n) d"

text \<open>The loop of \<open>strlen\<close>; \<open>mem\<close> is the memory from the pointer on.\<close>

fun strlen_from :: "nat \<Rightarrow> char list \<Rightarrow> nat outcome" where
  "strlen_from i [] = Panic"
| "strlen_from i (c # cs) = (if c = NUL then Ret i else strlen_from (i + 1) cs)"

definition strlen :: "char list \<Rightarrow> nat outcome" where
  "strlen mem = strlen_from 0 mem"

text \<open>\<open>junk\<close> is the uninitialised content of the data array.\<close>

definition FixedSizeByteString_new :: "char list \<Rightarrow> FixedSizeByteString outcome" where
  "FixedSizeByteString_new junk =
     (if junk = [] then Panic
      else Ret \<lparr>bs_len = 0, bs_data = junk[0 := NUL], bs_terminator = NUL\<rparr>)"

definition as_bytes :: "FixedSizeByteString \<Rightarrow> char list" where
  "as_bytes s = take (bs_len s) (bs_data s)"

definition as_bytes_with_nul :: "FixedSizeByteString \<Rightarrow> char list" where
  "as_bytes_with_nul s = take (bs_len s + 1) (bs_data s @ [bs_terminator s])"

definition FixedSizeByteString_new_unchecked ::
  "char list \<Rightarrow> char list \<Rightarrow> FixedSizeByteString outcome" where
  "FixedSizeByteString_new_unchecked junk bytes =
     (if length junk < length bytes then Panic
      else outcome_bind (FixedSizeByteString_new junk) (\<lambda>s.
        let d = bytes @ drop (length bytes) (bs_data s) @ [bs_terminator s];
            d0 = d[length bytes := NUL]
        in Ret \<lparr>bs_len = length bytes, bs_data = butlast d0, bs_terminator = last d0\<rparr>))"

definition FixedSizeByteString_clear :: "FixedSizeByteString \<Rightarrow> FixedSizeByteString" where
  "FixedSizeByteString_clear s = s\<lparr>bs_len := 0, bs_data := (bs_data s)[0 := NUL]\<rparr>"

definition FixedSizeByteString_is_empty :: "FixedSizeByteString \<Rightarrow> bool" where
  "FixedSizeByteString_is_empty s \<longleftrightarrow> bs_len s = 0"

definition FixedSizeByteString_is_full :: "FixedSizeByteString \<Rightarrow> bool" where
  "FixedSizeByteString_is_full s \<longleftrightarrow> bs_len s = CAPACITY s"

text \<open>Writing \<open>bytes\<close> one by one from position \<open>idx\<close> on.\<close>

primrec write_bytes :: "nat \<Rightarrow> char list \<Rightarrow> char list \<Rightarrow> char list" where
  "write_bytes idx [] d = d"
| "write_bytes idx (b # bs) d = write_bytes (idx + 1) bs (d[idx := b])"

definition FixedSizeByteString_insert_bytes_unchecked ::
  "nat \<Rightarrow> char list \<Rightarrow> FixedSizeByteString \<Rightarrow> FixedSizeByteString outcome" where
  "FixedSizeByteString_insert_bytes_unchecked idx bytes s =
     (if CAPACITY s \<le> idx \<or> CAPACITY s < idx + length bytes then Panic
      else let d1 = mem_copy idx (idx + length bytes) (bs_len s - idx) (bs_data s);
               d2 = write_bytes idx bytes d1;
               new_len = bs_len s + length bytes;
               d3 = (if new_len < CAPACITY s then d2[new_len := NUL] else d2)
        in Ret (s\<lparr>bs_len := new_len, bs_data := d3\<rparr>))"

definition FixedSizeByteString_insert_bytes ::
  "nat \<Rightarrow> char list \<Rightarrow> FixedSizeByteString
     \<Rightarrow> ((unit, FixedSizeByteStringModificationError) result \<times> FixedSizeByteString) outcome" where
  "FixedSizeByteString_insert_bytes idx bytes s =
     (if bs_len s < idx then Panic
      else if CAPACITY s < bs_len s + length bytes then Ret (Err InsertWouldExceedCapacity, s)
      else outcome_bind (FixedSizeByteString_insert_bytes_unchecked idx bytes s)
             (\<lambda>s'. Ret (Ok (), s')))"

definition FixedSizeByteString_insert ::
  "nat \<Rightarrow> char \<Rightarrow> FixedSizeByteString
     \<Rightarrow> ((unit, FixedSizeByteStringModificationError) result \<times> FixedSizeByteString) outcome" where
  "FixedSizeByteString_insert idx byte s = FixedSizeByteString_insert_bytes idx [byte] s"

definition FixedSizeByteString_push ::
  "char \<Rightarrow> FixedSizeByteString
     \<Rightarrow> ((unit, FixedSizeByteStringModificationError) result \<times> FixedSizeByteString) outcome" where
  "FixedSizeByteString_push byte s = FixedSizeByteString_insert (bs_len s) byte s"

definition FixedSizeByteString_push_bytes ::
  "char list \<Rightarrow> FixedSizeByteString
     \<Rightarrow> ((unit, FixedSizeByteStringModificationError) result \<times> FixedSizeByteString) outcome" where
  "FixedSizeByteString_push_bytes bytes s = FixedSizeByteString_insert_bytes (bs_len s) bytes s"

definition FixedSizeByteString_from_bytes ::
  "char list \<Rightarrow> char list
     \<Rightarrow> (FixedSizeByteString, FixedSizeByteStringModificationError) result outcome" where
  "FixedSizeByteString_from_bytes junk bytes =
     outcome_bind (FixedSizeByteString_new junk) (\<lambda>s.
     outcome_bind (FixedSizeByteString_push_bytes bytes s) (\<lambda>(r, s').
       case r of Ok _ \<Rightarrow> Ret (Ok s') | Err _ \<Rightarrow> Ret (Err InsertWouldExceedCapacity)))"

definition FixedSizeByteString_from ::
  "char list \<Rightarrow> char list \<Rightarrow> FixedSizeByteString outcome" where
  "FixedSizeByteString_from junk v =
     (if length junk < length v then Panic
      else outcome_bind (FixedSizeByteString_new junk) (\<lambda>s.
           outcome_bind (FixedSizeByteString_push_bytes v s) (\<lambda>(r, s').
             case r of Ok _ \<Rightarrow> Ret s' | Err _ \<Rightarrow> Panic)))"

definition FixedSizeByteString_from_c_str ::
  "char list \<Rightarrow> char list
     \<Rightarrow> (FixedSizeByteString, FixedSizeByteStringModificationError) result outcome" where
  "FixedSizeByteString_from_c_str junk mem =
     outcome_bind (strlen mem) (\<lambda>string_length.
       if length junk < string_length then Ret (Err InsertWouldExceedCapacity)
       else outcome_bind (FixedSizeByteString_new junk) (\<lambda>s.
         Ret (Ok (s\<lparr>bs_data := take string_length mem @ drop string_length (bs_data s),
                    bs_len := string_length\<rparr>))))"

definition FixedSizeByteString_remove_range_impl ::
  "nat \<Rightarrow> nat \<Rightarrow> FixedSizeByteString \<Rightarrow> FixedSizeByteString outcome" where
  "FixedSizeByteString_remove_range_impl idx len s =
     (if CAPACITY s \<le> idx + len \<or> bs_len s < idx + len then Panic
      else let d1 = mem_copy (idx + len) idx (bs_len s - (idx + len)) (bs_data s);
               new_len = bs_len s - len
        in Ret (s\<lparr>bs_len := new_len, bs_data := d1[new_len := NUL]\<rparr>))"

definition FixedSizeByteString_remove ::
  "nat \<Rightarrow> FixedSizeByteString \<Rightarrow> (char \<times> FixedSizeByteString) outcome" where
  "FixedSizeByteString_remove idx s =
     (if bs_len s < idx then Panic
      else if CAPACITY s \<le> idx then Panic
      else let removed_byte = bs_data s ! idx
        in outcome_bind (FixedSizeByteString_remove_range_impl idx 1 s)
             (\<lambda>s'. Ret (removed_byte, s')))"

definition FixedSizeByteString_remove_range ::
  "nat \<Rightarrow> nat \<Rightarrow> FixedSizeByteString \<Rightarrow> FixedSizeByteString outcome" where
  "FixedSizeByteString_remove_range idx len s =
     (if bs_len s < idx + len then Panic else FixedSizeByteString_remove_range_impl idx len s)"

definition FixedSizeByteString_pop ::
  "FixedSizeByteString \<Rightarrow> (char option \<times> FixedSizeByteString) outcome" where
  "FixedSizeByteString_pop s =
     (if FixedSizeByteString_is_empty s then Ret (None, s)
      else outcome_bind (FixedSizeByteString_remove (bs_len s - 1) s)
             (\<lambda>(b, s'). Ret (Some b, s')))"

text \<open>
  The loop of \<open>retain_impl\<close>, which visits the positions \<open>n - 1, ..., 0\<close>. The closure is an \<open>FnMut\<close>: a call
  answers and changes what the closure has captured (\<open>'f\<close>), and the loop returns the closure as it is
  after its last call.
\<close>

type_synonym 'f FnMut = "char \<Rightarrow> 'f \<Rightarrow> bool \<times> 'f"

primrec retain_loop ::
  "'f FnMut \<Rightarrow> nat \<Rightarrow> 'f \<Rightarrow> FixedSizeByteString \<Rightarrow> ('f \<times> FixedSizeByteString) outcome" where
  "retain_loop f 0 st s = Ret (st, s)"
| "retain_loop f (Suc n) st s =
     (case f (bs_data s ! n) st of (b, st') \<Rightarrow>
        if b
        then outcome_bind (FixedSizeByteString_remove n s) (\<lambda>(_, s'). retain_loop f n st' s')
        else retain_loop f n st' s)"

definition FixedSizeByteString_retain_impl ::
  "'f FnMut \<Rightarrow> 'f \<Rightarrow> FixedSizeByteString \<Rightarrow> ('f \<times> FixedSizeByteString) outcome" where
  "FixedSizeByteString_retain_impl f st s = retain_loop f (bs_len s) st s"

definition FixedSizeByteString_retain ::
  "'f FnMut \<Rightarrow> 'f \<Rightarrow> FixedSizeByteString \<Rightarrow> FixedSizeByteString outcome" where
  "FixedSizeByteString_retain f st s = outcome_bind (FixedSizeByteString_retain_impl f st s) (\<lambda>(_, s'). Ret s')"

text \<open>The inner loop of \<open>find\<close> and \<open>rfind\<close>.\<close>

definition has_found_at :: "char list \<Rightarrow> FixedSizeByteString \<Rightarrow> nat \<Rightarrow> bool" where
  "has_found_at bytes s i \<longleftrightarrow> (\<forall>n \<in> set [0..<length bytes]. bs_data s ! (i + n) = bytes ! n)"

definition FixedSizeByteString_find :: "char list \<Rightarrow> FixedSizeByteString \<Rightarrow> nat option" where
  "FixedSizeByteString_find bytes s =
     (if bs_len s < length bytes then None
      else List.find (has_found_at bytes s) [0..<bs_len s - length bytes + 1])"

definition FixedSizeByteString_rfind :: "char list \<Rightarrow> FixedSizeByteString \<Rightarrow> nat option" where
  "FixedSizeByteString_rfind bytes s =
     (if bs_len s < length bytes then None
      else List.find (has_found_at bytes s) (rev [0..<bs_len s - length bytes + 1]))"

definition FixedSizeByteString_strip_prefix ::
  "char list \<Rightarrow> FixedSizeByteString \<Rightarrow> (bool \<times> FixedSizeByteString) outcome" where
  "FixedSizeByteString_strip_prefix bytes s =
     (if FixedSizeByteString_find bytes s = Some 0
      then outcome_bind (FixedSizeByteString_remove_range 0 (length bytes) s) (\<lambda>s'. Ret (True, s'))
      else Ret (False, s))"

definition FixedSizeByteString_strip_suffix ::
  "char list \<Rightarrow> FixedSizeByteString \<Rightarrow> (bool \<times> FixedSizeByteString) outcome" where
  "FixedSizeByteString_strip_suffix bytes s =
     (if bs_len s < length bytes then Ret (False, s)
      else let pos = bs_len s - length bytes
        in case FixedSizeByteString_rfind bytes s of
             Some v \<Rightarrow>
               if v \<noteq> pos then Ret (False, s)
               else outcome_bind (FixedSizeByteString_remove_range pos (length bytes) s)
                      (\<lambda>s'. Ret (True, s'))
           | None \<Rightarrow> Ret (False, s))"

definition FixedSizeByteString_truncate :: "nat \<Rightarrow> FixedSizeByteString \<Rightarrow> FixedSizeByteString" where
  "FixedSizeByteString_truncate new_len s =
     (if bs_len s < new_len then s
      else if new_len < CAPACITY s then s\<lparr>bs_len := new_len, bs_data := (bs_data s)[new_len := NUL]\<rparr>
      else s\<lparr>bs_len := new_len\<rparr>)"

definition hex_digit :: "nat \<Rightarrow> char" where
  "hex_digit n = ''0123456789abcdef'' ! n"

definition escape_byte :: "char \<Rightarrow> string" where
  "escape_byte c =
     (if c = CHR 0x09 then [CHR 0x5C, CHR ''t'']
      else if c = CHR 0x0D then [CHR 0x5C, CHR ''r'']
      else if c = CHR 0x0A then [CHR 0x5C, CHR ''n'']
      else if 0x20 \<le> (of_char c :: nat) \<and> (of_char c :: nat) \<le> 0x7e then [c]
      else [CHR 0x5C, CHR ''x'', hex_digit (of_char c div 16), hex_digit (of_char c mod 16)])"

definition as_escaped_string :: "char list \<Rightarrow> string" where
  "as_escaped_string bytes = concat (map escape_byte bytes)"

section \<open>The contract of the byte string\<close>

definition bs_inv :: "FixedSizeByteString \<Rightarrow> bool" where
  "bs_inv s \<longleftrightarrow> bs_len s \<le> CAPACITY s \<and> 0 < CAPACITY s \<and> bs_terminator s = NUL
     \<and> (bs_len s < CAPACITY s \<longrightarrow> bs_data s ! bs_len s = NUL)"

lemma length_mem_copy:
  "src + n \<le> length d \<Longrightarrow> dst + n \<le> length d \<Longrightarrow> length (mem_copy src dst n d) = length d"
  by (auto simp: mem_copy_def min_def)

lemma write_bytes_eq:
  "idx + length bs \<le> length d \<Longrightarrow> write_bytes idx bs d = take idx d @ bs @ drop (idx + length bs) d"
proof (induction bs arbitrary: idx d)
  case Nil
  then show ?case by simp
next
  case (Cons b bs)
  have "write_bytes (idx + 1) bs (d[idx := b])
          = take (idx + 1) (d[idx := b]) @ bs @ drop (idx + 1 + length bs) (d[idx := b])"
    using Cons.prems by (intro Cons.IH) simp
  moreover have "take (idx + 1) (d[idx := b]) = take idx d @ [b]"
    using Cons.prems by (simp add: take_Suc_conv_app_nth)
  ultimately show ?case by simp
qed

lemma length_write_bytes [simp]: "length (write_bytes idx bs d) = length d"
  by (induction bs arbitrary: idx d) simp_all

lemma length_as_bytes: "bs_inv s \<Longrightarrow> length (as_bytes s) = bs_len s"
  by (simp add: as_bytes_def bs_inv_def)

lemma insert_bytes_data:
  assumes "idx \<le> l" "l + length bytes \<le> length d"
  shows "take (l + length bytes) (write_bytes idx bytes (mem_copy idx (idx + length bytes) (l - idx) d))
           = take idx (take l d) @ bytes @ drop idx (take l d)"
proof -
  let ?m = "mem_copy idx (idx + length bytes) (l - idx) d"
  have len: "length ?m = length d"
    using assms by (intro length_mem_copy) simp_all
  have "write_bytes idx bytes ?m = take idx ?m @ bytes @ drop (idx + length bytes) ?m"
    using assms by (intro write_bytes_eq) (simp add: len)
  also have "take idx ?m = take idx d"
    using assms by (simp add: mem_copy_def)
  also have "drop (idx + length bytes) ?m = take (l - idx) (drop idx d) @ drop (l + length bytes) d"
    using assms by (simp add: mem_copy_def algebra_simps)
  finally have "write_bytes idx bytes ?m
      = (take idx d @ bytes @ take (l - idx) (drop idx d)) @ drop (l + length bytes) d"
    by simp
  moreover have "length (take idx d @ bytes @ take (l - idx) (drop idx d)) = l + length bytes"
    using assms by (auto simp: min_def)
  ultimately have "take (l + length bytes) (write_bytes idx bytes ?m)
      = take idx d @ bytes @ take (l - idx) (drop idx d)"
    by (metis append_eq_conv_conj)
  then show ?thesis
    using assms by (simp add: drop_take min_def)
qed

lemma insert_bytes_unchecked_ok:
  assumes "bs_inv s" "idx \<le> bs_len s" "bs_len s + length bytes \<le> CAPACITY s" "idx < CAPACITY s"
  obtains s' where "FixedSizeByteString_insert_bytes_unchecked idx bytes s = Ret s'"
    "bs_inv s'" "CAPACITY s' = CAPACITY s"
    "as_bytes s' = take idx (as_bytes s) @ bytes @ drop idx (as_bytes s)"
proof -
  define d2 where "d2 = write_bytes idx bytes (mem_copy idx (idx + length bytes) (bs_len s - idx) (bs_data s))"
  define n where "n = bs_len s + length bytes"
  define s' where "s' = s\<lparr>bs_len := n, bs_data := (if n < CAPACITY s then d2[n := NUL] else d2)\<rparr>"
  have len: "length d2 = CAPACITY s"
    using assms by (simp add: d2_def length_mem_copy)
  have "FixedSizeByteString_insert_bytes_unchecked idx bytes s = Ret s'"
    using assms by (simp add: FixedSizeByteString_insert_bytes_unchecked_def s'_def d2_def n_def Let_def)
  moreover have "bs_inv s'" "CAPACITY s' = CAPACITY s"
    using assms len by (auto simp: bs_inv_def s'_def n_def)
  moreover have "take n d2 = take idx (as_bytes s) @ bytes @ drop idx (as_bytes s)"
    unfolding d2_def n_def as_bytes_def using assms by (intro insert_bytes_data) simp_all
  then have "as_bytes s' = take idx (as_bytes s) @ bytes @ drop idx (as_bytes s)"
    by (simp add: as_bytes_def s'_def)
  ultimately show ?thesis by (rule that)
qed

lemma insert_bytes_ok:
  assumes "bs_inv s" "idx \<le> bs_len s" "bs_len s + length bytes \<le> CAPACITY s" "idx < CAPACITY s"
  obtains s' where "FixedSizeByteString_insert_bytes idx bytes s = Ret (Ok (), s')"
    "bs_inv s'" "CAPACITY s' = CAPACITY s"
    "as_bytes s' = take idx (as_bytes s) @ bytes @ drop idx (as_bytes s)"
  by (rule insert_bytes_unchecked_ok [OF assms])
     (use assms in \<open>simp add: FixedSizeByteString_insert_bytes_def\<close>)

lemma remove_range_impl_ok:
  assumes "bs_inv s" "idx + n \<le> bs_len s" "idx + n < CAPACITY s"
  obtains s' where "FixedSizeByteString_remove_range_impl idx n s = Ret s'"
    "bs_inv s'" "CAPACITY s' = CAPACITY s"
    "as_bytes s' = take idx (as_bytes s) @ drop (idx + n) (as_bytes s)"
proof -
  define d1 where "d1 = mem_copy (idx + n) idx (bs_len s - (idx + n)) (bs_data s)"
  define s' where "s' = s\<lparr>bs_len := bs_len s - n, bs_data := d1[bs_len s - n := NUL]\<rparr>"
  have le: "bs_len s \<le> CAPACITY s" using assms by (simp add: bs_inv_def)
  have len: "length d1 = CAPACITY s"
    using assms le by (simp add: d1_def length_mem_copy)
  have "FixedSizeByteString_remove_range_impl idx n s = Ret s'"
    using assms by (simp add: FixedSizeByteString_remove_range_impl_def s'_def d1_def Let_def)
  moreover have "bs_inv s'" "CAPACITY s' = CAPACITY s"
    using assms len by (auto simp: bs_inv_def s'_def)
  moreover have "as_bytes s' = take idx (as_bytes s) @ drop (idx + n) (as_bytes s)"
    using assms le
    by (auto simp: as_bytes_def s'_def d1_def mem_copy_def drop_take min_def add.commute le_diff_conv)
  ultimately show ?thesis by (rule that)
qed

lemma remove_range_impl_full:
  "CAPACITY s \<le> idx + n \<Longrightarrow> FixedSizeByteString_remove_range_impl idx n s = Panic"
  by (simp add: FixedSizeByteString_remove_range_impl_def)

lemma remove_range_ok:
  assumes "bs_inv s" "idx + n \<le> bs_len s" "idx + n < CAPACITY s"
  obtains s' where "FixedSizeByteString_remove_range idx n s = Ret s'"
    "bs_inv s'" "CAPACITY s' = CAPACITY s"
    "as_bytes s' = take idx (as_bytes s) @ drop (idx + n) (as_bytes s)"
  by (rule remove_range_impl_ok [OF assms]) (use assms in \<open>simp add: FixedSizeByteString_remove_range_def\<close>)

lemma remove_ok:
  assumes "bs_inv s" "idx < bs_len s" "idx + 1 < CAPACITY s"
  obtains s' where "FixedSizeByteString_remove idx s = Ret (as_bytes s ! idx, s')"
    "bs_inv s'" "CAPACITY s' = CAPACITY s"
    "as_bytes s' = take idx (as_bytes s) @ drop (idx + 1) (as_bytes s)"
proof -
  have "idx + 1 \<le> bs_len s" using assms by simp
  then obtain s' where s': "FixedSizeByteString_remove_range_impl idx 1 s = Ret s'"
      "bs_inv s'" "CAPACITY s' = CAPACITY s"
      "as_bytes s' = take idx (as_bytes s) @ drop (idx + 1) (as_bytes s)"
    using remove_range_impl_ok [of s idx 1] assms by blast
  have "FixedSizeByteString_remove idx s = Ret (as_bytes s ! idx, s')"
    using assms s'(1) by (simp add: FixedSizeByteString_remove_def as_bytes_def Let_def)
  then show ?thesis using s'(2-4) by (rule that)
qed

text \<open>The searches.\<close>

lemma has_found_at_iff:
  assumes "bs_inv s" "i + length bytes \<le> bs_len s"
  shows "has_found_at bytes s i \<longleftrightarrow> take (length bytes) (drop i (as_bytes s)) = bytes"
proof -
  have le: "bs_len s \<le> CAPACITY s"
    using assms by (simp add: bs_inv_def)
  have nth: "take (length bytes) (drop i (as_bytes s)) ! n = bs_data s ! (i + n)" if "n < length bytes" for n
    using that assms(2) le by (simp add: as_bytes_def)
  have len: "length (take (length bytes) (drop i (as_bytes s))) = length bytes"
    using assms(2) le by (simp add: as_bytes_def)
  show ?thesis
    unfolding has_found_at_def list_eq_iff_nth_eq len using nth by (auto simp: atLeast0LessThan)
qed

lemma find_upt_Some:
  "List.find P [0..<n] = Some i \<longleftrightarrow> i < n \<and> P i \<and> (\<forall>j<i. \<not> P j)"
  by (auto simp: find_Some_iff)

lemma find_rev_upt_Some:
  "List.find P (rev [0..<n]) = Some i \<longleftrightarrow> i < n \<and> P i \<and> (\<forall>j. i < j \<longrightarrow> j < n \<longrightarrow> \<not> P j)"
proof (induction n)
  case 0
  then show ?case by simp
next
  case (Suc n)
  show ?case
  proof (cases "P n")
    case True
    then show ?thesis by (auto simp: less_Suc_eq)
  next
    case False
    then show ?thesis using Suc.IH by (auto simp: less_Suc_eq)
  qed
qed

definition occurs_at :: "char list \<Rightarrow> char list \<Rightarrow> nat \<Rightarrow> bool" where
  "occurs_at bytes text i \<longleftrightarrow> i + length bytes \<le> length text \<and> take (length bytes) (drop i text) = bytes"

lemma found_iff_occurs:
  assumes "bs_inv s" "length bytes \<le> bs_len s"
  shows "i < bs_len s - length bytes + 1 \<and> has_found_at bytes s i \<longleftrightarrow> occurs_at bytes (as_bytes s) i"
  using assms has_found_at_iff [of s i bytes] length_as_bytes [of s]
  by (auto simp: occurs_at_def)

lemma find_Some_iff_first:
  assumes "bs_inv s"
  shows "FixedSizeByteString_find bytes s = Some i
     \<longleftrightarrow> occurs_at bytes (as_bytes s) i \<and> (\<forall>j<i. \<not> occurs_at bytes (as_bytes s) j)"
proof (cases "bs_len s < length bytes")
  case True
  then show ?thesis
    using length_as_bytes [OF assms] by (simp add: FixedSizeByteString_find_def occurs_at_def)
next
  case False
  then have len: "length bytes \<le> bs_len s" by simp
  have "FixedSizeByteString_find bytes s = Some i
      \<longleftrightarrow> i < bs_len s - length bytes + 1 \<and> has_found_at bytes s i \<and> (\<forall>j<i. \<not> has_found_at bytes s j)"
    using False by (simp only: FixedSizeByteString_find_def if_False find_upt_Some)
  also have "\<dots> \<longleftrightarrow> occurs_at bytes (as_bytes s) i \<and> (\<forall>j<i. \<not> occurs_at bytes (as_bytes s) j)"
    using found_iff_occurs [OF assms len] by (metis less_trans)
  finally show ?thesis .
qed

lemma rfind_Some_iff_last:
  assumes "bs_inv s"
  shows "FixedSizeByteString_rfind bytes s = Some i
     \<longleftrightarrow> occurs_at bytes (as_bytes s) i \<and> (\<forall>j>i. \<not> occurs_at bytes (as_bytes s) j)"
proof (cases "bs_len s < length bytes")
  case True
  then show ?thesis
    using length_as_bytes [OF assms] by (simp add: FixedSizeByteString_rfind_def occurs_at_def)
next
  case False
  then have len: "length bytes \<le> bs_len s" by simp
  have "FixedSizeByteString_rfind bytes s = Some i
      \<longleftrightarrow> i < bs_len s - length bytes + 1 \<and> has_found_at bytes s i
          \<and> (\<forall>j. i < j \<longrightarrow> j < bs_len s - length bytes + 1 \<longrightarrow> \<not> has_found_at bytes s j)"
    using False by (simp only: FixedSizeByteString_rfind_def if_False find_rev_upt_Some)
  also have "\<dots> \<longleftrightarrow> occurs_at bytes (as_bytes s) i \<and> (\<forall>j>i. \<not> occurs_at bytes (as_bytes s) j)"
    using found_iff_occurs [OF assms len] by metis
  finally show ?thesis .
qed

lemma occurs_at_0: "occurs_at bytes text 0 \<longleftrightarrow> (\<exists>r. text = bytes @ r)"
  by (auto simp: occurs_at_def append_eq_conv_conj) (metis append_take_drop_id)+

lemma occurs_at_end:
  "length bytes \<le> length text \<Longrightarrow> occurs_at bytes text (length text - length bytes) \<longleftrightarrow> (\<exists>r. text = r @ bytes)"
  by (auto simp: occurs_at_def) (metis append_take_drop_id)

section \<open>What a call that returns has done\<close>

lemma insert_bytes_Ret:
  assumes "bs_inv s" "FixedSizeByteString_insert_bytes idx bytes s = Ret (r, s')"
  shows "(r = Err InsertWouldExceedCapacity \<and> s' = s) \<or>
    (r = Ok () \<and> idx \<le> bs_len s \<and> bs_inv s' \<and> CAPACITY s' = CAPACITY s
      \<and> as_bytes s' = take idx (as_bytes s) @ bytes @ drop idx (as_bytes s))"
proof -
  consider "r = Err InsertWouldExceedCapacity" "s' = s"
    | "idx \<le> bs_len s" "bs_len s + length bytes \<le> CAPACITY s" "idx < CAPACITY s"
    using assms(2)
    by (auto simp: FixedSizeByteString_insert_bytes_def FixedSizeByteString_insert_bytes_unchecked_def
        split: if_splits)
  then show ?thesis
  proof cases
    case 1
    then show ?thesis by simp
  next
    case 2
    then show ?thesis using insert_bytes_ok [OF assms(1) 2] assms(2) by auto
  qed
qed

lemma remove_range_impl_Ret:
  assumes "bs_inv s" "FixedSizeByteString_remove_range_impl idx n s = Ret s'"
  shows "idx + n \<le> bs_len s \<and> bs_inv s' \<and> CAPACITY s' = CAPACITY s
    \<and> as_bytes s' = take idx (as_bytes s) @ drop (idx + n) (as_bytes s)"
proof -
  have "idx + n \<le> bs_len s" "idx + n < CAPACITY s"
    using assms(2) by (auto simp: FixedSizeByteString_remove_range_impl_def split: if_splits)
  then show ?thesis
    using remove_range_impl_ok [OF assms(1)] assms(2) by (metis outcome.inject)
qed

lemma remove_range_Ret:
  assumes "bs_inv s" "FixedSizeByteString_remove_range idx n s = Ret s'"
  shows "idx + n \<le> bs_len s \<and> bs_inv s' \<and> CAPACITY s' = CAPACITY s
    \<and> as_bytes s' = take idx (as_bytes s) @ drop (idx + n) (as_bytes s)"
  using assms remove_range_impl_Ret
  by (auto simp: FixedSizeByteString_remove_range_def split: if_splits)

lemma remove_Ret:
  assumes "bs_inv s" "FixedSizeByteString_remove idx s = Ret (v, s')"
  shows "idx < bs_len s \<and> v = as_bytes s ! idx \<and> bs_inv s' \<and> CAPACITY s' = CAPACITY s
    \<and> as_bytes s' = take idx (as_bytes s) @ drop (idx + 1) (as_bytes s)"
proof -
  have impl: "FixedSizeByteString_remove_range_impl idx 1 s = Ret s'" and v: "v = bs_data s ! idx"
    using assms(2)
    by (auto simp: FixedSizeByteString_remove_def Let_def outcome_bind_eq_Ret split: if_splits)
  note s' = remove_range_impl_Ret [OF assms(1) impl]
  then have "v = as_bytes s ! idx" using v by (simp add: as_bytes_def)
  then show ?thesis using s' by simp
qed

text \<open>A closure whose answers depend on the byte only, whatever it has captured.\<close>

definition answers :: "'f FnMut \<Rightarrow> (char \<Rightarrow> bool) \<Rightarrow> bool" where
  "answers f p \<longleftrightarrow> (\<forall>c st. fst (f c st) = p c)"

lemma retain_loop_Ret:
  assumes "bs_inv s" "n \<le> bs_len s" "retain_loop f n st s = Ret (st', s')"
  shows "bs_inv s' \<and> CAPACITY s' = CAPACITY s \<and> set (as_bytes s') \<subseteq> set (as_bytes s)
    \<and> (answers f p \<longrightarrow> as_bytes s' = filter (\<lambda>c. \<not> p c) (take n (as_bytes s)) @ drop n (as_bytes s))"
  using assms
proof (induction n arbitrary: s st)
  case 0
  then show ?case by simp
next
  case (Suc n)
  have data: "bs_data s ! n = as_bytes s ! n" and n: "n < length (as_bytes s)"
    using Suc.prems length_as_bytes [of s] by (simp_all add: as_bytes_def)
  have split: "take (Suc n) (as_bytes s) = take n (as_bytes s) @ [as_bytes s ! n]"
    "drop n (as_bytes s) = as_bytes s ! n # drop (Suc n) (as_bytes s)"
    using n by (simp_all add: take_Suc_conv_app_nth Cons_nth_drop_Suc)
  obtain b st1 where b: "f (as_bytes s ! n) st = (b, st1)" by fastforce
  then have p: "answers f p \<Longrightarrow> p (as_bytes s ! n) = b" by (metis answers_def fst_conv)
  show ?case
  proof (cases b)
    case True
    then obtain v s1 where s1: "FixedSizeByteString_remove n s = Ret (v, s1)" "retain_loop f n st1 s1 = Ret (st', s')"
      using Suc.prems(3) b data by (auto simp: outcome_bind_eq_Ret)
    note r = remove_Ret [OF Suc.prems(1) s1(1)]
    then have "n \<le> bs_len s1" using n length_as_bytes [of s1] by simp
    moreover have "set (as_bytes s1) \<subseteq> set (as_bytes s)" using r by (auto dest: in_set_takeD in_set_dropD)
    ultimately show ?thesis
      using Suc.IH [of s1 st1] r s1(2) True p split n by auto
  next
    case False
    then show ?thesis using Suc.IH [of s st1] Suc.prems b data p split by auto
  qed
qed

lemma strip_prefix_Ret:
  assumes "bs_inv s" "FixedSizeByteString_strip_prefix bytes s = Ret (found, s')"
  shows "bs_inv s' \<and> CAPACITY s' = CAPACITY s
    \<and> (if found then as_bytes s = bytes @ as_bytes s' else s' = s)"
proof (cases "FixedSizeByteString_find bytes s = Some 0")
  case True
  then have r: "FixedSizeByteString_remove_range 0 (length bytes) s = Ret s'" and found
    using assms(2) by (auto simp: FixedSizeByteString_strip_prefix_def outcome_bind_eq_Ret)
  moreover have "\<exists>r. as_bytes s = bytes @ r"
    using True find_Some_iff_first [OF assms(1)] occurs_at_0 by blast
  ultimately show ?thesis
    using remove_range_Ret [OF assms(1) r] by auto
next
  case False
  then show ?thesis
    using assms by (auto simp: FixedSizeByteString_strip_prefix_def)
qed

lemma strip_suffix_Ret:
  assumes "bs_inv s" "FixedSizeByteString_strip_suffix bytes s = Ret (found, s')"
  shows "bs_inv s' \<and> CAPACITY s' = CAPACITY s
    \<and> (if found then as_bytes s = as_bytes s' @ bytes else s' = s)"
proof (cases "length bytes \<le> bs_len s \<and> FixedSizeByteString_rfind bytes s = Some (bs_len s - length bytes)")
  case True
  then have r: "FixedSizeByteString_remove_range (bs_len s - length bytes) (length bytes) s = Ret s'" and found
    using assms(2) by (auto simp: FixedSizeByteString_strip_suffix_def Let_def outcome_bind_eq_Ret)
  moreover obtain p where "as_bytes s = p @ bytes"
    using True rfind_Some_iff_last [OF assms(1)] occurs_at_end length_as_bytes [OF assms(1)] by metis
  ultimately show ?thesis
    using remove_range_Ret [OF assms(1) r] length_as_bytes [OF assms(1)] by auto
next
  case False
  then show ?thesis
    using assms
    by (auto simp: FixedSizeByteString_strip_suffix_def Let_def split: if_splits option.splits)
qed

lemma truncate_bytes:
  assumes "bs_inv s"
  shows "bs_inv (FixedSizeByteString_truncate n s)"
    "CAPACITY (FixedSizeByteString_truncate n s) = CAPACITY s"
    "as_bytes (FixedSizeByteString_truncate n s) = take n (as_bytes s)"
  using assms by (auto simp: FixedSizeByteString_truncate_def bs_inv_def as_bytes_def min_def)

lemmas call_Ret = insert_bytes_Ret remove_range_Ret remove_Ret retain_loop_Ret strip_prefix_Ret strip_suffix_Ret

lemma FixedSizeByteString_new_inv:
  assumes "FixedSizeByteString_new junk = Ret s"
  shows "bs_inv s" "as_bytes s = []" "CAPACITY s = length junk" "bs_len s = 0"
  using assms by (auto simp: FixedSizeByteString_new_def bs_inv_def as_bytes_def split: if_splits)

lemma new_unchecked_bytes:
  assumes "0 < length junk" "length bytes \<le> length junk"
  obtains s where "FixedSizeByteString_new_unchecked junk bytes = Ret s" "bs_inv s" "as_bytes s = bytes"
    "CAPACITY s = length junk"
proof -
  define d0 where "d0 = (bytes @ drop (length bytes) (junk[0 := NUL]) @ [NUL])[length bytes := NUL]"
  have len: "length d0 = length junk + 1"
    using assms by (simp add: d0_def)
  have d0: "take (length bytes) d0 = bytes" "d0 ! length bytes = NUL"
    using assms by (simp_all add: d0_def)
  have last: "last d0 = NUL"
  proof -
    have "last d0 = d0 ! length junk" using len by (metis add_diff_cancel_right' last_conv_nth length_0_conv add_is_0 one_neq_zero)
    also have "\<dots> = NUL" using assms by (cases "length bytes = length junk") (simp_all add: d0_def nth_append)
    finally show ?thesis .
  qed
  define s where "s = \<lparr>bs_len = length bytes, bs_data = butlast d0, bs_terminator = last d0\<rparr>"
  have "FixedSizeByteString_new_unchecked junk bytes = Ret s"
    using assms by (auto simp: FixedSizeByteString_new_unchecked_def FixedSizeByteString_new_def s_def d0_def Let_def)
  moreover have "bs_inv s" "CAPACITY s = length junk"
    using assms len last d0 by (auto simp: bs_inv_def s_def nth_butlast)
  moreover have "as_bytes s = bytes"
    using d0(1) len assms by (simp add: as_bytes_def s_def butlast_conv_take)
  ultimately show ?thesis using that by blast
qed

section \<open>Properties\<close>

text \<open>
  \<open>FixedSizeByteString::insert_bytes\<close> at a position inside the string puts the bytes
  at that position and keeps the rest in order and the result NUL-terminated; it fails with
  \<open>InsertWouldExceedCapacity\<close>, leaving the string alone, exactly when the result does not fit.
  The one panic left is the insertion of nothing at the end of a full string.
\<close>
theorem byte_string_insert_bytes:
  assumes "bs_inv s" "idx \<le> bs_len s"
  shows "case FixedSizeByteString_insert_bytes idx bytes s of
           Ret (Ok _, s') \<Rightarrow> bs_inv s' \<and> CAPACITY s' = CAPACITY s
             \<and> as_bytes s' = take idx (as_bytes s) @ bytes @ drop idx (as_bytes s)
         | Ret (Err e, s') \<Rightarrow> s' = s \<and> CAPACITY s < length (as_bytes s) + length bytes
         | Panic \<Rightarrow> bytes = [] \<and> idx = CAPACITY s"
proof (cases "CAPACITY s < bs_len s + length bytes")
  case True
  then show ?thesis
    using assms length_as_bytes [of s] by (simp add: FixedSizeByteString_insert_bytes_def)
next
  case fits: False
  show ?thesis
  proof (cases "idx < CAPACITY s")
    case True
    have "bs_len s + length bytes \<le> CAPACITY s" using fits by simp
    then obtain s' where "FixedSizeByteString_insert_bytes idx bytes s = Ret (Ok (), s')"
        "bs_inv s'" "CAPACITY s' = CAPACITY s"
        "as_bytes s' = take idx (as_bytes s) @ bytes @ drop idx (as_bytes s)"
      using insert_bytes_ok [OF assms _ True] by blast
    then show ?thesis by simp
  next
    case False
    then have "idx = CAPACITY s" "bs_len s = CAPACITY s" "length bytes = 0"
      using assms fits unfolding bs_inv_def by linarith+
    then show ?thesis
      by (auto simp: FixedSizeByteString_insert_bytes_def FixedSizeByteString_insert_bytes_unchecked_def)
  qed
qed

theorem byte_string_insert_bytes_witness:
  "case FixedSizeByteString_insert_bytes 1 ''XY''
      \<lparr>bs_len = 3, bs_data = ''abc'' @ [NUL, NUL, NUL], bs_terminator = NUL\<rparr> of
     Ret (Ok _, s') \<Rightarrow> as_bytes s' = ''aXYbc'' | _ \<Rightarrow> False"
  using byte_string_insert_bytes [of "\<lparr>bs_len = 3, bs_data = ''abc'' @ [NUL, NUL, NUL], bs_terminator = NUL\<rparr>" 1 "''XY''"]
  by (simp add: bs_inv_def as_bytes_def FixedSizeByteString_insert_bytes_def
      FixedSizeByteString_insert_bytes_unchecked_def Let_def mem_copy_def numeral_eq_Suc)

text \<open>
  C37: \<open>FixedSizeByteString::remove_range\<close> inside the string cuts out exactly that range and
  keeps the string NUL-terminated, except that a range reaching the end of a full string panics:
  the address of the byte behind the range is taken by an index that is out of bounds then. So
  \<open>pop\<close> and \<open>strip_suffix\<close> of a matching suffix panic on every full string.
\<close>
theorem byte_string_remove_range:
  assumes "bs_inv s" "idx + n \<le> bs_len s"
  shows "(idx + n < CAPACITY s \<longrightarrow>
            (\<exists>s'. FixedSizeByteString_remove_range idx n s = Ret s' \<and> bs_inv s'
               \<and> as_bytes s' = take idx (as_bytes s) @ drop (idx + n) (as_bytes s)))
       \<and> (idx + n = CAPACITY s \<longrightarrow> FixedSizeByteString_remove_range idx n s = Panic)
       \<and> (FixedSizeByteString_is_full s \<longrightarrow> FixedSizeByteString_pop s = Panic)
       \<and> (FixedSizeByteString_is_full s \<longrightarrow> as_bytes s = r @ suffix \<longrightarrow>
            FixedSizeByteString_strip_suffix suffix s = Panic)"
proof (intro conjI impI)
  assume "idx + n < CAPACITY s"
  then show "\<exists>s'. FixedSizeByteString_remove_range idx n s = Ret s' \<and> bs_inv s'
               \<and> as_bytes s' = take idx (as_bytes s) @ drop (idx + n) (as_bytes s)"
    using remove_range_ok [OF assms] by blast
next
  assume "idx + n = CAPACITY s"
  then show "FixedSizeByteString_remove_range idx n s = Panic"
    using assms by (simp add: FixedSizeByteString_remove_range_def remove_range_impl_full)
next
  assume full: "FixedSizeByteString_is_full s"
  then show "FixedSizeByteString_pop s = Panic"
    using assms(1)
    by (auto simp: FixedSizeByteString_pop_def FixedSizeByteString_is_empty_def bs_inv_def
        FixedSizeByteString_is_full_def FixedSizeByteString_remove_def remove_range_impl_full Let_def)
next
  assume full: "FixedSizeByteString_is_full s" and suffix: "as_bytes s = r @ suffix"
  have len: "length suffix \<le> bs_len s" "bs_len s = length r + length suffix"
    using length_as_bytes [OF assms(1)] suffix by simp_all
  have "FixedSizeByteString_rfind suffix s = Some (length r)"
    using suffix by (simp add: rfind_Some_iff_last [OF assms(1)] occurs_at_def)
  then show "FixedSizeByteString_strip_suffix suffix s = Panic"
    using full len
    by (simp add: FixedSizeByteString_strip_suffix_def FixedSizeByteString_remove_range_def
        FixedSizeByteString_is_full_def remove_range_impl_full Let_def)
qed

theorem byte_string_remove_range_witness:
  "FixedSizeByteString_pop \<lparr>bs_len = 2, bs_data = ''ab'', bs_terminator = NUL\<rparr> = Panic
   \<and> FixedSizeByteString_strip_suffix ''b'' \<lparr>bs_len = 2, bs_data = ''ab'', bs_terminator = NUL\<rparr> = Panic"
  using byte_string_remove_range [of "\<lparr>bs_len = 2, bs_data = ''ab'', bs_terminator = NUL\<rparr>" 0 0 "''a''" "''b''"]
  by (simp add: bs_inv_def FixedSizeByteString_is_full_def as_bytes_def)

text \<open>
  \<open>FixedSizeByteString::find\<close> returns the first and \<open>rfind\<close> the last position at which the
  bytes occur, and \<open>None\<close> exactly when they occur nowhere.
\<close>
theorem byte_string_find:
  assumes "bs_inv s"
  shows "(FixedSizeByteString_find bytes s = Some i
            \<longleftrightarrow> occurs_at bytes (as_bytes s) i \<and> (\<forall>j<i. \<not> occurs_at bytes (as_bytes s) j))
       \<and> (FixedSizeByteString_rfind bytes s = Some i
            \<longleftrightarrow> occurs_at bytes (as_bytes s) i \<and> (\<forall>j>i. \<not> occurs_at bytes (as_bytes s) j))
       \<and> (FixedSizeByteString_find bytes s = None \<longleftrightarrow> (\<forall>j. \<not> occurs_at bytes (as_bytes s) j))"
proof (intro conjI)
  show "FixedSizeByteString_find bytes s = None \<longleftrightarrow> (\<forall>j. \<not> occurs_at bytes (as_bytes s) j)"
  proof
    assume none: "FixedSizeByteString_find bytes s = None"
    show "\<forall>j. \<not> occurs_at bytes (as_bytes s) j"
    proof (rule allI, rule notI)
      fix j
      assume "occurs_at bytes (as_bytes s) j"
      then have "\<exists>i. FixedSizeByteString_find bytes s = Some i"
        unfolding find_Some_iff_first [OF assms] using exists_least_iff by blast
      with none show False by simp
    qed
  next
    assume "\<forall>j. \<not> occurs_at bytes (as_bytes s) j"
    then show "FixedSizeByteString_find bytes s = None"
      using find_Some_iff_first [OF assms] by (metis option.exhaust)
  qed
qed (rule find_Some_iff_first [OF assms], rule rfind_Some_iff_last [OF assms])

theorem byte_string_find_witness:
  "FixedSizeByteString_find ''ab'' \<lparr>bs_len = 4, bs_data = ''abab'', bs_terminator = NUL\<rparr> = Some 0
   \<and> occurs_at ''ab'' (as_bytes \<lparr>bs_len = 4, bs_data = ''abab'', bs_terminator = NUL\<rparr>) 0"
  using byte_string_find [of "\<lparr>bs_len = 4, bs_data = ''abab'', bs_terminator = NUL\<rparr>" "''ab''" 0]
  by (simp add: bs_inv_def as_bytes_def occurs_at_def)

text \<open>
  The loop for a closure that answers with \<open>p\<close> as long as what it has captured satisfies \<open>I\<close>, which
  its calls keep.
\<close>

lemma retain_loop_eq:
  assumes "bs_inv s" "n \<le> bs_len s" "n + 1 \<le> CAPACITY s \<or> \<not> p (bs_data s ! (n - 1))"
    and "I st" "\<And>c st. I st \<Longrightarrow> fst (f c st) = p c \<and> I (snd (f c st))"
  shows "\<exists>st' s'. retain_loop f n st s = Ret (st', s') \<and> bs_inv s' \<and> CAPACITY s' = CAPACITY s
           \<and> as_bytes s' = filter (\<lambda>c. \<not> p c) (take n (as_bytes s)) @ drop n (as_bytes s)"
  using assms(1-4)
proof (induction n arbitrary: s st)
  case 0
  then show ?case by simp
next
  case (Suc n)
  have data: "bs_data s ! n = as_bytes s ! n" and n: "n < length (as_bytes s)"
    using Suc.prems length_as_bytes [of s] by (simp_all add: as_bytes_def)
  have split: "take (Suc n) (as_bytes s) = take n (as_bytes s) @ [as_bytes s ! n]"
    "drop n (as_bytes s) = as_bytes s ! n # drop (Suc n) (as_bytes s)"
    using n by (simp_all add: take_Suc_conv_app_nth Cons_nth_drop_Suc)
  obtain st1 where b: "f (as_bytes s ! n) st = (p (as_bytes s ! n), st1)" "I st1"
    using assms(5) [OF Suc.prems(4), of "as_bytes s ! n"] by (cases "f (as_bytes s ! n) st") auto
  show ?case
  proof (cases "p (as_bytes s ! n)")
    case True
    then have room: "n + 1 < CAPACITY s" using Suc.prems data by simp
    obtain s1 where s1: "FixedSizeByteString_remove n s = Ret (as_bytes s ! n, s1)" "bs_inv s1"
        "CAPACITY s1 = CAPACITY s" "as_bytes s1 = take n (as_bytes s) @ drop (n + 1) (as_bytes s)"
      using remove_ok [OF Suc.prems(1) _ room] Suc.prems(2) by (metis Suc_le_eq)
    have "n \<le> bs_len s1"
      using s1(2,4) n length_as_bytes [of s1] by simp
    then obtain st2 s2 where "retain_loop f n st1 s1 = Ret (st2, s2)" "bs_inv s2" "CAPACITY s2 = CAPACITY s1"
        "as_bytes s2 = filter (\<lambda>c. \<not> p c) (take n (as_bytes s1)) @ drop n (as_bytes s1)"
      using Suc.IH [OF s1(2) _ _ b(2)] s1(3) room by auto
    then show ?thesis
      using True s1 n data split b by simp
  next
    case False
    have "n \<le> bs_len s" "n + 1 \<le> CAPACITY s"
      using Suc.prems by (simp_all add: bs_inv_def)
    then obtain st2 s2 where "retain_loop f n st1 s = Ret (st2, s2)" "bs_inv s2" "CAPACITY s2 = CAPACITY s"
        "as_bytes s2 = filter (\<lambda>c. \<not> p c) (take n (as_bytes s)) @ drop n (as_bytes s)"
      using Suc.IH [OF Suc.prems(1) _ _ b(2)] by blast
    then show ?thesis
      using False data split b by simp
  qed
qed

lemma retain_impl_eq:
  assumes inv: "bs_inv s" "\<not> FixedSizeByteString_is_full s"
    and f: "I st" "\<And>c st. I st \<Longrightarrow> fst (f c st) = p c \<and> I (snd (f c st))"
  shows "\<exists>st' s'. FixedSizeByteString_retain_impl f st s = Ret (st', s') \<and> bs_inv s'
           \<and> as_bytes s' = filter (\<lambda>c. \<not> p c) (as_bytes s)"
proof -
  have "bs_len s + 1 \<le> CAPACITY s"
    using inv by (auto simp: bs_inv_def FixedSizeByteString_is_full_def)
  then show ?thesis
    using retain_loop_eq [OF inv(1) order_refl _ f] length_as_bytes [OF inv(1)]
    by (fastforce simp: FixedSizeByteString_retain_impl_def)
qed

text \<open>
  \<open>FixedSizeByteString::retain\<close> removes the bytes for which the closure returns true and
  keeps the others in order, on every string that is not full, whereas its documentation says
  that it removes those for which the closure returns false.
\<close>
theorem byte_string_retain:
  assumes "bs_inv s" "\<not> FixedSizeByteString_is_full s" "answers f p"
  shows "\<exists>s'. FixedSizeByteString_retain f st s = Ret s' \<and> bs_inv s'
           \<and> as_bytes s' = filter (\<lambda>c. \<not> p c) (as_bytes s)"
  using retain_impl_eq [OF assms(1,2), of "\<lambda>_. True" st f p] assms(3)
  by (auto simp: FixedSizeByteString_retain_def answers_def)

theorem byte_string_retain_witness:
  "\<exists>s'. FixedSizeByteString_retain (\<lambda>c n. (c = CHR ''a'', Suc n)) 0
          \<lparr>bs_len = 3, bs_data = ''aba'' @ [NUL], bs_terminator = NUL\<rparr> = Ret s' \<and> as_bytes s' = ''b''"
proof -
  have "answers (\<lambda>c n. (c = CHR ''a'', Suc n)) (\<lambda>c. c = CHR ''a'')" by (simp add: answers_def)
  from byte_string_retain [OF _ _ this, of "\<lparr>bs_len = 3, bs_data = ''aba'' @ [NUL], bs_terminator = NUL\<rparr>" 0]
  show ?thesis by (auto simp: bs_inv_def FixedSizeByteString_is_full_def as_bytes_def)
qed

text \<open>
  \<open>FixedSizeByteString::from_c_str\<close> copies the C string without its terminator and does
  not write one: whatever the memory behind the copied bytes held is what \<open>as_c_str\<close> exposes after
  the string.
\<close>
theorem byte_string_from_c_str_unterminated:
  assumes "bytes \<noteq> []" "NUL \<notin> set bytes" "length bytes < length junk"
  shows "\<exists>s. FixedSizeByteString_from_c_str junk (bytes @ NUL # rest) = Ret (Ok s)
           \<and> as_bytes s = bytes \<and> bs_data s ! bs_len s = junk ! length bytes"
proof -
  have loop: "strlen_from i (bs @ NUL # rest) = Ret (i + length bs)" if "NUL \<notin> set bs" for i and bs :: "char list"
    using that by (induction bs arbitrary: i) auto
  have "strlen (bytes @ NUL # rest) = Ret (length bytes)"
    using loop [of bytes 0] assms(2) by (simp add: strlen_def)
  then show ?thesis
    using assms
    by (auto simp: FixedSizeByteString_from_c_str_def FixedSizeByteString_new_def as_bytes_def nth_append)
qed

theorem byte_string_from_c_str_unterminated_witness:
  "\<exists>s. FixedSizeByteString_from_c_str ''????'' (''ab'' @ NUL # []) = Ret (Ok s)
           \<and> as_bytes s = ''ab'' \<and> bs_data s ! bs_len s = CHR ''?''"
  using byte_string_from_c_str_unterminated [of "''ab''" "''????''" "[]"] by simp

end
