(* ===== verification/SemanticString.thy ===== *)
theory SemanticString
  imports ByteString
begin

text \<open>
  Byte strings with a content contract, \<open>iceoryx2_bb/container/src/semantic_string.rs\<close>. The
  two predicates of the trait \<open>SemanticStringAccessor\<close> are arguments of the operations:
  \<open>bad\<close> is \<open>is_invalid_content\<close> and \<open>badc\<close> is \<open>does_contain_invalid_characters\<close>. The locale
  \<open>semantic_string\<close> states what the operations need of them and proves that no sequence of
  operations leaves the contract.
\<close>

datatype SemanticStringError = InvalidCharacter | InvalidName | ExceedsMaximumLength

type_synonym 'a sem_result =
  "(('a, SemanticStringError) result \<times> FixedSizeByteString) outcome"

type_synonym content_check = "char list \<Rightarrow> bool"

section \<open>Operations\<close>

definition SemanticString_insert_bytes ::
  "content_check \<Rightarrow> content_check \<Rightarrow> nat \<Rightarrow> char list \<Rightarrow> FixedSizeByteString \<Rightarrow> unit sem_result" where
  "SemanticString_insert_bytes bad badc idx bytes s =
     (if badc bytes then Ret (Err InvalidCharacter, s)
      else outcome_bind (FixedSizeByteString_insert_bytes idx bytes s) (\<lambda>(r, s1).
        case r of Err _ \<Rightarrow> Ret (Err ExceedsMaximumLength, s1)
        | Ok _ \<Rightarrow>
            if bad (as_bytes s1)
            then outcome_bind (FixedSizeByteString_remove_range idx (length bytes) s1)
                   (\<lambda>s2. Ret (Err InvalidName, s2))
            else Ret (Ok (), s1)))"

definition SemanticString_insert ::
  "content_check \<Rightarrow> content_check \<Rightarrow> nat \<Rightarrow> char \<Rightarrow> FixedSizeByteString \<Rightarrow> unit sem_result" where
  "SemanticString_insert bad badc idx byte s = SemanticString_insert_bytes bad badc idx [byte] s"

definition SemanticString_push ::
  "content_check \<Rightarrow> content_check \<Rightarrow> char \<Rightarrow> FixedSizeByteString \<Rightarrow> unit sem_result" where
  "SemanticString_push bad badc byte s = SemanticString_insert bad badc (bs_len s) byte s"

definition SemanticString_push_bytes ::
  "content_check \<Rightarrow> content_check \<Rightarrow> char list \<Rightarrow> FixedSizeByteString \<Rightarrow> unit sem_result" where
  "SemanticString_push_bytes bad badc bytes s = SemanticString_insert_bytes bad badc (bs_len s) bytes s"

text \<open>\<open>junk\<close> is the uninitialised memory of the new string, its length the capacity.\<close>

definition SemanticString_new ::
  "content_check \<Rightarrow> content_check \<Rightarrow> char list \<Rightarrow> char list
     \<Rightarrow> (FixedSizeByteString, SemanticStringError) result outcome" where
  "SemanticString_new bad badc junk bytes =
     outcome_bind (FixedSizeByteString_new junk) (\<lambda>new_self.
     outcome_bind (SemanticString_push_bytes bad badc bytes new_self) (\<lambda>(r, s).
       case r of Ok _ \<Rightarrow> Ret (Ok s) | Err e \<Rightarrow> Ret (Err e)))"

definition SemanticString_from_c_str ::
  "content_check \<Rightarrow> content_check \<Rightarrow> char list \<Rightarrow> char list
     \<Rightarrow> (FixedSizeByteString, SemanticStringError) result outcome" where
  "SemanticString_from_c_str bad badc junk mem =
     outcome_bind (strlen mem) (\<lambda>n. SemanticString_new bad badc junk (take n mem))"

definition SemanticString_remove :: "content_check \<Rightarrow> nat \<Rightarrow> FixedSizeByteString \<Rightarrow> char sem_result" where
  "SemanticString_remove bad idx s =
     outcome_bind (FixedSizeByteString_remove idx s) (\<lambda>(v, s1).
       if bad (as_bytes s1)
       then outcome_bind (FixedSizeByteString_insert idx v s1) (\<lambda>(r, s2).
              case r of Ok _ \<Rightarrow> Ret (Err InvalidName, s2) | Err _ \<Rightarrow> Panic)
       else Ret (Ok v, s1))"

definition SemanticString_pop :: "content_check \<Rightarrow> FixedSizeByteString \<Rightarrow> char option sem_result" where
  "SemanticString_pop bad s =
     (if bs_len s = 0 then Ret (Ok None, s)
      else outcome_bind (SemanticString_remove bad (bs_len s - 1) s) (\<lambda>(r, s1).
        case r of Ok v \<Rightarrow> Ret (Ok (Some v), s1) | Err e \<Rightarrow> Ret (Err e, s1)))"

definition SemanticString_remove_range ::
  "content_check \<Rightarrow> nat \<Rightarrow> nat \<Rightarrow> FixedSizeByteString \<Rightarrow> unit sem_result" where
  "SemanticString_remove_range bad idx len s =
     outcome_bind (FixedSizeByteString_remove_range idx len s) (\<lambda>temp.
       if bad (as_bytes temp) then Ret (Err InvalidName, s)
       else outcome_bind (FixedSizeByteString_remove_range idx len s) (\<lambda>s1. Ret (Ok (), s1)))"

text \<open>
  \<open>retain\<close> tries the closure on a copy, which gives the closure back as the calls have left it, and
  applies that closure to the string itself.
\<close>

definition SemanticString_retain ::
  "content_check \<Rightarrow> 'f FnMut \<Rightarrow> 'f \<Rightarrow> FixedSizeByteString \<Rightarrow> unit sem_result" where
  "SemanticString_retain bad f st s =
     outcome_bind (FixedSizeByteString_retain_impl f st s) (\<lambda>(st', temp).
       if bad (as_bytes temp) then Ret (Err InvalidName, s)
       else outcome_bind (FixedSizeByteString_retain f st' s) (\<lambda>s1. Ret (Ok (), s1)))"

text \<open>
  A rejected prefix or suffix is copied into a byte string of capacity 123 for the log message,
  with \<open>insert_bytes_unchecked\<close>.
\<close>

definition strip_log_message :: "char list \<Rightarrow> FixedSizeByteString outcome" where
  "strip_log_message bytes =
     outcome_bind (FixedSizeByteString_new (replicate 123 NUL)) (\<lambda>prefix.
       FixedSizeByteString_insert_bytes_unchecked 0 bytes prefix)"

definition SemanticString_strip_prefix ::
  "content_check \<Rightarrow> char list \<Rightarrow> FixedSizeByteString \<Rightarrow> bool sem_result" where
  "SemanticString_strip_prefix bad bytes s =
     outcome_bind (FixedSizeByteString_strip_prefix bytes s) (\<lambda>(found, temp).
       if \<not> found then Ret (Ok False, s)
       else if bad (as_bytes temp)
       then outcome_bind (strip_log_message bytes) (\<lambda>_. Ret (Err InvalidName, s))
       else outcome_bind (FixedSizeByteString_strip_prefix bytes s) (\<lambda>(_, s1). Ret (Ok True, s1)))"

definition SemanticString_strip_suffix ::
  "content_check \<Rightarrow> char list \<Rightarrow> FixedSizeByteString \<Rightarrow> bool sem_result" where
  "SemanticString_strip_suffix bad bytes s =
     outcome_bind (FixedSizeByteString_strip_suffix bytes s) (\<lambda>(found, temp).
       if \<not> found then Ret (Ok False, s)
       else if bad (as_bytes temp)
       then outcome_bind (strip_log_message bytes) (\<lambda>_. Ret (Err InvalidName, s))
       else outcome_bind (FixedSizeByteString_strip_suffix bytes s) (\<lambda>(_, s1). Ret (Ok True, s1)))"

definition SemanticString_truncate :: "content_check \<Rightarrow> nat \<Rightarrow> FixedSizeByteString \<Rightarrow> unit sem_result" where
  "SemanticString_truncate bad new_len s =
     (let temp = FixedSizeByteString_truncate new_len s
      in if bad (as_bytes temp) then Ret (Err InvalidName, s)
         else Ret (Ok (), FixedSizeByteString_truncate new_len s))"

text \<open>A call of one of the modifying operations, and a sequence of calls.\<close>

datatype 'f sem_call =
    InsertBytes nat "char list"
  | Insert nat char
  | PushBytes "char list"
  | Push char
  | Remove nat
  | Pop
  | RemoveRange nat nat
  | Retain "'f FnMut" 'f
  | StripPrefix "char list"
  | StripSuffix "char list"
  | Truncate nat

definition discard :: "'a sem_result \<Rightarrow> unit sem_result" where
  "discard r = outcome_bind r (\<lambda>(x, s). Ret (case x of Ok _ \<Rightarrow> Ok () | Err e \<Rightarrow> Err e, s))"

fun SemanticString_call ::
  "content_check \<Rightarrow> content_check \<Rightarrow> 'f sem_call \<Rightarrow> FixedSizeByteString \<Rightarrow> unit sem_result" where
  "SemanticString_call bad badc (InsertBytes i bs) s = SemanticString_insert_bytes bad badc i bs s"
| "SemanticString_call bad badc (Insert i b) s = SemanticString_insert bad badc i b s"
| "SemanticString_call bad badc (PushBytes bs) s = SemanticString_push_bytes bad badc bs s"
| "SemanticString_call bad badc (Push b) s = SemanticString_push bad badc b s"
| "SemanticString_call bad badc (Remove i) s = discard (SemanticString_remove bad i s)"
| "SemanticString_call bad badc Pop s = discard (SemanticString_pop bad s)"
| "SemanticString_call bad badc (RemoveRange i n) s = SemanticString_remove_range bad i n s"
| "SemanticString_call bad badc (Retain f st) s = SemanticString_retain bad f st s"
| "SemanticString_call bad badc (StripPrefix bs) s = discard (SemanticString_strip_prefix bad bs s)"
| "SemanticString_call bad badc (StripSuffix bs) s = discard (SemanticString_strip_suffix bad bs s)"
| "SemanticString_call bad badc (Truncate n) s = SemanticString_truncate bad n s"

fun SemanticString_run ::
  "content_check \<Rightarrow> content_check \<Rightarrow> 'f sem_call list \<Rightarrow> FixedSizeByteString \<Rightarrow> FixedSizeByteString outcome" where
  "SemanticString_run bad badc [] s = Ret s"
| "SemanticString_run bad badc (c # cs) s =
     outcome_bind (SemanticString_call bad badc c s) (\<lambda>(_, s'). SemanticString_run bad badc cs s')"

text \<open>The closures of \<open>retain\<close> answer the same for the same byte, whatever they have captured.\<close>

fun steady_closures :: "'f sem_call list \<Rightarrow> bool" where
  "steady_closures [] \<longleftrightarrow> True"
| "steady_closures (Retain f st # cs) \<longleftrightarrow> (\<exists>p. answers f p) \<and> steady_closures cs"
| "steady_closures (c # cs) \<longleftrightarrow> steady_closures cs"

section \<open>The content contract\<close>

locale semantic_string =
  fixes bad badc :: content_check
  assumes badc_iff: "badc xs \<longleftrightarrow> (\<exists>c\<in>set xs. badc [c])"
begin

definition valid_string :: "FixedSizeByteString \<Rightarrow> bool" where
  "valid_string s \<longleftrightarrow> bs_inv s \<and> \<not> bad (as_bytes s) \<and> \<not> badc (as_bytes s)"

lemma badc_mono: "set xs \<subseteq> set ys \<Longrightarrow> \<not> badc ys \<Longrightarrow> \<not> badc xs"
  using badc_iff by blast

lemma badc_append: "badc (xs @ ys) \<longleftrightarrow> badc xs \<or> badc ys"
  using badc_iff [of xs] badc_iff [of ys] badc_iff [of "xs @ ys"] by auto

lemma valid_part:
  assumes "valid_string s" "bs_inv s'" "set (as_bytes s') \<subseteq> set (as_bytes s)" "\<not> bad (as_bytes s')"
  shows "valid_string s'"
  using assms badc_mono unfolding valid_string_def by blast

lemma valid_same: "valid_string s \<Longrightarrow> bs_inv s' \<Longrightarrow> as_bytes s' = as_bytes s \<Longrightarrow> valid_string s'"
  by (simp add: valid_string_def)

text \<open>A call that returns keeps the contract, and one that fails keeps the content.\<close>

definition keeps :: "FixedSizeByteString \<Rightarrow> 'a sem_result \<Rightarrow> bool" where
  "keeps s m \<longleftrightarrow> (\<forall>r s'. m = Ret (r, s') \<longrightarrow>
     valid_string s' \<and> (\<forall>e. r = Err e \<longrightarrow> as_bytes s' = as_bytes s))"

lemma insert_bytes_keeps_chars:
  assumes inv: "bs_inv s" "\<not> badc (as_bytes s)"
    and ret: "SemanticString_insert_bytes bad badc idx bytes s = Ret (r, s')"
  shows "bs_inv s' \<and> CAPACITY s' = CAPACITY s
    \<and> (r = Ok () \<longrightarrow> \<not> bad (as_bytes s') \<and> \<not> badc (as_bytes s')
         \<and> as_bytes s' = take idx (as_bytes s) @ bytes @ drop idx (as_bytes s))
    \<and> (\<forall>e. r = Err e \<longrightarrow> as_bytes s' = as_bytes s)"
proof (cases "badc bytes")
  case True
  then show ?thesis using assms by (auto simp: SemanticString_insert_bytes_def)
next
  case False
  obtain r1 s1 where s1: "FixedSizeByteString_insert_bytes idx bytes s = Ret (r1, s1)"
    using ret False by (auto simp: SemanticString_insert_bytes_def outcome_bind_eq_Ret)
  show ?thesis
  proof (cases r1)
    case (Err e)
    then show ?thesis
      using ret False s1 insert_bytes_Ret [OF inv(1) s1] inv by (auto simp: SemanticString_insert_bytes_def)
  next
    case (Ok u)
    note b1 = insert_bytes_Ret [OF inv(1) s1]
    have "set (take idx (as_bytes s)) \<subseteq> set (as_bytes s)" "set (drop idx (as_bytes s)) \<subseteq> set (as_bytes s)"
      by (simp_all add: set_take_subset set_drop_subset)
    then have chars: "\<not> badc (as_bytes s1)"
      using b1 Ok False badc_mono [OF _ inv(2)] by (auto simp: badc_append)
    show ?thesis
    proof (cases "bad (as_bytes s1)")
      case True
      then have s2: "FixedSizeByteString_remove_range idx (length bytes) s1 = Ret s'" "r = Err InvalidName"
        using ret \<open>\<not> badc bytes\<close> s1 Ok by (auto simp: SemanticString_insert_bytes_def outcome_bind_eq_Ret)
      have "bs_inv s1" "idx \<le> length (as_bytes s)" using b1 Ok length_as_bytes [OF inv(1)] by auto
      then show ?thesis
        using remove_range_Ret [OF _ s2(1)] b1 Ok s2(2) by (auto simp: min_def)
    next
      case nb: False
      then show ?thesis
        using ret \<open>\<not> badc bytes\<close> s1 Ok b1 chars by (auto simp: SemanticString_insert_bytes_def)
    qed
  qed
qed

lemma insert_bytes_keeps:
  assumes "valid_string s"
  shows "keeps s (SemanticString_insert_bytes bad badc idx bytes s)"
  unfolding keeps_def
proof (intro allI impI)
  fix r s'
  assume ret: "SemanticString_insert_bytes bad badc idx bytes s = Ret (r, s')"
  have "bs_inv s" "\<not> badc (as_bytes s)" using assms by (simp_all add: valid_string_def)
  note k = insert_bytes_keeps_chars [OF this ret]
  then show "valid_string s' \<and> (\<forall>e. r = Err e \<longrightarrow> as_bytes s' = as_bytes s)"
    using assms by (cases r) (auto simp: valid_string_def)
qed

lemma keepsI:
  assumes "\<And>r s'. m = Ret (r, s') \<Longrightarrow> valid_string s' \<and> (\<forall>e. r = Err e \<longrightarrow> as_bytes s' = as_bytes s)"
  shows "keeps s m"
  using assms by (auto simp: keeps_def)

lemma keeps_discard:
  assumes "keeps s m"
  shows "keeps s (discard m)"
proof (rule keepsI)
  fix r s'
  assume "discard m = Ret (r, s')"
  then obtain x where "m = Ret (x, s')" "r = (case x of Ok _ \<Rightarrow> Ok () | Err e \<Rightarrow> Err e)"
    by (auto simp: discard_def outcome_bind_eq_Ret)
  then show "valid_string s' \<and> (\<forall>e. r = Err e \<longrightarrow> as_bytes s' = as_bytes s)"
    using assms by (cases x) (auto simp: keeps_def)
qed

lemma remove_keeps:
  assumes v: "valid_string s"
  shows "keeps s (SemanticString_remove bad idx s)"
proof (rule keepsI)
  fix r s'
  assume ret: "SemanticString_remove bad idx s = Ret (r, s')"
  have inv: "bs_inv s" using v by (simp add: valid_string_def)
  obtain b s1 where s1: "FixedSizeByteString_remove idx s = Ret (b, s1)"
    using ret by (auto simp: SemanticString_remove_def outcome_bind_eq_Ret)
  note r1 = remove_Ret [OF inv s1]
  then have idx: "idx < length (as_bytes s)" using length_as_bytes [OF inv] by simp
  show "valid_string s' \<and> (\<forall>e. r = Err e \<longrightarrow> as_bytes s' = as_bytes s)"
  proof (cases "bad (as_bytes s1)")
    case True
    then obtain r2 s2 where "FixedSizeByteString_insert_bytes idx [b] s1 = Ret (r2, s2)"
        "(case r2 of Ok _ \<Rightarrow> Ret (Err InvalidName, s2) | Err _ \<Rightarrow> Panic) = Ret (r, s')"
      using ret s1 by (auto simp: SemanticString_remove_def FixedSizeByteString_insert_def outcome_bind_eq_Ret)
    then have s2: "FixedSizeByteString_insert_bytes idx [b] s1 = Ret (r2, s')" "r2 = Ok ()"
      by (auto split: result.splits)
    have "bs_inv s1" using r1 by simp
    then have "bs_inv s'" "as_bytes s' = take idx (as_bytes s1) @ [b] @ drop idx (as_bytes s1)"
      using insert_bytes_Ret [OF _ s2(1)] s2(2) by auto
    moreover have "as_bytes s = take idx (as_bytes s) @ as_bytes s ! idx # drop (Suc idx) (as_bytes s)"
      by (rule id_take_nth_drop [OF idx])
    ultimately have "bs_inv s'" "as_bytes s' = as_bytes s"
      using r1 idx by simp_all
    then show ?thesis using valid_same [OF v] by simp
  next
    case False
    then have "s' = s1" "r = Ok b"
      using ret s1 by (auto simp: SemanticString_remove_def)
    moreover have "set (as_bytes s1) \<subseteq> set (as_bytes s)"
      using r1 by (auto dest: in_set_takeD in_set_dropD)
    ultimately show ?thesis using valid_part [OF v] r1 False by simp
  qed
qed

lemma pop_keeps:
  assumes v: "valid_string s"
  shows "keeps s (SemanticString_pop bad s)"
proof (rule keepsI)
  fix r s'
  assume ret: "SemanticString_pop bad s = Ret (r, s')"
  show "valid_string s' \<and> (\<forall>e. r = Err e \<longrightarrow> as_bytes s' = as_bytes s)"
  proof (cases "bs_len s = 0")
    case True
    then show ?thesis using ret v by (auto simp: SemanticString_pop_def)
  next
    case False
    then obtain r1 s1 where m: "SemanticString_remove bad (bs_len s - 1) s = Ret (r1, s1)"
        "(case r1 of Ok v \<Rightarrow> Ret (Ok (Some v), s1) | Err e \<Rightarrow> Ret (Err e, s1)) = Ret (r, s')"
      using ret by (auto simp: SemanticString_pop_def outcome_bind_eq_Ret)
    then show ?thesis
      using remove_keeps [OF v, of "bs_len s - 1"] by (cases r1) (auto simp: keeps_def)
  qed
qed

lemma checked_keeps:
  assumes v: "valid_string s" and part: "\<And>temp. m = Ret temp \<Longrightarrow> bs_inv temp \<and> set (as_bytes temp) \<subseteq> set (as_bytes s)"
  shows "keeps s (outcome_bind m (\<lambda>temp. if bad (as_bytes temp) then Ret (Err InvalidName, s)
     else outcome_bind m (\<lambda>s1. Ret (Ok u, s1))))"
proof (rule keepsI)
  fix r s'
  assume "outcome_bind m (\<lambda>temp. if bad (as_bytes temp) then Ret (Err InvalidName, s)
     else outcome_bind m (\<lambda>s1. Ret (Ok u, s1))) = Ret (r, s')"
  then obtain temp where temp: "m = Ret temp"
    and ret: "(if bad (as_bytes temp) then Ret (Err InvalidName, s) else Ret (Ok u, temp)) = Ret (r, s')"
    by (cases m) (auto cong: if_cong)
  show "valid_string s' \<and> (\<forall>e. r = Err e \<longrightarrow> as_bytes s' = as_bytes s)"
    using ret part [OF temp] valid_part [OF v] v by (auto split: if_splits)
qed

lemma remove_range_keeps:
  assumes v: "valid_string s"
  shows "keeps s (SemanticString_remove_range bad idx n s)"
  unfolding SemanticString_remove_range_def
proof (rule checked_keeps [OF v])
  fix temp
  assume "FixedSizeByteString_remove_range idx n s = Ret temp"
  then show "bs_inv temp \<and> set (as_bytes temp) \<subseteq> set (as_bytes s)"
    using remove_range_Ret v by (fastforce simp: valid_string_def dest: in_set_takeD in_set_dropD)
qed

lemma retain_keeps:
  assumes v: "valid_string s" and p: "answers f p"
  shows "keeps s (SemanticString_retain bad f st s)"
proof (rule keepsI)
  fix r s'
  assume "SemanticString_retain bad f st s = Ret (r, s')"
  then obtain st1 temp where temp: "retain_loop f (bs_len s) st s = Ret (st1, temp)"
    and ret: "bad (as_bytes temp) \<and> s' = s \<or>
      \<not> bad (as_bytes temp) \<and> r = Ok () \<and> (\<exists>st2. retain_loop f (bs_len s) st1 s = Ret (st2, s'))"
    by (auto simp: SemanticString_retain_def FixedSizeByteString_retain_def FixedSizeByteString_retain_impl_def
        outcome_bind_eq_Ret split: if_splits)
  have inv: "bs_inv s" using v by (simp add: valid_string_def)
  show "valid_string s' \<and> (\<forall>e. r = Err e \<longrightarrow> as_bytes s' = as_bytes s)"
    using ret
  proof
    assume "\<not> bad (as_bytes temp) \<and> r = Ok () \<and> (\<exists>st2. retain_loop f (bs_len s) st1 s = Ret (st2, s'))"
    then obtain st2 where s2: "\<not> bad (as_bytes temp)" "r = Ok ()" "retain_loop f (bs_len s) st1 s = Ret (st2, s')"
      by blast
    have "as_bytes s' = as_bytes temp"
      using retain_loop_Ret [OF inv order_refl temp, of p] retain_loop_Ret [OF inv order_refl s2(3), of p] p by simp
    then show ?thesis
      using valid_part [OF v] retain_loop_Ret [OF inv order_refl s2(3), of p] s2 by simp
  qed (use v in simp)
qed

text \<open>Whatever the closure does, the string keeps its representation and its characters.\<close>

lemma retain_keeps_chars:
  assumes v: "valid_string s" and ret: "SemanticString_retain bad f st s = Ret (r, s')"
  shows "bs_inv s' \<and> \<not> badc (as_bytes s')"
proof -
  have inv: "bs_inv s" using v by (simp add: valid_string_def)
  have "s' = s \<or> (\<exists>st1 st2. retain_loop f (bs_len s) st1 s = Ret (st2, s'))"
    using ret by (auto simp: SemanticString_retain_def FixedSizeByteString_retain_def FixedSizeByteString_retain_impl_def
        outcome_bind_eq_Ret split: if_splits)
  then have "bs_inv s' \<and> set (as_bytes s') \<subseteq> set (as_bytes s)"
  proof
    assume "\<exists>st1 st2. retain_loop f (bs_len s) st1 s = Ret (st2, s')"
    then obtain st1 st2 where "retain_loop f (bs_len s) st1 s = Ret (st2, s')" by blast
    from retain_loop_Ret [OF inv order_refl this] show ?thesis by blast
  qed (use inv in simp)
  then show ?thesis using v badc_mono unfolding valid_string_def by blast
qed

lemma strip_keeps:
  assumes v: "valid_string s"
    and part: "\<And>found temp. m = Ret (found, temp) \<Longrightarrow> bs_inv temp \<and> set (as_bytes temp) \<subseteq> set (as_bytes s)"
  shows "keeps s (outcome_bind m (\<lambda>(found, temp).
       if \<not> found then Ret (Ok False, s)
       else if bad (as_bytes temp) then outcome_bind msg (\<lambda>_. Ret (Err InvalidName, s))
       else outcome_bind m (\<lambda>(_, s1). Ret (Ok True, s1))))"
proof (rule keepsI)
  fix r s'
  assume "outcome_bind m (\<lambda>(found, temp).
       if \<not> found then Ret (Ok False, s)
       else if bad (as_bytes temp) then outcome_bind msg (\<lambda>_. Ret (Err InvalidName, s))
       else outcome_bind m (\<lambda>(_, s1). Ret (Ok True, s1))) = Ret (r, s')"
  then obtain found temp where temp: "m = Ret (found, temp)"
    and ret: "s' = s \<or> s' = temp \<and> \<not> bad (as_bytes temp) \<and> r = Ok True"
    by (auto simp: outcome_bind_eq_Ret split: if_splits)
  show "valid_string s' \<and> (\<forall>e. r = Err e \<longrightarrow> as_bytes s' = as_bytes s)"
    using ret part [OF temp] valid_part [OF v] v by auto
qed

lemma strip_prefix_keeps:
  assumes v: "valid_string s"
  shows "keeps s (SemanticString_strip_prefix bad bytes s)"
  unfolding SemanticString_strip_prefix_def
proof (rule strip_keeps [OF v])
  fix found temp
  assume m: "FixedSizeByteString_strip_prefix bytes s = Ret (found, temp)"
  have "bs_inv s" using v by (simp add: valid_string_def)
  then show "bs_inv temp \<and> set (as_bytes temp) \<subseteq> set (as_bytes s)"
    using strip_prefix_Ret [OF _ m] by (auto split: if_splits)
qed

lemma strip_suffix_keeps:
  assumes v: "valid_string s"
  shows "keeps s (SemanticString_strip_suffix bad bytes s)"
  unfolding SemanticString_strip_suffix_def
proof (rule strip_keeps [OF v])
  fix found temp
  assume m: "FixedSizeByteString_strip_suffix bytes s = Ret (found, temp)"
  have "bs_inv s" using v by (simp add: valid_string_def)
  then show "bs_inv temp \<and> set (as_bytes temp) \<subseteq> set (as_bytes s)"
    using strip_suffix_Ret [OF _ m] by (auto split: if_splits)
qed

lemma truncate_keeps:
  assumes v: "valid_string s"
  shows "keeps s (SemanticString_truncate bad n s)"
proof (rule keepsI)
  fix r s'
  assume "SemanticString_truncate bad n s = Ret (r, s')"
  moreover have "bs_inv (FixedSizeByteString_truncate n s)"
    "set (as_bytes (FixedSizeByteString_truncate n s)) \<subseteq> set (as_bytes s)"
    using v truncate_bytes [of s n] by (auto simp: valid_string_def dest: in_set_takeD)
  ultimately show "valid_string s' \<and> (\<forall>e. r = Err e \<longrightarrow> as_bytes s' = as_bytes s)"
    using valid_part [OF v] v by (auto simp: SemanticString_truncate_def Let_def split: if_splits)
qed

lemma call_keeps:
  assumes "valid_string s" "steady_closures [c]"
  shows "keeps s (SemanticString_call bad badc c s)"
  using assms
  by (cases c)
     (auto simp: SemanticString_insert_def SemanticString_push_bytes_def SemanticString_push_def
        intro: insert_bytes_keeps keeps_discard remove_keeps pop_keeps remove_range_keeps retain_keeps
        strip_prefix_keeps strip_suffix_keeps truncate_keeps)

lemma steady_closures_Cons: "steady_closures (c # cs) \<longleftrightarrow> steady_closures [c] \<and> steady_closures cs"
  by (cases c) simp_all

lemma run_valid:
  "valid_string s \<Longrightarrow> steady_closures cs \<Longrightarrow> SemanticString_run bad badc cs s = Ret s' \<Longrightarrow> valid_string s'"
proof (induction cs arbitrary: s)
  case Nil
  then show ?case by simp
next
  case (Cons c cs)
  then obtain r s1 where "SemanticString_call bad badc c s = Ret (r, s1)" "SemanticString_run bad badc cs s1 = Ret s'"
    by (auto simp: outcome_bind_eq_Ret)
  then show ?case
    using call_keeps [OF Cons.prems(1), of c] Cons.IH Cons.prems(2) steady_closures_Cons [of c cs] by (auto simp: keeps_def)
qed

lemma new_valid:
  assumes "SemanticString_new bad badc junk bytes = Ret (Ok s)"
  shows "valid_string s \<and> as_bytes s = bytes \<and> CAPACITY s = length junk"
proof -
  obtain s0 r s1 where s0: "FixedSizeByteString_new junk = Ret s0"
    and s1: "SemanticString_insert_bytes bad badc (bs_len s0) bytes s0 = Ret (r, s1)"
      "(case r of Ok _ \<Rightarrow> Ret (Ok s1) | Err e \<Rightarrow> Ret (Err e)) = Ret (Ok s)"
    using assms
    by (auto simp: SemanticString_new_def SemanticString_push_bytes_def outcome_bind_eq_Ret)
  then have push: "SemanticString_insert_bytes bad badc (bs_len s0) bytes s0 = Ret (r, s)" and r: "r = Ok ()"
    by (cases r; simp)+
  note n = FixedSizeByteString_new_inv [OF s0]
  have "\<not> badc (as_bytes s0)" using n(2) badc_iff [of "[]"] by simp
  then show ?thesis
    using insert_bytes_keeps_chars [OF n(1) _ push] n r by (auto simp: valid_string_def)
qed

text \<open>
  The outcome of \<open>new\<close> for every input. A content that fills the capacity and is refused only
  for its content makes the roll-back of \<open>insert_bytes\<close> panic.
\<close>

lemma new_outcome:
  assumes "0 < length junk"
  shows "if badc bytes then SemanticString_new bad badc junk bytes = Ret (Err InvalidCharacter)
    else if length junk < length bytes then SemanticString_new bad badc junk bytes = Ret (Err ExceedsMaximumLength)
    else if bad bytes \<and> length bytes = length junk then SemanticString_new bad badc junk bytes = Panic
    else if bad bytes then SemanticString_new bad badc junk bytes = Ret (Err InvalidName)
    else \<exists>s. SemanticString_new bad badc junk bytes = Ret (Ok s)"
proof -
  obtain s0 where s0: "FixedSizeByteString_new junk = Ret s0"
    using assms by (auto simp: FixedSizeByteString_new_def)
  note n = FixedSizeByteString_new_inv [OF s0]
  note new = SemanticString_new_def SemanticString_push_bytes_def SemanticString_insert_bytes_def
  consider "badc bytes" | "\<not> badc bytes" "length junk < length bytes"
    | "\<not> badc bytes" "length bytes \<le> length junk" by linarith
  then show ?thesis
  proof cases
    case 1
    then show ?thesis by (simp add: new s0)
  next
    case 2
    then show ?thesis using n by (simp add: new s0 FixedSizeByteString_insert_bytes_def)
  next
    case 3
    have "bs_len s0 + length bytes \<le> CAPACITY s0" "bs_len s0 < CAPACITY s0" using 3 n assms by simp_all
    then obtain s1 where s1: "FixedSizeByteString_insert_bytes (bs_len s0) bytes s0 = Ret (Ok (), s1)"
        "bs_inv s1" "CAPACITY s1 = CAPACITY s0"
        "as_bytes s1 = take (bs_len s0) (as_bytes s0) @ bytes @ drop (bs_len s0) (as_bytes s0)"
      using insert_bytes_ok [OF n(1) order_refl] by blast
    then have b: "as_bytes s1 = bytes" "bs_len s1 = length bytes" using n length_as_bytes [of s1] by simp_all
    have "FixedSizeByteString_remove_range 0 (length bytes) s1
        = (if length bytes = length junk then Panic else FixedSizeByteString_remove_range_impl 0 (length bytes) s1)"
      using 3 b s1(3) n by (simp add: FixedSizeByteString_remove_range_def remove_range_impl_full)
    moreover have "length bytes \<noteq> length junk \<Longrightarrow> \<exists>s2. FixedSizeByteString_remove_range_impl 0 (length bytes) s1 = Ret s2"
      using remove_range_impl_ok [OF s1(2), of 0 "length bytes"] 3 b s1(3) n by fastforce
    ultimately show ?thesis
      using 3 s1(1) b n(4) by (auto simp: new s0)
  qed
qed

end

end
