(* ===== verification/SystemTypes.thy ===== *)
theory SystemTypes
  imports SemanticString "HOL-Library.Word"
begin

text \<open>
  The system types of \<open>iceoryx2_bb/system_types/src\<close>: file names, paths, file paths, user and
  group names as semantic strings, IPv4 addresses and ports. The lengths and the separator are
  those of the non-Windows settings in \<open>iceoryx2_pal/settings/src\<close>.
\<close>

unbundle bit_operations_syntax

section \<open>Settings\<close>

definition PATH_SEPARATOR :: char where
  "PATH_SEPARATOR = CHR ''/''"

definition FILENAME_LENGTH :: nat where
  "FILENAME_LENGTH = 255"

definition PATH_LENGTH :: nat where
  "PATH_LENGTH = 4096"

section \<open>Content contracts\<close>

definition FileName_invalid_content :: content_check where
  "FileName_invalid_content v \<longleftrightarrow> v = [] \<or> v = ''.'' \<or> v = ''..''"

fun FileName_invalid_characters :: content_check where
  "FileName_invalid_characters [] = False"
| "FileName_invalid_characters (c # cs) =
     (if c = NUL \<or> c = CHR ''/'' then True
      else if 1 \<le> (of_char c :: nat) \<and> (of_char c :: nat) \<le> 31 then True
      else if c \<in> {CHR '':'', CHR 0x5C, CHR ''<'', CHR ''>'', CHR 0x22, CHR ''|'', CHR ''?'', CHR ''*''} then True
      else FileName_invalid_characters cs)"

definition Path_invalid_content :: content_check where
  "Path_invalid_content v \<longleftrightarrow> False"

fun Path_invalid_characters :: content_check where
  "Path_invalid_characters [] = False"
| "Path_invalid_characters (c # cs) =
     (if c = NUL then True
      else if 1 \<le> (of_char c :: nat) \<and> (of_char c :: nat) \<le> 31 then True
      else if c \<in> {CHR ''<'', CHR ''>'', CHR 0x22, CHR ''|'', CHR ''?'', CHR ''*''} then True
      else Path_invalid_characters cs)"

definition FilePath_invalid_content :: content_check where
  "FilePath_invalid_content v \<longleftrightarrow>
     v = [] \<or> v = ''.'' \<or> v = ''..''
     \<or> v ! (length v - 1) = PATH_SEPARATOR
     \<or> 2 \<le> length v \<and> drop (length v - 2) v = [PATH_SEPARATOR, CHR ''.'']
     \<or> 3 \<le> length v \<and> drop (length v - 3) v = [PATH_SEPARATOR, CHR ''.'', CHR ''.'']"

fun FilePath_invalid_characters :: content_check where
  "FilePath_invalid_characters [] = False"
| "FilePath_invalid_characters (c # cs) =
     (if c = NUL then True
      else if 1 \<le> (of_char c :: nat) \<and> (of_char c :: nat) \<le> 31 then True
      else if c \<in> {CHR ''<'', CHR ''>'', CHR 0x22, CHR ''|'', CHR ''?'', CHR ''*''} then True
      else FilePath_invalid_characters cs)"

definition in_range :: "char \<Rightarrow> char \<Rightarrow> char \<Rightarrow> bool" where
  "in_range a b c \<longleftrightarrow> (of_char a :: nat) \<le> of_char c \<and> (of_char c :: nat) \<le> of_char b"

definition UserName_invalid_content :: content_check where
  "UserName_invalid_content v \<longleftrightarrow> v = [] \<or> v ! 0 = CHR ''-'' \<or> in_range (CHR ''0'') (CHR ''9'') (v ! 0)"

fun UserName_invalid_characters :: content_check where
  "UserName_invalid_characters [] = False"
| "UserName_invalid_characters (c # cs) =
     (if in_range (CHR ''a'') (CHR ''z'') c \<or> in_range (CHR ''0'') (CHR ''9'') c \<or> c = CHR ''-''
      then UserName_invalid_characters cs else True)"

definition GroupName_invalid_content :: content_check where
  "GroupName_invalid_content v \<longleftrightarrow> v = [] \<or> v ! 0 = CHR ''-'' \<or> in_range (CHR ''0'') (CHR ''9'') (v ! 0)"

fun GroupName_invalid_characters :: content_check where
  "GroupName_invalid_characters [] = False"
| "GroupName_invalid_characters (c # cs) =
     (if in_range (CHR ''a'') (CHR ''z'') c \<or> in_range (CHR ''0'') (CHR ''9'') c \<or> c = CHR ''-''
      then GroupName_invalid_characters cs else True)"

definition FileName_new where
  "FileName_new = SemanticString_new FileName_invalid_content FileName_invalid_characters"

definition Path_new where
  "Path_new = SemanticString_new Path_invalid_content Path_invalid_characters"

definition FilePath_new where
  "FilePath_new = SemanticString_new FilePath_invalid_content FilePath_invalid_characters"

text \<open>The contracts are about single characters, so all five are semantic strings.\<close>

interpretation file_name: semantic_string FileName_invalid_content FileName_invalid_characters
proof
  show "FileName_invalid_characters xs \<longleftrightarrow> (\<exists>c\<in>set xs. FileName_invalid_characters [c])" for xs
    by (induction xs) auto
qed

interpretation path: semantic_string Path_invalid_content Path_invalid_characters
proof
  show "Path_invalid_characters xs \<longleftrightarrow> (\<exists>c\<in>set xs. Path_invalid_characters [c])" for xs
    by (induction xs) auto
qed

interpretation file_path: semantic_string FilePath_invalid_content FilePath_invalid_characters
proof
  show "FilePath_invalid_characters xs \<longleftrightarrow> (\<exists>c\<in>set xs. FilePath_invalid_characters [c])" for xs
    by (induction xs) auto
qed

interpretation user_name: semantic_string UserName_invalid_content UserName_invalid_characters
proof
  show "UserName_invalid_characters xs \<longleftrightarrow> (\<exists>c\<in>set xs. UserName_invalid_characters [c])" for xs
    by (induction xs) auto
qed

interpretation group_name: semantic_string GroupName_invalid_content GroupName_invalid_characters
proof
  show "GroupName_invalid_characters xs \<longleftrightarrow> (\<exists>c\<in>set xs. GroupName_invalid_characters [c])" for xs
    by (induction xs) auto
qed

section \<open>Paths\<close>

definition Path_add_path_entry :: "FixedSizeByteString \<Rightarrow> FixedSizeByteString \<Rightarrow> unit sem_result" where
  "Path_add_path_entry entry p =
     outcome_bind
       (if bs_len p \<noteq> 0 \<and> as_bytes p ! (bs_len p - 1) \<noteq> PATH_SEPARATOR
        then SemanticString_push Path_invalid_content Path_invalid_characters PATH_SEPARATOR p
        else Ret (Ok (), p))
       (\<lambda>(r, p1). case r of Err e \<Rightarrow> Ret (Err e, p1)
        | Ok _ \<Rightarrow> SemanticString_push_bytes Path_invalid_content Path_invalid_characters (as_bytes entry) p1)"

definition Path_is_absolute :: "FixedSizeByteString \<Rightarrow> bool" where
  "Path_is_absolute p \<longleftrightarrow> (if as_bytes p = [] then False else as_bytes p ! 0 = PATH_SEPARATOR)"

text \<open>
  The loop of \<open>new_normalized\<close> over the positions of the value; \<open>acc\<close> is \<open>raw_path[0..n]\<close>,
  and a write behind the \<open>PATH_LENGTH\<close> bytes of \<open>raw_path\<close> panics.
\<close>

fun normalize_loop :: "char list \<Rightarrow> nat list \<Rightarrow> bool \<Rightarrow> char list \<Rightarrow> char list outcome" where
  "normalize_loop v [] prev acc = Ret acc"
| "normalize_loop v (i # is) prev acc =
     (if i + 1 = length v \<and> v ! i = PATH_SEPARATOR then Ret acc
      else if \<not> (prev \<and> v ! i = PATH_SEPARATOR)
      then if PATH_LENGTH \<le> length acc then Panic
           else normalize_loop v is (v ! i = PATH_SEPARATOR) (acc @ [v ! i])
      else normalize_loop v is (v ! i = PATH_SEPARATOR) acc)"

definition Path_new_normalized ::
  "char list \<Rightarrow> char list \<Rightarrow> (FixedSizeByteString, SemanticStringError) result outcome" where
  "Path_new_normalized junk v =
     outcome_bind (normalize_loop v [0..<length v] False []) (Path_new junk)"

text \<open>The comparison of paths, on the uninitialised memory of the two normalised paths.\<close>

definition Path_comparision :: "char list \<Rightarrow> char list \<Rightarrow> char list \<Rightarrow> bool outcome" where
  "Path_comparision junk lhs rhs =
     outcome_bind (Path_new_normalized junk lhs) (\<lambda>l.
       case l of Err _ \<Rightarrow> Ret False
       | Ok l \<Rightarrow> outcome_bind (Path_new_normalized junk rhs) (\<lambda>r.
           case r of Err _ \<Rightarrow> Ret False | Ok r \<Rightarrow> Ret (as_bytes l = as_bytes r)))"

fun entries_loop ::
  "char list \<Rightarrow> char list \<Rightarrow> nat list \<Rightarrow> nat \<Rightarrow> FixedSizeByteString list
     \<Rightarrow> (nat \<times> FixedSizeByteString list) outcome" where
  "entries_loop junk raw [] start entries = Ret (start, entries)"
| "entries_loop junk raw (i # is) start entries =
     (if raw ! i = PATH_SEPARATOR
      then if i - start = 0 then entries_loop junk raw is (i + 1) entries
           else outcome_bind (FixedSizeByteString_new_unchecked junk (take (i - start) (drop start raw)))
                  (\<lambda>e. entries_loop junk raw is (i + 1) (entries @ [e]))
      else entries_loop junk raw is start entries)"

definition Path_entries :: "char list \<Rightarrow> FixedSizeByteString \<Rightarrow> FixedSizeByteString list outcome" where
  "Path_entries junk p =
     (let raw = as_bytes p
      in outcome_bind (entries_loop junk raw [0..<length raw] 0 []) (\<lambda>(start, entries).
           if start < length raw
           then outcome_bind (FixedSizeByteString_new_unchecked junk (drop start raw))
                  (\<lambda>e. Ret (entries @ [e]))
           else Ret entries))"

section \<open>File paths\<close>

definition FilePath_from_path_and_file ::
  "char list \<Rightarrow> FixedSizeByteString \<Rightarrow> FixedSizeByteString
     \<Rightarrow> (FixedSizeByteString, SemanticStringError) result outcome" where
  "FilePath_from_path_and_file junk p file =
     outcome_bind (FixedSizeByteString_new_unchecked junk (as_bytes p)) (\<lambda>new_self.
     outcome_bind
       (if bs_len p \<noteq> 0 \<and> as_bytes p ! (bs_len p - 1) \<noteq> PATH_SEPARATOR
        then FixedSizeByteString_push PATH_SEPARATOR new_self else Ret (Ok (), new_self))
       (\<lambda>(r, s1). case r of Err _ \<Rightarrow> Ret (Err ExceedsMaximumLength)
        | Ok _ \<Rightarrow> outcome_bind (FixedSizeByteString_push_bytes (as_bytes file) s1)
            (\<lambda>(r, s2). case r of Err _ \<Rightarrow> Ret (Err ExceedsMaximumLength) | Ok _ \<Rightarrow> Ret (Ok s2))))"

definition FilePath_rfind :: "char \<Rightarrow> FixedSizeByteString \<Rightarrow> nat option" where
  "FilePath_rfind byte s =
     List.find (\<lambda>pos. as_bytes s ! pos = byte) (map (\<lambda>i. bs_len s - 1 - i) [0..<bs_len s])"

definition FilePath_file_name :: "FixedSizeByteString \<Rightarrow> char list" where
  "FilePath_file_name s =
     (case FilePath_rfind PATH_SEPARATOR s of
        None \<Rightarrow> as_bytes s
      | Some pos \<Rightarrow> drop (pos + 1) (as_bytes s))"

definition FilePath_path :: "FixedSizeByteString \<Rightarrow> char list" where
  "FilePath_path s =
     (case FilePath_rfind PATH_SEPARATOR s of
        None \<Rightarrow> []
      | Some pos \<Rightarrow> if pos = 0 then take 1 (as_bytes s) else take pos (as_bytes s))"

section \<open>Components of a path\<close>

text \<open>The reference: the non-empty stretches between separators.\<close>

function path_components :: "char list \<Rightarrow> char list list" where
  "path_components [] = []"
| "path_components (c # cs) =
     (if c = PATH_SEPARATOR then path_components cs
      else (c # takeWhile (\<lambda>x. x \<noteq> PATH_SEPARATOR) cs)
             # path_components (dropWhile (\<lambda>x. x \<noteq> PATH_SEPARATOR) cs))"
  by pat_completeness auto
termination
  by (relation "measure length") (auto simp: le_imp_less_Suc length_dropWhile_le)

lemma path_components_entry:
  assumes "PATH_SEPARATOR \<notin> set xs" "xs \<noteq> []"
  shows "path_components (xs @ PATH_SEPARATOR # ys) = xs # path_components ys"
proof (cases xs)
  case Nil
  then show ?thesis using assms by simp
next
  case (Cons x xs')
  then have "takeWhile (\<lambda>x. x \<noteq> PATH_SEPARATOR) (xs' @ PATH_SEPARATOR # ys) = xs'"
    "dropWhile (\<lambda>x. x \<noteq> PATH_SEPARATOR) (xs' @ PATH_SEPARATOR # ys) = PATH_SEPARATOR # ys"
    using assms by (auto simp: takeWhile_append dropWhile_append)
  moreover have "x \<noteq> PATH_SEPARATOR" using assms Cons by auto
  ultimately show ?thesis using Cons by simp
qed

lemma path_components_last:
  assumes "PATH_SEPARATOR \<notin> set xs" "xs \<noteq> []"
  shows "path_components xs = [xs]"
proof (cases xs)
  case Nil
  then show ?thesis using assms by simp
next
  case (Cons x xs')
  then have "takeWhile (\<lambda>x. x \<noteq> PATH_SEPARATOR) xs' = xs'" "dropWhile (\<lambda>x. x \<noteq> PATH_SEPARATOR) xs' = []"
    using assms by auto
  moreover have "x \<noteq> PATH_SEPARATOR" using assms Cons by auto
  ultimately show ?thesis using Cons by (simp only: path_components.simps if_False)
qed

lemma path_components_snoc_sep:
  "path_components (xs @ PATH_SEPARATOR # ys) = path_components xs @ path_components ys"
proof (induction xs rule: path_components.induct)
  case 1
  then show ?case by simp
next
  case (2 c cs)
  show ?case
  proof (cases "c = PATH_SEPARATOR")
    case True
    then show ?thesis using 2 by simp
  next
    case False
    show ?thesis
    proof (cases "PATH_SEPARATOR \<in> set cs")
      case True
      have "takeWhile (\<lambda>x. x \<noteq> PATH_SEPARATOR) (cs @ PATH_SEPARATOR # ys) = takeWhile (\<lambda>x. x \<noteq> PATH_SEPARATOR) cs"
        "dropWhile (\<lambda>x. x \<noteq> PATH_SEPARATOR) (cs @ PATH_SEPARATOR # ys)
           = dropWhile (\<lambda>x. x \<noteq> PATH_SEPARATOR) cs @ PATH_SEPARATOR # ys"
        using True by (induction cs) auto
      then show ?thesis using False 2(2) by simp
    next
      case no: False
      then have "PATH_SEPARATOR \<notin> set (c # cs)" using False by simp
      then show ?thesis
        using path_components_entry [of "c # cs" ys] path_components_last [of "c # cs"] by simp
    qed
  qed
qed

lemma path_components_no_sep:
  "e \<in> set (path_components xs) \<Longrightarrow> e \<noteq> [] \<and> PATH_SEPARATOR \<notin> set e"
  by (induction xs rule: path_components.induct) (auto split: if_splits dest: set_takeWhileD)

text \<open>A call for each element in turn, stopping at the first panic.\<close>

primrec outcome_map :: "('a \<Rightarrow> 'b outcome) \<Rightarrow> 'a list \<Rightarrow> 'b list outcome" where
  "outcome_map f [] = Ret []"
| "outcome_map f (x # xs) = outcome_bind (f x) (\<lambda>y. outcome_bind (outcome_map f xs) (\<lambda>ys. Ret (y # ys)))"

lemma outcome_map_Ret:
  "(\<And>x. x \<in> set xs \<Longrightarrow> \<exists>y. f x = Ret y \<and> g y = x) \<Longrightarrow> \<exists>ys. outcome_map f xs = Ret ys \<and> map g ys = xs"
proof (induction xs)
  case Nil
  then show ?case by simp
next
  case (Cons x xs)
  then obtain y ys where "f x = Ret y" "g y = x" "outcome_map f xs = Ret ys" "map g ys = xs"
    by (metis list.set_intros)
  then show ?case by simp
qed

lemma outcome_map_Panic: "x \<in> set xs \<Longrightarrow> f x = Panic \<Longrightarrow> outcome_map f xs = Panic"
proof (induction xs)
  case Nil
  then show ?case by simp
next
  case (Cons y xs)
  then show ?case by (cases "f y") auto
qed

definition entries_rest ::
  "char list \<Rightarrow> char list \<Rightarrow> nat \<times> FixedSizeByteString list \<Rightarrow> FixedSizeByteString list outcome" where
  "entries_rest junk raw = (\<lambda>(start, entries).
     if start < length raw
     then outcome_bind (FixedSizeByteString_new_unchecked junk (drop start raw)) (\<lambda>e. Ret (entries @ [e]))
     else Ret entries)"

lemma entries_loop_components:
  assumes "start \<le> i" "i \<le> length raw" "PATH_SEPARATOR \<notin> set (take (i - start) (drop start raw))"
  shows "outcome_bind (entries_loop junk raw [i..<length raw] start entries) (entries_rest junk raw)
    = outcome_bind (outcome_map (FixedSizeByteString_new_unchecked junk) (path_components (drop start raw)))
        (\<lambda>es. Ret (entries @ es))"
  using assms
proof (induction "length raw - i" arbitrary: i start entries)
  case 0
  then have i: "i = length raw" by simp
  show ?case
  proof (cases "start < length raw")
    case True
    then have "path_components (drop start raw) = [drop start raw]"
      using 0 i by (intro path_components_last) simp_all
    then show ?thesis
      using i True by (cases "FixedSizeByteString_new_unchecked junk (drop start raw)") (simp_all add: entries_rest_def)
  next
    case False
    then show ?thesis using i 0 by (simp add: entries_rest_def)
  qed
next
  case (Suc n)
  then have i: "i < length raw" and n: "n = length raw - Suc i" by linarith+
  have upt: "[i..<length raw] = i # [Suc i..<length raw]" using i by (simp add: upt_conv_Cons)
  note IH = Suc.hyps(1) [OF n]
  show ?case
  proof (cases "raw ! i = PATH_SEPARATOR")
    case False
    have "take (Suc i - start) (drop start raw) = take (i - start) (drop start raw) @ [raw ! i]"
      using i Suc.prems(1) by (simp add: Suc_diff_le take_Suc_conv_app_nth)
    then have no_sep: "PATH_SEPARATOR \<notin> set (take (Suc i - start) (drop start raw))"
      using Suc.prems(3) False by simp
    have "entries_loop junk raw [i..<length raw] start entries = entries_loop junk raw [Suc i..<length raw] start entries"
      using False by (simp add: upt)
    then show ?thesis
      using IH [OF _ _ no_sep, of entries] Suc.prems(1) i by simp
  next
    case sep: True
    define e0 where "e0 = take (i - start) (drop start raw)"
    have "drop start raw = e0 @ drop i raw"
      using Suc.prems(1) by (simp add: e0_def) (metis append_take_drop_id drop_drop le_add_diff_inverse2)
    then have split: "drop start raw = e0 @ PATH_SEPARATOR # drop (Suc i) raw"
      using Cons_nth_drop_Suc [OF i] sep by simp
    have len: "length e0 = i - start" using i Suc.prems(1) by (simp add: e0_def)
    show ?thesis
    proof (cases "i = start")
      case True
      then have "path_components (drop start raw) = path_components (drop (Suc i) raw)"
        using split len by simp
      moreover have "entries_loop junk raw [i..<length raw] start entries
          = entries_loop junk raw [Suc i..<length raw] (Suc i) entries"
        unfolding upt using sep True by simp
      ultimately show ?thesis
        using IH [of "Suc i" entries] i by simp
    next
      case False
      then have "e0 \<noteq> []" using len Suc.prems(1) by auto
      moreover have "PATH_SEPARATOR \<notin> set e0" using Suc.prems(3) by (simp add: e0_def)
      ultimately have comp: "path_components (drop start raw) = e0 # path_components (drop (Suc i) raw)"
        unfolding split by (intro path_components_entry)
      have step: "entries_loop junk raw [i..<length raw] start entries
          = outcome_bind (FixedSizeByteString_new_unchecked junk e0)
              (\<lambda>e. entries_loop junk raw [Suc i..<length raw] (Suc i) (entries @ [e]))"
        using sep False Suc.prems(1) by (simp add: upt e0_def)
      show ?thesis
      proof (cases "FixedSizeByteString_new_unchecked junk e0")
        case Panic
        then show ?thesis by (simp add: step comp)
      next
        case (Ret e)
        then show ?thesis
          using IH [of "Suc i" "entries @ [e]"] i
          by (cases "outcome_map (FixedSizeByteString_new_unchecked junk) (path_components (drop (Suc i) raw))")
             (simp_all add: step comp)
      qed
    qed
  qed
qed

lemma Path_entries_eq:
  "Path_entries junk p = outcome_map (FixedSizeByteString_new_unchecked junk) (path_components (as_bytes p))"
  using entries_loop_components [of 0 0 "as_bytes p" junk "[]"]
  by (cases "outcome_map (FixedSizeByteString_new_unchecked junk) (path_components (as_bytes p))")
     (simp_all add: Path_entries_def Let_def entries_rest_def)

text \<open>
  \<open>Path::entries\<close> returns the non-empty stretches between separators, in order, as long as
  each fits into a file name, and panics as soon as one of them does not.
\<close>
theorem path_entries_components:
  assumes "0 < length junk"
  shows "if \<forall>e \<in> set (path_components (as_bytes p)). length e \<le> length junk
    then \<exists>es. Path_entries junk p = Ret es \<and> map as_bytes es = path_components (as_bytes p)
    else Path_entries junk p = Panic"
proof (cases "\<forall>e \<in> set (path_components (as_bytes p)). length e \<le> length junk")
  case True
  then have "\<exists>s. FixedSizeByteString_new_unchecked junk e = Ret s \<and> as_bytes s = e"
    if "e \<in> set (path_components (as_bytes p))" for e
    using new_unchecked_bytes [OF assms, of e] that by blast
  then show ?thesis
    using True outcome_map_Ret [of "path_components (as_bytes p)" "FixedSizeByteString_new_unchecked junk" as_bytes]
    by (simp add: Path_entries_eq)
next
  case False
  then obtain e where "e \<in> set (path_components (as_bytes p))" "length junk < length e"
    by (auto simp: not_le)
  then show ?thesis
    using False outcome_map_Panic [of e "path_components (as_bytes p)" "FixedSizeByteString_new_unchecked junk"]
    by (simp add: Path_entries_eq FixedSizeByteString_new_unchecked_def)
qed

theorem path_entries_components_witness:
  "\<exists>es. Path_entries ''?????'' \<lparr>bs_len = 6, bs_data = ''/ab//c'', bs_terminator = NUL\<rparr> = Ret es
     \<and> map as_bytes es = [''ab'', ''c'']"
  using path_entries_components [of "''?????''" "\<lparr>bs_len = 6, bs_data = ''/ab//c'', bs_terminator = NUL\<rparr>"]
  by (auto simp: as_bytes_def PATH_SEPARATOR_def)

section \<open>Normalisation\<close>

definition single_separators :: "char list \<Rightarrow> bool" where
  "single_separators v \<longleftrightarrow> (\<forall>j. Suc j < length v \<longrightarrow> \<not> (v ! j = PATH_SEPARATOR \<and> v ! Suc j = PATH_SEPARATOR))"

definition ends_with_separator :: "char list \<Rightarrow> bool" where
  "ends_with_separator v \<longleftrightarrow> v \<noteq> [] \<and> last v = PATH_SEPARATOR"

lemma single_separators_snoc:
  assumes "single_separators acc" "\<not> (ends_with_separator acc \<and> c = PATH_SEPARATOR)"
  shows "single_separators (acc @ [c])"
  unfolding single_separators_def
proof (intro allI impI)
  fix j
  assume j: "Suc j < length (acc @ [c])"
  show "\<not> ((acc @ [c]) ! j = PATH_SEPARATOR \<and> (acc @ [c]) ! Suc j = PATH_SEPARATOR)"
  proof (cases "Suc j < length acc")
    case True
    then show ?thesis using assms(1) by (simp add: single_separators_def nth_append)
  next
    case False
    then have "Suc j = length acc" using j by simp
    then have "j = length acc - 1" "acc \<noteq> []" by auto
    then show ?thesis
      using assms(2) \<open>Suc j = length acc\<close> by (auto simp: ends_with_separator_def nth_append last_conv_nth)
  qed
qed

lemma path_components_double:
  assumes "ends_with_separator acc"
  shows "path_components (acc @ PATH_SEPARATOR # ys) = path_components (acc @ ys)"
proof -
  obtain a where "acc = a @ [PATH_SEPARATOR]"
    using assms unfolding ends_with_separator_def by (metis append_butlast_last_id)
  then show ?thesis by (simp add: path_components_snoc_sep)
qed

lemma normalize_loop_result:
  assumes "i \<le> length v" "length acc \<le> i" "length v \<le> PATH_LENGTH" "single_separators acc"
    "prev = ends_with_separator acc" "set acc \<subseteq> set v"
  shows "\<exists>r. normalize_loop v [i..<length v] prev acc = Ret r
    \<and> path_components r = path_components (acc @ drop i v)
    \<and> single_separators r \<and> set r \<subseteq> set v \<and> length r \<le> length v"
  using assms
proof (induction "length v - i" arbitrary: i prev acc)
  case 0
  then show ?case by simp
next
  case (Suc n)
  then have i: "i < length v" and n: "n = length v - Suc i" by linarith+
  have upt: "[i..<length v] = i # [Suc i..<length v]" using i by (simp add: upt_conv_Cons)
  have drop: "drop i v = v ! i # drop (Suc i) v" using i by (simp add: Cons_nth_drop_Suc)
  consider (stop) "i + 1 = length v" "v ! i = PATH_SEPARATOR"
    | (skip) "\<not> (i + 1 = length v \<and> v ! i = PATH_SEPARATOR)" "prev" "v ! i = PATH_SEPARATOR"
    | (copy) "\<not> (i + 1 = length v \<and> v ! i = PATH_SEPARATOR)" "\<not> (prev \<and> v ! i = PATH_SEPARATOR)"
    by blast
  then show ?case
  proof cases
    case stop
    then show ?thesis
      using Suc.prems i upt drop by (simp add: path_components_snoc_sep)
  next
    case skip
    then have "normalize_loop v [i..<length v] prev acc = normalize_loop v [Suc i..<length v] prev acc"
      by (simp add: upt)
    moreover have "path_components (acc @ drop i v) = path_components (acc @ drop (Suc i) v)"
      using skip Suc.prems(5) by (simp add: drop path_components_double)
    ultimately show ?thesis
      using Suc.hyps(1) [OF n, of acc prev] Suc.prems i by simp
  next
    case copy
    then have "normalize_loop v [i..<length v] prev acc
        = normalize_loop v [Suc i..<length v] (v ! i = PATH_SEPARATOR) (acc @ [v ! i])"
      using Suc.prems(2,3) i by (simp add: upt)
    moreover have "single_separators (acc @ [v ! i])"
      using copy(2) Suc.prems(4,5) by (intro single_separators_snoc) auto
    moreover have "(v ! i = PATH_SEPARATOR) = ends_with_separator (acc @ [v ! i])"
      by (simp add: ends_with_separator_def)
    ultimately show ?thesis
      using Suc.hyps(1) [OF n, of "acc @ [v ! i]" "v ! i = PATH_SEPARATOR"] Suc.prems i by (simp add: drop)
  qed
qed

text \<open>
  C38: \<open>Path::new_normalized\<close> keeps the components of a path: for a value of legal characters
  and at most \<open>PATH_LENGTH\<close> bytes it returns a path with the same components, no byte of its
  own, and no two separators in a row.
\<close>
theorem path_new_normalized_components:
  assumes "length v \<le> PATH_LENGTH" "length junk = PATH_LENGTH" "\<not> Path_invalid_characters v"
  shows "\<exists>p. Path_new_normalized junk v = Ret (Ok p)
    \<and> path_components (as_bytes p) = path_components v
    \<and> single_separators (as_bytes p) \<and> set (as_bytes p) \<subseteq> set v"
proof -
  obtain r where r: "normalize_loop v [0..<length v] False [] = Ret r"
    "path_components r = path_components v" "single_separators r" "set r \<subseteq> set v" "length r \<le> length v"
    using normalize_loop_result [of 0 v "[]" False] assms(1)
    by (auto simp: single_separators_def ends_with_separator_def)
  have "\<not> Path_invalid_characters r" "0 < length junk"
    using path.badc_mono [OF r(4) assms(3)] assms(2) by (simp_all add: PATH_LENGTH_def)
  then obtain p where p: "Path_new junk r = Ret (Ok p)"
    using path.new_outcome [of junk r] r(5) assms(1,2) by (auto simp: Path_new_def Path_invalid_content_def)
  then have "as_bytes p = r" using path.new_valid [of junk r p] by (simp add: Path_new_def)
  then show ?thesis using r p by (simp add: Path_new_normalized_def)
qed

theorem path_new_normalized_components_witness:
  "\<exists>p. Path_new_normalized (replicate PATH_LENGTH NUL) ''/a//b/'' = Ret (Ok p)
     \<and> path_components (as_bytes p) = [''a'', ''b'']"
  using path_new_normalized_components [of "''/a//b/''" "replicate PATH_LENGTH NUL"]
  by (auto simp: PATH_SEPARATOR_def PATH_LENGTH_def)

text \<open>
  Normalisation is not idempotent and the comparison of paths inherits that: \<open>//\<close> becomes
  \<open>/\<close> and \<open>/\<close> becomes the empty path, so \<open>/\<close> and the empty path are equal and \<open>//\<close> and \<open>/\<close> are
  not.
\<close>
theorem path_comparision_root:
  assumes "2 \<le> length junk"
  shows "Path_comparision junk ''/'' [] = Ret True \<and> Path_comparision junk ''//'' ''/'' = Ret False"
proof -
  have new: "\<exists>p. Path_new junk r = Ret (Ok p) \<and> as_bytes p = r"
    if "length r \<le> length junk" "\<not> Path_invalid_characters r" for r
    using path.new_outcome [of junk r] path.new_valid [of junk r] that assms
    by (fastforce simp: Path_new_def Path_invalid_content_def)
  obtain e s where es: "Path_new junk [] = Ret (Ok e)" "as_bytes e = []"
    "Path_new junk ''/'' = Ret (Ok s)" "as_bytes s = ''/''"
    using new [of "[]"] new [of "''/''"] assms by auto
  have "Path_new_normalized junk ''/'' = Ret (Ok e)" "Path_new_normalized junk [] = Ret (Ok e)"
    "Path_new_normalized junk ''//'' = Ret (Ok s)"
    using es by (simp_all add: Path_new_normalized_def PATH_SEPARATOR_def PATH_LENGTH_def upt_conv_Cons)
  then show ?thesis using es by (simp add: Path_comparision_def)
qed

theorem path_comparision_root_witness:
  "Path_comparision ''??'' ''/'' [] = Ret True \<and> Path_comparision ''??'' ''//'' ''/'' = Ret False"
  using path_comparision_root [of "''??''"] by simp

section \<open>The contracts of names and file paths\<close>

lemma FilePath_rfind_eq:
  "FilePath_rfind c s = List.find (\<lambda>pos. as_bytes s ! pos = c) (rev [0..<bs_len s])"
proof -
  have "map (\<lambda>i. bs_len s - 1 - i) [0..<bs_len s] = rev [0..<bs_len s]"
    by (rule nth_equalityI) (simp_all add: rev_nth)
  then show ?thesis by (simp add: FilePath_rfind_def)
qed

lemma FilePath_rfind_None:
  "bs_inv s \<Longrightarrow> FilePath_rfind c s = None \<longleftrightarrow> c \<notin> set (as_bytes s)"
  using length_as_bytes [of s] by (auto simp: FilePath_rfind_eq find_None_iff in_set_conv_nth)

lemma file_name_split:
  assumes "bs_inv s" "as_bytes s = p @ PATH_SEPARATOR # f" "PATH_SEPARATOR \<notin> set f"
  shows "FilePath_file_name s = f"
    and "FilePath_path s = (if p = [] then [PATH_SEPARATOR] else p)"
proof -
  have "FilePath_rfind PATH_SEPARATOR s = Some (length p)"
    unfolding FilePath_rfind_eq find_rev_upt_Some
    using assms length_as_bytes [OF assms(1)] by (auto simp: nth_append nth_Cons' in_set_conv_nth)
  then show "FilePath_file_name s = f" "FilePath_path s = (if p = [] then [PATH_SEPARATOR] else p)"
    using assms(2) by (simp_all add: FilePath_file_name_def FilePath_path_def)
qed

lemma file_name_whole:
  "bs_inv s \<Longrightarrow> PATH_SEPARATOR \<notin> set (as_bytes s) \<Longrightarrow> FilePath_file_name s = as_bytes s \<and> FilePath_path s = []"
  using FilePath_rfind_None [of s PATH_SEPARATOR] by (simp add: FilePath_file_name_def FilePath_path_def)

lemma FilePath_content_file_name:
  assumes "bs_inv s" "\<not> FilePath_invalid_content (as_bytes s)"
  shows "\<not> FileName_invalid_content (FilePath_file_name s)"
proof (cases "PATH_SEPARATOR \<in> set (as_bytes s)")
  case False
  then show ?thesis
    using assms file_name_whole [OF assms(1)]
    by (auto simp: FilePath_invalid_content_def FileName_invalid_content_def)
next
  case True
  then obtain p f where pf: "as_bytes s = p @ PATH_SEPARATOR # f" "PATH_SEPARATOR \<notin> set f"
    by (meson split_list_last)
  then have "FilePath_file_name s = f" using file_name_split [OF assms(1)] by blast
  then show ?thesis
    using assms(2) pf(1) by (auto simp: FilePath_invalid_content_def FileName_invalid_content_def nth_append)
qed

lemma FileName_characters:
  "\<not> FileName_invalid_characters xs \<Longrightarrow> NUL \<notin> set xs \<and> PATH_SEPARATOR \<notin> set xs"
  by (induction xs) (auto simp: PATH_SEPARATOR_def split: if_splits)

lemma FilePath_characters: "\<not> FilePath_invalid_characters xs \<Longrightarrow> NUL \<notin> set xs"
  by (induction xs) (auto split: if_splits)

text \<open>
  C36: No sequence of calls leaves the contract of a semantic string, when the closures given to
  \<open>retain\<close> answer the same for the same byte. A \<open>FileName\<close> stays non-empty,
  different from \<open>.\<close> and \<open>..\<close> and free of separators and zero bytes; the last component of a
  \<open>FilePath\<close> is a file name in that sense at all times.
\<close>
theorem semantic_string_contract:
  "(FileName_new junk v = Ret (Ok s) \<and> steady_closures calls \<and>
      SemanticString_run FileName_invalid_content FileName_invalid_characters calls s = Ret s' \<longrightarrow>
      \<not> FileName_invalid_content (as_bytes s') \<and> NUL \<notin> set (as_bytes s') \<and> PATH_SEPARATOR \<notin> set (as_bytes s'))
   \<and> (FilePath_new junk v = Ret (Ok s) \<and> steady_closures calls \<and>
      SemanticString_run FilePath_invalid_content FilePath_invalid_characters calls s = Ret s' \<longrightarrow>
      \<not> FileName_invalid_content (FilePath_file_name s') \<and> NUL \<notin> set (as_bytes s'))"
proof (intro conjI impI; elim conjE)
  assume "FileName_new junk v = Ret (Ok s)" and steady: "steady_closures calls"
    and run: "SemanticString_run FileName_invalid_content FileName_invalid_characters calls s = Ret s'"
  then have "file_name.valid_string s" using file_name.new_valid by (simp add: FileName_new_def)
  then have "file_name.valid_string s'" using file_name.run_valid run steady by blast
  then have "\<not> FileName_invalid_content (as_bytes s') \<and> \<not> FileName_invalid_characters (as_bytes s')"
    by (simp add: file_name.valid_string_def)
  then show "\<not> FileName_invalid_content (as_bytes s')" "NUL \<notin> set (as_bytes s')" "PATH_SEPARATOR \<notin> set (as_bytes s')"
    using FileName_characters by blast+
next
  assume "FilePath_new junk v = Ret (Ok s)" and steady: "steady_closures calls"
    and run: "SemanticString_run FilePath_invalid_content FilePath_invalid_characters calls s = Ret s'"
  then have "file_path.valid_string s" using file_path.new_valid by (simp add: FilePath_new_def)
  then have "file_path.valid_string s'" using file_path.run_valid run steady by blast
  then show "\<not> FileName_invalid_content (FilePath_file_name s')" "NUL \<notin> set (as_bytes s')"
    using FilePath_characters FilePath_content_file_name by (simp_all add: file_path.valid_string_def)
qed

theorem semantic_string_contract_witness:
  "\<exists>s s'. FileName_new ''????'' ''ab'' = Ret (Ok s)
     \<and> SemanticString_run FileName_invalid_content FileName_invalid_characters
         [Retain (\<lambda>c n. (c = CHR ''b'', Suc n)) (0 :: nat), Push (CHR ''c''), Truncate 0] s = Ret s'
     \<and> \<not> FileName_invalid_content (as_bytes s')"
proof -
  let ?cs = "[Retain (\<lambda>c n. (c = CHR ''b'', Suc n)) (0 :: nat), Push (CHR ''c''), Truncate 0]"
  let ?s = "\<lparr>bs_len = 2, bs_data = [CHR ''a'', CHR ''b'', NUL, CHR ''?''], bs_terminator = NUL\<rparr>"
  let ?s' = "\<lparr>bs_len = 2, bs_data = [CHR ''a'', CHR ''c'', NUL, CHR ''?''], bs_terminator = NUL\<rparr>"
  have "FileName_new ''????'' ''ab'' = Ret (Ok ?s)" by code_simp
  moreover have "SemanticString_run FileName_invalid_content FileName_invalid_characters ?cs ?s = Ret ?s'" by code_simp
  moreover have "steady_closures ?cs" by (auto simp: answers_def)
  ultimately show ?thesis
    using semantic_string_contract [of "''????''" "''ab''" ?s ?cs ?s'] by blast
qed

text \<open>A closure that answers no for its first \<open>m\<close> calls and yes from then on.\<close>

definition yes_after :: "nat \<Rightarrow> nat FnMut" where
  "yes_after m c n = (m \<le> n, Suc n)"

lemma yes_after_no: "k + n \<le> m \<Longrightarrow> retain_loop (yes_after m) n k s = Ret (k + n, s)"
  by (induction n arbitrary: k) (simp_all add: yes_after_def)

text \<open>
  \<open>retain\<close> with a closure that changes what it has captured leaves the contract: the closure is
  asked once for a copy, whose content is checked, and again for the string itself. For every file
  name that does not fill its capacity a counting closure makes \<open>retain\<close> return \<open>Ok\<close> with the empty
  name, which \<open>FileName::new\<close> refuses.
\<close>
theorem file_name_retain_invalid:
  assumes "FileName_new junk v = Ret (Ok s)" "length v < length junk"
  shows "\<exists>s'. SemanticString_retain FileName_invalid_content (yes_after (length v)) 0 s = Ret (Ok (), s')
    \<and> as_bytes s' = [] \<and> FileName_invalid_content (as_bytes s') \<and> FileName_new junk [] = Ret (Err InvalidName)"
proof -
  have s: "file_name.valid_string s" "as_bytes s = v" "CAPACITY s = length junk"
    using file_name.new_valid assms(1) by (simp_all add: FileName_new_def)
  then have inv: "bs_inv s" and len: "bs_len s = length v" and ok: "\<not> FileName_invalid_content (as_bytes s)"
    using length_as_bytes [of s] by (simp_all add: file_name.valid_string_def)
  have first: "FixedSizeByteString_retain_impl (yes_after (length v)) 0 s = Ret (length v, s)"
    using yes_after_no [of 0 "length v" "length v" s] len by (simp add: FixedSizeByteString_retain_impl_def)
  have "\<not> FixedSizeByteString_is_full s" using assms(2) s(3) len by (simp add: FixedSizeByteString_is_full_def)
  then obtain st s' where s': "FixedSizeByteString_retain_impl (yes_after (length v)) (length v) s = Ret (st, s')"
    "as_bytes s' = []"
    using retain_impl_eq [OF inv, of "\<lambda>k. length v \<le> k" "length v" "yes_after (length v)" "\<lambda>_. True"]
    by (auto simp: yes_after_def)
  have "FileName_invalid_content []" by (simp add: FileName_invalid_content_def)
  moreover from this have "FileName_new junk [] = Ret (Err InvalidName)"
    using file_name.new_outcome [of junk "[]"] assms(2) by (cases junk) (auto simp: FileName_new_def)
  ultimately show ?thesis
    using first s' ok by (simp add: SemanticString_retain_def FixedSizeByteString_retain_def)
qed

theorem file_name_retain_invalid_witness:
  "\<exists>s s'. FileName_new ''????'' ''ab'' = Ret (Ok s)
     \<and> SemanticString_retain FileName_invalid_content (yes_after 2) 0 s = Ret (Ok (), s') \<and> as_bytes s' = []"
proof -
  have "FileName_new ''????'' ''ab''
    = Ret (Ok \<lparr>bs_len = 2, bs_data = [CHR ''a'', CHR ''b'', NUL, CHR ''?''], bs_terminator = NUL\<rparr>)" by code_simp
  from file_name_retain_invalid [OF this] this show ?thesis by (auto simp: numeral_2_eq_2)
qed

text \<open>
  The outcome of \<open>FilePath::new\<close> for every input. A value of exactly \<open>PATH_LENGTH\<close> bytes that
  is refused only for its content, for instance because it ends with a separator, panics instead
  of giving \<open>InvalidName\<close>: the roll-back of \<open>insert_bytes\<close> removes a range that reaches the end
  of a full string.
\<close>
theorem file_path_new_outcome:
  assumes "length junk = PATH_LENGTH"
  shows "if FilePath_invalid_characters v then FilePath_new junk v = Ret (Err InvalidCharacter)
    else if PATH_LENGTH < length v then FilePath_new junk v = Ret (Err ExceedsMaximumLength)
    else if FilePath_invalid_content v \<and> length v = PATH_LENGTH then FilePath_new junk v = Panic
    else if FilePath_invalid_content v then FilePath_new junk v = Ret (Err InvalidName)
    else \<exists>s. FilePath_new junk v = Ret (Ok s) \<and> as_bytes s = v"
proof -
  have "0 < length junk" using assms by (simp add: PATH_LENGTH_def)
  then show ?thesis
    using file_path.new_outcome [of junk v] file_path.new_valid [of junk v] assms
    by (auto simp: FilePath_new_def)
qed

theorem file_path_new_outcome_witness:
  "FilePath_new (replicate PATH_LENGTH NUL) (replicate PATH_LENGTH (CHR ''/'')) = Panic"
proof -
  have bad: "\<not> FilePath_invalid_characters (replicate n (CHR ''/''))" for n
    by (induction n) auto
  have "FilePath_invalid_content (replicate PATH_LENGTH (CHR ''/''))"
    by (simp add: FilePath_invalid_content_def PATH_LENGTH_def PATH_SEPARATOR_def)
  then show ?thesis
    using file_path_new_outcome [of "replicate PATH_LENGTH NUL" "replicate PATH_LENGTH (CHR ''/'')"] bad
    by simp
qed

text \<open>
  C39: A file path made of a path and a file name gives both back: \<open>file_name\<close> returns the file
  name, and \<open>path\<close> returns the path unless the path ends with a separator other than the root.
\<close>
theorem file_path_roundtrip:
  assumes "bs_inv p" "file_name.valid_string f" "length junk = PATH_LENGTH" "bs_len p \<le> PATH_LENGTH"
    and "FilePath_from_path_and_file junk p f = Ret (Ok s)"
  shows "FilePath_file_name s = as_bytes f
    \<and> (\<not> ends_with_separator (as_bytes p) \<or> as_bytes p = [PATH_SEPARATOR] \<longrightarrow> FilePath_path s = as_bytes p)"
proof -
  have f: "PATH_SEPARATOR \<notin> set (as_bytes f)" "as_bytes f \<noteq> []"
    using assms(2) FileName_characters by (auto simp: file_name.valid_string_def FileName_invalid_content_def)
  have len: "length (as_bytes p) = bs_len p" using length_as_bytes [OF assms(1)] .
  obtain s0 where s0: "FixedSizeByteString_new_unchecked junk (as_bytes p) = Ret s0" "bs_inv s0" "as_bytes s0 = as_bytes p"
    using new_unchecked_bytes [of junk "as_bytes p"] assms(3,4) len by (auto simp: PATH_LENGTH_def)
  have push: "bs_inv t' \<and> as_bytes t' = as_bytes t @ bytes"
    if "bs_inv t" "FixedSizeByteString_push_bytes bytes t = Ret (Ok u, t')" for bytes t t' u
    using insert_bytes_Ret [OF that(1), of "bs_len t" bytes] that length_as_bytes [OF that(1)]
    by (auto simp: FixedSizeByteString_push_bytes_def)
  define sep where "sep = (bs_len p \<noteq> 0 \<and> as_bytes p ! (bs_len p - 1) \<noteq> PATH_SEPARATOR)"
  obtain u v s1 where s1: "(if sep then FixedSizeByteString_push_bytes [PATH_SEPARATOR] s0 else Ret (Ok (), s0)) = Ret (Ok u, s1)"
      "FixedSizeByteString_push_bytes (as_bytes f) s1 = Ret (Ok v, s)"
    using assms(5) s0(1)
    by (auto simp: FilePath_from_path_and_file_def sep_def FixedSizeByteString_push_def FixedSizeByteString_insert_def
        FixedSizeByteString_push_bytes_def outcome_bind_eq_Ret case_result_iff split: if_splits)
  have "bs_inv s1" "as_bytes s1 = as_bytes p @ (if sep then [PATH_SEPARATOR] else [])"
    using s1(1) s0 push [OF s0(2), of "[PATH_SEPARATOR]"] by (auto split: if_splits)
  then have s: "bs_inv s" "as_bytes s = as_bytes p @ (if sep then [PATH_SEPARATOR] else []) @ as_bytes f"
    using push [OF _ s1(2)] by auto
  have "as_bytes p = [] \<longleftrightarrow> bs_len p = 0" using len by auto
  then have "sep \<longleftrightarrow> as_bytes p \<noteq> [] \<and> \<not> ends_with_separator (as_bytes p)"
    using len by (auto simp: sep_def ends_with_separator_def last_conv_nth)
  then consider (sep) "sep" "\<not> ends_with_separator (as_bytes p)" "as_bytes p \<noteq> []"
    | (empty) "\<not> sep" "as_bytes p = []" | (slash) "\<not> sep" "ends_with_separator (as_bytes p)"
    by blast
  then show ?thesis
  proof cases
    case sep
    then show ?thesis using file_name_split [OF s(1), of "as_bytes p" "as_bytes f"] s(2) f by simp
  next
    case empty
    then show ?thesis using file_name_whole [OF s(1)] s(2) f by simp
  next
    case slash
    then obtain q where q: "as_bytes p = q @ [PATH_SEPARATOR]"
      unfolding ends_with_separator_def by (metis append_butlast_last_id)
    then show ?thesis
      using file_name_split [OF s(1), of q "as_bytes f"] s(2) f slash by (auto split: if_splits)
  qed
qed

theorem file_path_roundtrip_witness:
  "\<exists>p f s. as_bytes p = ''/a'' \<and> as_bytes f = ''b''
     \<and> FilePath_from_path_and_file (replicate PATH_LENGTH NUL) p f = Ret (Ok s)
     \<and> FilePath_file_name s = ''b'' \<and> FilePath_path s = ''/a''"
proof -
  let ?p = "\<lparr>bs_len = 2, bs_data = [CHR ''/'', CHR ''a'', NUL], bs_terminator = NUL\<rparr>"
  let ?f = "\<lparr>bs_len = 1, bs_data = [CHR ''b'', NUL], bs_terminator = NUL\<rparr>"
  let ?junk = "replicate PATH_LENGTH NUL"
  have p: "bs_inv ?p" "as_bytes ?p = ''/a''" and f: "file_name.valid_string ?f" "as_bytes ?f = ''b''"
    by (simp_all add: bs_inv_def as_bytes_def file_name.valid_string_def FileName_invalid_content_def)
  obtain s0 where s0: "FixedSizeByteString_new_unchecked ?junk ''/a'' = Ret s0" "bs_inv s0" "as_bytes s0 = ''/a''"
      "CAPACITY s0 = PATH_LENGTH"
    using new_unchecked_bytes [of ?junk "''/a''"] by (auto simp: PATH_LENGTH_def)
  have l0: "bs_len s0 = 2" using length_as_bytes [OF s0(2)] s0(3) by simp
  obtain s1 where s1: "FixedSizeByteString_insert_bytes 2 [PATH_SEPARATOR] s0 = Ret (Ok (), s1)" "bs_inv s1"
      "CAPACITY s1 = PATH_LENGTH" "as_bytes s1 = ''/a/''"
    using insert_bytes_ok [OF s0(2), of 2 "[PATH_SEPARATOR]"] s0 l0
    by (auto simp: PATH_LENGTH_def PATH_SEPARATOR_def)
  have l1: "bs_len s1 = 3" using length_as_bytes [OF s1(2)] s1(4) by simp
  obtain s where s: "FixedSizeByteString_insert_bytes 3 ''b'' s1 = Ret (Ok (), s)"
    using insert_bytes_ok [OF s1(2), of 3 "''b''"] s1 l1 by (auto simp: PATH_LENGTH_def)
  have "FilePath_from_path_and_file ?junk ?p ?f = Ret (Ok s)"
    using s0 s1 s p f l0 l1
    by (simp add: FilePath_from_path_and_file_def FixedSizeByteString_push_def FixedSizeByteString_insert_def
        FixedSizeByteString_push_bytes_def PATH_SEPARATOR_def)
  then show ?thesis
    using file_path_roundtrip [OF p(1) f(1), of ?junk s] p f
    by (auto simp: PATH_LENGTH_def ends_with_separator_def PATH_SEPARATOR_def)
qed

section \<open>IPv4 addresses and ports\<close>

type_synonym Ipv4Address = "32 word"

definition Ipv4Address_new :: "8 word \<Rightarrow> 8 word \<Rightarrow> 8 word \<Rightarrow> 8 word \<Rightarrow> Ipv4Address" where
  "Ipv4Address_new a b c d =
     push_bit 24 (ucast a) OR push_bit 16 (ucast b) OR push_bit 8 (ucast c) OR ucast d"

definition Ipv4Address_octets :: "Ipv4Address \<Rightarrow> 8 word list" where
  "Ipv4Address_octets x =
     [ucast (drop_bit 24 x), ucast (drop_bit 24 (push_bit 8 x)),
      ucast (drop_bit 24 (push_bit 16 x)), ucast (drop_bit 24 (push_bit 24 x))]"

definition Ipv4Address_compare :: "8 word list \<Rightarrow> nat \<Rightarrow> Ipv4Address \<Rightarrow> bool" where
  "Ipv4Address_compare v netmask x =
     (let rhs = Ipv4Address_new (v ! 0) (v ! 1) (v ! 2) (v ! 3);
          shift = 32 - netmask
      in drop_bit shift x = drop_bit shift rhs)"

definition Ipv4Address_BROADCAST :: Ipv4Address where
  "Ipv4Address_BROADCAST = Ipv4Address_new 255 255 255 255"

definition Ipv4Address_is_unspecified :: "Ipv4Address \<Rightarrow> bool" where
  "Ipv4Address_is_unspecified x = Ipv4Address_compare [0, 0, 0, 0] 32 x"

definition Ipv4Address_is_loopback :: "Ipv4Address \<Rightarrow> bool" where
  "Ipv4Address_is_loopback x = Ipv4Address_compare [127, 0, 0, 0] 8 x"

definition Ipv4Address_is_private :: "Ipv4Address \<Rightarrow> bool" where
  "Ipv4Address_is_private x \<longleftrightarrow> Ipv4Address_compare [10, 0, 0, 0] 8 x
     \<or> Ipv4Address_compare [192, 168, 0, 0] 16 x \<or> Ipv4Address_compare [172, 16, 0, 0] 12 x"

definition Ipv4Address_is_link_local :: "Ipv4Address \<Rightarrow> bool" where
  "Ipv4Address_is_link_local x = Ipv4Address_compare [169, 254, 0, 0] 16 x"

definition Ipv4Address_is_shared :: "Ipv4Address \<Rightarrow> bool" where
  "Ipv4Address_is_shared x = Ipv4Address_compare [100, 64, 0, 0] 10 x"

definition Ipv4Address_is_benchmarking :: "Ipv4Address \<Rightarrow> bool" where
  "Ipv4Address_is_benchmarking x = Ipv4Address_compare [198, 18, 0, 0] 15 x"

definition Ipv4Address_is_broadcast :: "Ipv4Address \<Rightarrow> bool" where
  "Ipv4Address_is_broadcast x = Ipv4Address_compare (Ipv4Address_octets Ipv4Address_BROADCAST) 32 x"

definition Ipv4Address_is_reserved :: "Ipv4Address \<Rightarrow> bool" where
  "Ipv4Address_is_reserved x \<longleftrightarrow> Ipv4Address_compare [240, 0, 0, 0] 4 x \<and> \<not> Ipv4Address_is_broadcast x"

definition Ipv4Address_is_multicast :: "Ipv4Address \<Rightarrow> bool" where
  "Ipv4Address_is_multicast x = Ipv4Address_compare [224, 0, 0, 0] 4 x"

definition Ipv4Address_is_documentation :: "Ipv4Address \<Rightarrow> bool" where
  "Ipv4Address_is_documentation x \<longleftrightarrow> Ipv4Address_compare [192, 0, 2, 0] 24 x
     \<or> Ipv4Address_compare [198, 51, 100, 0] 24 x \<or> Ipv4Address_compare [203, 0, 113, 0] 24 x"

definition Ipv4Address_is_global :: "Ipv4Address \<Rightarrow> bool" where
  "Ipv4Address_is_global x \<longleftrightarrow> \<not> Ipv4Address_is_unspecified x \<and> \<not> Ipv4Address_is_private x
     \<and> \<not> Ipv4Address_is_shared x \<and> \<not> Ipv4Address_is_loopback x \<and> \<not> Ipv4Address_is_link_local x
     \<and> \<not> Ipv4Address_is_documentation x \<and> \<not> Ipv4Address_is_benchmarking x
     \<and> \<not> Ipv4Address_is_reserved x \<and> \<not> Ipv4Address_is_broadcast x"

type_synonym Port = "16 word"

definition Port_is_unspecified :: "Port \<Rightarrow> bool" where
  "Port_is_unspecified p \<longleftrightarrow> p = 0"

definition Port_is_system :: "Port \<Rightarrow> bool" where
  "Port_is_system p \<longleftrightarrow> p \<noteq> 0 \<and> p \<le> 1023"

definition Port_is_registered :: "Port \<Rightarrow> bool" where
  "Port_is_registered p \<longleftrightarrow> 1024 \<le> p \<and> p \<le> 49151"

definition Port_is_dynamic :: "Port \<Rightarrow> bool" where
  "Port_is_dynamic p \<longleftrightarrow> 49152 \<le> p"

lemma bit_octet: "8 \<le> k \<Longrightarrow> \<not> bit (b :: 8 word) (k + n)"
  by (auto dest: bit_imp_le_length)

lemma octets_of_new: "Ipv4Address_octets (Ipv4Address_new a b c d) = [a, b, c, d]"
  by (auto simp: Ipv4Address_octets_def Ipv4Address_new_def bit_simps bit_octet intro!: bit_word_eqI)

lemma new_of_octets:
  "Ipv4Address_new (Ipv4Address_octets x ! 0) (Ipv4Address_octets x ! 1) (Ipv4Address_octets x ! 2)
     (Ipv4Address_octets x ! 3) = x" (is "?y = x")
proof (rule bit_word_eqI)
  fix n
  assume n: "n < LENGTH(32)"
  have shift: "k \<le> n \<Longrightarrow> k + (n - k) = n" for k by simp
  consider "n < 8" | "8 \<le> n" "n < 16" | "16 \<le> n" "n < 24" | "24 \<le> n" "n < 32"
    using n by fastforce
  then show "bit ?y n \<longleftrightarrow> bit x n"
    by cases (auto simp: Ipv4Address_octets_def Ipv4Address_new_def bit_simps shift)
qed

lemma port_ranges:
  "Port_is_unspecified p \<or> Port_is_system p \<or> Port_is_registered p \<or> Port_is_dynamic p"
  "\<not> (Port_is_system p \<and> Port_is_registered p)" "\<not> (Port_is_registered p \<and> Port_is_dynamic p)"
  by (auto simp: Port_is_unspecified_def Port_is_system_def Port_is_registered_def Port_is_dynamic_def
      word_le_nat_alt)

text \<open>
  An IPv4 address and its four octets determine each other, and the address classes are
  decided by the octets: loopback is \<open>127.x.x.x\<close>, link-local \<open>169.254.x.x\<close>, and an address is
  broadcast exactly when all octets are 255.
\<close>
theorem ipv4_octets_roundtrip:
  "Ipv4Address_octets (Ipv4Address_new a b c d) = [a, b, c, d]
   \<and> Ipv4Address_new (Ipv4Address_octets x ! 0) (Ipv4Address_octets x ! 1) (Ipv4Address_octets x ! 2)
       (Ipv4Address_octets x ! 3) = x
   \<and> (Ipv4Address_is_loopback x \<longleftrightarrow> Ipv4Address_octets x ! 0 = 127)
   \<and> (Ipv4Address_is_link_local x \<longleftrightarrow> Ipv4Address_octets x ! 0 = 169 \<and> Ipv4Address_octets x ! 1 = 254)
   \<and> (Ipv4Address_is_broadcast x \<longleftrightarrow> Ipv4Address_octets x = [255, 255, 255, 255])"
proof -
  obtain p q r s where x: "x = Ipv4Address_new p q r s" using new_of_octets [of x] by metis
  have oct: "Ipv4Address_octets x = [p, q, r, s]" using octets_of_new x by simp
  have inj: "Ipv4Address_new a b c d = Ipv4Address_new a' b' c' d' \<longleftrightarrow> a = a' \<and> b = b' \<and> c = c' \<and> d = d'"
    for a b c d a' b' c' d'
  proof
    assume "Ipv4Address_new a b c d = Ipv4Address_new a' b' c' d'"
    then have "Ipv4Address_octets (Ipv4Address_new a b c d) = Ipv4Address_octets (Ipv4Address_new a' b' c' d')"
      by (rule arg_cong)
    then show "a = a' \<and> b = b' \<and> c = c' \<and> d = d'" by (simp add: octets_of_new)
  qed simp
  have d24: "drop_bit 24 (Ipv4Address_new a b c d) = Ipv4Address_new 0 0 0 a" for a b c d
    by (rule bit_word_eqI) (auto simp: Ipv4Address_new_def bit_simps bit_octet dest: bit_imp_le_length)
  have d16: "drop_bit 16 (Ipv4Address_new a b c d) = Ipv4Address_new 0 0 a b" for a b c d
    by (rule bit_word_eqI) (auto simp: Ipv4Address_new_def bit_simps bit_octet dest: bit_imp_le_length)
  show ?thesis
    using new_of_octets [of x]
    by (simp add: Ipv4Address_is_loopback_def Ipv4Address_is_link_local_def Ipv4Address_is_broadcast_def
        Ipv4Address_BROADCAST_def Ipv4Address_compare_def oct octets_of_new x d24 d16 inj)
qed

end
