(* ===== verification/NamedConcept.thy ===== *)
theory NamedConcept
  imports SystemTypes
begin

text \<open>
  Names of the communication resources, \<open>iceoryx2_cal/src/named_concept.rs\<close>: a resource is a file
  whose path is made of the path hint, the prefix, the name and the suffix, and the name is
  extracted again from the path when the existing resources are listed. The memory of the
  file path and of the file name that are created on the way are arguments.
\<close>

datatype NamedConceptDoesExistError =
    DoesExist_InsufficientPermissions
  | DoesExist_UnderlyingResourcesBeingSetUp
  | DoesExist_UnderlyingResourcesCorrupted
  | DoesExist_InternalError

datatype NamedConceptRemoveError = Remove_InsufficientPermissions | Remove_InternalError

datatype NamedConceptListError = List_InsufficientPermissions | List_InternalError

record NamedConceptConfiguration =
  nc_suffix :: FixedSizeByteString
  nc_prefix :: FixedSizeByteString
  nc_path_hint :: FixedSizeByteString

text \<open>An error of an operation that is wrapped in \<open>fatal_panic!\<close>.\<close>

definition or_panic :: "'a sem_result \<Rightarrow> ('a \<Rightarrow> FixedSizeByteString \<Rightarrow> 'b outcome) \<Rightarrow> 'b outcome" where
  "or_panic m k = outcome_bind m (\<lambda>(r, s). case r of Ok v \<Rightarrow> k v s | Err _ \<Rightarrow> Panic)"

definition path_for :: "char list \<Rightarrow> NamedConceptConfiguration \<Rightarrow> FixedSizeByteString \<Rightarrow> FixedSizeByteString outcome"
  where
  "path_for junk cfg v =
     or_panic (Path_add_path_entry (nc_prefix cfg) (nc_path_hint cfg)) (\<lambda>_ path.
     or_panic (SemanticString_push_bytes Path_invalid_content Path_invalid_characters (as_bytes v) path) (\<lambda>_ path.
     or_panic (SemanticString_push_bytes Path_invalid_content Path_invalid_characters (as_bytes (nc_suffix cfg)) path)
       (\<lambda>_ path. FixedSizeByteString_new_unchecked junk (as_bytes path))))"

definition extract_name_from_file ::
  "NamedConceptConfiguration \<Rightarrow> FixedSizeByteString \<Rightarrow> FixedSizeByteString option outcome" where
  "extract_name_from_file cfg v =
     or_panic (SemanticString_strip_prefix FileName_invalid_content (as_bytes (nc_prefix cfg)) v) (\<lambda>found file.
       if \<not> found then Ret None
       else or_panic (SemanticString_strip_suffix FileName_invalid_content (as_bytes (nc_suffix cfg)) file)
              (\<lambda>found file. if \<not> found then Ret None else Ret (Some file)))"

definition extract_name_from_path ::
  "char list \<Rightarrow> char list \<Rightarrow> NamedConceptConfiguration \<Rightarrow> FixedSizeByteString \<Rightarrow> FixedSizeByteString option outcome"
  where
  "extract_name_from_path junk_path junk_file cfg v =
     outcome_bind (Path_comparision junk_path (as_bytes (nc_path_hint cfg)) (FilePath_path v)) (\<lambda>same.
       if \<not> same then Ret None
       else outcome_bind (FixedSizeByteString_new_unchecked junk_file (FilePath_file_name v))
              (extract_name_from_file cfg))"

section \<open>Extraction inverts construction\<close>

lemma normalize_single:
  assumes "single_separators v" "length v \<le> PATH_LENGTH" "i \<le> length v"
    "ends_with_separator v \<Longrightarrow> i < length v"
    "prev = ends_with_separator (take i v)"
  shows "normalize_loop v [i..<length v] prev (take i v)
    = Ret (if ends_with_separator v then butlast v else v)"
  using assms
proof (induction "length v - i" arbitrary: i prev)
  case 0
  then show ?case by auto
next
  case (Suc n)
  then have i: "i < length v" and n: "n = length v - Suc i" by linarith+
  have upt: "[i..<length v] = i # [Suc i..<length v]" using i by (simp add: upt_conv_Cons)
  have take: "take i v @ [v ! i] = take (Suc i) v" using i by (simp add: take_Suc_conv_app_nth)
  have last: "i + 1 = length v \<Longrightarrow> v ! i = last v" using i by (metis Suc_eq_plus1 diff_Suc_1 last_conv_nth less_nat_zero_code list.size(3))
  have no_double: "\<not> (prev \<and> v ! i = PATH_SEPARATOR)"
  proof
    assume d: "prev \<and> v ! i = PATH_SEPARATOR"
    then have "0 < i" "last (take i v) = PATH_SEPARATOR" using Suc.prems(5) i by (auto simp: ends_with_separator_def)
    moreover have "last (take i v) = v ! (i - 1)"
      using last_conv_nth [of "take i v"] i \<open>0 < i\<close> by (cases "v = []") auto
    ultimately have "v ! (i - 1) = PATH_SEPARATOR" "Suc (i - 1) = i"
      by simp_all
    then show False using d Suc.prems(1) i unfolding single_separators_def by metis
  qed
  show ?case
  proof (cases "i + 1 = length v \<and> v ! i = PATH_SEPARATOR")
    case True
    then have "ends_with_separator v" using last i by (auto simp: ends_with_separator_def)
    moreover have "i = length v - 1" using True by (metis add_diff_cancel_right')
    then have "butlast v = take i v" by (simp add: butlast_conv_take)
    moreover have "normalize_loop v [i..<length v] prev (take i v) = Ret (take i v)"
      using True by (simp add: upt)
    ultimately show ?thesis by simp
  next
    case False
    then have "normalize_loop v [i..<length v] prev (take i v)
        = normalize_loop v [Suc i..<length v] (v ! i = PATH_SEPARATOR) (take (Suc i) v)"
      using no_double i Suc.prems(2) by (simp add: upt take)
    moreover have "ends_with_separator v \<Longrightarrow> Suc i < length v"
      using False last i by (cases "Suc i = length v") (auto simp: ends_with_separator_def)
    moreover have "(v ! i = PATH_SEPARATOR) = ends_with_separator (take (Suc i) v)"
      using i by (simp add: ends_with_separator_def take_Suc_conv_app_nth)
    ultimately show ?thesis
      using Suc.hyps(1) [OF n Suc.prems(1,2)] i by simp
  qed
qed

lemma new_normalized_single:
  assumes "single_separators v" "length v \<le> PATH_LENGTH" "length junk = PATH_LENGTH" "\<not> Path_invalid_characters v"
  shows "\<exists>p. Path_new_normalized junk v = Ret (Ok p)
    \<and> as_bytes p = (if ends_with_separator v then butlast v else v)"
proof -
  let ?r = "if ends_with_separator v then butlast v else v"
  have "ends_with_separator v \<Longrightarrow> 0 < length v" by (auto simp: ends_with_separator_def)
  then have "normalize_loop v [0..<length v] False [] = Ret ?r"
    using normalize_single [of v 0 False] assms by (simp add: ends_with_separator_def)
  moreover have "set ?r \<subseteq> set v" by (auto dest: in_set_butlastD)
  then have "\<not> Path_invalid_characters ?r" using path.badc_mono assms(4) by blast
  moreover have "length ?r \<le> length junk" "0 < length junk"
    using assms(2,3) by (auto simp: PATH_LENGTH_def)
  ultimately show ?thesis
    using path.new_outcome [of junk ?r] path.new_valid [of junk ?r]
    by (auto simp: Path_new_normalized_def Path_new_def Path_invalid_content_def)
qed

lemma or_panic_Ret: "or_panic m k = Ret x \<longleftrightarrow> (\<exists>v s. m = Ret (Ok v, s) \<and> k v s = Ret x)"
  by (auto simp: or_panic_def outcome_bind_eq_Ret case_result_iff)

lemma Path_insert_ok:
  assumes "path.valid_string p" "idx \<le> bs_len p" "bs_len p + length bytes \<le> CAPACITY p" "idx < CAPACITY p"
    "\<not> Path_invalid_characters bytes"
  shows "\<exists>p'. SemanticString_insert_bytes Path_invalid_content Path_invalid_characters idx bytes p = Ret (Ok (), p')
    \<and> path.valid_string p' \<and> CAPACITY p' = CAPACITY p
    \<and> as_bytes p' = take idx (as_bytes p) @ bytes @ drop idx (as_bytes p)"
proof -
  have inv: "bs_inv p" "\<not> Path_invalid_characters (as_bytes p)"
    using assms(1) by (simp_all add: path.valid_string_def)
  obtain p' where ins: "FixedSizeByteString_insert_bytes idx bytes p = Ret (Ok (), p')"
    using insert_bytes_ok [OF inv(1) assms(2-4)] by blast
  then have ret: "SemanticString_insert_bytes Path_invalid_content Path_invalid_characters idx bytes p = Ret (Ok (), p')"
    using assms(5) by (simp add: SemanticString_insert_bytes_def Path_invalid_content_def)
  show ?thesis
    using ret path.insert_bytes_keeps_chars [OF inv ret] by (auto simp: path.valid_string_def)
qed

lemma Path_push_ok:
  assumes "path.valid_string p" "bs_len p + length bytes \<le> CAPACITY p" "bs_len p < CAPACITY p"
    "\<not> Path_invalid_characters bytes"
  shows "\<exists>p'. SemanticString_push_bytes Path_invalid_content Path_invalid_characters bytes p = Ret (Ok (), p')
    \<and> path.valid_string p' \<and> CAPACITY p' = CAPACITY p \<and> as_bytes p' = as_bytes p @ bytes"
proof -
  have "length (as_bytes p) = bs_len p"
    using assms(1) length_as_bytes by (simp add: path.valid_string_def)
  then show ?thesis
    using Path_insert_ok [OF assms(1) order_refl assms(2-4)] by (simp add: SemanticString_push_bytes_def)
qed

lemma Path_characters_of_FileName: "\<not> FileName_invalid_characters xs \<Longrightarrow> \<not> Path_invalid_characters xs"
  by (induction xs) (auto split: if_splits)

lemma FileName_len_pos: "file_name.valid_string s \<Longrightarrow> 0 < bs_len s"
  using length_as_bytes [of s] by (cases "bs_len s") (auto simp: file_name.valid_string_def FileName_invalid_content_def)

lemma path_for_ok:
  assumes hint: "path.valid_string (nc_path_hint cfg)" "CAPACITY (nc_path_hint cfg) = PATH_LENGTH"
    and names: "file_name.valid_string (nc_prefix cfg)" "file_name.valid_string v" "file_name.valid_string (nc_suffix cfg)"
    and room: "bs_len (nc_path_hint cfg) + 1 + bs_len (nc_prefix cfg) + bs_len v + bs_len (nc_suffix cfg) \<le> PATH_LENGTH"
    and junk: "length junk = PATH_LENGTH"
  shows "\<exists>fp. path_for junk cfg v = Ret fp \<and> bs_inv fp
    \<and> as_bytes fp = as_bytes (nc_path_hint cfg)
        @ (if as_bytes (nc_path_hint cfg) = [] \<or> ends_with_separator (as_bytes (nc_path_hint cfg)) then [] else [PATH_SEPARATOR])
        @ as_bytes (nc_prefix cfg) @ as_bytes v @ as_bytes (nc_suffix cfg)"
proof -
  let ?h = "nc_path_hint cfg"
  have len: "length (as_bytes ?h) = bs_len ?h" "length (as_bytes (nc_prefix cfg)) = bs_len (nc_prefix cfg)"
    "length (as_bytes v) = bs_len v" "length (as_bytes (nc_suffix cfg)) = bs_len (nc_suffix cfg)"
    using hint names length_as_bytes by (simp_all add: path.valid_string_def file_name.valid_string_def)
  have pos: "0 < bs_len (nc_prefix cfg)" "0 < bs_len v" "0 < bs_len (nc_suffix cfg)"
    using names FileName_len_pos by blast+
  have chars: "\<not> Path_invalid_characters (as_bytes (nc_prefix cfg))" "\<not> Path_invalid_characters (as_bytes v)"
    "\<not> Path_invalid_characters (as_bytes (nc_suffix cfg))" "\<not> Path_invalid_characters [PATH_SEPARATOR]"
    using names Path_characters_of_FileName by (simp_all add: file_name.valid_string_def PATH_SEPARATOR_def)
  define sep where "sep = (bs_len ?h \<noteq> 0 \<and> as_bytes ?h ! (bs_len ?h - 1) \<noteq> PATH_SEPARATOR)"
  have "as_bytes ?h = [] \<longleftrightarrow> bs_len ?h = 0" using len(1) by auto
  then have sep: "sep \<longleftrightarrow> \<not> (as_bytes ?h = [] \<or> ends_with_separator (as_bytes ?h))"
    using len(1) by (auto simp: sep_def ends_with_separator_def last_conv_nth)
  have "bs_len ?h + length [PATH_SEPARATOR] \<le> CAPACITY ?h" "bs_len ?h < CAPACITY ?h" using room hint(2) by simp_all
  then obtain p0 where p0: "(if sep then SemanticString_push_bytes Path_invalid_content Path_invalid_characters [PATH_SEPARATOR] ?h
        else Ret (Ok (), ?h)) = Ret (Ok (), p0)" "path.valid_string p0" "CAPACITY p0 = PATH_LENGTH"
      "as_bytes p0 = as_bytes ?h @ (if sep then [PATH_SEPARATOR] else [])"
    using Path_push_ok [OF hint(1) _ _ chars(4)] hint by (cases sep) auto
  have l0: "bs_len p0 \<le> bs_len ?h + 1"
    using p0(2,4) len(1) length_as_bytes [of p0] by (auto simp: path.valid_string_def split: if_splits)
  obtain p1 where p1: "SemanticString_push_bytes Path_invalid_content Path_invalid_characters (as_bytes (nc_prefix cfg)) p0 = Ret (Ok (), p1)"
      "path.valid_string p1" "CAPACITY p1 = PATH_LENGTH" "as_bytes p1 = as_bytes p0 @ as_bytes (nc_prefix cfg)"
    using Path_push_ok [OF p0(2) _ _ chars(1)] p0(3) l0 len room pos by force
  have l1: "bs_len p1 = bs_len p0 + bs_len (nc_prefix cfg)"
    using p1(2,4) p0(2) len length_as_bytes [of p1] length_as_bytes [of p0] by (simp add: path.valid_string_def)
  obtain p2 where p2: "SemanticString_push_bytes Path_invalid_content Path_invalid_characters (as_bytes v) p1 = Ret (Ok (), p2)"
      "path.valid_string p2" "CAPACITY p2 = PATH_LENGTH" "as_bytes p2 = as_bytes p1 @ as_bytes v"
    using Path_push_ok [OF p1(2) _ _ chars(2)] p1(3) l0 l1 len room pos by force
  have l2: "bs_len p2 = bs_len p1 + bs_len v"
    using p2(2,4) p1(2) len length_as_bytes [of p2] length_as_bytes [of p1] by (simp add: path.valid_string_def)
  obtain p3 where p3: "SemanticString_push_bytes Path_invalid_content Path_invalid_characters (as_bytes (nc_suffix cfg)) p2 = Ret (Ok (), p3)"
      "path.valid_string p3" "CAPACITY p3 = PATH_LENGTH" "as_bytes p3 = as_bytes p2 @ as_bytes (nc_suffix cfg)"
    using Path_push_ok [OF p2(2) _ _ chars(3)] p2(3) l0 l1 l2 len room pos by force
  have "length (as_bytes p3) \<le> length junk" "0 < length junk"
    using p3(2,3) junk by (auto simp: path.valid_string_def bs_inv_def as_bytes_def PATH_LENGTH_def)
  then obtain fp where fp: "FixedSizeByteString_new_unchecked junk (as_bytes p3) = Ret fp" "bs_inv fp" "as_bytes fp = as_bytes p3"
    using new_unchecked_bytes by metis
  have "(if bs_len ?h \<noteq> 0 \<and> as_bytes ?h ! (bs_len ?h - 1) \<noteq> PATH_SEPARATOR
      then SemanticString_push Path_invalid_content Path_invalid_characters PATH_SEPARATOR ?h else Ret (Ok (), ?h))
      = Ret (Ok (), p0)"
    using p0(1) unfolding sep_def SemanticString_push_def SemanticString_insert_def SemanticString_push_bytes_def .
  then have "Path_add_path_entry (nc_prefix cfg) ?h = Ret (Ok (), p1)"
    unfolding Path_add_path_entry_def by (simp add: p1(1))
  then have "path_for junk cfg v = Ret fp"
    using p2(1) p3(1) fp(1) by (simp add: path_for_def or_panic_def)
  then show ?thesis
    using fp p0(4) p1(4) p2(4) p3(4) sep by auto
qed

lemma strip_prefix_ok:
  assumes "bs_inv s" "as_bytes s = bytes @ r" "length bytes < CAPACITY s"
  obtains s' where "FixedSizeByteString_strip_prefix bytes s = Ret (True, s')" "bs_inv s'" "as_bytes s' = r" "CAPACITY s' = CAPACITY s"
proof -
  have len: "bs_len s = length bytes + length r" using length_as_bytes [OF assms(1)] assms(2) by simp
  have "FixedSizeByteString_find bytes s = Some 0"
    using assms(2) find_Some_iff_first [OF assms(1)] by (simp add: occurs_at_def)
  moreover obtain s' where "FixedSizeByteString_remove_range 0 (length bytes) s = Ret s'" "bs_inv s'" "CAPACITY s' = CAPACITY s"
      "as_bytes s' = r"
    using remove_range_ok [OF assms(1), of 0 "length bytes"] len assms(2,3) by auto
  ultimately show ?thesis using that by (simp add: FixedSizeByteString_strip_prefix_def)
qed

lemma strip_suffix_ok:
  assumes "bs_inv s" "as_bytes s = r @ bytes" "bs_len s < CAPACITY s"
  obtains s' where "FixedSizeByteString_strip_suffix bytes s = Ret (True, s')" "bs_inv s'" "as_bytes s' = r" "CAPACITY s' = CAPACITY s"
proof -
  have len: "bs_len s = length r + length bytes" using length_as_bytes [OF assms(1)] assms(2) by simp
  have "FixedSizeByteString_rfind bytes s = Some (length r)"
    using assms(2) rfind_Some_iff_last [OF assms(1)] by (simp add: occurs_at_def)
  moreover obtain s' where "FixedSizeByteString_remove_range (length r) (length bytes) s = Ret s'" "bs_inv s'"
      "CAPACITY s' = CAPACITY s" "as_bytes s' = r"
    using remove_range_ok [OF assms(1), of "length r" "length bytes"] len assms(2,3) by auto
  ultimately show ?thesis using that len by (simp add: FixedSizeByteString_strip_suffix_def Let_def)
qed

lemma extract_name_from_file_ok:
  assumes names: "file_name.valid_string (nc_prefix cfg)" "file_name.valid_string v" "file_name.valid_string (nc_suffix cfg)"
    and f: "bs_inv f" "as_bytes f = as_bytes (nc_prefix cfg) @ as_bytes v @ as_bytes (nc_suffix cfg)" "bs_len f < CAPACITY f"
  shows "\<exists>v'. extract_name_from_file cfg f = Ret (Some v') \<and> as_bytes v' = as_bytes v"
proof -
  have content: "\<not> FileName_invalid_content (as_bytes v)" "as_bytes (nc_suffix cfg) \<noteq> []"
    using names by (auto simp: file_name.valid_string_def FileName_invalid_content_def)
  then have content1: "\<not> FileName_invalid_content (as_bytes v @ as_bytes (nc_suffix cfg))"
    by (auto simp: FileName_invalid_content_def append_eq_Cons_conv)
  have "length (as_bytes (nc_prefix cfg)) < CAPACITY f" using f length_as_bytes [OF f(1)] by simp
  then obtain s1 where s1: "FixedSizeByteString_strip_prefix (as_bytes (nc_prefix cfg)) f = Ret (True, s1)" "bs_inv s1"
      "as_bytes s1 = as_bytes v @ as_bytes (nc_suffix cfg)" "CAPACITY s1 = CAPACITY f"
    using strip_prefix_ok [OF f(1,2)] by blast
  have "bs_len s1 < CAPACITY s1" using s1 f length_as_bytes [OF f(1)] length_as_bytes [OF s1(2)] by simp
  then obtain s2 where s2: "FixedSizeByteString_strip_suffix (as_bytes (nc_suffix cfg)) s1 = Ret (True, s2)" "bs_inv s2"
      "as_bytes s2 = as_bytes v"
    using strip_suffix_ok [OF s1(2,3)] by blast
  show ?thesis
    using s1 s2 content content1
    by (simp add: extract_name_from_file_def or_panic_def SemanticString_strip_prefix_def SemanticString_strip_suffix_def)
qed

text \<open>
  The name of a resource is recovered from its path: \<open>extract_name_from_path\<close> inverts
  \<open>path_for\<close>, for every path hint without doubled separators and every name that leaves a file
  name below the maximal length. So the list of existing resources contains each of them under
  its own name.
\<close>
theorem named_concept_roundtrip:
  assumes hint: "path.valid_string (nc_path_hint cfg)" "CAPACITY (nc_path_hint cfg) = PATH_LENGTH"
      "single_separators (as_bytes (nc_path_hint cfg))"
    and names: "file_name.valid_string (nc_prefix cfg)" "file_name.valid_string v" "file_name.valid_string (nc_suffix cfg)"
    and room: "bs_len (nc_path_hint cfg) + 1 + bs_len (nc_prefix cfg) + bs_len v + bs_len (nc_suffix cfg) \<le> PATH_LENGTH"
      "bs_len (nc_prefix cfg) + bs_len v + bs_len (nc_suffix cfg) < FILENAME_LENGTH"
    and junk: "length junk = PATH_LENGTH" "length junk_file = FILENAME_LENGTH"
  shows "\<exists>fp v'. path_for junk cfg v = Ret fp
    \<and> extract_name_from_path junk junk_file cfg fp = Ret (Some v') \<and> as_bytes v' = as_bytes v"
proof -
  let ?h = "as_bytes (nc_path_hint cfg)"
  let ?f = "as_bytes (nc_prefix cfg) @ as_bytes v @ as_bytes (nc_suffix cfg)"
  obtain fp where fp: "path_for junk cfg v = Ret fp" "bs_inv fp"
    "as_bytes fp = ?h @ (if ?h = [] \<or> ends_with_separator ?h then [] else [PATH_SEPARATOR]) @ ?f"
    using path_for_ok [OF hint(1,2) names room(1) junk(1)] by blast
  have no_sep: "PATH_SEPARATOR \<notin> set ?f" using names FileName_characters by (auto simp: file_name.valid_string_def)
  have parts: "FilePath_file_name fp = ?f
    \<and> FilePath_path fp = (if ends_with_separator ?h \<and> butlast ?h \<noteq> [] then butlast ?h else ?h)"
  proof (cases "ends_with_separator ?h")
    case True
    then obtain q where h: "?h = q @ [PATH_SEPARATOR]"
      unfolding ends_with_separator_def by (metis append_butlast_last_id)
    then have "as_bytes fp = q @ PATH_SEPARATOR # ?f" using fp(3) True by simp
    then show ?thesis using file_name_split [OF fp(2) _ no_sep, of q] True h by auto
  next
    case False
    then show ?thesis
      using fp(3) file_name_split [OF fp(2) _ no_sep, of ?h] file_name_whole [OF fp(2)] no_sep
      by (cases "?h = []") auto
  qed
  have hlen: "length ?h \<le> PATH_LENGTH" and hchars: "\<not> Path_invalid_characters ?h"
    using hint by (auto simp: path.valid_string_def bs_inv_def as_bytes_def)
  have single: "single_separators (FilePath_path fp)" "length (FilePath_path fp) \<le> PATH_LENGTH"
      "\<not> Path_invalid_characters (FilePath_path fp)"
  proof -
    have "single_separators (butlast ?h)" using hint(3) by (simp add: single_separators_def nth_butlast)
    moreover have "\<not> Path_invalid_characters (butlast ?h)"
      using path.badc_mono [of "butlast ?h" ?h] hchars by (auto dest: in_set_butlastD)
    ultimately show "single_separators (FilePath_path fp)" "length (FilePath_path fp) \<le> PATH_LENGTH"
        "\<not> Path_invalid_characters (FilePath_path fp)"
      using parts hint(3) hlen hchars by auto
  qed
  have strip: "(if ends_with_separator (FilePath_path fp) then butlast (FilePath_path fp) else FilePath_path fp)
      = (if ends_with_separator ?h then butlast ?h else ?h)"
  proof (cases "ends_with_separator ?h \<and> butlast ?h \<noteq> []")
    case True
    have "\<not> ends_with_separator (butlast ?h)"
    proof
      assume e: "ends_with_separator (butlast ?h)"
      define j where "j = length ?h - 2"
      have l: "2 \<le> length ?h" using True by (cases ?h rule: rev_cases) (auto simp: neq_Nil_conv)
      then have "?h ! j = PATH_SEPARATOR" "?h ! Suc j = PATH_SEPARATOR"
        using e True by (auto simp: ends_with_separator_def last_conv_nth nth_butlast j_def numeral_2_eq_2 Suc_diff_Suc)
      moreover have "Suc j < length ?h" using l by (simp add: j_def)
      ultimately show False using hint(3) by (auto simp: single_separators_def)
    qed
    then show ?thesis using parts True by simp
  next
    case False
    then show ?thesis using parts by auto
  qed
  have "Path_comparision junk ?h (FilePath_path fp) = Ret True"
    using new_normalized_single [OF hint(3) hlen junk(1) hchars]
      new_normalized_single [OF single(1,2) junk(1) single(3)] strip
    by (auto simp: Path_comparision_def)
  moreover have "length ?f < FILENAME_LENGTH"
    using room(2) names length_as_bytes by (simp add: file_name.valid_string_def)
  then obtain f where f: "FixedSizeByteString_new_unchecked junk_file ?f = Ret f" "bs_inv f" "as_bytes f = ?f"
      "CAPACITY f = FILENAME_LENGTH"
    using new_unchecked_bytes [of junk_file ?f] junk(2) by (auto simp: FILENAME_LENGTH_def)
  moreover have "bs_len f < CAPACITY f"
    using f \<open>length ?f < FILENAME_LENGTH\<close> length_as_bytes [OF f(2)] by simp
  then obtain v' where "extract_name_from_file cfg f = Ret (Some v')" "as_bytes v' = as_bytes v"
    using extract_name_from_file_ok [OF names f(2,3)] by blast
  ultimately show ?thesis
    using fp(1) parts by (auto simp: extract_name_from_path_def)
qed

theorem named_concept_roundtrip_witness:
  "\<exists>fp v'. path_for (replicate PATH_LENGTH NUL)
       \<lparr>nc_suffix = \<lparr>bs_len = 3, bs_data = ''.rx'' @ [NUL], bs_terminator = NUL\<rparr>,
        nc_prefix = \<lparr>bs_len = 5, bs_data = ''iox2_'' @ [NUL], bs_terminator = NUL\<rparr>,
        nc_path_hint = \<lparr>bs_len = 5, bs_data = ''/tmp/'' @ replicate 4091 NUL, bs_terminator = NUL\<rparr>\<rparr>
       \<lparr>bs_len = 1, bs_data = ''a'' @ [NUL], bs_terminator = NUL\<rparr> = Ret fp
     \<and> extract_name_from_path (replicate PATH_LENGTH NUL) (replicate FILENAME_LENGTH NUL)
         \<lparr>nc_suffix = \<lparr>bs_len = 3, bs_data = ''.rx'' @ [NUL], bs_terminator = NUL\<rparr>,
          nc_prefix = \<lparr>bs_len = 5, bs_data = ''iox2_'' @ [NUL], bs_terminator = NUL\<rparr>,
          nc_path_hint = \<lparr>bs_len = 5, bs_data = ''/tmp/'' @ replicate 4091 NUL, bs_terminator = NUL\<rparr>\<rparr> fp = Ret (Some v')
     \<and> as_bytes v' = ''a''"
proof -
  let ?v = "\<lparr>bs_len = 1, bs_data = ''a'' @ [NUL], bs_terminator = NUL\<rparr>"
  let ?cfg = "\<lparr>nc_suffix = \<lparr>bs_len = 3, bs_data = ''.rx'' @ [NUL], bs_terminator = NUL\<rparr>,
        nc_prefix = \<lparr>bs_len = 5, bs_data = ''iox2_'' @ [NUL], bs_terminator = NUL\<rparr>,
        nc_path_hint = \<lparr>bs_len = 5, bs_data = ''/tmp/'' @ replicate 4091 NUL, bs_terminator = NUL\<rparr>\<rparr>"
  have hint: "path.valid_string (nc_path_hint ?cfg)" "CAPACITY (nc_path_hint ?cfg) = PATH_LENGTH"
    by (simp_all add: path.valid_string_def bs_inv_def as_bytes_def Path_invalid_content_def PATH_LENGTH_def)
  have single: "single_separators (as_bytes (nc_path_hint ?cfg))"
    by (auto simp: single_separators_def as_bytes_def PATH_SEPARATOR_def less_Suc_eq nth_Cons')
  have names: "file_name.valid_string (nc_prefix ?cfg)" "file_name.valid_string ?v" "file_name.valid_string (nc_suffix ?cfg)"
    by (simp_all add: file_name.valid_string_def bs_inv_def as_bytes_def FileName_invalid_content_def)
  show ?thesis
    using named_concept_roundtrip [OF hint single names, of "replicate PATH_LENGTH NUL" "replicate FILENAME_LENGTH NUL"]
    by (simp add: as_bytes_def PATH_LENGTH_def FILENAME_LENGTH_def)
qed

end
