(* ===== verification/ZeroCopyConnection.thy ===== *)
theory ZeroCopyConnection
  imports NamedConcept IndexQueue OverflowQueue
begin

text \<open>
  The zero-copy connection between one sender and one receiver,
  \<open>iceoryx2_cal/src/zero_copy_connection\<close>: samples travel as pointer offsets through an
  overflowing index queue and come back through an index queue. First the process-local
  variant with its global storage of reference-counted management data, then the management
  data of the shared-memory variant. A pointer offset is its value.
\<close>

section \<open>The process-local variant\<close>

datatype ZeroCopyCreationError =
    ZeroCopyCreation_InternalError
  | AnotherInstanceIsAlreadyConnected
  | ConnectionMaybeCorrupted
  | IncompatibleBufferSize
  | IncompatibleMaxBorrowedSampleSetting
  | IncompatibleOverflowSetting

datatype ZeroCopySendError = ReceiveBufferFull | ClearRetrieveChannelBeforeSend

datatype ZeroCopyReceiveError = ReceiveWouldExceedMaxBorrowValue

datatype ZeroCopyReleaseError = RetrieveBufferFull

definition State_Sender :: "8 word" where
  "State_Sender = 1"

definition State_Receiver :: "8 word" where
  "State_Receiver = 2"

record Management =
  zm_name :: FixedSizeByteString
  zm_receive_channel :: SafelyOverflowingIndexQueue
  zm_retrieve_channel :: IndexQueue
  zm_enable_safe_overflow :: bool
  zm_max_borrowed_samples :: nat
  zm_state :: "8 word"

record ZeroCopyBuilder =
  zb_name :: FixedSizeByteString
  zb_buffer_size :: nat
  zb_enable_safe_overflow :: bool
  zb_max_borrowed_samples :: nat
  zb_config :: NamedConceptConfiguration

definition DEFAULT_BUFFER_SIZE :: nat where
  "DEFAULT_BUFFER_SIZE = 4"

definition DEFAULT_ENABLE_SAFE_OVERFLOW :: bool where
  "DEFAULT_ENABLE_SAFE_OVERFLOW = False"

definition DEFAULT_MAX_BORROWED_SAMPLES :: nat where
  "DEFAULT_MAX_BORROWED_SAMPLES = 4"

definition ZeroCopyBuilder_new :: "NamedConceptConfiguration \<Rightarrow> FixedSizeByteString \<Rightarrow> ZeroCopyBuilder" where
  "ZeroCopyBuilder_new default_config name =
     \<lparr>zb_name = name, zb_buffer_size = DEFAULT_BUFFER_SIZE,
      zb_enable_safe_overflow = DEFAULT_ENABLE_SAFE_OVERFLOW,
      zb_max_borrowed_samples = DEFAULT_MAX_BORROWED_SAMPLES, zb_config = default_config\<rparr>"

definition ZeroCopyBuilder_buffer_size :: "nat \<Rightarrow> ZeroCopyBuilder \<Rightarrow> ZeroCopyBuilder" where
  "ZeroCopyBuilder_buffer_size v b = b\<lparr>zb_buffer_size := v\<rparr>"

definition ZeroCopyBuilder_enable_safe_overflow :: "bool \<Rightarrow> ZeroCopyBuilder \<Rightarrow> ZeroCopyBuilder" where
  "ZeroCopyBuilder_enable_safe_overflow v b = b\<lparr>zb_enable_safe_overflow := v\<rparr>"

definition ZeroCopyBuilder_receiver_max_borrowed_samples :: "nat \<Rightarrow> ZeroCopyBuilder \<Rightarrow> ZeroCopyBuilder" where
  "ZeroCopyBuilder_receiver_max_borrowed_samples v b = b\<lparr>zb_max_borrowed_samples := v\<rparr>"

definition check_compatibility :: "ZeroCopyBuilder \<Rightarrow> Management \<Rightarrow> (unit, ZeroCopyCreationError) result" where
  "check_compatibility b entry =
     (if zm_enable_safe_overflow entry \<noteq> zb_enable_safe_overflow b then Err IncompatibleOverflowSetting
      else if zm_max_borrowed_samples entry \<noteq> zb_max_borrowed_samples b then Err IncompatibleMaxBorrowedSampleSetting
      else if so_capacity (zm_receive_channel entry) \<noteq> zb_buffer_size b then Err IncompatibleBufferSize
      else Ok ())"

definition retrieve_channel_size :: "ZeroCopyBuilder \<Rightarrow> nat" where
  "retrieve_channel_size b = zb_buffer_size b + zb_max_borrowed_samples b + 1"

text \<open>
  The global storage maps a file path to an \<open>Arc<Management>\<close>; the management data live in a
  store, since the ports and the storage share them.
\<close>

record ZeroCopyStorage =
  zs_storage :: "char list \<Rightarrow> nat option"
  zs_store :: "nat \<Rightarrow> Management option"
  zs_next :: nat

record ZeroCopySender =
  zcs_mgmt :: nat
  zcs_config :: NamedConceptConfiguration

record ZeroCopyReceiver =
  zcr_mgmt :: nat
  zcr_borrow_counter :: nat
  zcr_config :: NamedConceptConfiguration

definition Management_new :: "8 word \<Rightarrow> ZeroCopyBuilder \<Rightarrow> Management" where
  "Management_new st b =
     \<lparr>zm_name = zb_name b,
      zm_receive_channel = SafelyOverflowingIndexQueue_new (zb_buffer_size b),
      zm_retrieve_channel = IndexQueue_new (retrieve_channel_size b),
      zm_enable_safe_overflow = zb_enable_safe_overflow b,
      zm_max_borrowed_samples = zb_max_borrowed_samples b, zm_state = st\<rparr>"

text \<open>
  What \<open>create_sender\<close> and \<open>create_receiver\<close> do to the storage: reserve the port \<open>st\<close> in an
  existing entry or insert a new one. \<open>locked\<close> says whether the lock of the storage could be
  acquired, \<open>junk\<close> is the memory of the file path.
\<close>

definition connect_port ::
  "8 word \<Rightarrow> char list \<Rightarrow> bool \<Rightarrow> ZeroCopyBuilder \<Rightarrow> ZeroCopyStorage
     \<Rightarrow> ((nat, ZeroCopyCreationError) result \<times> ZeroCopyStorage) outcome" where
  "connect_port port junk locked b st =
     (if \<not> locked then Ret (Err ZeroCopyCreation_InternalError, st)
      else outcome_bind (path_for junk (zb_config b) (zb_name b)) (\<lambda>full_path.
        case zs_storage st (as_bytes full_path) of
          Some a \<Rightarrow>
            (case zs_store st a of
               None \<Rightarrow> Panic
             | Some entry \<Rightarrow>
                 if zm_state entry AND port \<noteq> 0 then Ret (Err AnotherInstanceIsAlreadyConnected, st)
                 else (case check_compatibility b entry of
                     Err e \<Rightarrow> Ret (Err e, st)
                   | Ok _ \<Rightarrow> Ret (Ok a, st\<lparr>zs_store := (zs_store st)(a \<mapsto> entry\<lparr>zm_state := zm_state entry OR port\<rparr>)\<rparr>)))
        | None \<Rightarrow>
            Ret (Ok (zs_next st),
              st\<lparr>zs_store := (zs_store st)(zs_next st \<mapsto> Management_new port b),
                 zs_storage := (zs_storage st)(as_bytes full_path \<mapsto> zs_next st),
                 zs_next := zs_next st + 1\<rparr>)))"

definition create_sender ::
  "char list \<Rightarrow> bool \<Rightarrow> ZeroCopyBuilder \<Rightarrow> ZeroCopyStorage
     \<Rightarrow> ((ZeroCopySender, ZeroCopyCreationError) result \<times> ZeroCopyStorage) outcome" where
  "create_sender junk locked b st =
     outcome_bind (connect_port State_Sender junk locked b st) (\<lambda>(r, st').
       case r of Err e \<Rightarrow> Ret (Err e, st')
       | Ok a \<Rightarrow> Ret (Ok \<lparr>zcs_mgmt = a, zcs_config = zb_config b\<rparr>, st'))"

definition create_receiver ::
  "char list \<Rightarrow> bool \<Rightarrow> ZeroCopyBuilder \<Rightarrow> ZeroCopyStorage
     \<Rightarrow> ((ZeroCopyReceiver, ZeroCopyCreationError) result \<times> ZeroCopyStorage) outcome" where
  "create_receiver junk locked b st =
     outcome_bind (connect_port State_Receiver junk locked b st) (\<lambda>(r, st').
       case r of Err e \<Rightarrow> Ret (Err e, st')
       | Ok a \<Rightarrow> Ret (Ok \<lparr>zcr_mgmt = a, zcr_borrow_counter = 0, zcr_config = zb_config b\<rparr>, st'))"

text \<open>The drop of a sender or a receiver.\<close>

definition cleanup_connection ::
  "char list \<Rightarrow> bool \<Rightarrow> FixedSizeByteString \<Rightarrow> NamedConceptConfiguration \<Rightarrow> 8 word
     \<Rightarrow> ZeroCopyStorage \<Rightarrow> ZeroCopyStorage outcome" where
  "cleanup_connection junk locked name config port st =
     (if \<not> locked then Ret st
      else outcome_bind (path_for junk config name) (\<lambda>full_path.
        case zs_storage st (as_bytes full_path) of
          None \<Rightarrow> Panic
        | Some a \<Rightarrow>
            (case zs_store st a of
               None \<Rightarrow> Panic
             | Some v \<Rightarrow>
                 let current_state = zm_state v;
                     st1 = st\<lparr>zs_store := (zs_store st)(a \<mapsto> v\<lparr>zm_state := current_state AND NOT port\<rparr>)\<rparr>
                 in if current_state = port
                    then Ret (st1\<lparr>zs_storage := (zs_storage st1)(as_bytes full_path := None)\<rparr>)
                    else Ret st1)))"

definition does_exist_cfg ::
  "char list \<Rightarrow> bool \<Rightarrow> FixedSizeByteString \<Rightarrow> NamedConceptConfiguration \<Rightarrow> ZeroCopyStorage
     \<Rightarrow> (bool, NamedConceptDoesExistError) result outcome" where
  "does_exist_cfg junk locked name cfg st =
     (if \<not> locked then Ret (Err DoesExist_InternalError)
      else outcome_bind (path_for junk cfg name) (\<lambda>p. Ret (Ok (zs_storage st (as_bytes p) \<noteq> None))))"

definition remove_cfg ::
  "char list \<Rightarrow> bool \<Rightarrow> FixedSizeByteString \<Rightarrow> NamedConceptConfiguration \<Rightarrow> ZeroCopyStorage
     \<Rightarrow> (bool \<times> ZeroCopyStorage) outcome" where
  "remove_cfg junk locked name cfg st =
     outcome_bind (path_for junk cfg name) (\<lambda>p.
       if \<not> locked then Panic
       else Ret (zs_storage st (as_bytes p) \<noteq> None, st\<lparr>zs_storage := (zs_storage st)(as_bytes p := None)\<rparr>))"

section \<open>Sending and receiving\<close>

definition is_connected :: "Management \<Rightarrow> bool" where
  "is_connected m \<longleftrightarrow> zm_state m AND State_Sender \<noteq> 0 \<and> zm_state m AND State_Receiver \<noteq> 0"

definition try_send ::
  "nat \<Rightarrow> Management \<Rightarrow> (nat option, ZeroCopySendError) result \<times> Management" where
  "try_send ptr m =
     (let space_in_retrieve_channel =
            iq_capacity (zm_retrieve_channel m) - IndexQueue_len (zm_retrieve_channel m)
      in if space_in_retrieve_channel
              \<le> zm_max_borrowed_samples m + SafelyOverflowingIndexQueue_len (zm_receive_channel m)
         then (Err ClearRetrieveChannelBeforeSend, m)
         else if \<not> zm_enable_safe_overflow m \<and> SafelyOverflowingIndexQueue_is_full (zm_receive_channel m)
         then (Err ReceiveBufferFull, m)
         else (case SafelyOverflowingIndexQueue_push ptr (zm_receive_channel m) of
                 (Some v, q) \<Rightarrow> (Ok (Some v), m\<lparr>zm_receive_channel := q\<rparr>)
               | (None, q) \<Rightarrow> (Ok None, m\<lparr>zm_receive_channel := q\<rparr>)))"

text \<open>
  \<open>blocking_send\<close> looks at the management data again and again while the receive channel is
  full; \<open>ms\<close> are the states it sees. \<open>None\<close> is a call that is still waiting.
\<close>

fun blocking_send ::
  "nat \<Rightarrow> Management list \<Rightarrow> ((nat option, ZeroCopySendError) result \<times> Management) option" where
  "blocking_send ptr [] = None"
| "blocking_send ptr (m # ms) =
     (if \<not> zm_enable_safe_overflow m \<and> SafelyOverflowingIndexQueue_is_full (zm_receive_channel m)
      then blocking_send ptr ms else Some (try_send ptr m))"

definition reclaim :: "Management \<Rightarrow> nat option \<times> Management" where
  "reclaim m = (case IndexQueue_pop (zm_retrieve_channel m) of (r, q) \<Rightarrow> (r, m\<lparr>zm_retrieve_channel := q\<rparr>))"

text \<open>The receiver, with its borrow counter.\<close>

definition receive ::
  "nat \<Rightarrow> Management \<Rightarrow> (nat option, ZeroCopyReceiveError) result \<times> nat \<times> Management" where
  "receive borrow_counter m =
     (if zm_max_borrowed_samples m \<le> borrow_counter then (Err ReceiveWouldExceedMaxBorrowValue, borrow_counter, m)
      else case SafelyOverflowingIndexQueue_pop (zm_receive_channel m) of
             (None, q) \<Rightarrow> (Ok None, borrow_counter, m\<lparr>zm_receive_channel := q\<rparr>)
           | (Some v, q) \<Rightarrow> (Ok (Some v), borrow_counter + 1, m\<lparr>zm_receive_channel := q\<rparr>))"

text \<open>The counter is decremented after the push; \<open>overflow_checks\<close> is the build profile.\<close>

definition release ::
  "bool \<Rightarrow> nat \<Rightarrow> nat \<Rightarrow> Management \<Rightarrow> ((unit, ZeroCopyReleaseError) result \<times> nat \<times> Management) outcome" where
  "release overflow_checks ptr borrow_counter m =
     (case IndexQueue_push ptr (zm_retrieve_channel m) of
        (True, q) \<Rightarrow> outcome_bind (usize_sub overflow_checks borrow_counter 1) (\<lambda>n.
                       Ret (Ok (), n, m\<lparr>zm_retrieve_channel := q\<rparr>))
      | (False, q) \<Rightarrow> Ret (Err RetrieveBufferFull, borrow_counter, m\<lparr>zm_retrieve_channel := q\<rparr>))"

section \<open>A connection in use\<close>

text \<open>
  The sender and the receiver of one connection, taking turns call by call. The samples the
  receiver holds are those it received and did not release; the lists of sent, displaced and
  reclaimed samples record what the sender was told.
\<close>

record zc_conf =
  zc_mgmt :: Management
  zc_counter :: nat
  zc_borrowed :: "nat list"
  zc_sent :: "nat list"
  zc_displaced :: "nat list"
  zc_reclaimed :: "nat list"

definition zc_start :: "ZeroCopyBuilder \<Rightarrow> zc_conf" where
  "zc_start b = \<lparr>zc_mgmt = Management_new (State_Sender OR State_Receiver) b, zc_counter = 0,
     zc_borrowed = [], zc_sent = [], zc_displaced = [], zc_reclaimed = []\<rparr>"

inductive zc_step :: "bool \<Rightarrow> zc_conf \<Rightarrow> zc_conf \<Rightarrow> bool" for checks where
  zc_send: "try_send p (zc_mgmt s) = (Ok r, m) \<Longrightarrow>
    zc_step checks s (s\<lparr>zc_mgmt := m, zc_sent := zc_sent s @ [p],
      zc_displaced := zc_displaced s @ (case r of None \<Rightarrow> [] | Some v \<Rightarrow> [v])\<rparr>)"
| zc_send_refused: "try_send p (zc_mgmt s) = (Err e, m) \<Longrightarrow> zc_step checks s (s\<lparr>zc_mgmt := m\<rparr>)"
| zc_reclaim: "reclaim (zc_mgmt s) = (r, m) \<Longrightarrow>
    zc_step checks s (s\<lparr>zc_mgmt := m, zc_reclaimed := zc_reclaimed s @ (case r of None \<Rightarrow> [] | Some v \<Rightarrow> [v])\<rparr>)"
| zc_receive: "receive (zc_counter s) (zc_mgmt s) = (Ok r, n, m) \<Longrightarrow>
    zc_step checks s (s\<lparr>zc_mgmt := m, zc_counter := n,
      zc_borrowed := zc_borrowed s @ (case r of None \<Rightarrow> [] | Some v \<Rightarrow> [v])\<rparr>)"
| zc_receive_refused: "receive (zc_counter s) (zc_mgmt s) = (Err e, n, m) \<Longrightarrow>
    zc_step checks s (s\<lparr>zc_mgmt := m, zc_counter := n\<rparr>)"
| zc_release: "p \<in> set (zc_borrowed s) \<Longrightarrow> release checks p (zc_counter s) (zc_mgmt s) = Ret (Ok (), n, m) \<Longrightarrow>
    zc_step checks s (s\<lparr>zc_mgmt := m, zc_counter := n, zc_borrowed := remove1 p (zc_borrowed s)\<rparr>)"
| zc_release_refused: "p \<in> set (zc_borrowed s) \<Longrightarrow> release checks p (zc_counter s) (zc_mgmt s) = Ret (Err e, n, m) \<Longrightarrow>
    zc_step checks s (s\<lparr>zc_mgmt := m, zc_counter := n\<rparr>)"

inductive_cases zc_stepE: "zc_step checks s t"

definition recv_list :: "Management \<Rightarrow> nat list" where
  "recv_list m = SafelyOverflowingIndexQueue_list (zm_receive_channel m)"

definition retr_list :: "Management \<Rightarrow> nat list" where
  "retr_list m = IndexQueue_list (zm_retrieve_channel m)"

definition Management_inv :: "Management \<Rightarrow> bool" where
  "Management_inv m \<longleftrightarrow> SafelyOverflowingIndexQueue_inv (zm_receive_channel m)
     \<and> IndexQueue_inv (zm_retrieve_channel m)"

definition retr_capacity :: "Management \<Rightarrow> nat" where
  "retr_capacity m = iq_capacity (zm_retrieve_channel m)"

text \<open>The settings of a connection do not change.\<close>

definition same_settings :: "Management \<Rightarrow> Management \<Rightarrow> bool" where
  "same_settings m m' \<longleftrightarrow> zm_max_borrowed_samples m' = zm_max_borrowed_samples m
     \<and> retr_capacity m' = retr_capacity m \<and> so_capacity (zm_receive_channel m') = so_capacity (zm_receive_channel m)
     \<and> zm_enable_safe_overflow m' = zm_enable_safe_overflow m \<and> zm_state m' = zm_state m"

lemma Management_new_inv:
  "Management_inv (Management_new st b)" "recv_list (Management_new st b) = []"
  "retr_list (Management_new st b) = []"
  by (simp_all add: Management_inv_def Management_new_def recv_list_def retr_list_def
      so_new_inv so_new_list IndexQueue_new_inv IndexQueue_new_list)

lemma try_send_Ok:
  assumes "Management_inv m" "try_send p m = (Ok r, m')"
  shows "Management_inv m'" "same_settings m m'" "retr_list m' = retr_list m"
    "(case r of None \<Rightarrow> [] | Some v \<Rightarrow> [v]) @ recv_list m' = recv_list m @ [p]"
    "length (retr_list m) + length (recv_list m) + zm_max_borrowed_samples m < retr_capacity m"
proof -
  have q: "SafelyOverflowingIndexQueue_inv (zm_receive_channel m)" "IndexQueue_inv (zm_retrieve_channel m)"
    using assms(1) by (simp_all add: Management_inv_def)
  obtain r' q' where push: "SafelyOverflowingIndexQueue_push p (zm_receive_channel m) = (r', q')" by fastforce
  have sp: "\<not> retr_capacity m - length (retr_list m) \<le> zm_max_borrowed_samples m + length (recv_list m)"
    and r: "r = r'" "m' = m\<lparr>zm_receive_channel := q'\<rparr>"
    using assms(2) push q
    by (auto simp: try_send_def Let_def retr_capacity_def recv_list_def retr_list_def IndexQueue_queries so_queries
        split: if_splits option.splits)
  show "Management_inv m'" "same_settings m m'" "retr_list m' = retr_list m"
    "(case r of None \<Rightarrow> [] | Some v \<Rightarrow> [v]) @ recv_list m' = recv_list m @ [p]"
    using so.o_push_conserves [OF q(1) push] r q(2)
    by (simp_all add: Management_inv_def same_settings_def retr_capacity_def retr_list_def recv_list_def)
  show "length (retr_list m) + length (recv_list m) + zm_max_borrowed_samples m < retr_capacity m"
    using sp by linarith
qed

lemma try_send_Err: "try_send p m = (Err e, m') \<Longrightarrow> m' = m"
  by (auto simp: try_send_def Let_def split: if_splits option.splits prod.splits)

lemma reclaim_result:
  assumes "Management_inv m" "reclaim m = (r, m')"
  shows "Management_inv m'" "same_settings m m'" "recv_list m' = recv_list m"
    "retr_list m = (case r of None \<Rightarrow> [] | Some v \<Rightarrow> [v]) @ retr_list m'"
proof -
  have q: "IndexQueue_inv (zm_retrieve_channel m)" using assms(1) by (simp add: Management_inv_def)
  obtain q' where pop: "IndexQueue_pop (zm_retrieve_channel m) = (r, q')" "m' = m\<lparr>zm_retrieve_channel := q'\<rparr>"
    using assms(2) by (auto simp: reclaim_def split: prod.splits)
  have "IndexQueue_inv q' \<and> iq_capacity q' = iq_capacity (zm_retrieve_channel m)
    \<and> IndexQueue_list (zm_retrieve_channel m) = (case r of None \<Rightarrow> [] | Some v \<Rightarrow> [v]) @ IndexQueue_list q'"
    using iq.pop_empty [OF q] iq.pop_some [OF q _ pop(1)] pop(1) q
    by (cases "IndexQueue_list (zm_retrieve_channel m)") auto
  then show "Management_inv m'" "same_settings m m'" "recv_list m' = recv_list m"
    "retr_list m = (case r of None \<Rightarrow> [] | Some v \<Rightarrow> [v]) @ retr_list m'"
    using pop(2) assms(1) by (auto simp: Management_inv_def same_settings_def retr_capacity_def retr_list_def recv_list_def)
qed

lemma receive_Ok:
  assumes "Management_inv m" "receive n m = (Ok r, n', m')"
  shows "Management_inv m'" "same_settings m m'" "retr_list m' = retr_list m"
    "recv_list m = (case r of None \<Rightarrow> [] | Some v \<Rightarrow> [v]) @ recv_list m'"
    "n' = n + length (case r of None \<Rightarrow> [] | Some v \<Rightarrow> [v])" "n < zm_max_borrowed_samples m"
proof -
  have q: "SafelyOverflowingIndexQueue_inv (zm_receive_channel m)" using assms(1) by (simp add: Management_inv_def)
  obtain q' where pop: "SafelyOverflowingIndexQueue_pop (zm_receive_channel m) = (r, q')" "m' = m\<lparr>zm_receive_channel := q'\<rparr>"
    and n: "n' = n + length (case r of None \<Rightarrow> [] | Some v \<Rightarrow> [v])" "n < zm_max_borrowed_samples m"
    using assms(2) by (auto simp: receive_def split: if_splits option.splits prod.splits)
  have "SafelyOverflowingIndexQueue_inv q' \<and> so_capacity q' = so_capacity (zm_receive_channel m)
    \<and> SafelyOverflowingIndexQueue_list (zm_receive_channel m)
        = (case r of None \<Rightarrow> [] | Some v \<Rightarrow> [v]) @ SafelyOverflowingIndexQueue_list q'"
    using so.o_pop_empty [OF q] so.o_pop_some [OF q _ pop(1)] pop(1) q
    by (cases "SafelyOverflowingIndexQueue_list (zm_receive_channel m)") auto
  then show "Management_inv m'" "same_settings m m'" "retr_list m' = retr_list m"
    "recv_list m = (case r of None \<Rightarrow> [] | Some v \<Rightarrow> [v]) @ recv_list m'"
    "n' = n + length (case r of None \<Rightarrow> [] | Some v \<Rightarrow> [v])" "n < zm_max_borrowed_samples m"
    using pop(2) n assms(1) by (auto simp: Management_inv_def same_settings_def retr_capacity_def retr_list_def recv_list_def)
qed

lemma receive_Err: "receive n m = (Err e, n', m') \<Longrightarrow> m' = m \<and> n' = n"
  by (auto simp: receive_def split: if_splits option.splits prod.splits)

text \<open>With room in the retrieve channel the sample gets into it, and the counter goes down.\<close>

lemma release_push:
  assumes "Management_inv m" "length (retr_list m) < retr_capacity m"
  obtains m' where "\<And>checks n. release checks p n m = outcome_bind (usize_sub checks n 1) (\<lambda>n'. Ret (Ok (), n', m'))"
    "Management_inv m'" "same_settings m m'" "recv_list m' = recv_list m" "retr_list m' = retr_list m @ [p]"
proof -
  have q: "IndexQueue_inv (zm_retrieve_channel m)" using assms(1) by (simp add: Management_inv_def)
  obtain b q' where push: "IndexQueue_push p (zm_retrieve_channel m) = (b, q')" by fastforce
  then have b: "b" "IndexQueue_inv q'" "IndexQueue_list q' = retr_list m @ [p]" "iq_capacity q' = retr_capacity m"
    using iq.push_room [OF q _ push] assms(2) by (auto simp: retr_list_def retr_capacity_def)
  show ?thesis
    by (rule that [of "m\<lparr>zm_retrieve_channel := q'\<rparr>"])
      (use push b assms(1) in \<open>simp_all add: release_def Management_inv_def same_settings_def retr_capacity_def retr_list_def recv_list_def\<close>)
qed

lemma release_room:
  assumes "Management_inv m" "length (retr_list m) < retr_capacity m" "0 < n"
  shows "\<exists>m'. release checks p n m = Ret (Ok (), n - 1, m') \<and> Management_inv m' \<and> same_settings m m'
    \<and> recv_list m' = recv_list m \<and> retr_list m' = retr_list m @ [p]"
  using release_push [OF assms(1,2), of p] assms(3) by (metis One_nat_def Suc_leI outcome_bind.simps(1) usize_sub_le)

lemma release_full:
  assumes "Management_inv m" "length (retr_list m) = retr_capacity m"
  shows "release checks p n m = Ret (Err RetrieveBufferFull, n, m)"
proof -
  have q: "IndexQueue_inv (zm_retrieve_channel m)" using assms(1) by (simp add: Management_inv_def)
  then show ?thesis
    using iq.push_full [OF q] assms(2) by (simp add: release_def retr_list_def retr_capacity_def)
qed

definition zc_inv :: "ZeroCopyBuilder \<Rightarrow> zc_conf \<Rightarrow> bool" where
  "zc_inv b s \<longleftrightarrow> Management_inv (zc_mgmt s) \<and> same_settings (Management_new (State_Sender OR State_Receiver) b) (zc_mgmt s)
     \<and> zc_counter s = length (zc_borrowed s) \<and> zc_counter s \<le> zm_max_borrowed_samples (zc_mgmt s)
     \<and> length (retr_list (zc_mgmt s)) + length (recv_list (zc_mgmt s)) + zc_counter s \<le> retr_capacity (zc_mgmt s)
     \<and> mset (zc_sent s) = mset (zc_displaced s) + mset (recv_list (zc_mgmt s)) + mset (zc_borrowed s)
         + mset (retr_list (zc_mgmt s)) + mset (zc_reclaimed s)"

lemma same_settings_trans: "same_settings a b \<Longrightarrow> same_settings b c \<Longrightarrow> same_settings a c"
  by (simp add: same_settings_def)

lemma zc_inv_start: "zc_inv b (zc_start b)"
  by (simp add: zc_inv_def zc_start_def Management_new_inv same_settings_def)

lemma zc_inv_room:
  assumes "zc_inv b s" "p \<in> set (zc_borrowed s)"
  shows "0 < zc_counter s" "length (retr_list (zc_mgmt s)) < retr_capacity (zc_mgmt s)"
proof -
  have "0 < length (zc_borrowed s)" using assms(2) by (auto simp: length_pos_if_in_set)
  then show "0 < zc_counter s" using assms(1) by (auto simp: zc_inv_def)
  then show "length (retr_list (zc_mgmt s)) < retr_capacity (zc_mgmt s)"
    using assms(1) unfolding zc_inv_def by linarith
qed

lemma zc_inv_step:
  assumes inv: "zc_inv b s" and step: "zc_step checks s t"
  shows "zc_inv b t"
  using step
proof cases
  case (zc_send p r m)
  have i: "Management_inv (zc_mgmt s)" using inv by (simp add: zc_inv_def)
  note f = try_send_Ok [OF i zc_send(2)]
  have "mset (case r of None \<Rightarrow> [] | Some v \<Rightarrow> [v]) + mset (recv_list m) = mset (recv_list (zc_mgmt s)) + {#p#}"
    using f(4) by (metis mset.simps mset_append)
  moreover have "length (case r of None \<Rightarrow> [] | Some v \<Rightarrow> [v]) + length (recv_list m) = length (recv_list (zc_mgmt s)) + 1"
    using f(4) by (metis One_nat_def length_append list.size(3,4) add.right_neutral add_Suc_right)
  ultimately show ?thesis
    using inv f(1-3,5) same_settings_trans [OF _ f(2)] zc_send(1)
    by (auto simp: zc_inv_def same_settings_def ac_simps)
next
  case (zc_send_refused p e m)
  then show ?thesis using inv try_send_Err [OF zc_send_refused(2)] by (simp add: zc_inv_def)
next
  case (zc_reclaim r m)
  have i: "Management_inv (zc_mgmt s)" using inv by (simp add: zc_inv_def)
  note f = reclaim_result [OF i zc_reclaim(2)]
  show ?thesis
    using inv f same_settings_trans [OF _ f(2)] zc_reclaim(1)
    by (auto simp: zc_inv_def same_settings_def ac_simps)
next
  case (zc_receive r n m)
  have i: "Management_inv (zc_mgmt s)" using inv by (simp add: zc_inv_def)
  note f = receive_Ok [OF i zc_receive(2)]
  show ?thesis
    using inv f same_settings_trans [OF _ f(2)] zc_receive(1)
    by (auto simp: zc_inv_def same_settings_def ac_simps split: option.splits)
next
  case (zc_receive_refused e n m)
  then show ?thesis using inv receive_Err [OF zc_receive_refused(2)] by (simp add: zc_inv_def)
next
  case (zc_release p n m)
  have i: "Management_inv (zc_mgmt s)" using inv by (simp add: zc_inv_def)
  note pos = zc_inv_room(1) [OF inv zc_release(2)] and room = zc_inv_room(2) [OF inv zc_release(2)]
  have f: "n = zc_counter s - 1" "Management_inv m" "same_settings (zc_mgmt s) m"
    "recv_list m = recv_list (zc_mgmt s)" "retr_list m = retr_list (zc_mgmt s) @ [p]"
    using release_room [OF i room pos, of checks p] zc_release(3) by auto
  have "mset (zc_borrowed s) = mset (remove1 p (zc_borrowed s)) + {#p#}"
    using zc_release(2) by (simp add: insert_DiffM)
  moreover have "Suc (length (remove1 p (zc_borrowed s))) = length (zc_borrowed s)"
    using length_pos_if_in_set [OF zc_release(2)] zc_release(2) by (simp add: length_remove1)
  moreover have "Suc n = zc_counter s" using f(1) pos by simp
  ultimately show ?thesis
    using inv f(2-5) same_settings_trans [OF _ f(3)] zc_release(1)
    by (auto simp: zc_inv_def same_settings_def ac_simps)
next
  case (zc_release_refused p e n m)
  have i: "Management_inv (zc_mgmt s)" using inv by (simp add: zc_inv_def)
  show ?thesis
    using release_room [OF i zc_inv_room(2,1) [OF inv zc_release_refused(2)], of checks p] zc_release_refused(3) by auto
qed

interpretation zc: inductive_invariant "\<lambda>s. s = zc_start b" "zc_step checks" "zc_inv b"
  using zc_inv_start zc_inv_step by unfold_locales auto

text \<open>
  C16: When sender and receiver take turns call by call, no sample is lost or duplicated on a
  connection: every sent sample is handed back as displaced, waits in the receive channel, is
  held by the receiver, waits in the retrieve channel or was reclaimed, and exactly one of these.
  The receiver never holds more samples than agreed, and the check in \<open>try_send\<close> is enough for
  every release of a held sample to succeed, in a build with and without overflow checks.
\<close>
theorem zero_copy_connection_conserves:
  assumes "reachable (\<lambda>s. s = zc_start b) (zc_step checks) s"
  shows "mset (zc_sent s) = mset (zc_displaced s) + mset (recv_list (zc_mgmt s)) + mset (zc_borrowed s)
           + mset (retr_list (zc_mgmt s)) + mset (zc_reclaimed s)
    \<and> length (zc_borrowed s) \<le> zb_max_borrowed_samples b
    \<and> (p \<in> set (zc_borrowed s) \<longrightarrow>
         (\<exists>n m. release checks p (zc_counter s) (zc_mgmt s) = Ret (Ok (), n, m)))"
proof -
  have inv: "zc_inv b s" using zc.reachable_inv assms by blast
  then have i: "Management_inv (zc_mgmt s)" and c: "zc_counter s = length (zc_borrowed s)"
    by (simp_all add: zc_inv_def)
  have "length (zc_borrowed s) \<le> zb_max_borrowed_samples b"
    using inv by (auto simp: zc_inv_def same_settings_def Management_new_def)
  moreover have "\<exists>n m. release checks p (zc_counter s) (zc_mgmt s) = Ret (Ok (), n, m)" if "p \<in> set (zc_borrowed s)"
    using release_room [OF i zc_inv_room(2,1) [OF inv that], of checks p] by blast
  ultimately show ?thesis using inv by (simp add: zc_inv_def)
qed

theorem zero_copy_connection_conserves_witness:
  "\<exists>b s. reachable (\<lambda>s. s = zc_start b) (zc_step True) s \<and> zc_borrowed s = [7] \<and> zc_sent s = [7]
     \<and> (\<exists>n m. release True 7 (zc_counter s) (zc_mgmt s) = Ret (Ok (), n, m))"
proof -
  let ?e = "\<lparr>bs_len = 0, bs_data = [NUL], bs_terminator = NUL\<rparr>"
  let ?b = "\<lparr>zb_name = ?e, zb_buffer_size = 2, zb_enable_safe_overflow = True, zb_max_borrowed_samples = 1,
     zb_config = \<lparr>nc_suffix = ?e, nc_prefix = ?e, nc_path_hint = ?e\<rparr>\<rparr>"
  let ?s0 = "zc_start ?b"
  define m1 where "m1 = snd (try_send 7 (zc_mgmt ?s0))"
  have r1: "fst (try_send 7 (zc_mgmt ?s0)) = Ok None" by code_simp
  have "try_send 7 (zc_mgmt ?s0) = (Ok None, m1)" unfolding m1_def using r1 by (metis prod.collapse)
  note step1 = zc_send [OF this]
  define s1 where "s1 = ?s0\<lparr>zc_mgmt := m1, zc_sent := zc_sent ?s0 @ [7], zc_displaced := zc_displaced ?s0 @ (case None of None \<Rightarrow> [] | Some v \<Rightarrow> [v])\<rparr>"
  define m2 where "m2 = snd (snd (receive (zc_counter s1) (zc_mgmt s1)))"
  have r2: "fst (receive (zc_counter s1) (zc_mgmt s1)) = Ok (Some 7) \<and> fst (snd (receive (zc_counter s1) (zc_mgmt s1))) = 1"
    unfolding s1_def m1_def by code_simp
  have "receive (zc_counter s1) (zc_mgmt s1) = (Ok (Some 7), 1, m2)"
    unfolding m2_def using r2 by (metis prod.collapse)
  note step2 = zc_receive [OF this]
  define s2 where "s2 = s1\<lparr>zc_mgmt := m2, zc_counter := 1, zc_borrowed := zc_borrowed s1 @ (case Some 7 of None \<Rightarrow> [] | Some v \<Rightarrow> [v])\<rparr>"
  have "reachable (\<lambda>s. s = ?s0) (zc_step True) ?s0" by (rule reachable_init) simp
  then have "reachable (\<lambda>s. s = ?s0) (zc_step True) s1" using step1 unfolding s1_def by (rule reachable_step)
  then have reach: "reachable (\<lambda>s. s = ?s0) (zc_step True) s2" using step2 unfolding s2_def by (rule reachable_step)
  have "zc_borrowed s2 = [7]" "zc_sent s2 = [7]" by (simp_all add: s2_def s1_def zc_start_def)
  then show ?thesis using zero_copy_connection_conserves [OF reach, of 7] reach by auto
qed

section \<open>Overlapping calls\<close>

text \<open>
  \<open>try_send\<close> reads the length of the retrieve channel first and the length of the receive channel
  afterwards; a call of the receiver can come in between. The push at the end of the call and the
  calls of the receiver are single steps.
\<close>

datatype zcr_pc = ZCR_idle | ZCR_space nat nat

record zcr_conf =
  zx_mgmt :: Management
  zx_counter :: nat
  zx_borrowed :: "nat list"
  zx_pc :: zcr_pc

definition zcr_start :: "ZeroCopyBuilder \<Rightarrow> zcr_conf" where
  "zcr_start b = \<lparr>zx_mgmt = Management_new (State_Sender OR State_Receiver) b, zx_counter = 0,
     zx_borrowed = [], zx_pc = ZCR_idle\<rparr>"

definition try_send_space :: "Management \<Rightarrow> nat" where
  "try_send_space m = iq_capacity (zm_retrieve_channel m) - IndexQueue_len (zm_retrieve_channel m)"

definition try_send_rest ::
  "nat \<Rightarrow> nat \<Rightarrow> Management \<Rightarrow> (nat option, ZeroCopySendError) result \<times> Management" where
  "try_send_rest space ptr m =
     (if space \<le> zm_max_borrowed_samples m + SafelyOverflowingIndexQueue_len (zm_receive_channel m)
      then (Err ClearRetrieveChannelBeforeSend, m)
      else if \<not> zm_enable_safe_overflow m \<and> SafelyOverflowingIndexQueue_is_full (zm_receive_channel m)
      then (Err ReceiveBufferFull, m)
      else (case SafelyOverflowingIndexQueue_push ptr (zm_receive_channel m) of
              (Some v, q) \<Rightarrow> (Ok (Some v), m\<lparr>zm_receive_channel := q\<rparr>)
            | (None, q) \<Rightarrow> (Ok None, m\<lparr>zm_receive_channel := q\<rparr>)))"

lemma try_send_split: "try_send ptr m = try_send_rest (try_send_space m) ptr m"
  by (simp add: try_send_def try_send_rest_def try_send_space_def Let_def)

inductive zcr_step :: "bool \<Rightarrow> zcr_conf \<Rightarrow> zcr_conf \<Rightarrow> bool" for checks where
  zcr_space: "zx_pc s = ZCR_idle \<Longrightarrow>
    zcr_step checks s (s\<lparr>zx_pc := ZCR_space (try_send_space (zx_mgmt s)) p\<rparr>)"
| zcr_push: "zx_pc s = ZCR_space n p \<Longrightarrow> try_send_rest n p (zx_mgmt s) = (r, m) \<Longrightarrow>
    zcr_step checks s (s\<lparr>zx_pc := ZCR_idle, zx_mgmt := m\<rparr>)"
| zcr_receive: "receive (zx_counter s) (zx_mgmt s) = (Ok (Some v), n, m) \<Longrightarrow>
    zcr_step checks s (s\<lparr>zx_mgmt := m, zx_counter := n, zx_borrowed := zx_borrowed s @ [v]\<rparr>)"
| zcr_release: "p \<in> set (zx_borrowed s) \<Longrightarrow> release checks p (zx_counter s) (zx_mgmt s) = Ret (Ok (), n, m) \<Longrightarrow>
    zcr_step checks s (s\<lparr>zx_mgmt := m, zx_counter := n, zx_borrowed := remove1 p (zx_borrowed s)\<rparr>)"

text \<open>A schedule, for concrete runs: each action is a step or has no effect.\<close>

datatype zcr_action = Act_space nat | Act_push | Act_receive | Act_release nat

fun zcr_exec :: "bool \<Rightarrow> zcr_action \<Rightarrow> zcr_conf \<Rightarrow> zcr_conf" where
  "zcr_exec checks (Act_space p) s =
     (case zx_pc s of ZCR_idle \<Rightarrow> s\<lparr>zx_pc := ZCR_space (try_send_space (zx_mgmt s)) p\<rparr> | _ \<Rightarrow> s)"
| "zcr_exec checks Act_push s =
     (case zx_pc s of ZCR_space n p \<Rightarrow> s\<lparr>zx_pc := ZCR_idle, zx_mgmt := snd (try_send_rest n p (zx_mgmt s))\<rparr> | _ \<Rightarrow> s)"
| "zcr_exec checks Act_receive s =
     (case receive (zx_counter s) (zx_mgmt s) of
        (Ok (Some v), n, m) \<Rightarrow> s\<lparr>zx_mgmt := m, zx_counter := n, zx_borrowed := zx_borrowed s @ [v]\<rparr> | _ \<Rightarrow> s)"
| "zcr_exec checks (Act_release p) s =
     (if p \<in> set (zx_borrowed s)
      then (case release checks p (zx_counter s) (zx_mgmt s) of
              Ret (Ok _, n, m) \<Rightarrow> s\<lparr>zx_mgmt := m, zx_counter := n, zx_borrowed := remove1 p (zx_borrowed s)\<rparr> | _ \<Rightarrow> s)
      else s)"

lemma zcr_exec_step: "(zcr_step checks)\<^sup>=\<^sup>= s (zcr_exec checks a s)"
  by (cases a)
     (auto intro: zcr_step.intros zcr_push [OF _ surjective_pairing] split: zcr_pc.splits prod.splits result.splits option.splits outcome.splits)

lemma zcr_run_reachable: "reachable (\<lambda>s. s = s0) (zcr_step checks) (fold (zcr_exec checks) as s0)"
proof (induction as rule: rev_induct)
  case Nil
  then show ?case by (simp add: reachable_init)
next
  case (snoc a as)
  then show ?case using zcr_exec_step [of checks "fold (zcr_exec checks) as s0" a] by (auto intro: reachable_step)
qed

text \<open>
  C26: With overlapping calls the check of \<open>try_send\<close> is not enough: there is a run of a connection
  with buffer size 1 and one borrowed sample in which the receiver holds a sample and cannot
  release it, because the retrieve channel is full.
\<close>
theorem zero_copy_release_race:
  "\<exists>b s p. zb_buffer_size b = 1 \<and> zb_max_borrowed_samples b = 1
    \<and> reachable (\<lambda>s. s = zcr_start b) (zcr_step checks) s \<and> p \<in> set (zx_borrowed s)
    \<and> release checks p (zx_counter s) (zx_mgmt s) = Ret (Err RetrieveBufferFull, zx_counter s, zx_mgmt s)"
proof -
  let ?e = "\<lparr>bs_len = 0, bs_data = [NUL], bs_terminator = NUL\<rparr>"
  let ?b = "\<lparr>zb_name = ?e, zb_buffer_size = 1, zb_enable_safe_overflow = False, zb_max_borrowed_samples = 1,
     zb_config = \<lparr>nc_suffix = ?e, nc_prefix = ?e, nc_path_hint = ?e\<rparr>\<rparr>"
  let ?as = "[Act_space 1, Act_push, Act_receive, Act_release 1, Act_space 2, Act_push, Act_receive,
     Act_space 3, Act_push, Act_space 4, Act_release 2, Act_receive, Act_push, Act_release 3, Act_receive]"
  let ?s = "\<lambda>checks. fold (zcr_exec checks) ?as (zcr_start ?b)"
  have "4 \<in> set (zx_borrowed (?s checks)) \<and> release checks 4 (zx_counter (?s checks)) (zx_mgmt (?s checks))
      = Ret (Err RetrieveBufferFull, zx_counter (?s checks), zx_mgmt (?s checks))"
    by (rule bool_induct [of _ checks]) code_simp+
  moreover have "zb_buffer_size ?b = 1" "zb_max_borrowed_samples ?b = 1" by simp_all
  ultimately show ?thesis using zcr_run_reachable by blast
qed

end
