(* ===== verification/ZeroCopyShm.thy ===== *)
theory ZeroCopyShm
  imports ZeroCopyConnection Allocators
begin

text \<open>
  The shared-memory variant of the zero-copy connection,
  \<open>iceoryx2_cal/src/zero_copy_connection/posix_shared_memory.rs\<close>: its management data with
  relocatable queues, how the creator sets them up and an opener waits for that, and the
  reservation of the two ports by compare-and-exchange on the shared state.
\<close>

section \<open>Management data\<close>

definition State_None :: "8 word" where
  "State_None = 0"

definition State_MarkedForDestruction :: "8 word" where
  "State_MarkedForDestruction = 128"

definition IS_INITIALIZED_STATE_VALUE :: "64 word" where
  "IS_INITIALIZED_STATE_VALUE = 0xbeefaffedeadbeef"

record SharedManagementData =
  sm_receive_channel :: SafelyOverflowingIndexQueue
  sm_retrieve_channel :: IndexQueue
  sm_max_borrowed_samples :: nat
  sm_state :: "8 word"
  sm_init_state :: "64 word"
  sm_enable_safe_overflow :: bool

definition SharedManagementData_new :: "nat \<Rightarrow> nat \<Rightarrow> bool \<Rightarrow> nat \<Rightarrow> SharedManagementData" where
  "SharedManagementData_new receive_size retrieve_size overflow max_borrowed =
     \<lparr>sm_receive_channel = SafelyOverflowingIndexQueue_new_uninit receive_size,
      sm_retrieve_channel = IndexQueue_new_uninit retrieve_size,
      sm_max_borrowed_samples = max_borrowed, sm_state = State_None, sm_init_state = 0,
      sm_enable_safe_overflow = overflow\<rparr>"

text \<open>\<open>size_self\<close> is \<open>size_of::<SharedManagementData>()\<close>.\<close>

definition SharedManagementData_const_memory_size :: "nat \<Rightarrow> nat \<Rightarrow> nat \<Rightarrow> nat" where
  "SharedManagementData_const_memory_size size_self receive_size retrieve_size =
     size_self + IndexQueue_const_memory_size retrieve_size
       + SafelyOverflowingIndexQueue_const_memory_size receive_size"

definition ShmBuilder_receive_channel_size :: "ZeroCopyBuilder \<Rightarrow> nat" where
  "ShmBuilder_receive_channel_size b = zb_buffer_size b"

definition ShmBuilder_retrieve_channel_size :: "ZeroCopyBuilder \<Rightarrow> nat" where
  "ShmBuilder_retrieve_channel_size b = zb_buffer_size b + zb_max_borrowed_samples b + 1"

text \<open>
  The branch of \<open>create_or_open_shm\<close> in which the shared memory is new; \<open>base\<close> is its address.
\<close>

definition setup_shm :: "nat \<Rightarrow> nat \<Rightarrow> ZeroCopyBuilder \<Rightarrow> SharedManagementData outcome" where
  "setup_shm size_self base b =
     (let shm_size = SharedManagementData_const_memory_size size_self
            (ShmBuilder_receive_channel_size b) (ShmBuilder_retrieve_channel_size b);
          mgmt = SharedManagementData_new (ShmBuilder_receive_channel_size b) (ShmBuilder_retrieve_channel_size b)
            (zb_enable_safe_overflow b) (zb_max_borrowed_samples b);
          allocator = BumpAllocator_new (base + size_self) (shm_size - size_self)
      in outcome_bind (SafelyOverflowingIndexQueue_init BumpAllocator_allocate (sm_receive_channel mgmt) allocator)
           (\<lambda>(r, receive_channel, allocator). case r of Err _ \<Rightarrow> Panic
            | Ok _ \<Rightarrow> outcome_bind (IndexQueue_init BumpAllocator_allocate (sm_retrieve_channel mgmt) allocator)
                (\<lambda>(r, retrieve_channel, allocator). case r of Err _ \<Rightarrow> Panic
                 | Ok _ \<Rightarrow> Ret (mgmt\<lparr>sm_receive_channel := receive_channel,
                     sm_retrieve_channel := retrieve_channel, sm_init_state := IS_INITIALIZED_STATE_VALUE\<rparr>))))"

text \<open>
  The loop in which an opener waits for the initialisation. Each entry of the list is the value
  that is loaded and the time in milliseconds the following \<open>wait\<close> reports as elapsed since the
  wait object was created; \<open>None\<close> is an opener that is still waiting.
\<close>

definition MAX_CREATION_DURATION :: nat where
  "MAX_CREATION_DURATION = 10"

fun wait_for_init :: "(64 word \<times> nat) list \<Rightarrow> bool option" where
  "wait_for_init [] = None"
| "wait_for_init ((init_state, elapsed) # xs) =
     (if init_state = IS_INITIALIZED_STATE_VALUE then Some True
      else if elapsed < MAX_CREATION_DURATION then Some False
      else wait_for_init xs)"

text \<open>The checks of an opener after the wait.\<close>

definition check_opened :: "ZeroCopyBuilder \<Rightarrow> SharedManagementData \<Rightarrow> (unit, ZeroCopyCreationError) result" where
  "check_opened b mgmt =
     (if so_capacity (sm_receive_channel mgmt) \<noteq> ShmBuilder_receive_channel_size b then Err IncompatibleBufferSize
      else if iq_capacity (sm_retrieve_channel mgmt) \<noteq> ShmBuilder_retrieve_channel_size b
      then Err IncompatibleMaxBorrowedSampleSetting
      else if sm_enable_safe_overflow mgmt \<noteq> zb_enable_safe_overflow b then Err IncompatibleOverflowSetting
      else Ok ())"

text \<open>
  \<open>create_or_open_shm\<close>. What the operating system does is the argument \<open>shm\<close>: the call fails,
  or the memory is new, or it exists and the opener sees \<open>snapshots\<close> of the initialisation state
  while it waits and the management data \<open>mgmt\<close> after the wait.
\<close>

datatype shm_open =
    Shm_failed
  | Shm_new nat
  | Shm_existing "(64 word \<times> nat) list" SharedManagementData

definition create_or_open_shm ::
  "nat \<Rightarrow> ZeroCopyBuilder \<Rightarrow> shm_open \<Rightarrow> (SharedManagementData, ZeroCopyCreationError) result option outcome" where
  "create_or_open_shm size_self b shm =
     (case shm of
        Shm_failed \<Rightarrow> Ret (Some (Err ZeroCopyCreation_InternalError))
      | Shm_new base \<Rightarrow> outcome_bind (setup_shm size_self base b) (\<lambda>mgmt. Ret (Some (Ok mgmt)))
      | Shm_existing snapshots mgmt \<Rightarrow>
          (case wait_for_init snapshots of
             None \<Rightarrow> Ret None
           | Some _ \<Rightarrow> (case check_opened b mgmt of
                 Err e \<Rightarrow> Ret (Some (Err e)) | Ok _ \<Rightarrow> Ret (Some (Ok mgmt)))))"

section \<open>Sending and receiving\<close>

definition Shm_is_connected :: "SharedManagementData \<Rightarrow> bool" where
  "Shm_is_connected m \<longleftrightarrow> sm_state m = State_Sender OR State_Receiver"

definition Shm_try_send ::
  "nat \<Rightarrow> SharedManagementData \<Rightarrow> (nat option, ZeroCopySendError) result \<times> SharedManagementData" where
  "Shm_try_send ptr m =
     (let space_in_retrieve_channel =
            iq_capacity (sm_retrieve_channel m) - IndexQueue_len (sm_retrieve_channel m)
      in if space_in_retrieve_channel
              \<le> sm_max_borrowed_samples m + SafelyOverflowingIndexQueue_len (sm_receive_channel m)
         then (Err ClearRetrieveChannelBeforeSend, m)
         else if \<not> sm_enable_safe_overflow m \<and> SafelyOverflowingIndexQueue_is_full (sm_receive_channel m)
         then (Err ReceiveBufferFull, m)
         else (case SafelyOverflowingIndexQueue_push ptr (sm_receive_channel m) of
                 (Some v, q) \<Rightarrow> (Ok (Some v), m\<lparr>sm_receive_channel := q\<rparr>)
               | (None, q) \<Rightarrow> (Ok None, m\<lparr>sm_receive_channel := q\<rparr>)))"

fun Shm_blocking_send ::
  "nat \<Rightarrow> SharedManagementData list
     \<Rightarrow> ((nat option, ZeroCopySendError) result \<times> SharedManagementData) option" where
  "Shm_blocking_send ptr [] = None"
| "Shm_blocking_send ptr (m # ms) =
     (if \<not> sm_enable_safe_overflow m \<and> SafelyOverflowingIndexQueue_is_full (sm_receive_channel m)
      then Shm_blocking_send ptr ms else Some (Shm_try_send ptr m))"

definition Shm_reclaim :: "SharedManagementData \<Rightarrow> nat option \<times> SharedManagementData" where
  "Shm_reclaim m = (case IndexQueue_pop (sm_retrieve_channel m) of (r, q) \<Rightarrow> (r, m\<lparr>sm_retrieve_channel := q\<rparr>))"

definition Shm_receive ::
  "nat \<Rightarrow> SharedManagementData \<Rightarrow> (nat option, ZeroCopyReceiveError) result \<times> nat \<times> SharedManagementData" where
  "Shm_receive borrow_counter m =
     (if sm_max_borrowed_samples m \<le> borrow_counter then (Err ReceiveWouldExceedMaxBorrowValue, borrow_counter, m)
      else case SafelyOverflowingIndexQueue_pop (sm_receive_channel m) of
             (None, q) \<Rightarrow> (Ok None, borrow_counter, m\<lparr>sm_receive_channel := q\<rparr>)
           | (Some v, q) \<Rightarrow> (Ok (Some v), borrow_counter + 1, m\<lparr>sm_receive_channel := q\<rparr>))"

definition Shm_release ::
  "bool \<Rightarrow> nat \<Rightarrow> nat \<Rightarrow> SharedManagementData
     \<Rightarrow> ((unit, ZeroCopyReleaseError) result \<times> nat \<times> SharedManagementData) outcome" where
  "Shm_release overflow_checks ptr borrow_counter m =
     (case IndexQueue_push ptr (sm_retrieve_channel m) of
        (True, q) \<Rightarrow> outcome_bind (usize_sub overflow_checks borrow_counter 1) (\<lambda>n.
                       Ret (Ok (), n, m\<lparr>sm_retrieve_channel := q\<rparr>))
      | (False, q) \<Rightarrow> Ret (Err RetrieveBufferFull, borrow_counter, m\<lparr>sm_retrieve_channel := q\<rparr>))"

text \<open>The management data of the process-local variant that correspond.\<close>

definition shm_mgmt :: "FixedSizeByteString \<Rightarrow> SharedManagementData \<Rightarrow> Management" where
  "shm_mgmt name m =
     \<lparr>zm_name = name, zm_receive_channel = sm_receive_channel m, zm_retrieve_channel = sm_retrieve_channel m,
      zm_enable_safe_overflow = sm_enable_safe_overflow m, zm_max_borrowed_samples = sm_max_borrowed_samples m,
      zm_state = sm_state m\<rparr>"

text \<open>
  C18: The shared-memory variant sends, receives, releases and reclaims exactly like the
  process-local one, on corresponding management data, and a newly set up shared memory
  corresponds to the fresh management data: the size the builder asks for is enough for both
  queues, at any address.
\<close>
theorem zero_copy_variants_agree:
  "map_prod id (shm_mgmt name) (Shm_try_send p m) = try_send p (shm_mgmt name m)
   \<and> map_prod id (shm_mgmt name) (Shm_reclaim m) = reclaim (shm_mgmt name m)
   \<and> map_prod id (map_prod id (shm_mgmt name)) (Shm_receive n m) = receive n (shm_mgmt name m)
   \<and> map_outcome (map_prod id (map_prod id (shm_mgmt name))) (Shm_release checks p n m) = release checks p n (shm_mgmt name m)
   \<and> map_outcome (shm_mgmt (zb_name b)) (setup_shm size_self base b) = Ret (Management_new State_None b)"
proof (intro conjI)
  show "map_prod id (shm_mgmt name) (Shm_try_send p m) = try_send p (shm_mgmt name m)"
    by (auto simp: Shm_try_send_def try_send_def shm_mgmt_def Let_def split: prod.splits option.splits)
  show "map_prod id (shm_mgmt name) (Shm_reclaim m) = reclaim (shm_mgmt name m)"
    by (auto simp: Shm_reclaim_def reclaim_def shm_mgmt_def split: prod.splits)
  show "map_prod id (map_prod id (shm_mgmt name)) (Shm_receive n m) = receive n (shm_mgmt name m)"
    by (auto simp: Shm_receive_def receive_def shm_mgmt_def split: prod.splits option.splits)
  show "map_outcome (map_prod id (map_prod id (shm_mgmt name))) (Shm_release checks p n m) = release checks p n (shm_mgmt name m)"
    by (cases "usize_sub checks n 1") (auto simp: Shm_release_def release_def shm_mgmt_def split: prod.splits bool.splits)
  let ?rs = "ShmBuilder_receive_channel_size b" and ?ts = "ShmBuilder_retrieve_channel_size b"
  let ?a = "BumpAllocator_new (base + size_self) (SharedManagementData_const_memory_size size_self ?rs ?ts - size_self)"
  have tot: "ba_size ?a = 8 * (?rs + 1) + 7 + (8 * ?ts + 7)" "ba_current_position ?a = 0"
    by (simp_all add: BumpAllocator_new_def SharedManagementData_const_memory_size_def
        IndexQueue_const_memory_size_def SafelyOverflowingIndexQueue_const_memory_size_def)
  have ts: "0 < ?ts" by (simp add: ShmBuilder_retrieve_channel_size_def)
  obtain k1 b1 where b1: "BumpAllocator_allocate (mk_layout (8 * (?rs + 1)) 8) ?a = (Ok k1, b1)"
    "ba_size b1 = ba_size ?a" "ba_current_position b1 \<le> 8 * (?rs + 1) + 7"
    using BumpAllocator_allocate_succeeds [of "mk_layout (8 * (?rs + 1)) 8" ?a] tot by auto
  have "ba_current_position b1 + 8 * ?ts + 7 \<le> ba_size b1" using b1(2,3) tot(1) by linarith
  then obtain k2 b2 where b2: "BumpAllocator_allocate (mk_layout (8 * ?ts) 8) b1 = (Ok k2, b2)"
    using BumpAllocator_allocate_succeeds [of "mk_layout (8 * ?ts) 8" b1] ts by auto
  show "map_outcome (shm_mgmt (zb_name b)) (setup_shm size_self base b) = Ret (Management_new State_None b)"
    using b1(1) b2
    by (simp add: setup_shm_def Let_def SharedManagementData_new_def SafelyOverflowingIndexQueue_init_def
        SafelyOverflowingIndexQueue_new_uninit_def IndexQueue_init_def IndexQueue_new_uninit_def shm_mgmt_def
        Management_new_def SafelyOverflowingIndexQueue_new_def IndexQueue_new_def retrieve_channel_size_def
        ShmBuilder_receive_channel_size_def ShmBuilder_retrieve_channel_size_def)
qed

text \<open>
  An opener does not wait for the creator. Whatever it would see later, an opener that finds
  the memory not yet initialised and whose first wait is short gives up waiting, and the zeroed
  memory of a connection in creation makes it fail with \<open>IncompatibleBufferSize\<close>.
\<close>
theorem shm_opener_gives_up:
  assumes "elapsed < MAX_CREATION_DURATION" "so_capacity (sm_receive_channel mgmt) = 0" "0 < zb_buffer_size b"
  shows "create_or_open_shm size_self b (Shm_existing ((0, elapsed) # later) mgmt)
    = Ret (Some (Err IncompatibleBufferSize))"
  using assms by (simp add: create_or_open_shm_def check_opened_def ShmBuilder_receive_channel_size_def
      IS_INITIALIZED_STATE_VALUE_def)

theorem shm_opener_gives_up_witness:
  "\<exists>b mgmt. create_or_open_shm 64 b (Shm_existing [(0, 0), (IS_INITIALIZED_STATE_VALUE, 1)] mgmt)
     = Ret (Some (Err IncompatibleBufferSize))"
proof -
  let ?e = "\<lparr>bs_len = 0, bs_data = [NUL], bs_terminator = NUL\<rparr>"
  let ?b = "\<lparr>zb_name = ?e, zb_buffer_size = 4, zb_enable_safe_overflow = False, zb_max_borrowed_samples = 4,
     zb_config = \<lparr>nc_suffix = ?e, nc_prefix = ?e, nc_path_hint = ?e\<rparr>\<rparr>"
  have "create_or_open_shm 64 ?b (Shm_existing ((0, 0) # [(IS_INITIALIZED_STATE_VALUE, 1)]) (SharedManagementData_new 0 0 False 0))
     = Ret (Some (Err IncompatibleBufferSize))"
    by (rule shm_opener_gives_up)
       (simp_all add: MAX_CREATION_DURATION_def SharedManagementData_new_def SafelyOverflowingIndexQueue_new_uninit_def)
  then show ?thesis by blast
qed

section \<open>The ports\<close>

text \<open>
  \<open>reserve_port\<close> and \<open>cleanup_shared_memory\<close> without other threads in between: the first
  compare-and-exchange of a fresh load succeeds.
\<close>

definition reserve_port :: "8 word \<Rightarrow> 8 word \<Rightarrow> (unit, ZeroCopyCreationError) result \<times> 8 word" where
  "reserve_port new_state st =
     (if st = State_None then (Ok (), State_None OR new_state)
      else if st AND new_state \<noteq> 0 then (Err AnotherInstanceIsAlreadyConnected, st)
      else if st AND State_MarkedForDestruction \<noteq> 0 then (Err ZeroCopyCreation_InternalError, st)
      else (Ok (), st OR new_state))"

definition cleanup_new_state :: "8 word \<Rightarrow> 8 word \<Rightarrow> 8 word" where
  "cleanup_new_state state_to_remove current_state =
     (if current_state = state_to_remove then State_MarkedForDestruction
      else current_state AND NOT state_to_remove)"

text \<open>
  With any number of threads: a thread is outside, in the loop of \<open>reserve_port\<close> with the state
  it expects, connected, or in the loop of \<open>cleanup_shared_memory\<close> with the state it loaded. The
  last component counts the calls of \<open>SharedMemory::remove\<close>.
\<close>

datatype port_pc =
    PP_out
  | PP_reserve "8 word" "8 word"
  | PP_connected "8 word"
  | PP_cleanup "8 word" "8 word"

record port_conf =
  pp_state :: "8 word"
  pp_pc :: "nat \<Rightarrow> port_pc"
  pp_removed :: nat

definition port_start :: port_conf where
  "port_start = \<lparr>pp_state = State_None, pp_pc = (\<lambda>_. PP_out), pp_removed = 0\<rparr>"

inductive port_step :: "port_conf \<Rightarrow> port_conf \<Rightarrow> bool" where
  port_call: "pp_pc s t = PP_out \<Longrightarrow> port = State_Sender \<or> port = State_Receiver \<Longrightarrow>
    port_step s (s\<lparr>pp_pc := (pp_pc s)(t := PP_reserve port State_None)\<rparr>)"
| port_reserve: "pp_pc s t = PP_reserve port current \<Longrightarrow> pp_state s = current \<Longrightarrow>
    port_step s (s\<lparr>pp_state := current OR port, pp_pc := (pp_pc s)(t := PP_connected port)\<rparr>)"
| port_refused: "pp_pc s t = PP_reserve port current \<Longrightarrow> pp_state s \<noteq> current \<Longrightarrow>
    pp_state s AND port \<noteq> 0 \<or> pp_state s AND State_MarkedForDestruction \<noteq> 0 \<Longrightarrow>
    port_step s (s\<lparr>pp_pc := (pp_pc s)(t := PP_out)\<rparr>)"
| port_retry: "pp_pc s t = PP_reserve port current \<Longrightarrow> pp_state s \<noteq> current \<Longrightarrow>
    pp_state s AND port = 0 \<Longrightarrow> pp_state s AND State_MarkedForDestruction = 0 \<Longrightarrow>
    port_step s (s\<lparr>pp_pc := (pp_pc s)(t := PP_reserve port (pp_state s))\<rparr>)"
| port_drop: "pp_pc s t = PP_connected port \<Longrightarrow>
    port_step s (s\<lparr>pp_pc := (pp_pc s)(t := PP_cleanup port (pp_state s))\<rparr>)"
| port_cleanup: "pp_pc s t = PP_cleanup port current \<Longrightarrow> pp_state s = current \<Longrightarrow>
    port_step s (s\<lparr>pp_state := cleanup_new_state port current, pp_pc := (pp_pc s)(t := PP_out),
      pp_removed := (if cleanup_new_state port current = State_MarkedForDestruction
        then pp_removed s + 1 else pp_removed s)\<rparr>)"
| port_cleanup_retry: "pp_pc s t = PP_cleanup port current \<Longrightarrow> pp_state s \<noteq> current \<Longrightarrow>
    port_step s (s\<lparr>pp_pc := (pp_pc s)(t := PP_cleanup port (pp_state s))\<rparr>)"

fun holds_port :: "8 word \<Rightarrow> port_pc \<Rightarrow> bool" where
  "holds_port port (PP_connected p) = (p = port)"
| "holds_port port (PP_cleanup p _) = (p = port)"
| "holds_port port _ = False"

fun pc_ok :: "port_pc \<Rightarrow> bool" where
  "pc_ok PP_out = True"
| "pc_ok (PP_reserve port current) = ((port = 1 \<or> port = 2) \<and> current AND port = 0 \<and> current \<in> {0, 1, 2, 3})"
| "pc_ok (PP_connected port) = (port = 1 \<or> port = 2)"
| "pc_ok (PP_cleanup port _) = (port = 1 \<or> port = 2)"

lemmas port_states = State_None_def State_Sender_def State_Receiver_def State_MarkedForDestruction_def

definition port_inv :: "port_conf \<Rightarrow> bool" where
  "port_inv s \<longleftrightarrow> (\<forall>t. pc_ok (pp_pc s t))
     \<and> (\<forall>port t t'. holds_port port (pp_pc s t) \<longrightarrow> holds_port port (pp_pc s t') \<longrightarrow> t = t')
     \<and> (if pp_state s = 128 then (\<forall>t port. \<not> holds_port port (pp_pc s t)) \<and> pp_removed s = 1
        else pp_state s \<in> {0, 1, 2, 3} \<and> pp_removed s = 0
          \<and> (pp_state s AND 1 \<noteq> 0 \<longleftrightarrow> (\<exists>t. holds_port 1 (pp_pc s t)))
          \<and> (pp_state s AND 2 \<noteq> 0 \<longleftrightarrow> (\<exists>t. holds_port 2 (pp_pc s t))))"

lemma port_invI:
  assumes "pp_pc s = f" "pp_state s = c" "pp_removed s = 0" "\<forall>t. pc_ok (f t)"
    and "\<forall>port t t'. holds_port port (f t) \<longrightarrow> holds_port port (f t') \<longrightarrow> t = t'"
    and "c \<in> {0, 1, 2, 3}"
    and "c = 1 \<or> c = 3 \<longleftrightarrow> (\<exists>t. holds_port 1 (f t))"
    and "c = 2 \<or> c = 3 \<longleftrightarrow> (\<exists>t. holds_port 2 (f t))"
  shows "port_inv s"
proof -
  have "c \<noteq> 128" using assms(6) by auto
  moreover have "c AND 1 \<noteq> 0 \<longleftrightarrow> c = 1 \<or> c = 3" "c AND 2 \<noteq> 0 \<longleftrightarrow> c = 2 \<or> c = 3"
    using assms(6) by auto
  ultimately show ?thesis using assms by (simp add: port_inv_def)
qed

lemma port_invD:
  assumes "port_inv s" "pp_state s \<noteq> 128"
  shows "pp_state s \<in> {0, 1, 2, 3}" "pp_removed s = 0"
    "pp_state s = 1 \<or> pp_state s = 3 \<longleftrightarrow> (\<exists>t. holds_port 1 (pp_pc s t))"
    "pp_state s = 2 \<or> pp_state s = 3 \<longleftrightarrow> (\<exists>t. holds_port 2 (pp_pc s t))"
proof -
  have *: "pp_state s \<in> {0, 1, 2, 3}" "pp_removed s = 0"
    "pp_state s AND 1 \<noteq> 0 \<longleftrightarrow> (\<exists>t. holds_port 1 (pp_pc s t))"
    "pp_state s AND 2 \<noteq> 0 \<longleftrightarrow> (\<exists>t. holds_port 2 (pp_pc s t))"
    using assms unfolding port_inv_def by (simp_all only: if_False)
  then show "pp_state s \<in> {0, 1, 2, 3}" "pp_removed s = 0" by blast+
  have "pp_state s AND 1 \<noteq> 0 \<longleftrightarrow> pp_state s = 1 \<or> pp_state s = 3"
    "pp_state s AND 2 \<noteq> 0 \<longleftrightarrow> pp_state s = 2 \<or> pp_state s = 3"
    using *(1) by auto
  then show "pp_state s = 1 \<or> pp_state s = 3 \<longleftrightarrow> (\<exists>t. holds_port 1 (pp_pc s t))"
    "pp_state s = 2 \<or> pp_state s = 3 \<longleftrightarrow> (\<exists>t. holds_port 2 (pp_pc s t))"
    using *(3,4) by blast+
qed

lemma holds_port_range: "pc_ok pc \<Longrightarrow> holds_port p pc \<Longrightarrow> p = 1 \<or> p = 2"
  by (cases pc) auto

lemma port_inv_start: "port_inv port_start"
  by (simp add: port_inv_def port_start_def port_states)

text \<open>A step that changes only the program counter of a thread, and not what the thread holds.\<close>

lemma port_inv_local:
  assumes "port_inv s" "pc_ok pc" "\<And>port. holds_port port pc \<longleftrightarrow> holds_port port (pp_pc s t)"
  shows "port_inv (s\<lparr>pp_pc := (pp_pc s)(t := pc)\<rparr>)"
proof -
  have h: "holds_port port (((pp_pc s)(t := pc)) u) \<longleftrightarrow> holds_port port (pp_pc s u)" for port u
    using assms(3) by simp
  have pcs: "\<forall>u. pc_ok (((pp_pc s)(t := pc)) u)" using assms(1,2) by (simp add: port_inv_def)
  let ?s = "s\<lparr>pp_pc := (pp_pc s)(t := pc)\<rparr>"
  have sel: "pp_pc ?s = (pp_pc s)(t := pc)" "pp_state ?s = pp_state s" "pp_removed ?s = pp_removed s" by simp_all
  show ?thesis using assms(1) pcs unfolding port_inv_def sel h by blast
qed

lemma port_inv_pc: "port_inv s \<Longrightarrow> pc_ok (pp_pc s t)"
  by (simp add: port_inv_def)

lemma port_inv_unique:
  "port_inv s \<Longrightarrow> holds_port p (pp_pc s t) \<Longrightarrow> holds_port p (pp_pc s u) \<Longrightarrow> t = u"
  unfolding port_inv_def by blast

lemma port_inv_reserve:
  assumes inv: "port_inv s" and pc: "pp_pc s t = PP_reserve port current" and st: "pp_state s = current"
  shows "port_inv (s\<lparr>pp_state := current OR port, pp_pc := (pp_pc s)(t := PP_connected port)\<rparr>)"
proof -
  let ?pc = "(pp_pc s)(t := PP_connected port)"
  have ok: "port = 1 \<and> (current = 0 \<or> current = 2) \<or> port = 2 \<and> (current = 0 \<or> current = 1)"
    using port_inv_pc [OF inv, of t] pc by auto
  then have "pp_state s \<noteq> 128" using st by auto
  note old = port_invD [OF inv this, unfolded st]
  have out: "\<not> holds_port p (pp_pc s t)" for p using pc by simp
  have free: "\<not> holds_port port (pp_pc s u)" for u
    using ok old(3,4) by auto
  have ex: "(\<exists>u. holds_port p (?pc u)) \<longleftrightarrow> p = port \<or> (\<exists>u. holds_port p (pp_pc s u))" for p
    using out by (metis fun_upd_apply holds_port.simps(1))
  show ?thesis
  proof (rule port_invI)
    show "pp_pc (s\<lparr>pp_state := current OR port, pp_pc := ?pc\<rparr>) = ?pc" by simp
    show "pp_state (s\<lparr>pp_state := current OR port, pp_pc := ?pc\<rparr>) = current OR port" by simp
    show "\<forall>u. pc_ok (?pc u)" using inv ok by (auto simp: port_inv_pc)
    show "\<forall>p u u'. holds_port p (?pc u) \<longrightarrow> holds_port p (?pc u') \<longrightarrow> u = u'"
      using port_inv_unique [OF inv] free by auto
    show "current OR port \<in> {0, 1, 2, 3}" using ok by auto
    show "pp_removed (s\<lparr>pp_state := current OR port, pp_pc := ?pc\<rparr>) = 0" using old(2) by simp
    show "current OR port = 1 \<or> current OR port = 3 \<longleftrightarrow> (\<exists>u. holds_port 1 (?pc u))"
      unfolding ex old(3) [symmetric] using ok by auto
    show "current OR port = 2 \<or> current OR port = 3 \<longleftrightarrow> (\<exists>u. holds_port 2 (?pc u))"
      unfolding ex old(4) [symmetric] using ok by auto
  qed
qed

lemma port_inv_cleanup:
  assumes inv: "port_inv s" and pc: "pp_pc s t = PP_cleanup port current" and st: "pp_state s = current"
  shows "port_inv (s\<lparr>pp_state := cleanup_new_state port current, pp_pc := (pp_pc s)(t := PP_out),
      pp_removed := (if cleanup_new_state port current = State_MarkedForDestruction
        then pp_removed s + 1 else pp_removed s)\<rparr>)"
proof -
  let ?pc = "(pp_pc s)(t := PP_out)"
  have port: "port = 1 \<or> port = 2" using port_inv_pc [OF inv, of t] pc by auto
  have hold: "holds_port p (pp_pc s t) \<longleftrightarrow> p = port" for p using pc by auto
  have "pp_state s \<noteq> 128"
  proof
    assume "pp_state s = 128"
    then have "\<not> holds_port port (pp_pc s t)" using inv by (simp add: port_inv_def)
    with hold show False by blast
  qed
  note old = port_invD [OF inv this, unfolded st]
  have ex: "(\<exists>u. holds_port p (?pc u)) \<longleftrightarrow> p \<noteq> port \<and> (\<exists>u. holds_port p (pp_pc s u))" for p
  proof
    assume "\<exists>u. holds_port p (?pc u)"
    then obtain u where "u \<noteq> t" "holds_port p (pp_pc s u)" by (auto split: if_splits)
    then show "p \<noteq> port \<and> (\<exists>u. holds_port p (pp_pc s u))" using port_inv_unique [OF inv, of p u t] hold by blast
  next
    assume "p \<noteq> port \<and> (\<exists>u. holds_port p (pp_pc s u))"
    then obtain u where "holds_port p (pp_pc s u)" "u \<noteq> t" using hold by blast
    then show "\<exists>u. holds_port p (?pc u)" by auto
  qed
  have uniq: "\<forall>p u u'. holds_port p (?pc u) \<longrightarrow> holds_port p (?pc u') \<longrightarrow> u = u'"
    using port_inv_unique [OF inv] by auto
  have pcs: "\<forall>u. pc_ok (?pc u)" using inv by (simp add: port_inv_pc)
  consider "current = port" | "current = 3"
    using port hold old by blast
  then show ?thesis
  proof cases
    case 1
    have "\<not> (\<exists>u. holds_port p (?pc u))" for p
    proof
      assume "\<exists>u. holds_port p (?pc u)"
      then have p: "p \<noteq> port" "\<exists>u. holds_port p (pp_pc s u)" unfolding ex by blast+
      then have "p = 1 \<or> p = 2" using holds_port_range [OF port_inv_pc [OF inv]] by blast
      then have "current = p \<or> current = 3" using p(2) old(3,4) by blast
      then have "current = 3" using p(1) 1 by blast
      then show False using port 1 by auto
    qed
    then have none: "\<forall>u p. \<not> holds_port p (?pc u)" by blast
    let ?s = "s\<lparr>pp_state := cleanup_new_state port current, pp_pc := ?pc, pp_removed :=
      if cleanup_new_state port current = State_MarkedForDestruction then pp_removed s + 1 else pp_removed s\<rparr>"
    have sel: "pp_pc ?s = ?pc" "pp_state ?s = 128" "pp_removed ?s = 1"
      using 1 old(2) by (simp_all add: cleanup_new_state_def port_states)
    show ?thesis
      unfolding port_inv_def sel if_P [OF refl] using uniq pcs none by blast
  next
    case 2
    then have new: "cleanup_new_state port current = 3 - port" "port \<noteq> 3"
      using port by (auto simp: cleanup_new_state_def)
    then have removed: "cleanup_new_state port current \<noteq> State_MarkedForDestruction"
      using port by (auto simp: State_MarkedForDestruction_def)
    show ?thesis
    proof (rule port_invI)
      show "pp_pc (s\<lparr>pp_state := cleanup_new_state port current, pp_pc := ?pc, pp_removed :=
          if cleanup_new_state port current = State_MarkedForDestruction then pp_removed s + 1 else pp_removed s\<rparr>) = ?pc"
        by simp
      show "pp_state (s\<lparr>pp_state := cleanup_new_state port current, pp_pc := ?pc, pp_removed :=
          if cleanup_new_state port current = State_MarkedForDestruction then pp_removed s + 1 else pp_removed s\<rparr>)
          = cleanup_new_state port current" by simp
      show "pp_removed (s\<lparr>pp_state := cleanup_new_state port current, pp_pc := ?pc, pp_removed :=
          if cleanup_new_state port current = State_MarkedForDestruction then pp_removed s + 1 else pp_removed s\<rparr>) = 0"
        using removed old(2) by simp
      show "\<forall>u. pc_ok (?pc u)" by (rule pcs)
      show "\<forall>p u u'. holds_port p (?pc u) \<longrightarrow> holds_port p (?pc u') \<longrightarrow> u = u'" by (rule uniq)
      show "cleanup_new_state port current \<in> {0, 1, 2, 3}" unfolding new using port by auto
      show "cleanup_new_state port current = 1 \<or> cleanup_new_state port current = 3 \<longleftrightarrow> (\<exists>u. holds_port 1 (?pc u))"
        unfolding ex old(3) [symmetric] new using port 2 by auto
      show "cleanup_new_state port current = 2 \<or> cleanup_new_state port current = 3 \<longleftrightarrow> (\<exists>u. holds_port 2 (?pc u))"
        unfolding ex old(4) [symmetric] new using port 2 by auto
    qed
  qed
qed

lemma port_inv_step:
  assumes inv: "port_inv s" and step: "port_step s s'"
  shows "port_inv s'"
  using step
proof cases
  case (port_call t port)
  then show ?thesis using port_inv_local [OF inv, of "PP_reserve port State_None" t] by (auto simp: port_states)
next
  case (port_reserve t port current)
  then show ?thesis using port_inv_reserve [OF inv] by simp
next
  case (port_refused t port current)
  then show ?thesis using port_inv_local [OF inv, of PP_out t] by simp
next
  case (port_retry t port current)
  have "pp_state s \<noteq> 128" using port_retry(5) by (auto simp: port_states)
  then show ?thesis
    using port_inv_local [OF inv, of "PP_reserve port (pp_state s)" t] port_retry port_inv_pc [OF inv, of t] port_invD(1) [OF inv]
    by simp
next
  case (port_drop t port)
  then show ?thesis
    using port_inv_local [OF inv, of "PP_cleanup port (pp_state s)" t] port_inv_pc [OF inv, of t] by simp
next
  case (port_cleanup t port current)
  then show ?thesis using port_inv_cleanup [OF inv] by simp
next
  case (port_cleanup_retry t port current)
  then show ?thesis
    using port_inv_local [OF inv, of "PP_cleanup port (pp_state s)" t] port_inv_pc [OF inv, of t] by simp
qed

interpretation pp: inductive_invariant "\<lambda>s. s = port_start" port_step port_inv
  using port_inv_start port_inv_step by unfold_locales auto

text \<open>
  C17: Under every interleaving of any number of threads that reserve and clean up ports, at most
  one thread holds the sender port and at most one the receiver port, the shared memory is removed
  at most once, and it is removed only when nobody is connected any more; from then on no thread
  gets a port.
\<close>
theorem shm_ports_exclusive:
  assumes "reachable (\<lambda>s. s = port_start) port_step s"
  shows "(holds_port port (pp_pc s t) \<and> holds_port port (pp_pc s u) \<longrightarrow> t = u)
    \<and> pp_removed s \<le> 1
    \<and> (pp_removed s = 1 \<longrightarrow> \<not> holds_port port (pp_pc s t)
         \<and> (port_step s s' \<longrightarrow> \<not> holds_port port (pp_pc s' t) \<and> pp_removed s' = 1))"
proof -
  have inv: "port_inv s" using pp.reachable_inv assms by blast
  have gone: "\<not> holds_port port (pp_pc x t) \<and> pp_state x = 128" if "port_inv x" "pp_removed x = 1" for x
    using that by (auto simp: port_inv_def split: if_splits)
  have "pp_removed s' = 1" if "pp_removed s = 1" "port_step s s'"
    using that(2) gone [OF inv that(1)] that(1) inv
  proof cases
    case (port_cleanup t' port' current)
    have "holds_port port' (pp_pc s t')" using port_cleanup by simp
    then show ?thesis using inv gone [OF inv that(1)] by (auto simp: port_inv_def)
  qed auto
  moreover have "pp_removed s \<le> 1" using inv by (auto simp: port_inv_def split: if_splits)
  ultimately show ?thesis
    using port_inv_unique [OF inv] gone [OF inv] gone [OF port_inv_step [OF inv]] by blast
qed

theorem shm_ports_exclusive_witness:
  "\<exists>s. reachable (\<lambda>s. s = port_start) port_step s \<and> holds_port State_Sender (pp_pc s 0) \<and> pp_removed s \<le> 1"
proof -
  let ?s1 = "port_start\<lparr>pp_pc := (pp_pc port_start)(0 := PP_reserve State_Sender State_None)\<rparr>"
  let ?s2 = "?s1\<lparr>pp_state := State_None OR State_Sender, pp_pc := (pp_pc ?s1)(0 := PP_connected State_Sender)\<rparr>"
  have "reachable (\<lambda>s. s = port_start) port_step port_start" by (rule reachable_init) simp
  moreover have "port_step port_start ?s1" by (rule port_call) (simp_all add: port_start_def)
  moreover have "port_step ?s1 ?s2" by (rule port_reserve) (simp_all add: port_start_def)
  ultimately have "reachable (\<lambda>s. s = port_start) port_step ?s2" by (blast intro: reachable_step)
  moreover have "holds_port State_Sender (pp_pc ?s2 0)" by simp
  ultimately show ?thesis using shm_ports_exclusive [of ?s2 State_Sender 0 0] by blast
qed

end
