(* ===== verification/PortNames.thy ===== *)
theory PortNames
  imports NamedConcept "HOL-Library.Word"
begin

text \<open>
  Identifiers of ports and the names of their resources:
  \<open>iceoryx2_bb/posix/src/unique_system_id.rs\<close>, \<open>iceoryx2/src/port/port_identifiers.rs\<close>,
  \<open>iceoryx2/src/service/naming_scheme.rs\<close> and \<open>iceoryx2/src/service/config_scheme.rs\<close>. The
  readings of the clock are arguments, as is the memory of the strings.
\<close>

unbundle bit_operations_syntax

section \<open>unique_system_id.rs\<close>

datatype UniqueSystemIdCreationError = FailedToAcquireTime

type_synonym UniqueSystemId = "128 word"

definition UniqueSystemId_value_of :: "32 word \<Rightarrow> 64 word \<Rightarrow> 32 word \<Rightarrow> UniqueSystemId" where
  "UniqueSystemId_value_of pid seconds nanoseconds =
     push_bit 96 (signed pid) OR push_bit 32 (unsigned seconds) OR unsigned nanoseconds"

text \<open>
  \<open>UniqueSystemId::new\<close>: \<open>previous\<close> is \<open>LAST_NANOSECONDS\<close>, the list holds the readings of the clock
  that the loop makes, \<open>None\<close> for a reading that fails. The result has the readings that are left;
  \<open>None\<close> is a loop that is still running. Without a second thread the exchange succeeds.
\<close>

fun UniqueSystemId_new ::
  "32 word \<Rightarrow> 32 word \<Rightarrow> (64 word \<times> 32 word) option list
     \<Rightarrow> (UniqueSystemId \<times> 32 word \<times> (64 word \<times> 32 word) option list, UniqueSystemIdCreationError) result option" where
  "UniqueSystemId_new pid previous [] = None"
| "UniqueSystemId_new pid previous (None # ts) = Some (Err FailedToAcquireTime)"
| "UniqueSystemId_new pid previous (Some (seconds, nanoseconds) # ts) =
     (if nanoseconds \<noteq> previous
      then Some (Ok (UniqueSystemId_value_of pid seconds nanoseconds, nanoseconds, ts))
      else UniqueSystemId_new pid previous ts)"

definition UniqueSystemId_pid :: "UniqueSystemId \<Rightarrow> 32 word" where
  "UniqueSystemId_pid v = unsigned (drop_bit 96 v)"

definition UniqueSystemId_creation_time :: "UniqueSystemId \<Rightarrow> 64 word \<times> 32 word" where
  "UniqueSystemId_creation_time v =
     (unsigned (drop_bit 64 (push_bit 32 v)), unsigned (drop_bit 96 (push_bit 96 v)))"

section \<open>naming_scheme.rs\<close>

text \<open>\<open>to_string\<close> of an unsigned integer.\<close>

function decimal :: "nat \<Rightarrow> char list" where
  "decimal n = (if n < 10 then [char_of (48 + n)] else decimal (n div 10) @ [char_of (48 + n mod 10)])"
  by pat_completeness auto
termination by (relation "measure id") auto

declare decimal.simps [simp del]

definition decimal_signed :: "int \<Rightarrow> char list" where
  "decimal_signed i = (if i < 0 then CHR ''-'' # decimal (nat (- i)) else decimal (nat i))"

definition FileName_push where
  "FileName_push = SemanticString_push FileName_invalid_content FileName_invalid_characters"

definition FileName_push_bytes where
  "FileName_push_bytes = SemanticString_push_bytes FileName_invalid_content FileName_invalid_characters"

definition unwrap_name ::
  "(FixedSizeByteString, SemanticStringError) result outcome \<Rightarrow> (FixedSizeByteString \<Rightarrow> 'b outcome) \<Rightarrow> 'b outcome" where
  "unwrap_name m k = outcome_bind m (\<lambda>r. case r of Ok s \<Rightarrow> k s | Err _ \<Rightarrow> Panic)"

definition event_concept_name :: "char list \<Rightarrow> UniqueSystemId \<Rightarrow> FixedSizeByteString outcome" where
  "event_concept_name junk listener_id =
     unwrap_name (FileName_new junk (decimal_signed (sint (UniqueSystemId_pid listener_id)))) (\<lambda>file.
     or_panic (FileName_push (CHR ''_'') file) (\<lambda>_ file.
     or_panic (FileName_push_bytes (decimal (unat listener_id)) file) (\<lambda>_ file. Ret file)))"

definition dynamic_config_storage_name :: "char list \<Rightarrow> char list \<Rightarrow> FixedSizeByteString outcome" where
  "dynamic_config_storage_name junk uuid = unwrap_name (FileName_new junk uuid) Ret"

definition static_config_storage_name :: "char list \<Rightarrow> char list \<Rightarrow> FixedSizeByteString outcome" where
  "static_config_storage_name junk uuid = unwrap_name (FileName_new junk uuid) Ret"

definition connection_name :: "char list \<Rightarrow> UniqueSystemId \<Rightarrow> UniqueSystemId \<Rightarrow> FixedSizeByteString outcome" where
  "connection_name junk publisher_id subscriber_id =
     unwrap_name (FileName_new junk (decimal (unat publisher_id))) (\<lambda>file.
     or_panic (FileName_push (CHR ''_'') file) (\<lambda>_ file.
     or_panic (FileName_push_bytes (decimal (unat subscriber_id)) file) (\<lambda>_ file. Ret file)))"

definition data_segment_name :: "char list \<Rightarrow> UniqueSystemId \<Rightarrow> FixedSizeByteString outcome" where
  "data_segment_name junk publisher_id =
     unwrap_name (FileName_new junk (decimal_signed (sint (UniqueSystemId_pid publisher_id)))) (\<lambda>file.
     or_panic (FileName_push (CHR ''_'') file) (\<lambda>_ file.
     or_panic (FileName_push_bytes (decimal (unat publisher_id)) file) (\<lambda>_ file. Ret file)))"

section \<open>config_scheme.rs\<close>

definition generate_default_config ::
  "char list \<Rightarrow> char list \<Rightarrow> char list \<Rightarrow> char list \<Rightarrow> char list \<Rightarrow> NamedConceptConfiguration outcome" where
  "generate_default_config junk_file junk_path prefix suffix path_hint =
     unwrap_name (FileName_new junk_file prefix) (\<lambda>p.
     unwrap_name (FileName_new junk_file suffix) (\<lambda>s.
     unwrap_name (Path_new junk_path path_hint) (\<lambda>h.
       Ret \<lparr>nc_suffix = s, nc_prefix = p, nc_path_hint = h\<rparr>)))"

section \<open>Identifiers\<close>

lemma bit_signed_pid:
  fixes pid :: "32 word"
  assumes "j < 32"
  shows "bit (signed pid :: 128 word) j \<longleftrightarrow> bit pid j"
  using assms by (cases "j = 31") (auto simp: bit_simps)

lemma value_of_bits:
  "bit (UniqueSystemId_value_of pid s n) i \<longleftrightarrow>
     (96 \<le> i \<and> i < 128 \<and> bit pid (i - 96)) \<or> (32 \<le> i \<and> i < 96 \<and> bit s (i - 32)) \<or> (i < 32 \<and> bit n i)"
proof -
  have "bit (push_bit 96 (signed pid) :: 128 word) i \<longleftrightarrow> 96 \<le> i \<and> i < 128 \<and> bit pid (i - 96)"
  proof (cases "96 \<le> i \<and> i < 128")
    case True
    then have "i - 96 < 32" by linarith
    then show ?thesis using True bit_signed_pid [of "i - 96" pid] by (simp add: bit_push_bit_iff)
  qed (auto simp: bit_push_bit_iff dest: bit_imp_le_length)
  then show ?thesis
    by (auto simp: UniqueSystemId_value_of_def bit_simps dest: bit_imp_le_length)
qed

lemma value_of_parts:
  "UniqueSystemId_pid (UniqueSystemId_value_of pid s n) = pid"
  "UniqueSystemId_creation_time (UniqueSystemId_value_of pid s n) = (s, n)"
  by (auto simp: UniqueSystemId_pid_def UniqueSystemId_creation_time_def bit_eq_iff bit_simps value_of_bits
      dest: bit_imp_le_length)

lemma value_of_sum:
  "UniqueSystemId_value_of pid s n
     = push_bit 96 (unsigned pid) + (push_bit 32 (unsigned s) + unsigned n)"
proof -
  have "push_bit 32 (unsigned s) + unsigned n = (push_bit 32 (unsigned s) OR unsigned n :: 128 word)"
    by (rule disjunctive_add) (auto simp: bit_simps dest: bit_imp_le_length)
  moreover have "push_bit 96 (unsigned pid) + (push_bit 32 (unsigned s) OR unsigned n)
      = (push_bit 96 (unsigned pid) OR (push_bit 32 (unsigned s) OR unsigned n) :: 128 word)"
    by (rule disjunctive_add) (auto simp: bit_simps dest: bit_imp_le_length)
  moreover have "UniqueSystemId_value_of pid s n = push_bit 96 (unsigned pid) OR (push_bit 32 (unsigned s) OR unsigned n)"
    by (auto simp: bit_eq_iff value_of_bits bit_simps dest: bit_imp_le_length)
  ultimately show ?thesis by simp
qed

lemma value_of_unat:
  "unat (UniqueSystemId_value_of pid s n) = unat pid * 2 ^ 96 + (unat s * 2 ^ 32 + unat n)"
proof -
  define v where "v = unat pid * 2 ^ 96 + (unat s * 2 ^ 32 + unat n)"
  have b: "unat pid < 2 ^ 32" "unat s < 2 ^ 64" "unat n < 2 ^ 32"
    using unsigned_less [of pid, where ?'a = nat] unsigned_less [of s, where ?'a = nat]
      unsigned_less [of n, where ?'a = nat] by simp_all
  have "UniqueSystemId_value_of pid s n = word_of_nat v"
    by (simp add: value_of_sum push_bit_eq_mult v_def)
  moreover have "v < 2 ^ 128" using b by (simp add: v_def)
  ultimately have "unat (UniqueSystemId_value_of pid s n) = v" by (simp add: unsigned_of_nat take_bit_nat_eq_self)
  then show ?thesis by (simp add: v_def)
qed

text \<open>A sequence of calls of \<open>new\<close> in one process, as long as the readings of the clock last.\<close>

primrec UniqueSystemId_ids :: "nat \<Rightarrow> 32 word \<Rightarrow> 32 word \<Rightarrow> (64 word \<times> 32 word) option list \<Rightarrow> UniqueSystemId list" where
  "UniqueSystemId_ids 0 pid previous ts = []"
| "UniqueSystemId_ids (Suc k) pid previous ts =
     (case UniqueSystemId_new pid previous ts of
        Some (Ok (v, previous', ts')) \<Rightarrow> v # UniqueSystemId_ids k pid previous' ts'
      | _ \<Rightarrow> [])"

text \<open>The readings in nanoseconds.\<close>

fun clock_time :: "64 word \<times> 32 word \<Rightarrow> nat" where
  "clock_time (s, n) = unat s * 1000000000 + unat n"

definition clock_readings :: "nat \<Rightarrow> (64 word \<times> 32 word) option list \<Rightarrow> bool" where
  "clock_readings start ts \<longleftrightarrow> sorted (map clock_time (List.map_filter id ts))
     \<and> (\<forall>t \<in> set (List.map_filter id ts). start \<le> clock_time t \<and> unat (snd t) < 1000000000)"

lemma clock_readings_Cons:
  "clock_readings start (None # ts) = clock_readings start ts"
  "clock_readings start (Some t # ts) \<longleftrightarrow>
     start \<le> clock_time t \<and> unat (snd t) < 1000000000 \<and> clock_readings (clock_time t) ts \<and> clock_readings start ts"
  by (auto simp: clock_readings_def map_filter_simps)

lemma new_result:
  assumes "clock_readings start ts" "UniqueSystemId_new pid previous ts = Some (Ok (v, previous', ts'))"
  shows "\<exists>s. v = UniqueSystemId_value_of pid s previous' \<and> previous' \<noteq> previous
    \<and> start \<le> clock_time (s, previous') \<and> unat previous' < 1000000000 \<and> clock_readings (clock_time (s, previous')) ts'"
  using assms
  by (induction pid previous ts rule: UniqueSystemId_new.induct)
    (auto simp: clock_readings_Cons simp del: clock_time.simps split: if_splits)

lemma value_of_less:
  assumes "clock_time (s, n) < clock_time (s', n')" "unat n < 1000000000" "unat n' < 1000000000"
  shows "unat (UniqueSystemId_value_of pid s n) < unat (UniqueSystemId_value_of pid s' n')"
proof (cases "unat s < unat s'")
  case True
  then have "unat s * 2 ^ 32 + unat n < unat s' * 2 ^ 32 + unat n'" using assms(2) by simp
  then show ?thesis by (simp add: value_of_unat)
next
  case False
  then have "unat s = unat s'" "unat n < unat n'" using assms by auto
  then show ?thesis by (simp add: value_of_unat)
qed

lemma ids_above:
  assumes "clock_readings (clock_time (s, n)) ts" "unat n < 1000000000" "v \<in> set (UniqueSystemId_ids k pid n ts)"
  shows "unat (UniqueSystemId_value_of pid s n) < unat v"
  using assms
proof (induction k arbitrary: s n ts)
  case (Suc k)
  then obtain v1 n1 ts1 where new: "UniqueSystemId_new pid n ts = Some (Ok (v1, n1, ts1))"
    and v: "v = v1 \<or> v \<in> set (UniqueSystemId_ids k pid n1 ts1)"
    by (cases "UniqueSystemId_new pid n ts") (auto split: result.splits prod.splits)
  obtain s1 where s1: "v1 = UniqueSystemId_value_of pid s1 n1" "n1 \<noteq> n"
    "clock_time (s, n) \<le> clock_time (s1, n1)" "unat n1 < 1000000000" "clock_readings (clock_time (s1, n1)) ts1"
    using new_result [OF Suc.prems(1) new] by blast
  have "unat n1 \<noteq> unat n" using s1(2) by (simp add: word_unat_eq_iff)
  moreover have "clock_time (s, n) mod 1000000000 = unat n" "clock_time (s1, n1) mod 1000000000 = unat n1"
    using Suc.prems(2) s1(4) by simp_all
  ultimately have "clock_time (s, n) \<noteq> clock_time (s1, n1)" by metis
  then have "unat (UniqueSystemId_value_of pid s n) < unat v1"
    using value_of_less Suc.prems(2) s1 by simp
  then show ?case using v Suc.IH [OF s1(5,4)] s1(1) by fastforce
qed simp

text \<open>
  The identifiers that one thread of a process creates one after the other are strictly
  increasing, so no two ports of the process share an identifier, and each of them gives back the
  process and the time it was created with; the clock must not go backwards.
\<close>
theorem unique_system_id_increasing:
  assumes "clock_readings 0 ts"
  shows "sorted_wrt (<) (map unat (UniqueSystemId_ids k pid previous ts))
    \<and> (\<forall>v \<in> set (UniqueSystemId_ids k pid previous ts). UniqueSystemId_pid v = pid
         \<and> UniqueSystemId_value_of pid (fst (UniqueSystemId_creation_time v)) (snd (UniqueSystemId_creation_time v)) = v)"
proof -
  have "sorted_wrt (<) (map unat (UniqueSystemId_ids k pid previous ts))
    \<and> (\<forall>v \<in> set (UniqueSystemId_ids k pid previous ts). \<exists>s n. v = UniqueSystemId_value_of pid s n)"
    if "clock_readings start ts" for start
    using that
  proof (induction k arbitrary: previous ts start)
    case (Suc k)
    show ?case
    proof (cases "\<exists>v n ts'. UniqueSystemId_new pid previous ts = Some (Ok (v, n, ts'))")
      case True
      then obtain v n ts' where new: "UniqueSystemId_new pid previous ts = Some (Ok (v, n, ts'))" by blast
      obtain s where s: "v = UniqueSystemId_value_of pid s n" "unat n < 1000000000" "clock_readings (clock_time (s, n)) ts'"
        using new_result [OF Suc.prems new] by blast
      then show ?thesis
        using new Suc.IH [OF s(3)] ids_above [OF s(3,2)] by auto
    qed (auto split: option.splits result.splits prod.splits)
  qed simp
  then show ?thesis using assms value_of_parts by fastforce
qed

theorem unique_system_id_increasing_witness:
  "sorted_wrt (<) (map unat (UniqueSystemId_ids 2 7 0 [Some (1, 5), Some (1, 5), Some (1, 6)]))
   \<and> UniqueSystemId_ids 2 7 0 [Some (1, 5), Some (1, 5), Some (1, 6)]
       = [UniqueSystemId_value_of 7 1 5, UniqueSystemId_value_of 7 1 6]"
proof
  have "clock_readings 0 [Some (1, 5), Some (1, 5), Some (1, 6)]"
    by (simp add: clock_readings_def map_filter_simps)
  from unique_system_id_increasing [OF this, of 2 7 0]
  show "sorted_wrt (<) (map unat (UniqueSystemId_ids 2 7 0 [Some (1, 5), Some (1, 5), Some (1, 6)]))" by blast
  show "UniqueSystemId_ids 2 7 0 [Some (1, 5), Some (1, 5), Some (1, 6)]
       = [UniqueSystemId_value_of 7 1 5, UniqueSystemId_value_of 7 1 6]"
    by code_simp
qed

section \<open>Names of connections\<close>

definition of_decimal :: "char list \<Rightarrow> nat" where
  "of_decimal cs = foldl (\<lambda>a c. 10 * a + (of_char c - 48)) 0 cs"

lemma of_decimal_decimal: "of_decimal (decimal n) = n"
proof (induction n rule: decimal.induct)
  case (1 n)
  then show ?case
    by (subst decimal.simps) (auto simp: of_decimal_def of_char_of)
qed

lemma decimal_inject: "decimal m = decimal n \<longleftrightarrow> m = n"
  using of_decimal_decimal by metis

lemma decimal_characters: "c \<in> set (decimal n) \<Longrightarrow> (48::nat) \<le> of_char c \<and> (of_char c :: nat) \<le> 57"
proof (induction n rule: decimal.induct)
  case (1 n)
  have "n mod 10 < 10" by simp
  then show ?case
    using 1 by (subst (asm) (2) decimal.simps) (auto simp: of_char_of split: if_splits)
qed

lemma decimal_not_Nil: "decimal n \<noteq> []"
  by (subst decimal.simps) simp

lemma length_decimal: "n < 10 ^ k \<Longrightarrow> 0 < k \<Longrightarrow> length (decimal n) \<le> k"
proof (induction k arbitrary: n)
  case (Suc k)
  show ?case
  proof (cases "n < 10")
    case False
    then have "0 < k" using Suc.prems by (cases k) auto
    then show ?thesis
      using Suc False by (subst decimal.simps) auto
  qed (subst decimal.simps, simp)
qed simp

lemma file_name_digit:
  assumes "(48::nat) \<le> of_char c" "(of_char c :: nat) \<le> 57"
  shows "\<not> FileName_invalid_characters [c]"
proof -
  have ne: "c \<noteq> d" if "(of_char d :: nat) < 48 \<or> (57::nat) < of_char d" for d
    using assms that by auto
  have "c \<notin> {NUL, CHR ''/'', CHR '':'', CHR 0x5C, CHR ''<'', CHR ''>'', CHR 0x22, CHR ''|'', CHR ''?'', CHR ''*''}"
    by (simp add: ne)
  then show ?thesis using assms(1) by simp
qed

lemma file_name_decimal: "\<not> FileName_invalid_characters (decimal n)"
  using file_name.badc_iff [of "decimal n"] decimal_characters file_name_digit by blast

lemma decimal_content: "\<not> FileName_invalid_content (decimal n)"
proof -
  have "CHR ''.'' \<notin> set (decimal n)" using decimal_characters by fastforce
  then show ?thesis using decimal_not_Nil by (auto simp: FileName_invalid_content_def)
qed

lemma underscore_not_digit: "CHR ''_'' \<notin> set (decimal n)"
  using decimal_characters by fastforce

text \<open>Appending legal characters to a file name works as long as there is room.\<close>

lemma FileName_push_ok:
  assumes "file_name.valid_string f" "bs_len f + length bytes \<le> CAPACITY f" "bs_len f < CAPACITY f"
    "\<not> FileName_invalid_characters bytes" "\<not> FileName_invalid_content (as_bytes f @ bytes)"
  shows "\<exists>f'. FileName_push_bytes bytes f = Ret (Ok (), f')
    \<and> file_name.valid_string f' \<and> CAPACITY f' = CAPACITY f \<and> as_bytes f' = as_bytes f @ bytes"
proof -
  have inv: "bs_inv f" "\<not> FileName_invalid_characters (as_bytes f)"
    using assms(1) by (simp_all add: file_name.valid_string_def)
  have len: "length (as_bytes f) = bs_len f" using inv length_as_bytes by simp
  obtain f' where ins: "FixedSizeByteString_insert_bytes (bs_len f) bytes f = Ret (Ok (), f')"
    using insert_bytes_ok [OF inv(1) order_refl assms(2,3)] by blast
  then have "as_bytes f' = as_bytes f @ bytes" using insert_bytes_Ret [OF inv(1) ins] len by simp
  then have ret: "SemanticString_insert_bytes FileName_invalid_content FileName_invalid_characters (bs_len f) bytes f = Ret (Ok (), f')"
    using ins assms(4,5) by (simp add: SemanticString_insert_bytes_def)
  show ?thesis
    using ret file_name.insert_bytes_keeps_chars [OF inv ret] len
    by (auto simp: file_name.valid_string_def FileName_push_bytes_def SemanticString_push_bytes_def)
qed

lemma FileName_new_ok:
  assumes "0 < length junk" "length v \<le> length junk" "\<not> FileName_invalid_characters v" "\<not> FileName_invalid_content v"
  shows "\<exists>f. FileName_new junk v = Ret (Ok f) \<and> file_name.valid_string f \<and> as_bytes f = v \<and> CAPACITY f = length junk"
proof -
  obtain f where "FileName_new junk v = Ret (Ok f)"
    using file_name.new_outcome [OF assms(1), of v] assms by (auto simp: FileName_new_def)
  then show ?thesis using file_name.new_valid by (auto simp: FileName_new_def)
qed

lemma Path_new_ok:
  assumes "0 < length junk" "length v \<le> length junk" "\<not> Path_invalid_characters v" "\<not> Path_invalid_content v"
  shows "\<exists>f. Path_new junk v = Ret (Ok f) \<and> path.valid_string f \<and> as_bytes f = v \<and> CAPACITY f = length junk"
proof -
  obtain f where "Path_new junk v = Ret (Ok f)"
    using path.new_outcome [OF assms(1), of v] assms by (auto simp: Path_new_def)
  then show ?thesis using path.new_valid by (auto simp: Path_new_def)
qed

lemma generate_default_config_ok:
  assumes junk: "length junk_file = FILENAME_LENGTH" "length junk_path = PATH_LENGTH"
    and prefix: "length pre \<le> FILENAME_LENGTH" "\<not> FileName_invalid_characters pre" "\<not> FileName_invalid_content pre"
    and suffix: "length sfx \<le> FILENAME_LENGTH" "\<not> FileName_invalid_characters sfx" "\<not> FileName_invalid_content sfx"
    and hint: "length hint \<le> PATH_LENGTH" "\<not> Path_invalid_characters hint" "\<not> Path_invalid_content hint"
  shows "\<exists>cfg. generate_default_config junk_file junk_path pre sfx hint = Ret cfg
    \<and> path.valid_string (nc_path_hint cfg) \<and> CAPACITY (nc_path_hint cfg) = PATH_LENGTH
    \<and> file_name.valid_string (nc_prefix cfg) \<and> file_name.valid_string (nc_suffix cfg)
    \<and> bs_len (nc_path_hint cfg) = length hint \<and> bs_len (nc_prefix cfg) = length pre \<and> bs_len (nc_suffix cfg) = length sfx"
proof -
  have pos: "0 < length junk_file" "0 < length junk_path" using junk by (simp_all add: FILENAME_LENGTH_def PATH_LENGTH_def)
  obtain p where p: "FileName_new junk_file pre = Ret (Ok p)" "file_name.valid_string p" "as_bytes p = pre"
    using FileName_new_ok [OF pos(1)] prefix junk by metis
  obtain q where q: "FileName_new junk_file sfx = Ret (Ok q)" "file_name.valid_string q" "as_bytes q = sfx"
    using FileName_new_ok [OF pos(1)] suffix junk by metis
  obtain h where h: "Path_new junk_path hint = Ret (Ok h)" "path.valid_string h" "as_bytes h = hint" "CAPACITY h = PATH_LENGTH"
    using Path_new_ok [OF pos(2)] hint junk by metis
  have "bs_len p = length pre" "bs_len q = length sfx" "bs_len h = length hint"
    using p(2,3) q(2,3) h(2,3) length_as_bytes [of p] length_as_bytes [of q] length_as_bytes [of h]
    by (simp_all add: file_name.valid_string_def path.valid_string_def)
  then show ?thesis using p q h by (simp add: generate_default_config_def unwrap_name_def)
qed

lemma connection_name_ok:
  assumes "length junk = FILENAME_LENGTH"
  shows "\<exists>f. connection_name junk p s = Ret f \<and> file_name.valid_string f
    \<and> as_bytes f = decimal (unat p) @ CHR ''_'' # decimal (unat s) \<and> bs_len f \<le> 79"
proof -
  have l: "length (decimal (unat x)) \<le> 39" for x :: "128 word"
    using length_decimal [of "unat x" 39] unsigned_less [of x, where ?'a = nat] by simp
  obtain f0 where f0: "FileName_new junk (decimal (unat p)) = Ret (Ok f0)" "file_name.valid_string f0"
    "as_bytes f0 = decimal (unat p)" "CAPACITY f0 = FILENAME_LENGTH"
    using FileName_new_ok [of junk "decimal (unat p)"] l [of p] assms file_name_decimal decimal_content
    by (auto simp: FILENAME_LENGTH_def)
  have l0: "bs_len f0 \<le> 39" using f0(2,3) l [of p] length_as_bytes [of f0] by (simp add: file_name.valid_string_def)
  have c1: "\<not> FileName_invalid_content (as_bytes f0 @ ''_'' @ x)" for x
    using underscore_not_digit f0(3) by (auto simp: FileName_invalid_content_def append_eq_Cons_conv)
  obtain f1 where f1: "FileName_push_bytes ''_'' f0 = Ret (Ok (), f1)" "file_name.valid_string f1"
    "CAPACITY f1 = FILENAME_LENGTH" "as_bytes f1 = decimal (unat p) @ ''_''"
    using FileName_push_ok [OF f0(2), of "''_''"] l0 f0(3,4) c1 [of "[]"] by (auto simp: FILENAME_LENGTH_def)
  have l1: "bs_len f1 \<le> 40"
    using f1(2,4) l [of p] length_as_bytes [of f1] by (simp add: file_name.valid_string_def)
  obtain f2 where f2: "FileName_push_bytes (decimal (unat s)) f1 = Ret (Ok (), f2)" "file_name.valid_string f2"
    "as_bytes f2 = decimal (unat p) @ CHR ''_'' # decimal (unat s)"
    using FileName_push_ok [OF f1(2), of "decimal (unat s)"] l1 l [of s] f1(3,4) c1 [of "decimal (unat s)"]
      f0(3) file_name_decimal by (auto simp: FILENAME_LENGTH_def)
  have "bs_len f2 \<le> 79"
    using f2(2,3) l [of p] l [of s] length_as_bytes [of f2] by (simp add: file_name.valid_string_def)
  moreover have "FileName_push (CHR ''_'') f0 = Ret (Ok (), f1)"
    using f1(1) by (simp add: FileName_push_def FileName_push_bytes_def SemanticString_push_def
        SemanticString_insert_def SemanticString_push_bytes_def)
  ultimately show ?thesis
    using f0(1) f2 by (simp add: connection_name_def unwrap_name_def or_panic_def)
qed

lemma split_at_separator:
  assumes "a @ x # b = a' @ x # b'" "x \<notin> set a" "x \<notin> set a'"
  shows "a = a' \<and> b = b'"
  using assms by (induction a arbitrary: a') (auto simp: Cons_eq_append_conv append_eq_Cons_conv)

text \<open>
  Different pairs of a publisher and a subscriber use different connections: naming a
  connection never fails, and the files of two connections are the same only when publisher and
  subscriber are.
\<close>
theorem connection_paths_distinct:
  assumes hint: "path.valid_string (nc_path_hint cfg)" "CAPACITY (nc_path_hint cfg) = PATH_LENGTH"
    and names: "file_name.valid_string (nc_prefix cfg)" "file_name.valid_string (nc_suffix cfg)"
    and room: "bs_len (nc_path_hint cfg) + 80 + bs_len (nc_prefix cfg) + bs_len (nc_suffix cfg) \<le> PATH_LENGTH"
    and junk: "length junk = FILENAME_LENGTH" "length junk_path = PATH_LENGTH"
  shows "\<exists>f g fp gp. connection_name junk p s = Ret f \<and> connection_name junk p' s' = Ret g
    \<and> path_for junk_path cfg f = Ret fp \<and> path_for junk_path cfg g = Ret gp
    \<and> (as_bytes fp = as_bytes gp \<longleftrightarrow> p = p' \<and> s = s')"
proof -
  obtain f where f: "connection_name junk p s = Ret f" "file_name.valid_string f"
    "as_bytes f = decimal (unat p) @ CHR ''_'' # decimal (unat s)" "bs_len f \<le> 79"
    using connection_name_ok [OF junk(1)] by blast
  obtain g where g: "connection_name junk p' s' = Ret g" "file_name.valid_string g"
    "as_bytes g = decimal (unat p') @ CHR ''_'' # decimal (unat s')" "bs_len g \<le> 79"
    using connection_name_ok [OF junk(1)] by blast
  let ?sep = "if as_bytes (nc_path_hint cfg) = [] \<or> ends_with_separator (as_bytes (nc_path_hint cfg)) then [] else [PATH_SEPARATOR]"
  obtain fp where fp: "path_for junk_path cfg f = Ret fp"
    "as_bytes fp = as_bytes (nc_path_hint cfg) @ ?sep @ as_bytes (nc_prefix cfg) @ as_bytes f @ as_bytes (nc_suffix cfg)"
    using path_for_ok [OF hint names(1) f(2) names(2) _ junk(2)] room f(4) by auto
  obtain gp where gp: "path_for junk_path cfg g = Ret gp"
    "as_bytes gp = as_bytes (nc_path_hint cfg) @ ?sep @ as_bytes (nc_prefix cfg) @ as_bytes g @ as_bytes (nc_suffix cfg)"
    using path_for_ok [OF hint names(1) g(2) names(2) _ junk(2)] room g(4) by auto
  have "as_bytes fp = as_bytes gp \<longleftrightarrow> as_bytes f = as_bytes g" using fp(2) gp(2) by simp
  also have "\<dots> \<longleftrightarrow> p = p' \<and> s = s'"
    unfolding f(3) g(3)
    using split_at_separator [OF _ underscore_not_digit underscore_not_digit] decimal_inject word_unat_eq_iff by metis
  finally show ?thesis using f(1) g(1) fp(1) gp(1) by blast
qed

text \<open>The default prefix, a suffix and a path hint.\<close>

definition example_config :: NamedConceptConfiguration where
  "example_config = \<lparr>nc_suffix = \<lparr>bs_len = 3, bs_data = ''.rx'' @ [NUL], bs_terminator = NUL\<rparr>,
     nc_prefix = \<lparr>bs_len = 5, bs_data = ''iox2_'' @ [NUL], bs_terminator = NUL\<rparr>,
     nc_path_hint = \<lparr>bs_len = 5, bs_data = ''/tmp/'' @ replicate 4091 NUL, bs_terminator = NUL\<rparr>\<rparr>"

lemma example_config_valid:
  "path.valid_string (nc_path_hint example_config)" "CAPACITY (nc_path_hint example_config) = PATH_LENGTH"
  "file_name.valid_string (nc_prefix example_config)" "file_name.valid_string (nc_suffix example_config)"
  "bs_len (nc_path_hint example_config) = 5" "bs_len (nc_prefix example_config) = 5"
  "bs_len (nc_suffix example_config) = 3"
  by (simp_all add: example_config_def path.valid_string_def file_name.valid_string_def bs_inv_def as_bytes_def
      Path_invalid_content_def FileName_invalid_content_def PATH_LENGTH_def)

theorem connection_paths_distinct_witness:
  "\<exists>f g fp gp. connection_name (replicate FILENAME_LENGTH NUL) 12 3 = Ret f
    \<and> connection_name (replicate FILENAME_LENGTH NUL) 1 23 = Ret g
    \<and> path_for (replicate PATH_LENGTH NUL) example_config f = Ret fp
    \<and> path_for (replicate PATH_LENGTH NUL) example_config g = Ret gp
    \<and> as_bytes fp \<noteq> as_bytes gp"
proof -
  have "bs_len (nc_path_hint example_config) + 80 + bs_len (nc_prefix example_config) + bs_len (nc_suffix example_config) \<le> PATH_LENGTH"
    "length (replicate FILENAME_LENGTH NUL) = FILENAME_LENGTH" "length (replicate PATH_LENGTH NUL) = PATH_LENGTH"
    by (simp_all add: example_config_valid PATH_LENGTH_def)
  from connection_paths_distinct [OF example_config_valid(1-4) this, of 12 3 1 23]
  show ?thesis by force
qed

end
