(* ===== verification/ServiceConfig.thy ===== *)
theory ServiceConfig
  imports LockFreeContainer PortNames
begin

text \<open>
  The configuration of services: the global configuration \<open>iceoryx2/src/config.rs\<close>, the
  configurations of the resources \<open>service/config_scheme.rs\<close>, the static configuration of a service
  \<open>service/static_config/*.rs\<close>, \<open>service/messaging_pattern.rs\<close> and \<open>service/service_name.rs\<close>, and
  the dynamic configuration \<open>service/dynamic_config/*.rs\<close> with the registered ports and the
  reference counter that decides when a service is removed. The counter is modelled with its
  atomic steps for any number of processes.
\<close>

section \<open>config.rs\<close>

datatype UnableToDeliverStrategy = Block | DiscardSample

record config_Service =
  gs_directory :: "char list"
  gs_publisher_data_segment_suffix :: "char list"
  gs_static_config_storage_suffix :: "char list"
  gs_dynamic_config_storage_suffix :: "char list"
  gs_creation_timeout :: nat
  gs_connection_suffix :: "char list"

record config_Global =
  g_root_path :: "char list"
  g_prefix :: "char list"
  g_service :: config_Service

record config_PublishSubscribe =
  dp_max_subscribers :: nat
  dp_max_publishers :: nat
  dp_subscriber_max_buffer_size :: nat
  dp_subscriber_max_borrowed_samples :: nat
  dp_publisher_max_loaned_samples :: nat
  dp_publisher_history_size :: nat
  dp_enable_safe_overflow :: bool
  dp_unable_to_deliver_strategy :: UnableToDeliverStrategy

record config_Event =
  de_max_listeners :: nat
  de_max_notifiers :: nat

record Config =
  c_global :: config_Global
  c_publish_subscribe :: config_PublishSubscribe
  c_event :: config_Event

text \<open>Durations are in nanoseconds.\<close>

definition Config_default :: Config where
  "Config_default =
     \<lparr>c_global = \<lparr>g_root_path = ''/tmp/iceoryx2/'', g_prefix = ''iox2_'',
        g_service = \<lparr>gs_directory = ''services'', gs_publisher_data_segment_suffix = ''.publisher_data'',
          gs_static_config_storage_suffix = ''.service'', gs_dynamic_config_storage_suffix = ''.dynamic'',
          gs_creation_timeout = 500000000, gs_connection_suffix = ''.connection''\<rparr>\<rparr>,
      c_publish_subscribe = \<lparr>dp_max_subscribers = 8, dp_max_publishers = 2, dp_subscriber_max_buffer_size = 2,
        dp_subscriber_max_borrowed_samples = 2, dp_publisher_max_loaned_samples = 2,
        dp_publisher_history_size = 1, dp_enable_safe_overflow = True,
        dp_unable_to_deliver_strategy = Block\<rparr>,
      c_event = \<lparr>de_max_listeners = 1, de_max_notifiers = 16\<rparr>\<rparr>"

section \<open>config_scheme.rs\<close>

definition dynamic_config_storage_config :: "char list \<Rightarrow> char list \<Rightarrow> Config \<Rightarrow> NamedConceptConfiguration outcome" where
  "dynamic_config_storage_config junk_file junk_path c =
     generate_default_config junk_file junk_path (g_prefix (c_global c))
       (gs_dynamic_config_storage_suffix (g_service (c_global c))) (g_root_path (c_global c))"

definition static_config_storage_config :: "char list \<Rightarrow> char list \<Rightarrow> Config \<Rightarrow> NamedConceptConfiguration outcome" where
  "static_config_storage_config junk_file junk_path c =
     generate_default_config junk_file junk_path (g_prefix (c_global c))
       (gs_dynamic_config_storage_suffix (g_service (c_global c)))
       (g_root_path (c_global c) @ gs_directory (g_service (c_global c)))"

definition connection_config :: "char list \<Rightarrow> char list \<Rightarrow> Config \<Rightarrow> NamedConceptConfiguration outcome" where
  "connection_config junk_file junk_path c =
     generate_default_config junk_file junk_path (g_prefix (c_global c))
       (gs_connection_suffix (g_service (c_global c))) (g_root_path (c_global c))"

definition data_segment_config :: "char list \<Rightarrow> char list \<Rightarrow> Config \<Rightarrow> NamedConceptConfiguration outcome" where
  "data_segment_config junk_file junk_path c =
     generate_default_config junk_file junk_path (g_prefix (c_global c))
       (gs_publisher_data_segment_suffix (g_service (c_global c))) (g_root_path (c_global c))"

section \<open>service_name.rs\<close>

definition SERVICE_NAME_LENGTH :: nat where
  "SERVICE_NAME_LENGTH = 255"

definition ServiceName_new :: "char list \<Rightarrow> char list \<Rightarrow> (FixedSizeByteString, SemanticStringError) result outcome" where
  "ServiceName_new junk name =
     (if name = [] then Ret (Err InvalidName)
      else outcome_bind (FixedSizeByteString_from_bytes junk name) (\<lambda>r.
        case r of Err _ \<Rightarrow> Ret (Err ExceedsMaximumLength) | Ok s \<Rightarrow> Ret (Ok s)))"

section \<open>static_config\<close>

record PubSubStaticConfig =
  ps_max_subscribers :: nat
  ps_max_publishers :: nat
  ps_history_size :: nat
  ps_subscriber_max_buffer_size :: nat
  ps_subscriber_max_borrowed_samples :: nat
  ps_enable_safe_overflow :: bool
  ps_type_name :: "char list"

definition PubSubStaticConfig_new :: "Config \<Rightarrow> PubSubStaticConfig" where
  "PubSubStaticConfig_new c =
     (let d = c_publish_subscribe c in
      \<lparr>ps_max_subscribers = dp_max_subscribers d, ps_max_publishers = dp_max_publishers d,
       ps_history_size = dp_publisher_history_size d,
       ps_subscriber_max_buffer_size = dp_subscriber_max_buffer_size d,
       ps_subscriber_max_borrowed_samples = dp_subscriber_max_borrowed_samples d,
       ps_enable_safe_overflow = dp_enable_safe_overflow d, ps_type_name = []\<rparr>)"

record EventStaticConfig =
  es_max_notifiers :: nat
  es_max_listeners :: nat

definition EventStaticConfig_new :: "Config \<Rightarrow> EventStaticConfig" where
  "EventStaticConfig_new c = \<lparr>es_max_notifiers = de_max_notifiers (c_event c), es_max_listeners = de_max_listeners (c_event c)\<rparr>"

datatype MessagingPattern = PublishSubscribe PubSubStaticConfig | Event EventStaticConfig

fun is_same_pattern :: "MessagingPattern \<Rightarrow> MessagingPattern \<Rightarrow> bool" where
  "is_same_pattern (PublishSubscribe _) (PublishSubscribe _) = True"
| "is_same_pattern (Event _) (Event _) = True"
| "is_same_pattern _ _ = False"

fun required_amount_of_samples_per_data_segment :: "MessagingPattern \<Rightarrow> nat \<Rightarrow> nat" where
  "required_amount_of_samples_per_data_segment (PublishSubscribe v) publisher_max_loaned_samples =
     ps_max_subscribers v * (ps_subscriber_max_buffer_size v + ps_subscriber_max_borrowed_samples v)
       + ps_history_size v + publisher_max_loaned_samples + 1"
| "required_amount_of_samples_per_data_segment (Event _) publisher_max_loaned_samples = 0"

record StaticConfig =
  sc_uuid :: "char list"
  sc_service_name :: "char list"
  sc_messaging_pattern :: MessagingPattern

text \<open>\<open>hash\<close> is the hex string of the hash of the service name, a parameter.\<close>

definition StaticConfig_new_event :: "(char list \<Rightarrow> char list) \<Rightarrow> char list \<Rightarrow> Config \<Rightarrow> StaticConfig" where
  "StaticConfig_new_event hash service_name c =
     \<lparr>sc_uuid = hash service_name, sc_service_name = service_name,
      sc_messaging_pattern = Event (EventStaticConfig_new c)\<rparr>"

definition StaticConfig_new_publish_subscribe :: "(char list \<Rightarrow> char list) \<Rightarrow> char list \<Rightarrow> Config \<Rightarrow> StaticConfig" where
  "StaticConfig_new_publish_subscribe hash service_name c =
     \<lparr>sc_uuid = hash service_name, sc_service_name = service_name,
      sc_messaging_pattern = PublishSubscribe (PubSubStaticConfig_new c)\<rparr>"

definition has_same_messaging_pattern :: "StaticConfig \<Rightarrow> StaticConfig \<Rightarrow> bool" where
  "has_same_messaging_pattern c rhs = is_same_pattern (sc_messaging_pattern c) (sc_messaging_pattern rhs)"

definition StaticConfig_event :: "StaticConfig \<Rightarrow> EventStaticConfig outcome" where
  "StaticConfig_event c = (case sc_messaging_pattern c of Event v \<Rightarrow> Ret v | _ \<Rightarrow> Panic)"

definition StaticConfig_publish_subscribe :: "StaticConfig \<Rightarrow> PubSubStaticConfig outcome" where
  "StaticConfig_publish_subscribe c = (case sc_messaging_pattern c of PublishSubscribe v \<Rightarrow> Ret v | _ \<Rightarrow> Panic)"

definition StaticConfig_event_mut :: "(EventStaticConfig \<Rightarrow> EventStaticConfig) \<Rightarrow> StaticConfig \<Rightarrow> StaticConfig outcome" where
  "StaticConfig_event_mut f c = (case sc_messaging_pattern c of
     Event v \<Rightarrow> Ret (c\<lparr>sc_messaging_pattern := Event (f v)\<rparr>) | _ \<Rightarrow> Panic)"

definition StaticConfig_publish_subscribe_mut ::
  "(PubSubStaticConfig \<Rightarrow> PubSubStaticConfig) \<Rightarrow> StaticConfig \<Rightarrow> StaticConfig outcome" where
  "StaticConfig_publish_subscribe_mut f c = (case sc_messaging_pattern c of
     PublishSubscribe v \<Rightarrow> Ret (c\<lparr>sc_messaging_pattern := PublishSubscribe (f v)\<rparr>) | _ \<Rightarrow> Panic)"

section \<open>dynamic_config\<close>

text \<open>A port identifier has 16 bytes; its alignment depends on the compiler.\<close>

definition size_of_id :: nat where
  "size_of_id = 16"

record PubSubDynamicConfig =
  pd_subscribers :: "UniqueSystemId Container"
  pd_publishers :: "UniqueSystemId Container"

definition PubSubDynamicConfig_new :: "nat \<Rightarrow> nat \<Rightarrow> PubSubDynamicConfig" where
  "PubSubDynamicConfig_new number_of_subscribers number_of_publishers =
     \<lparr>pd_subscribers = Container_new_uninit number_of_subscribers,
      pd_publishers = Container_new_uninit number_of_publishers\<rparr>"

definition PubSubDynamicConfig_init ::
  "nat \<Rightarrow> 'm allocate_op \<Rightarrow> PubSubDynamicConfig \<Rightarrow> 'm \<Rightarrow> (PubSubDynamicConfig \<times> 'm) outcome" where
  "PubSubDynamicConfig_init align_of_id allocator d m =
     outcome_bind (Container_init size_of_id align_of_id allocator (pd_subscribers d) m) (\<lambda>(r, s, m).
       case r of Err _ \<Rightarrow> Panic
       | Ok _ \<Rightarrow> outcome_bind (Container_init size_of_id align_of_id allocator (pd_publishers d) m) (\<lambda>(r, p, m).
           case r of Err _ \<Rightarrow> Panic | Ok _ \<Rightarrow> Ret (\<lparr>pd_subscribers = s, pd_publishers = p\<rparr>, m)))"

definition PubSubDynamicConfig_memory_size :: "nat \<Rightarrow> nat \<Rightarrow> nat \<Rightarrow> nat" where
  "PubSubDynamicConfig_memory_size align_of_id number_of_subscribers number_of_publishers =
     Container_const_memory_size size_of_id align_of_id number_of_subscribers
       + Container_const_memory_size size_of_id align_of_id number_of_publishers"

definition PubSubDynamicConfig_number_of_publishers :: "PubSubDynamicConfig \<Rightarrow> nat" where
  "PubSubDynamicConfig_number_of_publishers d = Container_len (pd_publishers d)"

definition PubSubDynamicConfig_number_of_subscribers :: "PubSubDynamicConfig \<Rightarrow> nat" where
  "PubSubDynamicConfig_number_of_subscribers d = Container_len (pd_subscribers d)"

definition add_subscriber_id ::
  "UniqueSystemId \<Rightarrow> PubSubDynamicConfig \<Rightarrow> (32 word option \<times> PubSubDynamicConfig) outcome" where
  "add_subscriber_id port_id d = outcome_bind (Container_add port_id (pd_subscribers d)) (\<lambda>(r, c). Ret (r, d\<lparr>pd_subscribers := c\<rparr>))"

definition add_publisher_id ::
  "UniqueSystemId \<Rightarrow> PubSubDynamicConfig \<Rightarrow> (32 word option \<times> PubSubDynamicConfig) outcome" where
  "add_publisher_id port_id d = outcome_bind (Container_add port_id (pd_publishers d)) (\<lambda>(r, c). Ret (r, d\<lparr>pd_publishers := c\<rparr>))"

record EventDynamicConfig =
  ed_listeners :: "UniqueSystemId Container"
  ed_notifiers :: "UniqueSystemId Container"

definition EventDynamicConfig_new :: "nat \<Rightarrow> nat \<Rightarrow> EventDynamicConfig" where
  "EventDynamicConfig_new number_of_listeners number_of_notifiers =
     \<lparr>ed_listeners = Container_new_uninit number_of_listeners,
      ed_notifiers = Container_new_uninit number_of_notifiers\<rparr>"

definition EventDynamicConfig_init ::
  "nat \<Rightarrow> 'm allocate_op \<Rightarrow> EventDynamicConfig \<Rightarrow> 'm \<Rightarrow> (EventDynamicConfig \<times> 'm) outcome" where
  "EventDynamicConfig_init align_of_id allocator d m =
     outcome_bind (Container_init size_of_id align_of_id allocator (ed_listeners d) m) (\<lambda>(r, l, m).
       case r of Err _ \<Rightarrow> Panic
       | Ok _ \<Rightarrow> outcome_bind (Container_init size_of_id align_of_id allocator (ed_notifiers d) m) (\<lambda>(r, n, m).
           case r of Err _ \<Rightarrow> Panic | Ok _ \<Rightarrow> Ret (\<lparr>ed_listeners = l, ed_notifiers = n\<rparr>, m)))"

definition EventDynamicConfig_memory_size :: "nat \<Rightarrow> nat \<Rightarrow> nat \<Rightarrow> nat" where
  "EventDynamicConfig_memory_size align_of_id number_of_listeners number_of_notifiers =
     Container_const_memory_size size_of_id align_of_id number_of_listeners
       + Container_const_memory_size size_of_id align_of_id number_of_notifiers"

definition EventDynamicConfig_number_of_listeners :: "EventDynamicConfig \<Rightarrow> nat" where
  "EventDynamicConfig_number_of_listeners d = Container_len (ed_listeners d)"

definition EventDynamicConfig_number_of_notifiers :: "EventDynamicConfig \<Rightarrow> nat" where
  "EventDynamicConfig_number_of_notifiers d = Container_len (ed_notifiers d)"

definition add_listener_id ::
  "UniqueSystemId \<Rightarrow> EventDynamicConfig \<Rightarrow> (32 word option \<times> EventDynamicConfig) outcome" where
  "add_listener_id port_id d = outcome_bind (Container_add port_id (ed_listeners d)) (\<lambda>(r, c). Ret (r, d\<lparr>ed_listeners := c\<rparr>))"

definition add_notifier_id ::
  "UniqueSystemId \<Rightarrow> EventDynamicConfig \<Rightarrow> (32 word option \<times> EventDynamicConfig) outcome" where
  "add_notifier_id port_id d = outcome_bind (Container_add port_id (ed_notifiers d)) (\<lambda>(r, c). Ret (r, d\<lparr>ed_notifiers := c\<rparr>))"

datatype DynamicMessagingPattern = DynamicPublishSubscribe PubSubDynamicConfig | DynamicEvent EventDynamicConfig

record DynamicConfig =
  dc_messaging_pattern :: DynamicMessagingPattern
  dc_reference_counter :: "64 word"

definition MARKED_FOR_DESTRUCTION :: "64 word" where
  "MARKED_FOR_DESTRUCTION = - 1 - 1"

datatype DecrementReferenceCounterResult = HasOwners | NoMoreOwners

definition DynamicConfig_new_uninit :: "DynamicMessagingPattern \<Rightarrow> DynamicConfig" where
  "DynamicConfig_new_uninit p = \<lparr>dc_messaging_pattern = p, dc_reference_counter = 1\<rparr>"

fun DynamicConfig_init :: "nat \<Rightarrow> 'm allocate_op \<Rightarrow> DynamicConfig \<Rightarrow> 'm \<Rightarrow> (DynamicConfig \<times> 'm) outcome" where
  "DynamicConfig_init align_of_id allocator d m =
     (case dc_messaging_pattern d of
        DynamicPublishSubscribe v \<Rightarrow> outcome_bind (PubSubDynamicConfig_init align_of_id allocator v m) (\<lambda>(v', m').
          Ret (d\<lparr>dc_messaging_pattern := DynamicPublishSubscribe v'\<rparr>, m'))
      | DynamicEvent v \<Rightarrow> outcome_bind (EventDynamicConfig_init align_of_id allocator v m) (\<lambda>(v', m').
          Ret (d\<lparr>dc_messaging_pattern := DynamicEvent v'\<rparr>, m')))"

text \<open>Without a second process the exchanges of the counter succeed in the first round.\<close>

definition increment_reference_counter :: "DynamicConfig \<Rightarrow> (unit, unit) result \<times> DynamicConfig" where
  "increment_reference_counter d =
     (if dc_reference_counter d = MARKED_FOR_DESTRUCTION then (Err (), d)
      else (Ok (), d\<lparr>dc_reference_counter := dc_reference_counter d + 1\<rparr>))"

definition decrement_reference_counter :: "DynamicConfig \<Rightarrow> DecrementReferenceCounterResult \<times> DynamicConfig" where
  "decrement_reference_counter d =
     (if dc_reference_counter d = 1 then (NoMoreOwners, d\<lparr>dc_reference_counter := MARKED_FOR_DESTRUCTION\<rparr>)
      else (HasOwners, d\<lparr>dc_reference_counter := dc_reference_counter d - 1\<rparr>))"

definition DynamicConfig_publish_subscribe :: "DynamicConfig \<Rightarrow> PubSubDynamicConfig outcome" where
  "DynamicConfig_publish_subscribe d = (case dc_messaging_pattern d of DynamicPublishSubscribe v \<Rightarrow> Ret v | _ \<Rightarrow> Panic)"

definition DynamicConfig_event :: "DynamicConfig \<Rightarrow> EventDynamicConfig outcome" where
  "DynamicConfig_event d = (case dc_messaging_pattern d of DynamicEvent v \<Rightarrow> Ret v | _ \<Rightarrow> Panic)"

section \<open>The reference counter under interleaving\<close>

text \<open>
  Processes \<open>t < N\<close> open and close the service. A process that opened it is an owner until its
  decrement; \<open>rc_removed\<close> counts how often a process was told that there are no more owners.
\<close>

datatype rc_pc = RC_out | RC_increment "64 word" | RC_owner | RC_decrement "64 word"

record rc_conf =
  rc_counter :: "64 word"
  rc_pc :: "nat \<Rightarrow> rc_pc"
  rc_removed :: nat

definition rc_start :: rc_conf where
  "rc_start = \<lparr>rc_counter = 1, rc_pc = (\<lambda>_. RC_out)(0 := RC_owner), rc_removed = 0\<rparr>"

inductive rc_step :: "nat \<Rightarrow> rc_conf \<Rightarrow> rc_conf \<Rightarrow> bool" for N where
  rc_inc_load: "t < N \<Longrightarrow> rc_pc s t = RC_out \<Longrightarrow>
    rc_step N s (s\<lparr>rc_pc := (rc_pc s)(t := RC_increment (rc_counter s))\<rparr>)"
| rc_inc_marked: "rc_pc s t = RC_increment MARKED_FOR_DESTRUCTION \<Longrightarrow>
    rc_step N s (s\<lparr>rc_pc := (rc_pc s)(t := RC_out)\<rparr>)"
| rc_inc_exchange: "rc_pc s t = RC_increment current \<Longrightarrow> current \<noteq> MARKED_FOR_DESTRUCTION \<Longrightarrow> rc_counter s = current \<Longrightarrow>
    rc_step N s (s\<lparr>rc_counter := current + 1, rc_pc := (rc_pc s)(t := RC_owner)\<rparr>)"
| rc_inc_retry: "rc_pc s t = RC_increment current \<Longrightarrow> current \<noteq> MARKED_FOR_DESTRUCTION \<Longrightarrow> rc_counter s \<noteq> current \<Longrightarrow>
    rc_step N s (s\<lparr>rc_pc := (rc_pc s)(t := RC_increment (rc_counter s))\<rparr>)"
| rc_dec_load: "rc_pc s t = RC_owner \<Longrightarrow>
    rc_step N s (s\<lparr>rc_pc := (rc_pc s)(t := RC_decrement (rc_counter s))\<rparr>)"
| rc_dec_exchange: "rc_pc s t = RC_decrement current \<Longrightarrow> rc_counter s = current \<Longrightarrow>
    rc_step N s (s\<lparr>rc_counter := (if current = 1 then MARKED_FOR_DESTRUCTION else current - 1),
      rc_pc := (rc_pc s)(t := RC_out), rc_removed := rc_removed s + (if current = 1 then 1 else 0)\<rparr>)"
| rc_dec_retry: "rc_pc s t = RC_decrement current \<Longrightarrow> rc_counter s \<noteq> current \<Longrightarrow>
    rc_step N s (s\<lparr>rc_pc := (rc_pc s)(t := RC_decrement (rc_counter s))\<rparr>)"

fun owns :: "rc_pc \<Rightarrow> bool" where
  "owns RC_owner = True"
| "owns (RC_decrement _) = True"
| "owns _ = False"

definition owners :: "rc_conf \<Rightarrow> nat set" where
  "owners s = {t. owns (rc_pc s t)}"

definition rc_inv :: "nat \<Rightarrow> rc_conf \<Rightarrow> bool" where
  "rc_inv N s \<longleftrightarrow> (\<forall>t. N \<le> t \<longrightarrow> rc_pc s t = RC_out)
     \<and> (if rc_removed s = 0 then owners s \<noteq> {} \<and> unat (rc_counter s) = card (owners s)
        else rc_removed s = 1 \<and> owners s = {} \<and> rc_counter s = MARKED_FOR_DESTRUCTION)"

lemma owners_bound: "rc_inv N s \<Longrightarrow> owners s \<subseteq> {..<N}"
  by (auto simp: owners_def rc_inv_def) (metis not_less owns.simps(3))

lemma owners_update:
  "owners (s\<lparr>rc_counter := c, rc_pc := (rc_pc s)(t := p), rc_removed := r\<rparr>)
     = (if owns p then insert t (owners s) else owners s - {t})"
  "owners (s\<lparr>rc_counter := c, rc_pc := (rc_pc s)(t := p)\<rparr>) = (if owns p then insert t (owners s) else owners s - {t})"
  "owners (s\<lparr>rc_pc := (rc_pc s)(t := p)\<rparr>) = (if owns p then insert t (owners s) else owners s - {t})"
  by (auto simp: owners_def)

lemma rc_pc_unchanged:
  assumes "rc_inv N s" "owns p \<longleftrightarrow> owns (rc_pc s t)" "t < N"
  shows "rc_inv N (s\<lparr>rc_pc := (rc_pc s)(t := p)\<rparr>)"
proof -
  have "owners (s\<lparr>rc_pc := (rc_pc s)(t := p)\<rparr>) = owners s"
    using assms(2) by (auto simp: owners_def)
  then show ?thesis using assms(1,3) by (auto simp: rc_inv_def)
qed

lemma rc_inv_pc: "rc_inv N s \<Longrightarrow> rc_pc s t \<noteq> RC_out \<Longrightarrow> t < N"
  using not_le by (auto simp: rc_inv_def)

lemma MARKED_unat: "unat MARKED_FOR_DESTRUCTION = 2 ^ 64 - 2"
  unfolding MARKED_FOR_DESTRUCTION_def by simp

lemma rc_inv_step:
  assumes inv: "rc_inv N s" and N: "N < 2 ^ 64 - 2" and step: "rc_step N s s'"
  shows "rc_inv N s'"
  using step
proof cases
  case (rc_inc_exchange t current)
  have t: "t < N" using inv rc_inc_exchange(2) rc_inv_pc by fastforce
  have out: "t \<notin> owners s" using rc_inc_exchange(2) by (simp add: owners_def)
  have rem: "rc_removed s = 0" "unat (rc_counter s) = card (owners s)"
    using inv rc_inc_exchange(3,4) by (auto simp: rc_inv_def split: if_splits)
  have fin: "finite (owners s)" using owners_bound [OF inv] finite_subset by blast
  have "card (owners s) \<le> N" using card_mono [OF _ owners_bound [OF inv]] by simp
  then have "unat (rc_counter s) + 1 < 2 ^ 64" using N rem(2) by simp
  then have "unat (rc_counter s + 1) = card (insert t (owners s))"
    using rem(2) fin out by (simp add: unat_word_ariths)
  then show ?thesis
    using inv rc_inc_exchange(1,4) rem(1) t by (auto simp: rc_inv_def owners_update)
next
  case (rc_dec_exchange t current)
  have t: "t < N" using inv rc_dec_exchange(2) rc_inv_pc by fastforce
  have own: "t \<in> owners s" using rc_dec_exchange(2) by (simp add: owners_def)
  have rem: "rc_removed s = 0" "unat (rc_counter s) = card (owners s)"
    using inv own by (auto simp: rc_inv_def split: if_splits)
  have fin: "finite (owners s)" using owners_bound [OF inv] finite_subset by blast
  show ?thesis
  proof (cases "current = 1")
    case True
    then have "card (owners s) = 1" using rem(2) rc_dec_exchange(3) by simp
    then obtain u where "owners s = {u}" by (auto simp: card_1_singleton_iff)
    then have "owners s = {t}" using own by simp
    then show ?thesis
      using inv rc_dec_exchange(1) True rem(1) t by (auto simp: rc_inv_def owners_update)
  next
    case False
    have "0 < card (owners s)" using own fin card_gt_0_iff by blast
    moreover have "card (owners s) \<noteq> 1" using False rem(2) rc_dec_exchange(3) by (metis unat_1 word_unat_eq_iff)
    ultimately have c: "1 < card (owners s)" by linarith
    then have "1 \<le> rc_counter s" using rem(2) by (simp add: word_le_nat_alt)
    then have u: "unat (rc_counter s - 1) = card (owners s) - 1" using rem(2) by (simp add: unat_sub)
    have "card (owners s - {t}) = card (owners s) - 1" using own fin by simp
    moreover from this c have "owners s - {t} \<noteq> {}" by force
    ultimately show ?thesis
      using inv rc_dec_exchange(1,3) False rem(1) t u by (auto simp: rc_inv_def owners_update)
  qed
next
  case (rc_inc_load t)
  then show ?thesis using rc_pc_unchanged [OF inv, of _ t] by simp
next
  case (rc_inc_marked t)
  have "t < N" using inv rc_inc_marked(2) rc_inv_pc by fastforce
  then show ?thesis using rc_pc_unchanged [OF inv, of _ t] rc_inc_marked by simp
next
  case (rc_inc_retry t current)
  have "t < N" using inv rc_inc_retry(2) rc_inv_pc by fastforce
  then show ?thesis using rc_pc_unchanged [OF inv, of _ t] rc_inc_retry by simp
next
  case (rc_dec_load t)
  have "t < N" using inv rc_dec_load(2) rc_inv_pc by fastforce
  then show ?thesis using rc_pc_unchanged [OF inv, of _ t] rc_dec_load by simp
next
  case (rc_dec_retry t current)
  have "t < N" using inv rc_dec_retry(2) rc_inv_pc by fastforce
  then show ?thesis using rc_pc_unchanged [OF inv, of _ t] rc_dec_retry by simp
qed

lemma rc_inv_start: "0 < N \<Longrightarrow> rc_inv N rc_start"
proof -
  assume "0 < N"
  moreover have "owners rc_start = {0}" by (auto simp: owners_def rc_start_def split: if_splits)
  ultimately show ?thesis by (auto simp: rc_inv_def rc_start_def)
qed

interpretation rc: inductive_invariant "\<lambda>s. s = rc_start" "rc_step N" "\<lambda>s. 0 < N \<and> N < 2 ^ 64 - 2 \<longrightarrow> rc_inv N s"
  using rc_inv_start rc_inv_step by unfold_locales auto

text \<open>
  C19: The service is removed exactly when its last owner leaves: under every interleaving of any
  number of processes that open and close it, the counter of a service that is not marked is the
  number of its owners, at most one process is told to remove the service, and from then on nobody
  owns it and nobody becomes an owner.
\<close>
theorem reference_counter_removes_once:
  assumes "0 < N" "N < 2 ^ 64 - 2" "reachable (\<lambda>s. s = rc_start) (rc_step N) s"
  shows "rc_removed s \<le> 1
    \<and> (if rc_counter s = MARKED_FOR_DESTRUCTION then rc_removed s = 1 \<and> owners s = {}
       else unat (rc_counter s) = card (owners s) \<and> owners s \<noteq> {} \<and> rc_removed s = 0)
    \<and> (rc_removed s = 1 \<and> rc_step N s s' \<longrightarrow> owners s' = {} \<and> rc_removed s' = 1)"
proof -
  have inv: "rc_inv N s" using rc.reachable_inv assms by blast
  have "card (owners s) \<le> N" using card_mono [OF _ owners_bound [OF inv]] by simp
  then have "unat (rc_counter s) = card (owners s) \<Longrightarrow> rc_counter s \<noteq> MARKED_FOR_DESTRUCTION"
    using assms(2) MARKED_unat by (metis leD)
  moreover have "owners s' = {} \<and> rc_removed s' = 1" if "rc_removed s = 1" "rc_step N s s'"
  proof -
    have s': "rc_inv N s'" using rc_inv_step [OF inv assms(2) that(2)] .
    have "rc_removed s \<le> rc_removed s'" using that(2) by cases auto
    then show ?thesis using s' that(1) by (auto simp: rc_inv_def split: if_splits)
  qed
  ultimately show ?thesis using inv by (auto simp: rc_inv_def split: if_splits)
qed

theorem reference_counter_removes_once_witness:
  "\<exists>s. reachable (\<lambda>s. s = rc_start) (rc_step 2) s \<and> rc_removed s = 1 \<and> owners s = {}
     \<and> rc_counter s = MARKED_FOR_DESTRUCTION"
proof -
  let ?s1 = "rc_start\<lparr>rc_pc := (rc_pc rc_start)(0 := RC_decrement (rc_counter rc_start))\<rparr>"
  have s1: "rc_step 2 rc_start ?s1" by (rule rc_dec_load) (simp add: rc_start_def)
  let ?s2 = "?s1\<lparr>rc_counter := (if rc_counter rc_start = 1 then MARKED_FOR_DESTRUCTION else rc_counter rc_start - 1),
      rc_pc := (rc_pc ?s1)(0 := RC_out), rc_removed := rc_removed ?s1 + (if rc_counter rc_start = 1 then 1 else 0)\<rparr>"
  have s2: "rc_step 2 ?s1 ?s2" by (rule rc_dec_exchange) (simp_all add: rc_start_def)
  have "reachable (\<lambda>s. s = rc_start) (rc_step 2) rc_start" by (rule reachable_init) simp
  then have "reachable (\<lambda>s. s = rc_start) (rc_step 2) ?s1" using s1 by (rule reachable_step)
  then have r: "reachable (\<lambda>s. s = rc_start) (rc_step 2) ?s2" using s2 by (rule reachable_step)
  define s where "s = ?s2"
  have c: "rc_counter s = MARKED_FOR_DESTRUCTION" by (simp add: s_def rc_start_def)
  note r = r [folded s_def]
  have "rc_removed s = 1 \<and> owners s = {}"
    using reference_counter_removes_once [OF _ _ r] c by simp
  then show ?thesis using r c by blast
qed

section \<open>Memory of the dynamic configuration\<close>

text \<open>
  The size that the builders reserve for the dynamic configuration is enough: both port
  containers of a publish-subscribe and of an event service initialise themselves in it, at any
  address, and are empty afterwards.
\<close>
theorem dynamic_config_memory_suffices:
  assumes "0 < n" "n + 1 < 2 ^ 32" "0 < k" "k + 1 < 2 ^ 32" "0 < al"
  shows "(\<exists>d m. PubSubDynamicConfig_init al BumpAllocator_allocate (PubSubDynamicConfig_new n k)
        (BumpAllocator_new ptr (PubSubDynamicConfig_memory_size al n k)) = Ret (d, m)
      \<and> Container_inv (pd_subscribers d) \<and> Container_contents (pd_subscribers d) = [] \<and> ct_capacity (pd_subscribers d) = n
      \<and> Container_inv (pd_publishers d) \<and> Container_contents (pd_publishers d) = [] \<and> ct_capacity (pd_publishers d) = k)
    \<and> (\<exists>d m. EventDynamicConfig_init al BumpAllocator_allocate (EventDynamicConfig_new n k)
        (BumpAllocator_new ptr (EventDynamicConfig_memory_size al n k)) = Ret (d, m)
      \<and> Container_inv (ed_listeners d) \<and> Container_contents (ed_listeners d) = [] \<and> ct_capacity (ed_listeners d) = n
      \<and> Container_inv (ed_notifiers d) \<and> Container_contents (ed_notifiers d) = [] \<and> ct_capacity (ed_notifiers d) = k)"
proof -
  let ?b = "BumpAllocator_new ptr (PubSubDynamicConfig_memory_size al n k)"
  have sz: "0 < size_of_id" by (simp add: size_of_id_def)
  have b: "ba_current_position ?b = 0" "ba_size ?b = Container_const_memory_size size_of_id al n + Container_const_memory_size size_of_id al k"
    "EventDynamicConfig_memory_size al n k = PubSubDynamicConfig_memory_size al n k"
    by (simp_all add: BumpAllocator_new_def PubSubDynamicConfig_memory_size_def EventDynamicConfig_memory_size_def)
  obtain c1 :: "UniqueSystemId Container" and b1 where c1: "Container_init size_of_id al BumpAllocator_allocate (Container_new_uninit n) ?b = Ret (Ok (), c1, b1)"
    "Container_inv c1" "Container_contents c1 = []" "ct_capacity c1 = n" "ba_size b1 = ba_size ?b"
    "ba_current_position b1 \<le> Container_const_memory_size size_of_id al n"
    using container_memory_size_suffices [OF assms(1,2) sz assms(5), of ?b] b by auto
  obtain c2 :: "UniqueSystemId Container" and b2 where c2: "Container_init size_of_id al BumpAllocator_allocate (Container_new_uninit k) b1 = Ret (Ok (), c2, b2)"
    "Container_inv c2" "Container_contents c2 = []" "ct_capacity c2 = k"
    using container_memory_size_suffices [OF assms(3,4) sz assms(5), of b1] b c1(5,6) by auto
  have "PubSubDynamicConfig_init al BumpAllocator_allocate (PubSubDynamicConfig_new n k) ?b
      = Ret (\<lparr>pd_subscribers = c1, pd_publishers = c2\<rparr>, b2)"
    using c1(1) c2(1) by (simp add: PubSubDynamicConfig_init_def PubSubDynamicConfig_new_def)
  moreover have "EventDynamicConfig_init al BumpAllocator_allocate (EventDynamicConfig_new n k)
      (BumpAllocator_new ptr (EventDynamicConfig_memory_size al n k)) = Ret (\<lparr>ed_listeners = c1, ed_notifiers = c2\<rparr>, b2)"
    using c1(1) c2(1) b(3) by (simp add: EventDynamicConfig_init_def EventDynamicConfig_new_def)
  ultimately show ?thesis
    using c1(2-4) c2(2-4) by (metis PubSubDynamicConfig.select_convs EventDynamicConfig.select_convs)
qed

theorem dynamic_config_memory_suffices_witness:
  "\<exists>d m. PubSubDynamicConfig_init 16 BumpAllocator_allocate (PubSubDynamicConfig_new 8 2)
      (BumpAllocator_new 4097 (PubSubDynamicConfig_memory_size 16 8 2)) = Ret (d, m)
    \<and> ct_capacity (pd_subscribers d) = 8"
  using dynamic_config_memory_suffices [of 8 2 16 4097] by auto

end
