(* ===== verification/SharedMemory.thy ===== *)
theory SharedMemory
  imports Allocators
begin

text \<open>
  The shared memory of the concept abstraction layer: the relocatable allocators
  \<open>iceoryx2_cal/src/shm_allocator/*.rs\<close>, which hand out offsets instead of addresses, and the
  memory \<open>iceoryx2_cal/src/shared_memory/posix.rs\<close> that keeps its allocator inside itself. The
  operating system's memory is a base address; whether it could be created or opened is an
  argument.
\<close>

section \<open>shm_allocator/mod.rs\<close>

type_synonym PointerOffset = nat

datatype ShmAllocationError = ExceedsMaxSupportedAlignment | ShmAllocation AllocationError

datatype ShmAllocatorInitError = MaxSupportedMemoryAlignmentInsufficient | AllocationFailed

section \<open>shm_allocator/pool_allocator.rs\<close>

record ShmPoolAllocator =
  sp_allocator :: PoolAllocator
  sp_base_address :: nat
  sp_max_supported_alignment_by_memory :: nat

definition ShmPoolConfig_default :: Layout where
  "ShmPoolConfig_default = mk_layout 1024 8"

definition ShmPoolAllocator_bucket_size :: "ShmPoolAllocator \<Rightarrow> nat" where
  "ShmPoolAllocator_bucket_size a = pa_bucket_size (sp_allocator a)"

definition ShmPoolAllocator_number_of_buckets :: "ShmPoolAllocator \<Rightarrow> 32 word" where
  "ShmPoolAllocator_number_of_buckets a = PoolAllocator_number_of_buckets (sp_allocator a)"

definition ShmPoolAllocator_management_size :: "nat \<Rightarrow> Layout \<Rightarrow> nat" where
  "ShmPoolAllocator_management_size memory_size config = PoolAllocator_memory_size config memory_size"

definition ShmPoolAllocator_new_uninit :: "nat \<Rightarrow> nat \<Rightarrow> nat \<Rightarrow> Layout \<Rightarrow> ShmPoolAllocator outcome" where
  "ShmPoolAllocator_new_uninit max_supported_alignment_by_memory base_address len config =
     outcome_bind (PoolAllocator_new_uninit config base_address len) (\<lambda>p.
       Ret \<lparr>sp_allocator = p, sp_base_address = base_address,
            sp_max_supported_alignment_by_memory = max_supported_alignment_by_memory\<rparr>)"

definition ShmPoolAllocator_max_alignment :: "ShmPoolAllocator \<Rightarrow> nat" where
  "ShmPoolAllocator_max_alignment a = pa_bucket_alignment (sp_allocator a)"

definition ShmPoolAllocator_init ::
  "'m allocate_op \<Rightarrow> ShmPoolAllocator \<Rightarrow> 'm
     \<Rightarrow> ((unit, ShmAllocatorInitError) result \<times> ShmPoolAllocator \<times> 'm) outcome" where
  "ShmPoolAllocator_init allocator a m =
     (if sp_max_supported_alignment_by_memory a < ShmPoolAllocator_max_alignment a
      then Ret (Err MaxSupportedMemoryAlignmentInsufficient, a, m)
      else outcome_bind (PoolAllocator_init allocator (sp_allocator a) m) (\<lambda>(r, p, m').
        case r of
          Err e \<Rightarrow> Ret (Err AllocationFailed, a\<lparr>sp_allocator := p\<rparr>, m')
        | Ok _ \<Rightarrow> Ret (Ok (), a\<lparr>sp_allocator := p\<rparr>, m')))"

definition ShmPoolAllocator_unique_id :: "8 word" where
  "ShmPoolAllocator_unique_id = 0"

definition ShmPoolAllocator_allocate ::
  "Layout \<Rightarrow> ShmPoolAllocator \<Rightarrow> ((PointerOffset, ShmAllocationError) result \<times> ShmPoolAllocator) outcome" where
  "ShmPoolAllocator_allocate layout a =
     (if ShmPoolAllocator_max_alignment a < layout_align layout
      then Ret (Err ExceedsMaxSupportedAlignment, a)
      else outcome_bind (PoolAllocator_allocate layout (sp_allocator a)) (\<lambda>(r, p).
        case r of
          Err e \<Rightarrow> Ret (Err (ShmAllocation e), a\<lparr>sp_allocator := p\<rparr>)
        | Ok chunk \<Rightarrow> Ret (Ok (fst chunk - sp_base_address a), a\<lparr>sp_allocator := p\<rparr>)))"

definition ShmPoolAllocator_deallocate ::
  "PointerOffset \<Rightarrow> Layout \<Rightarrow> ShmPoolAllocator
     \<Rightarrow> ((unit, DeallocationError) result \<times> ShmPoolAllocator) outcome" where
  "ShmPoolAllocator_deallocate offset layout a =
     outcome_bind (PoolAllocator_deallocate (offset + sp_base_address a) layout (sp_allocator a)) (\<lambda>(r, p).
       Ret (r, a\<lparr>sp_allocator := p\<rparr>))"

section \<open>shm_allocator/bump_allocator.rs\<close>

record ShmBumpAllocator =
  sb_allocator :: BumpAllocator
  sb_base_address :: nat
  sb_max_supported_alignment_by_memory :: nat

definition ShmBumpAllocator_management_size :: "nat \<Rightarrow> nat" where
  "ShmBumpAllocator_management_size memory_size = 0"

definition ShmBumpAllocator_new_uninit :: "nat \<Rightarrow> nat \<Rightarrow> nat \<Rightarrow> ShmBumpAllocator" where
  "ShmBumpAllocator_new_uninit max_supported_alignment_by_memory base_address len =
     \<lparr>sb_allocator = BumpAllocator_new base_address len, sb_base_address = base_address,
      sb_max_supported_alignment_by_memory = max_supported_alignment_by_memory\<rparr>"

definition ShmBumpAllocator_max_alignment :: "ShmBumpAllocator \<Rightarrow> nat" where
  "ShmBumpAllocator_max_alignment a = 8"

definition ShmBumpAllocator_init :: "ShmBumpAllocator \<Rightarrow> (unit, ShmAllocatorInitError) result" where
  "ShmBumpAllocator_init a =
     (if sb_max_supported_alignment_by_memory a < ShmBumpAllocator_max_alignment a
      then Err MaxSupportedMemoryAlignmentInsufficient else Ok ())"

definition ShmBumpAllocator_unique_id :: "8 word" where
  "ShmBumpAllocator_unique_id = 1"

definition ShmBumpAllocator_allocate ::
  "Layout \<Rightarrow> ShmBumpAllocator \<Rightarrow> (PointerOffset, ShmAllocationError) result \<times> ShmBumpAllocator" where
  "ShmBumpAllocator_allocate layout a =
     (if ShmBumpAllocator_max_alignment a < layout_align layout then (Err ExceedsMaxSupportedAlignment, a)
      else case BumpAllocator_allocate layout (sb_allocator a) of
          (Err e, b) \<Rightarrow> (Err (ShmAllocation e), a\<lparr>sb_allocator := b\<rparr>)
        | (Ok chunk, b) \<Rightarrow> (Ok (fst chunk - sb_base_address a), a\<lparr>sb_allocator := b\<rparr>))"

definition ShmBumpAllocator_deallocate ::
  "PointerOffset \<Rightarrow> Layout \<Rightarrow> ShmBumpAllocator \<Rightarrow> (unit, DeallocationError) result \<times> ShmBumpAllocator" where
  "ShmBumpAllocator_deallocate offset layout a =
     (case BumpAllocator_deallocate (offset + sb_base_address a) layout (sb_allocator a) of
        (r, b) \<Rightarrow> (r, a\<lparr>sb_allocator := b\<rparr>))"

section \<open>shared_memory/posix.rs, with a pool allocator\<close>

datatype SharedMemoryCreateError =
  Create_AlreadyExists | Create_SizeIsZero | Create_InsufficientPermissions | Create_InternalError

datatype SharedMemoryOpenError =
  Open_DoesNotExist | Open_InsufficientPermissions | Open_SizeIsZero | Open_SizeDoesNotFit
| Open_WrongAllocatorSelected | Open_InternalError

definition SharedMemory_IS_INITIALIZED_STATE_VALUE :: "64 word" where
  "SharedMemory_IS_INITIALIZED_STATE_VALUE = 0xbeefaffedeadbeef"

record AllocatorDetails =
  ad_state :: "64 word"
  ad_allocator_id :: "8 word"
  ad_allocator :: ShmPoolAllocator
  ad_mgmt_size :: nat

record Memory =
  me_base_address :: nat
  me_size :: nat
  me_allocator :: AllocatorDetails

text \<open>
  \<open>details\<close> is the layout of \<open>AllocatorDetails<PoolAllocator>\<close>, \<open>created\<close> the base address of the
  newly created memory or the reason why there is none.
\<close>

definition allocator_details_size :: "Layout \<Rightarrow> nat" where
  "allocator_details_size details = layout_size details + layout_align details - 1"

definition allocator_size :: "Layout \<Rightarrow> nat \<Rightarrow> Layout \<Rightarrow> nat" where
  "allocator_size details sz allocator_config =
     allocator_details_size details + ShmPoolAllocator_management_size sz allocator_config"

definition SharedMemory_create ::
  "Layout \<Rightarrow> nat \<Rightarrow> nat \<Rightarrow> Layout \<Rightarrow> (nat, SharedMemoryCreateError) result
     \<Rightarrow> (Memory, SharedMemoryCreateError) result outcome" where
  "SharedMemory_create details page_size sz allocator_config created =
     (if sz = 0 then Ret (Err Create_SizeIsZero)
      else let allocator_mgmt_size = allocator_size details sz allocator_config
        in case created of
            Err e \<Rightarrow> Ret (Err e)
          | Ok base \<Rightarrow>
              outcome_bind (ShmPoolAllocator_new_uninit page_size (base + allocator_mgmt_size) sz allocator_config) (\<lambda>a.
              outcome_bind
                (ShmPoolAllocator_init BumpAllocator_allocate a
                   (BumpAllocator_new (base + allocator_details_size details)
                      (ShmPoolAllocator_management_size sz allocator_config))) (\<lambda>(r, a', _).
                case r of
                  Err _ \<Rightarrow> Ret (Err Create_InternalError)
                | Ok _ \<Rightarrow> Ret (Ok \<lparr>me_base_address = base, me_size = sz + allocator_mgmt_size,
                    me_allocator = \<lparr>ad_state = SharedMemory_IS_INITIALIZED_STATE_VALUE,
                      ad_allocator_id = ShmPoolAllocator_unique_id, ad_allocator = a',
                      ad_mgmt_size = allocator_mgmt_size\<rparr>\<rparr>))))"

definition SPACE_FOR_ALLOCATOR_ID :: nat where
  "SPACE_FOR_ALLOCATOR_ID = 1"

definition SharedMemory_open ::
  "(Memory, SharedMemoryOpenError) result \<Rightarrow> (Memory, SharedMemoryOpenError) result" where
  "SharedMemory_open opened =
     (case opened of
        Err e \<Rightarrow> Err e
      | Ok shm \<Rightarrow>
          if ad_state (me_allocator shm) \<noteq> SharedMemory_IS_INITIALIZED_STATE_VALUE then Err Open_InternalError
          else if me_size shm \<le> SPACE_FOR_ALLOCATOR_ID then Err Open_SizeDoesNotFit
          else if ad_allocator_id (me_allocator shm) \<noteq> ShmPoolAllocator_unique_id
          then Err Open_WrongAllocatorSelected
          else Ok shm)"

definition SharedMemory_size :: "Memory \<Rightarrow> nat" where
  "SharedMemory_size m = me_size m - ad_mgmt_size (me_allocator m)"

definition SharedMemory_max_alignment :: "Memory \<Rightarrow> nat" where
  "SharedMemory_max_alignment m = ShmPoolAllocator_max_alignment (ad_allocator (me_allocator m))"

definition allocator_data_start_address :: "Memory \<Rightarrow> nat" where
  "allocator_data_start_address m = me_base_address m + ad_mgmt_size (me_allocator m)"

record ShmPointer =
  shp_offset :: PointerOffset
  shp_data_ptr :: nat

definition SharedMemory_allocate ::
  "Layout \<Rightarrow> Memory \<Rightarrow> ((ShmPointer, ShmAllocationError) result \<times> Memory) outcome" where
  "SharedMemory_allocate layout m =
     outcome_bind (ShmPoolAllocator_allocate layout (ad_allocator (me_allocator m))) (\<lambda>(r, a).
       let m' = m\<lparr>me_allocator := (me_allocator m)\<lparr>ad_allocator := a\<rparr>\<rparr> in
       case r of
         Err e \<Rightarrow> Ret (Err e, m')
       | Ok offset \<Rightarrow> Ret (Ok \<lparr>shp_offset = offset,
           shp_data_ptr = offset + allocator_data_start_address m\<rparr>, m'))"

definition SharedMemory_deallocate ::
  "PointerOffset \<Rightarrow> Layout \<Rightarrow> Memory \<Rightarrow> ((unit, DeallocationError) result \<times> Memory) outcome" where
  "SharedMemory_deallocate offset layout m =
     outcome_bind (ShmPoolAllocator_deallocate offset layout (ad_allocator (me_allocator m))) (\<lambda>(r, a).
       Ret (r, m\<lparr>me_allocator := (me_allocator m)\<lparr>ad_allocator := a\<rparr>\<rparr>))"

section \<open>Data segments\<close>

text \<open>
  The buckets of a memory, counted from zero; the offset of a bucket is the distance of its
  address from the start of the data.
\<close>

definition me_pool :: "Memory \<Rightarrow> PoolAllocator" where
  "me_pool m = sp_allocator (ad_allocator (me_allocator m))"

definition me_bucket_size :: "Memory \<Rightarrow> nat" where
  "me_bucket_size m = pa_bucket_size (me_pool m)"

definition me_buckets :: "Memory \<Rightarrow> nat" where
  "me_buckets m = unat (ui_capacity (pa_buckets (me_pool m)))"

definition me_free :: "Memory \<Rightarrow> nat set" where
  "me_free m = unat ` PoolAllocator_free (me_pool m)"

definition me_offset :: "Memory \<Rightarrow> nat \<Rightarrow> PointerOffset" where
  "me_offset m i = pa_start (me_pool m) - allocator_data_start_address m + i * me_bucket_size m"

definition Memory_inv :: "Memory \<Rightarrow> bool" where
  "Memory_inv m \<longleftrightarrow> PoolAllocator_inv (me_pool m)
     \<and> sp_base_address (ad_allocator (me_allocator m)) = allocator_data_start_address m
     \<and> allocator_data_start_address m \<le> pa_start (me_pool m)
     \<and> pa_start (me_pool m) < allocator_data_start_address m + me_bucket_size m"

text \<open>What allocation and deallocation leave alone.\<close>

definition same_segment :: "Memory \<Rightarrow> Memory \<Rightarrow> bool" where
  "same_segment m m' \<longleftrightarrow> me_bucket_size m' = me_bucket_size m \<and> me_buckets m' = me_buckets m
     \<and> me_offset m' = me_offset m \<and> pa_bucket_alignment (me_pool m') = pa_bucket_alignment (me_pool m)"

lemma same_segment_trans: "same_segment a b \<Longrightarrow> same_segment b c \<Longrightarrow> same_segment a c"
  by (simp add: same_segment_def)

lemma same_segment_refl: "same_segment m m"
  by (simp add: same_segment_def)

lemma me_offset_index:
  assumes "Memory_inv m"
  shows "me_offset m i div me_bucket_size m = i"
proof -
  have "pa_start (me_pool m) - allocator_data_start_address m < me_bucket_size m" "0 < me_bucket_size m"
    using assms by (auto simp: Memory_inv_def)
  then show ?thesis unfolding me_offset_def by simp
qed

lemma me_free_bound: "Memory_inv m \<Longrightarrow> me_free m \<subseteq> {..<me_buckets m}"
  using free_chain_bound
  by (fastforce simp: Memory_inv_def PoolAllocator_inv_def ui_inv_def me_free_def PoolAllocator_free_def
      me_buckets_def word_less_nat_alt)

lemma SharedMemory_allocate_ok:
  assumes inv: "Memory_inv m" and fits: "layout_size l \<le> me_bucket_size m"
    "layout_align l \<le> pa_bucket_alignment (me_pool m)" and free: "me_free m \<noteq> {}"
  shows "\<exists>i p m'. i \<in> me_free m \<and> SharedMemory_allocate l m = Ret (Ok p, m')
    \<and> shp_offset p = me_offset m i \<and> shp_data_ptr p = me_offset m i + allocator_data_start_address m
    \<and> Memory_inv m' \<and> same_segment m m' \<and> me_free m' = me_free m - {i}"
proof -
  have pool: "PoolAllocator_inv (me_pool m)" using inv by (simp add: Memory_inv_def)
  obtain x xs where x: "ui_free (pa_buckets (me_pool m)) = x # xs"
    using free by (cases "ui_free (pa_buckets (me_pool m))") (auto simp: me_free_def PoolAllocator_free_def)
  obtain c p' where a: "PoolAllocator_allocate l (me_pool m) = Ret (Ok c, p')"
    using PoolAllocator_allocate_first [OF _ _ x, of l] pool fits by (auto simp: PoolAllocator_inv_def me_bucket_size_def)
  obtain i where i: "i \<in> PoolAllocator_free (me_pool m)" "fst c = pa_start (me_pool m) + unat i * pa_bucket_size (me_pool m)"
    "PoolAllocator_inv p'" "PoolAllocator_free p' = PoolAllocator_free (me_pool m) - {i}"
    "pa_start p' = pa_start (me_pool m)" "pa_bucket_size p' = pa_bucket_size (me_pool m)"
    "ui_capacity (pa_buckets p') = ui_capacity (pa_buckets (me_pool m))"
    using PoolAllocator_allocate_ok [OF pool a] by auto
  have al: "pa_bucket_alignment p' = pa_bucket_alignment (me_pool m)"
    using a by (auto simp: PoolAllocator_allocate_def outcome_bind_eq_Ret split: if_splits option.splits)
  let ?m = "m\<lparr>me_allocator := (me_allocator m)\<lparr>ad_allocator := (ad_allocator (me_allocator m))\<lparr>sp_allocator := p'\<rparr>\<rparr>\<rparr>"
  have pool': "me_pool ?m = p'" "allocator_data_start_address ?m = allocator_data_start_address m"
    by (simp_all add: me_pool_def allocator_data_start_address_def)
  have "unat ` (PoolAllocator_free (me_pool m) - {i}) = unat ` PoolAllocator_free (me_pool m) - {unat i}"
    by (auto simp: word_unat_eq_iff)
  then have m': "Memory_inv ?m" "same_segment m ?m" "me_free ?m = me_free m - {unat i}"
    using inv i al by (auto simp: Memory_inv_def same_segment_def me_free_def me_bucket_size_def me_buckets_def
        me_offset_def pool' fun_eq_iff)
  have b: "sp_base_address (ad_allocator (me_allocator m)) = allocator_data_start_address m"
    "allocator_data_start_address m \<le> pa_start (me_pool m)"
    using inv by (simp_all add: Memory_inv_def)
  have off: "fst c - allocator_data_start_address m = me_offset m (unat i)"
    using b(2) by (simp add: i(2) me_offset_def me_bucket_size_def)
  have "ShmPoolAllocator_allocate l (ad_allocator (me_allocator m))
      = Ret (Ok (me_offset m (unat i)), (ad_allocator (me_allocator m))\<lparr>sp_allocator := p'\<rparr>)"
    using a fits off b(1) by (simp add: ShmPoolAllocator_allocate_def ShmPoolAllocator_max_alignment_def me_pool_def)
  then have "SharedMemory_allocate l m = Ret (Ok \<lparr>shp_offset = me_offset m (unat i),
      shp_data_ptr = me_offset m (unat i) + allocator_data_start_address m\<rparr>, ?m)"
    by (simp add: SharedMemory_allocate_def)
  moreover have "unat i \<in> me_free m" using i(1) by (simp add: me_free_def)
  ultimately show ?thesis using m' by (metis ShmPointer.select_convs)
qed

lemma SharedMemory_allocate_none:
  assumes inv: "Memory_inv m" and fits: "layout_size l \<le> me_bucket_size m"
    "layout_align l \<le> pa_bucket_alignment (me_pool m)" and free: "me_free m = {}"
  shows "SharedMemory_allocate l m = Ret (Err (ShmAllocation AE_OutOfMemory), m)"
proof -
  have pool: "PoolAllocator_inv (me_pool m)" using inv by (simp add: Memory_inv_def)
  have "ui_free (pa_buckets (me_pool m)) = []" using free by (simp add: me_free_def PoolAllocator_free_def)
  then have "PoolAllocator_allocate l (me_pool m) = Ret (Err AE_OutOfMemory, me_pool m)"
    using ui_acquire_none [of "pa_buckets (me_pool m)"] pool fits
    by (simp add: PoolAllocator_allocate_def PoolAllocator_inv_def me_bucket_size_def)
  then show ?thesis
    using fits by (simp add: SharedMemory_allocate_def ShmPoolAllocator_allocate_def ShmPoolAllocator_max_alignment_def
        me_pool_def)
qed

lemma SharedMemory_deallocate_ok:
  assumes inv: "Memory_inv m" and i: "i < me_buckets m" "i \<notin> me_free m"
  shows "\<exists>m'. SharedMemory_deallocate (me_offset m i) l m = Ret (Ok (), m')
    \<and> Memory_inv m' \<and> same_segment m m' \<and> me_free m' = insert i (me_free m)"
proof -
  have pool: "PoolAllocator_inv (me_pool m)" using inv by (simp add: Memory_inv_def)
  define w :: "32 word" where "w = word_of_nat i"
  have w: "unat w = i" "w < ui_capacity (pa_buckets (me_pool m))"
    using i(1) unsigned_less [of "ui_capacity (pa_buckets (me_pool m))", where ?'a = nat]
    by (simp_all add: w_def me_buckets_def unat_word32 word_less_nat_alt)
  have "w \<notin> PoolAllocator_free (me_pool m)" using i(2) w(1) by (auto simp: me_free_def)
  then obtain p' where d: "PoolAllocator_deallocate (pa_start (me_pool m) + i * pa_bucket_size (me_pool m)) l (me_pool m) = Ret (Ok (), p')"
    "PoolAllocator_inv p'" "PoolAllocator_free p' = insert w (PoolAllocator_free (me_pool m))"
    "pa_start p' = pa_start (me_pool m)" "pa_bucket_size p' = pa_bucket_size (me_pool m)"
    "ui_capacity (pa_buckets p') = ui_capacity (pa_buckets (me_pool m))"
    using PoolAllocator_deallocate_ok [OF pool w(2), of l] w(1) by auto
  have al: "pa_bucket_alignment p' = pa_bucket_alignment (me_pool m)"
    using d(1) by (auto simp: PoolAllocator_deallocate_def outcome_bind_eq_Ret split: if_splits option.splits)
  let ?m = "m\<lparr>me_allocator := (me_allocator m)\<lparr>ad_allocator := (ad_allocator (me_allocator m))\<lparr>sp_allocator := p'\<rparr>\<rparr>\<rparr>"
  have pool': "me_pool ?m = p'" "allocator_data_start_address ?m = allocator_data_start_address m"
    by (simp_all add: me_pool_def allocator_data_start_address_def)
  have m': "Memory_inv ?m" "same_segment m ?m" "me_free ?m = insert i (me_free m)"
    using inv d w(1) al by (auto simp: Memory_inv_def same_segment_def me_free_def me_bucket_size_def me_buckets_def
        me_offset_def pool' fun_eq_iff)
  have b: "sp_base_address (ad_allocator (me_allocator m)) = allocator_data_start_address m"
    "allocator_data_start_address m \<le> pa_start (me_pool m)"
    using inv by (simp_all add: Memory_inv_def)
  have "me_offset m i + sp_base_address (ad_allocator (me_allocator m)) = pa_start (me_pool m) + i * pa_bucket_size (me_pool m)"
    using b by (simp add: me_offset_def me_bucket_size_def)
  then have "SharedMemory_deallocate (me_offset m i) l m = Ret (Ok (), ?m)"
    using d(1) by (simp add: SharedMemory_deallocate_def ShmPoolAllocator_deallocate_def me_pool_def)
  then show ?thesis using m' by blast
qed

text \<open>
  A memory of \<open>n\<close> buckets plus the padding for their alignment has exactly \<open>n\<close> buckets, wherever
  it is mapped and however the management data in front of it end.
\<close>

lemma SharedMemory_create_ok:
  assumes l: "valid_layout l" "0 < layout_size l" "layout_align l dvd layout_size l" "layout_align l \<le> page_size"
    and n: "0 < n" "n + 1 < 2 ^ 32"
  shows "\<exists>m. SharedMemory_create details page_size (layout_size l * n + layout_align l - 1) l (Ok base) = Ret (Ok m)
    \<and> Memory_inv m \<and> me_buckets m = n \<and> me_free m = {..<n} \<and> me_bucket_size m = layout_size l
    \<and> pa_bucket_alignment (me_pool m) = layout_align l \<and> SharedMemory_open (Ok m) = Ok m"
proof -
  define sz where "sz = layout_size l * n + layout_align l - 1"
  define mgmt where "mgmt = allocator_size details sz l"
  define ptr where "ptr = base + mgmt"
  have a: "0 < layout_align l" "layout_align l \<le> layout_size l"
    using l valid_layout_pos dvd_imp_le by auto
  have al: "ptr \<le> align ptr (layout_align l)" "align ptr (layout_align l) < ptr + layout_align l"
    using align_ge [OF a(1)] align_lt [OF a(1)] by auto
  have sz: "layout_size l * n \<le> sz" "sz - layout_size l * n < layout_size l" "sz \<noteq> 0"
    using a mult_pos_pos [OF l(2) n(1)] unfolding sz_def by linarith+
  have fits: "align ptr (layout_align l) \<le> ptr + sz" using al a n(1) sz(1) l(2) by (simp add: sz_def)
  define r where "r = ptr + sz - align ptr (layout_align l) - layout_size l * n"
  have r: "ptr + sz - align ptr (layout_align l) = layout_size l * n + r" "r < layout_size l"
    using al a unfolding r_def sz_def by auto
  have nb: "(ptr + sz - align ptr (layout_align l)) div layout_size l = n"
    unfolding r(1) using r(2) l(2) by simp
  have "sz = layout_size l * n + (sz - layout_size l * n)" using sz(1) by simp
  then have "sz div layout_size l = n" using sz(2) l(2)
    by (metis div_mult_self2 add.commute div_less add_0 less_numeral_extra(3))
  then have ms: "ShmPoolAllocator_management_size sz l = 4 * (n + 1) + 3"
    by (simp add: ShmPoolAllocator_management_size_def PoolAllocator_memory_size_def UniqueIndexSet_const_memory_size_def)
  let ?b = "BumpAllocator_new (base + allocator_details_size details) (ShmPoolAllocator_management_size sz l)"
  obtain c b' where alloc: "BumpAllocator_allocate (mk_layout (4 * (n + 1)) 4) ?b = (Ok c, b')"
    using BumpAllocator_allocate_succeeds [of "mk_layout (4 * (n + 1)) 4" ?b] by (auto simp: BumpAllocator_new_def ms)
  obtain p q where p: "PoolAllocator_new_uninit l ptr sz = Ret p"
    "PoolAllocator_init BumpAllocator_allocate p ?b = Ret (Ok (), q, b')" "PoolAllocator_inv q"
    "PoolAllocator_free q = {i. i < word_of_nat n}" "ui_capacity (pa_buckets q) = word_of_nat n"
    "pa_bucket_size q = layout_size l" "pa_bucket_alignment q = layout_align l" "pa_start q = align ptr (layout_align l)"
    using PoolAllocator_new_init [OF l(1-3) fits nb [symmetric] n(2), of BumpAllocator_allocate ?b c b'] alloc by blast
  have pa: "pa_bucket_alignment p = layout_align l"
    using p(1) by (auto simp: PoolAllocator_new_uninit_def outcome_bind_eq_Ret)
  let ?m = "\<lparr>me_base_address = base, me_size = sz + mgmt,
    me_allocator = \<lparr>ad_state = SharedMemory_IS_INITIALIZED_STATE_VALUE, ad_allocator_id = ShmPoolAllocator_unique_id,
      ad_allocator = \<lparr>sp_allocator = q, sp_base_address = ptr, sp_max_supported_alignment_by_memory = page_size\<rparr>,
      ad_mgmt_size = mgmt\<rparr>\<rparr>"
  have "SharedMemory_create details page_size sz l (Ok base) = Ret (Ok ?m)"
    using sz(3) p(1,2) l(4) pa
    by (simp add: SharedMemory_create_def Let_def ptr_def mgmt_def ShmPoolAllocator_new_uninit_def
        ShmPoolAllocator_init_def ShmPoolAllocator_max_alignment_def)
  moreover have m: "me_pool ?m = q" "allocator_data_start_address ?m = ptr"
    by (simp_all add: me_pool_def allocator_data_start_address_def ptr_def)
  have un: "unat (word_of_nat n :: 32 word) = n" using n(2) by (simp add: unat_word32)
  have "me_free ?m = {..<n}"
  proof -
    have "unat ` {i::32 word. i < word_of_nat n} = {..<n}"
    proof (intro equalityI subsetI)
      fix x assume "x \<in> {..<n}"
      then have "unat (word_of_nat x :: 32 word) = x" using n(2) by (simp add: unat_word32)
      then show "x \<in> unat ` {i::32 word. i < word_of_nat n}"
        using \<open>x \<in> {..<n}\<close> un by (intro image_eqI [of _ _ "word_of_nat x"]) (auto simp: word_less_nat_alt)
    qed (auto simp: word_less_nat_alt un)
    then show ?thesis by (simp add: me_free_def m p(4))
  qed
  moreover have "Memory_inv ?m"
    unfolding Memory_inv_def me_bucket_size_def m using p al a by (simp add: ptr_def)
  moreover have "me_buckets ?m = n" "me_bucket_size ?m = layout_size l"
    "pa_bucket_alignment (me_pool ?m) = layout_align l"
    by (simp_all add: me_buckets_def me_bucket_size_def m p un)
  moreover have "2 \<le> layout_size l * n + mgmt"
    using mult_le_mono [of 1 "layout_size l" 1 n] l(2) n(1) ms by (simp add: mgmt_def allocator_size_def)
  then have "SharedMemory_open (Ok ?m) = Ok ?m"
    using sz(1) by (simp add: SharedMemory_open_def SPACE_FOR_ALLOCATOR_ID_def)
  ultimately show ?thesis unfolding sz_def by blast
qed

end
