(* ===== verification/Publisher.thy ===== *)
theory Publisher
  imports ServiceConfig SharedMemory ZeroCopyConnection Containers "HOL-Library.Multiset"
begin

text \<open>
  The sending port of publish-subscribe communication, \<open>iceoryx2/src/port/publisher.rs\<close>, with its
  connections \<open>port/details/subscriber_connections.rs\<close>, the loaned samples \<open>sample_mut.rs\<close> and the
  settings \<open>service/port_factory/publisher.rs\<close>. The publisher owns the data segment and counts for
  every sample how many parties refer to it: loans, its history and the connections. Shared with
  the subscribers is the storage of the zero copy connections, which is passed along; calls of the
  ports take turns. The counters are natural numbers: 64 bits overflow only after that many
  deliveries of one sample. A delivery that has to wait for a subscriber has no result yet.
\<close>

section \<open>port_factory/publisher.rs\<close>

record LocalPublisherConfig =
  lp_max_loaned_samples :: nat
  lp_unable_to_deliver_strategy :: UnableToDeliverStrategy

definition PortFactoryPublisher_new :: "Config \<Rightarrow> LocalPublisherConfig" where
  "PortFactoryPublisher_new c =
     \<lparr>lp_max_loaned_samples = dp_publisher_max_loaned_samples (c_publish_subscribe c),
      lp_unable_to_deliver_strategy = dp_unable_to_deliver_strategy (c_publish_subscribe c)\<rparr>"

definition PortFactoryPublisher_max_loaned_samples :: "nat \<Rightarrow> LocalPublisherConfig \<Rightarrow> LocalPublisherConfig" where
  "PortFactoryPublisher_max_loaned_samples v c = c\<lparr>lp_max_loaned_samples := v\<rparr>"

definition PortFactoryPublisher_unable_to_deliver_strategy ::
  "UnableToDeliverStrategy \<Rightarrow> LocalPublisherConfig \<Rightarrow> LocalPublisherConfig" where
  "PortFactoryPublisher_unable_to_deliver_strategy v c = c\<lparr>lp_unable_to_deliver_strategy := v\<rparr>"

fun UnableToDeliverStrategy_serialize :: "UnableToDeliverStrategy \<Rightarrow> char list" where
  "UnableToDeliverStrategy_serialize Block = ''Block''"
| "UnableToDeliverStrategy_serialize DiscardSample = ''DiscardSample''"

definition UnableToDeliverStrategy_visit_str :: "char list \<Rightarrow> UnableToDeliverStrategy option" where
  "UnableToDeliverStrategy_visit_str v =
     (if v = ''block'' then Some Block else if v = ''discard_sample'' then Some DiscardSample else None)"

section \<open>subscriber_connections.rs\<close>

datatype DegrationAction = Ignore | Warn | Fail

text \<open>
  What the types of a service fix: the layouts of \<open>Message<Header, MessageType>\<close> and of
  \<open>MessageType\<close>; and the surroundings of a call: the memory of the names it forms and whether the
  lock of the storage can be acquired.
\<close>

record port_env =
  pe_message_layout :: Layout
  pe_payload_layout :: Layout
  pe_junk_file :: "char list"
  pe_junk_path :: "char list"
  pe_locked :: bool
  pe_overflow_checks :: bool

record SubscriberConnections =
  scn_connections :: "ZeroCopySender option list"
  scn_port_id :: UniqueSystemId
  scn_config :: Config
  scn_static_config :: PubSubStaticConfig

definition SubscriberConnections_new ::
  "nat \<Rightarrow> Config \<Rightarrow> UniqueSystemId \<Rightarrow> PubSubStaticConfig \<Rightarrow> SubscriberConnections" where
  "SubscriberConnections_new capacity config port_id static_config =
     \<lparr>scn_connections = replicate capacity None, scn_port_id = port_id, scn_config = config,
      scn_static_config = static_config\<rparr>"

definition connection_builder ::
  "NamedConceptConfiguration \<Rightarrow> FixedSizeByteString \<Rightarrow> PubSubStaticConfig \<Rightarrow> ZeroCopyBuilder" where
  "connection_builder cfg name static_config =
     ZeroCopyBuilder_enable_safe_overflow (ps_enable_safe_overflow static_config)
       (ZeroCopyBuilder_receiver_max_borrowed_samples (ps_subscriber_max_borrowed_samples static_config)
          (ZeroCopyBuilder_buffer_size (ps_subscriber_max_buffer_size static_config)
             (ZeroCopyBuilder_new cfg name)))"

definition SubscriberConnection_new ::
  "port_env \<Rightarrow> SubscriberConnections \<Rightarrow> UniqueSystemId \<Rightarrow> ZeroCopyStorage
     \<Rightarrow> ((ZeroCopySender, ZeroCopyCreationError) result \<times> ZeroCopyStorage) outcome" where
  "SubscriberConnection_new e this subscriber_id st =
     outcome_bind (connection_name (pe_junk_file e) (scn_port_id this) subscriber_id) (\<lambda>name.
     outcome_bind (connection_config (pe_junk_file e) (pe_junk_path e) (scn_config this)) (\<lambda>cfg.
       create_sender (pe_junk_path e) (pe_locked e) (connection_builder cfg name (scn_static_config this)) st))"

definition SubscriberConnections_create ::
  "port_env \<Rightarrow> nat \<Rightarrow> UniqueSystemId \<Rightarrow> SubscriberConnections \<Rightarrow> ZeroCopyStorage
     \<Rightarrow> ((bool, ZeroCopyCreationError) result \<times> SubscriberConnections \<times> ZeroCopyStorage) outcome" where
  "SubscriberConnections_create e index subscriber_id this st =
     (if length (scn_connections this) \<le> index then Panic
      else case scn_connections this ! index of
        Some _ \<Rightarrow> Ret (Ok False, this, st)
      | None \<Rightarrow>
          outcome_bind (SubscriberConnection_new e this subscriber_id st) (\<lambda>(r, st').
            case r of
              Err err \<Rightarrow> Ret (Err err, this, st')
            | Ok sender \<Rightarrow>
                Ret (Ok True, this\<lparr>scn_connections := (scn_connections this)[index := Some sender]\<rparr>, st')))"

text \<open>Dropping a \<open>Sender\<close>.\<close>

definition Sender_drop :: "port_env \<Rightarrow> ZeroCopySender \<Rightarrow> ZeroCopyStorage \<Rightarrow> ZeroCopyStorage outcome" where
  "Sender_drop e sender st =
     (case zs_store st (zcs_mgmt sender) of
        None \<Rightarrow> Panic
      | Some m \<Rightarrow> cleanup_connection (pe_junk_path e) (pe_locked e) (zm_name m) (zcs_config sender) State_Sender st)"

definition SubscriberConnections_remove ::
  "port_env \<Rightarrow> nat \<Rightarrow> SubscriberConnections \<Rightarrow> ZeroCopyStorage \<Rightarrow> (SubscriberConnections \<times> ZeroCopyStorage) outcome" where
  "SubscriberConnections_remove e index this st =
     (if length (scn_connections this) \<le> index then Panic
      else let this' = this\<lparr>scn_connections := (scn_connections this)[index := None]\<rparr>
        in case scn_connections this ! index of
            None \<Rightarrow> Ret (this', st)
          | Some sender \<Rightarrow> outcome_bind (Sender_drop e sender st) (\<lambda>st'. Ret (this', st')))"

section \<open>publisher.rs\<close>

datatype PublisherCreateError = ExceedsMaxSupportedPublishers | UnableToCreateDataSegment

datatype LoanError = Loan_OutOfMemory | Loan_ExceedsMaxLoanedChunks | Loan_InternalFailure

datatype SendCopyError = SendCopy_LoanError LoanError | SendCopy_ConnectionError ZeroCopyCreationError

record Publisher =
  pu_port_id :: UniqueSystemId
  pu_sample_reference_counter :: "nat list"
  pu_data_segment :: Memory
  pu_config :: LocalPublisherConfig
  pu_subscriber_connections :: SubscriberConnections
  pu_subscriber_list_state :: "UniqueSystemId ContainerState"
  pu_history :: "nat ContainerQueue option"
  pu_degration_callback :: "(UniqueSystemId \<Rightarrow> UniqueSystemId \<Rightarrow> DegrationAction) option"
  pu_loan_counter :: nat
  pu_dynamic_config_guard :: "32 word"

definition sample_index :: "port_env \<Rightarrow> nat \<Rightarrow> nat" where
  "sample_index e distance_to_chunk = distance_to_chunk div layout_size (pe_message_layout e)"

definition fetch_sub_1 :: "nat \<Rightarrow> nat" where
  "fetch_sub_1 c = (if c = 0 then 2 ^ 64 - 1 else c - 1)"

text \<open>Taking one reference back and deallocating the sample with the last one.\<close>

definition return_sample :: "port_env \<Rightarrow> Layout \<Rightarrow> nat \<Rightarrow> Publisher \<Rightarrow> Publisher outcome" where
  "return_sample e layout ptr_dist p =
     (let i = sample_index e ptr_dist
      in if length (pu_sample_reference_counter p) \<le> i then Panic
         else let previous = pu_sample_reference_counter p ! i;
                  p1 = p\<lparr>pu_sample_reference_counter := (pu_sample_reference_counter p)[i := fetch_sub_1 previous]\<rparr>
           in if previous = 1
              then outcome_bind (SharedMemory_deallocate ptr_dist layout (pu_data_segment p1)) (\<lambda>(r, seg).
                     case r of Err _ \<Rightarrow> Panic | Ok _ \<Rightarrow> Ret (p1\<lparr>pu_data_segment := seg\<rparr>))
              else Ret p1)"

definition release_sample :: "port_env \<Rightarrow> nat \<Rightarrow> Publisher \<Rightarrow> Publisher outcome" where
  "release_sample e distance_to_chunk p = return_sample e (pe_payload_layout e) distance_to_chunk p"

text \<open>Adding a reference; the result has the previous value of the counter.\<close>

definition fetch_add_1 :: "port_env \<Rightarrow> nat \<Rightarrow> Publisher \<Rightarrow> (nat \<times> Publisher) outcome" where
  "fetch_add_1 e ptr_dist p =
     (let i = sample_index e ptr_dist
      in if length (pu_sample_reference_counter p) \<le> i then Panic
         else let previous = pu_sample_reference_counter p ! i
           in Ret (previous,
                p\<lparr>pu_sample_reference_counter := (pu_sample_reference_counter p)[i := previous + 1]\<rparr>))"

definition set_mgmt :: "nat \<Rightarrow> Management \<Rightarrow> ZeroCopyStorage \<Rightarrow> ZeroCopyStorage" where
  "set_mgmt a m st = st\<lparr>zs_store := (zs_store st)(a \<mapsto> m)\<rparr>"

text \<open>
  \<open>retrieve_returned_samples\<close>: the samples of one connection until there are no more; the number of
  returned samples bounds the loop.
\<close>

primrec reclaim_loop ::
  "port_env \<Rightarrow> nat \<Rightarrow> nat \<Rightarrow> Publisher \<Rightarrow> ZeroCopyStorage \<Rightarrow> (Publisher \<times> ZeroCopyStorage) outcome" where
  "reclaim_loop e 0 a p st = Ret (p, st)"
| "reclaim_loop e (Suc n) a p st =
     (case zs_store st a of
        None \<Rightarrow> Panic
      | Some m \<Rightarrow>
          (case reclaim m of
             (None, m') \<Rightarrow> Ret (p, set_mgmt a m' st)
           | (Some ptr_dist, m') \<Rightarrow>
               outcome_bind (return_sample e (pe_message_layout e) ptr_dist p) (\<lambda>p'.
                 reclaim_loop e n a p' (set_mgmt a m' st))))"

fun retrieve_connections ::
  "port_env \<Rightarrow> ZeroCopySender option list \<Rightarrow> Publisher \<Rightarrow> ZeroCopyStorage \<Rightarrow> (Publisher \<times> ZeroCopyStorage) outcome" where
  "retrieve_connections e [] p st = Ret (p, st)"
| "retrieve_connections e (None # cs) p st = retrieve_connections e cs p st"
| "retrieve_connections e (Some sender # cs) p st =
     (case zs_store st (zcs_mgmt sender) of
        None \<Rightarrow> Panic
      | Some m \<Rightarrow>
          outcome_bind (reclaim_loop e (Suc (IndexQueue_len (zm_retrieve_channel m))) (zcs_mgmt sender) p st)
            (\<lambda>(p', st'). retrieve_connections e cs p' st'))"

definition retrieve_returned_samples ::
  "port_env \<Rightarrow> Publisher \<Rightarrow> ZeroCopyStorage \<Rightarrow> (Publisher \<times> ZeroCopyStorage) outcome" where
  "retrieve_returned_samples e p st = retrieve_connections e (scn_connections (pu_subscriber_connections p)) p st"

fun deliver_history_loop ::
  "port_env \<Rightarrow> nat list \<Rightarrow> nat \<Rightarrow> Publisher \<Rightarrow> ZeroCopyStorage \<Rightarrow> (Publisher \<times> ZeroCopyStorage) outcome" where
  "deliver_history_loop e [] a p st = Ret (p, st)"
| "deliver_history_loop e (ptr_distance # ds) a p st =
     (case zs_store st a of
        None \<Rightarrow> Panic
      | Some m \<Rightarrow>
          (case try_send ptr_distance m of
             (Ok _, m') \<Rightarrow>
               outcome_bind (fetch_add_1 e ptr_distance p) (\<lambda>(_, p').
                 deliver_history_loop e ds a p' (set_mgmt a m' st))
           | (Err _, m') \<Rightarrow> deliver_history_loop e ds a p (set_mgmt a m' st)))"

definition deliver_history ::
  "port_env \<Rightarrow> ZeroCopySender \<Rightarrow> Publisher \<Rightarrow> ZeroCopyStorage \<Rightarrow> (Publisher \<times> ZeroCopyStorage) outcome" where
  "deliver_history e sender p st =
     (case pu_history p of
        None \<Rightarrow> Ret (p, st)
      | Some history \<Rightarrow>
          deliver_history_loop e (map (\<lambda>i. ContainerQueue_get_unchecked i history) [0..<cq_len history])
            (zcs_mgmt sender) p st)"

text \<open>The loop over the visited indices in \<open>populate_subscriber_channels\<close>.\<close>

fun populate_loop ::
  "port_env \<Rightarrow> nat \<Rightarrow> UniqueSystemId option list \<Rightarrow> Publisher \<Rightarrow> ZeroCopyStorage
     \<Rightarrow> ((unit, ZeroCopyCreationError) result \<times> Publisher \<times> ZeroCopyStorage) outcome" where
  "populate_loop e i [] p st = Ret (Ok (), p, st)"
| "populate_loop e i (None # ids) p st =
     outcome_bind (SubscriberConnections_remove e i (pu_subscriber_connections p) st) (\<lambda>(cs, st').
       populate_loop e (i + 1) ids (p\<lparr>pu_subscriber_connections := cs\<rparr>) st')"
| "populate_loop e i (Some subscriber_id # ids) p st =
     outcome_bind (SubscriberConnections_create e i subscriber_id (pu_subscriber_connections p) st) (\<lambda>(r, cs, st').
       let p1 = p\<lparr>pu_subscriber_connections := cs\<rparr> in
       case r of
         Ok False \<Rightarrow> populate_loop e (i + 1) ids p1 st'
       | Ok True \<Rightarrow>
           (case scn_connections cs ! i of
              None \<Rightarrow> Panic
            | Some connection \<Rightarrow>
                outcome_bind (deliver_history e connection p1 st') (\<lambda>(p2, st2).
                  populate_loop e (i + 1) ids p2 st2))
       | Err err \<Rightarrow>
           (case pu_degration_callback p1 of
              None \<Rightarrow> populate_loop e (i + 1) ids p1 st'
            | Some c \<Rightarrow>
                (case c (pu_port_id p1) subscriber_id of
                   Fail \<Rightarrow> Ret (Err err, p1, st')
                 | _ \<Rightarrow> populate_loop e (i + 1) ids p1 st')))"

text \<open>The callback of \<open>for_each\<close>, which panics for an index beyond the connections.\<close>

fun visit_indices :: "(32 word \<times> 'a) list \<Rightarrow> 'a option list \<Rightarrow> 'a option list outcome" where
  "visit_indices [] visited = Ret visited"
| "visit_indices ((index, x) # xs) visited =
     (if length visited \<le> unat index then Panic else visit_indices xs (visited[unat index := Some x]))"

definition populate_subscriber_channels ::
  "port_env \<Rightarrow> Publisher \<Rightarrow> ZeroCopyStorage
     \<Rightarrow> ((unit, ZeroCopyCreationError) result \<times> Publisher \<times> ZeroCopyStorage) outcome" where
  "populate_subscriber_channels e p st =
     outcome_bind
       (visit_indices (ContainerState_for_each (pu_subscriber_list_state p))
          (replicate (length (scn_connections (pu_subscriber_connections p))) None)) (\<lambda>visited_indices.
     outcome_bind (retrieve_returned_samples e p st) (\<lambda>(p1, st1).
       populate_loop e 0 visited_indices p1 st1))"

definition Publisher_update_connections ::
  "port_env \<Rightarrow> UniqueSystemId Container \<Rightarrow> Publisher \<Rightarrow> ZeroCopyStorage
     \<Rightarrow> ((unit, ZeroCopyCreationError) result \<times> Publisher \<times> ZeroCopyStorage) outcome" where
  "Publisher_update_connections e subscribers p st =
     (case Container_update_state subscribers (pu_subscriber_list_state p) of
        (changed, state) \<Rightarrow>
          let p1 = p\<lparr>pu_subscriber_list_state := state\<rparr>
          in if changed then populate_subscriber_channels e p1 st else Ret (Ok (), p1, st))"

definition add_to_history :: "port_env \<Rightarrow> nat \<Rightarrow> Publisher \<Rightarrow> Publisher outcome" where
  "add_to_history e address_to_chunk p =
     (case pu_history p of
        None \<Rightarrow> Ret p
      | Some history \<Rightarrow>
          outcome_bind (fetch_add_1 e address_to_chunk p) (\<lambda>(_, p1).
          outcome_bind (ContainerQueue_push_with_overflow address_to_chunk history) (\<lambda>(r, history').
            let p2 = p1\<lparr>pu_history := Some history'\<rparr> in
            case r of None \<Rightarrow> Ret p2 | Some old \<Rightarrow> release_sample e old p2)))"

text \<open>
  The selected \<open>deliver_call\<close>. Blocking calls that would have to wait for the subscriber have no
  result; the caller stays in front of them.
\<close>

definition deliver_call ::
  "UnableToDeliverStrategy \<Rightarrow> nat \<Rightarrow> Management \<Rightarrow> ((nat option, ZeroCopySendError) result \<times> Management) option" where
  "deliver_call strategy ptr m = (case strategy of Block \<Rightarrow> blocking_send ptr [m] | DiscardSample \<Rightarrow> Some (try_send ptr m))"

fun deliver_loop ::
  "port_env \<Rightarrow> nat \<Rightarrow> ZeroCopySender option list \<Rightarrow> nat \<Rightarrow> Publisher \<Rightarrow> ZeroCopyStorage
     \<Rightarrow> (nat \<times> Publisher \<times> ZeroCopyStorage) option outcome" where
  "deliver_loop e address_to_chunk [] number_of_recipients p st = Ret (Some (number_of_recipients, p, st))"
| "deliver_loop e address_to_chunk (None # cs) number_of_recipients p st =
     deliver_loop e address_to_chunk cs number_of_recipients p st"
| "deliver_loop e address_to_chunk (Some sender # cs) number_of_recipients p st =
     (case zs_store st (zcs_mgmt sender) of
        None \<Rightarrow> Panic
      | Some m \<Rightarrow>
          (case deliver_call (lp_unable_to_deliver_strategy (pu_config p)) address_to_chunk m of
             None \<Rightarrow> Ret None
           | Some (Err _, m') \<Rightarrow>
               deliver_loop e address_to_chunk cs number_of_recipients p (set_mgmt (zcs_mgmt sender) m' st)
           | Some (Ok overflow, m') \<Rightarrow>
               outcome_bind (fetch_add_1 e address_to_chunk p) (\<lambda>(_, p1).
               outcome_bind (case overflow of None \<Rightarrow> Ret p1 | Some old \<Rightarrow> release_sample e old p1) (\<lambda>p2.
                 deliver_loop e address_to_chunk cs (number_of_recipients + 1) p2
                   (set_mgmt (zcs_mgmt sender) m' st)))))"

definition deliver_sample ::
  "port_env \<Rightarrow> nat \<Rightarrow> Publisher \<Rightarrow> ZeroCopyStorage \<Rightarrow> (nat \<times> Publisher \<times> ZeroCopyStorage) option outcome" where
  "deliver_sample e address_to_chunk p st =
     deliver_loop e address_to_chunk (scn_connections (pu_subscriber_connections p)) 0 p st"

definition send_impl ::
  "port_env \<Rightarrow> UniqueSystemId Container \<Rightarrow> nat \<Rightarrow> Publisher \<Rightarrow> ZeroCopyStorage
     \<Rightarrow> ((nat, ZeroCopyCreationError) result \<times> Publisher \<times> ZeroCopyStorage) option outcome" where
  "send_impl e subscribers address_to_chunk p st =
     outcome_bind (Publisher_update_connections e subscribers p st) (\<lambda>(r, p1, st1).
       case r of
         Err err \<Rightarrow> Ret (Some (Err err, p1, st1))
       | Ok _ \<Rightarrow>
           outcome_bind (add_to_history e address_to_chunk p1) (\<lambda>p2.
           outcome_bind (deliver_sample e address_to_chunk p2 st1) (\<lambda>d.
             case d of None \<Rightarrow> Ret None | Some (n, p3, st3) \<Rightarrow> Ret (Some (Ok n, p3, st3)))))"

text \<open>The drop of a \<open>SampleMut\<close>, which also ends a \<open>send\<close>.\<close>

definition SampleMut_drop :: "port_env \<Rightarrow> nat \<Rightarrow> Publisher \<Rightarrow> Publisher outcome" where
  "SampleMut_drop e offset_to_chunk p =
     outcome_bind (release_sample e offset_to_chunk p) (\<lambda>p1.
       Ret (p1\<lparr>pu_loan_counter := fetch_sub_1 (pu_loan_counter p1)\<rparr>))"

definition Publisher_send ::
  "port_env \<Rightarrow> UniqueSystemId Container \<Rightarrow> nat \<Rightarrow> Publisher \<Rightarrow> ZeroCopyStorage
     \<Rightarrow> ((nat, ZeroCopyCreationError) result \<times> Publisher \<times> ZeroCopyStorage) option outcome" where
  "Publisher_send e subscribers offset_to_chunk p st =
     outcome_bind (send_impl e subscribers offset_to_chunk p st) (\<lambda>d.
       case d of
         None \<Rightarrow> Ret None
       | Some (r, p1, st1) \<Rightarrow>
           outcome_bind (SampleMut_drop e offset_to_chunk p1) (\<lambda>p2. Ret (Some (r, p2, st1))))"

definition loan_uninit ::
  "port_env \<Rightarrow> Publisher \<Rightarrow> ZeroCopyStorage \<Rightarrow> ((nat, LoanError) result \<times> Publisher \<times> ZeroCopyStorage) outcome" where
  "loan_uninit e p st =
     outcome_bind (retrieve_returned_samples e p st) (\<lambda>(p1, st1).
       if lp_max_loaned_samples (pu_config p1) \<le> pu_loan_counter p1
       then Ret (Err Loan_ExceedsMaxLoanedChunks, p1, st1)
       else outcome_bind (SharedMemory_allocate (pe_message_layout e) (pu_data_segment p1)) (\<lambda>(r, seg).
         let p2 = p1\<lparr>pu_data_segment := seg\<rparr> in
         case r of
           Ok chunk \<Rightarrow>
             outcome_bind (fetch_add_1 e (shp_offset chunk) p2) (\<lambda>(previous, p3).
               if previous \<noteq> 0 then Panic
               else Ret (Ok (shp_offset chunk), p3\<lparr>pu_loan_counter := pu_loan_counter p3 + 1\<rparr>, st1))
         | Err (ShmAllocation AE_OutOfMemory) \<Rightarrow> Ret (Err Loan_OutOfMemory, p2, st1)
         | Err (ShmAllocation AE_SizeTooLarge) \<Rightarrow> Panic
         | Err (ShmAllocation AE_AlignmentFailure) \<Rightarrow> Panic
         | Err _ \<Rightarrow> Ret (Err Loan_InternalFailure, p2, st1)))"

definition send_copy ::
  "port_env \<Rightarrow> UniqueSystemId Container \<Rightarrow> Publisher \<Rightarrow> ZeroCopyStorage
     \<Rightarrow> ((nat, SendCopyError) result \<times> Publisher \<times> ZeroCopyStorage) option outcome" where
  "send_copy e subscribers p st =
     outcome_bind (loan_uninit e p st) (\<lambda>(r, p1, st1).
       case r of
         Err err \<Rightarrow> Ret (Some (Err (SendCopy_LoanError err), p1, st1))
       | Ok offset_to_chunk \<Rightarrow>
           outcome_bind (Publisher_send e subscribers offset_to_chunk p1 st1) (\<lambda>d.
             case d of
               None \<Rightarrow> Ret None
             | Some (Err err, p2, st2) \<Rightarrow> Ret (Some (Err (SendCopy_ConnectionError err), p2, st2))
             | Some (Ok n, p2, st2) \<Rightarrow> Ret (Some (Ok n, p2, st2))))"

text \<open>The creation of a publisher; \<open>created\<close> is the outcome of the creation of the shared memory.\<close>

definition create_data_segment ::
  "port_env \<Rightarrow> Layout \<Rightarrow> nat \<Rightarrow> nat \<Rightarrow> (nat, SharedMemoryCreateError) result
     \<Rightarrow> (Memory, SharedMemoryCreateError) result outcome" where
  "create_data_segment e details page_size number_of_samples created =
     SharedMemory_create details page_size
       (layout_size (pe_message_layout e) * number_of_samples + layout_align (pe_message_layout e) - 1)
       (pe_message_layout e) created"

definition Publisher_new ::
  "port_env \<Rightarrow> Layout \<Rightarrow> nat \<Rightarrow> Config \<Rightarrow> PubSubStaticConfig \<Rightarrow> LocalPublisherConfig \<Rightarrow> UniqueSystemId
     \<Rightarrow> (nat, SharedMemoryCreateError) result \<Rightarrow> PubSubDynamicConfig \<Rightarrow> ZeroCopyStorage
     \<Rightarrow> ((Publisher, PublisherCreateError) result \<times> PubSubDynamicConfig \<times> ZeroCopyStorage) outcome" where
  "Publisher_new e details page_size config static_config local_config port_id created d st =
     (let number_of_samples = required_amount_of_samples_per_data_segment (PublishSubscribe static_config)
            (lp_max_loaned_samples local_config)
      in outcome_bind (create_data_segment e details page_size number_of_samples created) (\<lambda>r.
        case r of
          Err _ \<Rightarrow> Ret (Err UnableToCreateDataSegment, d, st)
        | Ok data_segment \<Rightarrow>
            outcome_bind (add_publisher_id port_id d) (\<lambda>(r, d1).
              case r of
                None \<Rightarrow> Ret (Err ExceedsMaxSupportedPublishers, d1, st)
              | Some guard \<Rightarrow>
                  outcome_bind (Container_get_state (pd_subscribers d1)) (\<lambda>list_state.
                    let new_self = \<lparr>pu_port_id = port_id,
                          pu_sample_reference_counter = replicate number_of_samples 0,
                          pu_data_segment = data_segment, pu_config = local_config,
                          pu_subscriber_connections = SubscriberConnections_new (ct_capacity (pd_subscribers d1))
                            config port_id static_config,
                          pu_subscriber_list_state = list_state,
                          pu_history = (if ps_history_size static_config = 0 then None
                            else Some (ContainerQueue_new (ps_history_size static_config))),
                          pu_degration_callback = None, pu_loan_counter = 0, pu_dynamic_config_guard = guard\<rparr>
                    in outcome_bind (populate_subscriber_channels e new_self st) (\<lambda>(_, p1, st1).
                         Ret (Ok p1, d1, st1))))))"

section \<open>Reference counting\<close>

text \<open>
  \<open>R\<close> are the references that exist to the samples of a publisher, as offsets. The counters are
  right when they give the number of references, and exactly the samples without a reference are
  free.
\<close>

definition counts :: "port_env \<Rightarrow> Publisher \<Rightarrow> nat multiset \<Rightarrow> bool" where
  "counts e p R \<longleftrightarrow> Memory_inv (pu_data_segment p)
     \<and> me_bucket_size (pu_data_segment p) = layout_size (pe_message_layout e)
     \<and> layout_align (pe_message_layout e) \<le> pa_bucket_alignment (me_pool (pu_data_segment p))
     \<and> me_buckets (pu_data_segment p) = length (pu_sample_reference_counter p)
     \<and> set_mset R \<subseteq> me_offset (pu_data_segment p) ` {..<length (pu_sample_reference_counter p)}
     \<and> (\<forall>i < length (pu_sample_reference_counter p).
          pu_sample_reference_counter p ! i = count R (me_offset (pu_data_segment p) i)
          \<and> (i \<in> me_free (pu_data_segment p) \<longleftrightarrow> me_offset (pu_data_segment p) i \<notin># R))"

text \<open>Operations on samples change the counters and the data segment only.\<close>

definition same_port :: "Publisher \<Rightarrow> Publisher \<Rightarrow> bool" where
  "same_port p p' \<longleftrightarrow> pu_config p' = pu_config p \<and> pu_subscriber_connections p' = pu_subscriber_connections p
     \<and> pu_history p' = pu_history p \<and> pu_loan_counter p' = pu_loan_counter p
     \<and> pu_degration_callback p' = pu_degration_callback p \<and> pu_port_id p' = pu_port_id p
     \<and> pu_subscriber_list_state p' = pu_subscriber_list_state p
     \<and> pu_dynamic_config_guard p' = pu_dynamic_config_guard p
     \<and> length (pu_sample_reference_counter p') = length (pu_sample_reference_counter p)
     \<and> me_offset (pu_data_segment p') = me_offset (pu_data_segment p)"

lemma same_port_refl: "same_port p p"
  by (simp add: same_port_def)

lemma same_port_trans: "same_port a b \<Longrightarrow> same_port b c \<Longrightarrow> same_port a c"
  by (simp add: same_port_def)

lemma counts_cong:
  "pu_sample_reference_counter p' = pu_sample_reference_counter p \<Longrightarrow> pu_data_segment p' = pu_data_segment p \<Longrightarrow>
    counts e p' R = counts e p R"
  by (simp add: counts_def)

lemma counts_index:
  assumes "counts e p R"
  shows "me_offset (pu_data_segment p) i div layout_size (pe_message_layout e) = i"
  using assms me_offset_index [of "pu_data_segment p" i] by (simp add: counts_def)

lemma counts_offset_inj: "counts e p R \<Longrightarrow> me_offset (pu_data_segment p) i = me_offset (pu_data_segment p) j \<longleftrightarrow> i = j"
  using counts_index by metis

lemma counts_obtain:
  assumes "counts e p R" "x \<in># R"
  obtains i where "x = me_offset (pu_data_segment p) i" "i < length (pu_sample_reference_counter p)"
    "sample_index e x = i"
  using assms counts_index [OF assms(1)] by (auto simp: counts_def sample_index_def)

lemma fetch_sub_1_Suc [simp]: "fetch_sub_1 (Suc n) = n"
  by (simp add: fetch_sub_1_def)

lemma fetch_add_1_ok:
  assumes c: "counts e p R" and x: "x \<in># R"
  shows "\<exists>n p'. fetch_add_1 e x p = Ret (n, p') \<and> counts e p' (add_mset x R) \<and> same_port p p'"
proof -
  obtain i where i: "x = me_offset (pu_data_segment p) i" "i < length (pu_sample_reference_counter p)" "sample_index e x = i"
    using counts_obtain [OF c x] .
  let ?p = "p\<lparr>pu_sample_reference_counter := (pu_sample_reference_counter p)[i := pu_sample_reference_counter p ! i + 1]\<rparr>"
  have "counts e ?p (add_mset x R)"
    using c x i counts_offset_inj [OF c] by (auto simp: counts_def nth_list_update)
  moreover have "same_port p ?p" by (simp add: same_port_def)
  ultimately show ?thesis using i by (auto simp: fetch_add_1_def Let_def)
qed

lemma return_sample_ok:
  assumes c: "counts e p (add_mset x R)"
  shows "\<exists>p'. return_sample e l x p = Ret p' \<and> counts e p' R \<and> same_port p p'"
proof -
  obtain i where i: "x = me_offset (pu_data_segment p) i" "i < length (pu_sample_reference_counter p)" "sample_index e x = i"
    using counts_obtain [OF c, of x] by auto
  define n where "n = count R x"
  have n: "pu_sample_reference_counter p ! i = Suc n" "i \<notin> me_free (pu_data_segment p)"
    using c i by (auto simp: counts_def n_def)
  define p1 where "p1 = p\<lparr>pu_sample_reference_counter := (pu_sample_reference_counter p)[i := n]\<rparr>"
  have inj: "me_offset (pu_data_segment p) j = x \<longleftrightarrow> j = i" for j
    using counts_offset_inj [OF c] i(1) by simp
  have nth: "(pu_sample_reference_counter p)[i := n] ! j = count R (me_offset (pu_data_segment p) j)"
    if "j < length (pu_sample_reference_counter p)" for j
  proof (cases "j = i")
    case False
    then have "count (add_mset x R) (me_offset (pu_data_segment p) j) = count R (me_offset (pu_data_segment p) j)"
      using inj by (auto simp: eq_commute [of x])
    then show ?thesis using c that False by (simp add: counts_def)
  qed (use that in \<open>simp add: n_def i(1)\<close>)
  have ret: "return_sample e l x p = (if n = 0
      then outcome_bind (SharedMemory_deallocate x l (pu_data_segment p1)) (\<lambda>(r, seg).
             case r of Err _ \<Rightarrow> Panic | Ok _ \<Rightarrow> Ret (p1\<lparr>pu_data_segment := seg\<rparr>))
      else Ret p1)"
    using i n by (simp add: return_sample_def Let_def p1_def cong: result.case_cong)
  show ?thesis
  proof (cases "n = 0")
    case True
    have "Memory_inv (pu_data_segment p)" "i < me_buckets (pu_data_segment p)" using c i(2) by (auto simp: counts_def)
    then obtain seg where seg: "SharedMemory_deallocate x l (pu_data_segment p) = Ret (Ok (), seg)" "Memory_inv seg"
      "same_segment (pu_data_segment p) seg" "me_free seg = insert i (me_free (pu_data_segment p))"
      using SharedMemory_deallocate_ok [OF _ _ n(2), of l] i(1) by metis
    have "x \<notin># R" using True by (simp add: n_def count_eq_zero_iff)
    then have "counts e (p1\<lparr>pu_data_segment := seg\<rparr>) R"
      using c seg nth inj i True by (auto simp: counts_def same_segment_def p1_def count_eq_zero_iff)
    moreover have "same_port p (p1\<lparr>pu_data_segment := seg\<rparr>)" using seg(3) by (simp add: same_port_def p1_def same_segment_def)
    ultimately show ?thesis using ret True seg(1) by (simp add: p1_def)
  next
    case False
    then have "x \<in># R" by (simp add: n_def)
    then have "counts e p1 R"
      using c nth i inj by (auto simp: counts_def p1_def)
    moreover have "same_port p p1" by (simp add: same_port_def p1_def)
    ultimately show ?thesis using ret False by simp
  qed
qed

lemma counts_allocate:
  assumes c: "counts e p R" and free: "me_free (pu_data_segment p) \<noteq> {}"
  shows "\<exists>chunk seg p'. SharedMemory_allocate (pe_message_layout e) (pu_data_segment p) = Ret (Ok chunk, seg)
    \<and> shp_offset chunk \<notin># R
    \<and> fetch_add_1 e (shp_offset chunk) (p\<lparr>pu_data_segment := seg\<rparr>) = Ret (0, p')
    \<and> counts e p' (add_mset (shp_offset chunk) R) \<and> same_port p p'"
proof -
  have mem: "Memory_inv (pu_data_segment p)" and lay: "layout_size (pe_message_layout e) \<le> me_bucket_size (pu_data_segment p)"
    "layout_align (pe_message_layout e) \<le> pa_bucket_alignment (me_pool (pu_data_segment p))"
    using c by (auto simp: counts_def)
  obtain i chunk seg where a: "i \<in> me_free (pu_data_segment p)"
    "SharedMemory_allocate (pe_message_layout e) (pu_data_segment p) = Ret (Ok chunk, seg)"
    "shp_offset chunk = me_offset (pu_data_segment p) i" "Memory_inv seg" "same_segment (pu_data_segment p) seg"
    "me_free seg = me_free (pu_data_segment p) - {i}"
    using SharedMemory_allocate_ok [OF mem lay free] by blast
  have i: "i < length (pu_sample_reference_counter p)"
    using a(1) me_free_bound [OF mem] c by (auto simp: counts_def)
  let ?x = "shp_offset chunk"
  have x: "?x \<notin># R" "pu_sample_reference_counter p ! i = 0" using c i a(1,3) by (auto simp: counts_def count_eq_zero_iff)
  have idx: "sample_index e ?x = i" using counts_index [OF c] a(3) by (simp add: sample_index_def)
  have inj: "me_offset (pu_data_segment p) j = ?x \<longleftrightarrow> j = i" for j using counts_offset_inj [OF c] a(3) by simp
  let ?p = "p\<lparr>pu_data_segment := seg, pu_sample_reference_counter := (pu_sample_reference_counter p)[i := 1]\<rparr>"
  have new: "(pu_sample_reference_counter p)[i := 1] ! j = count (add_mset ?x R) (me_offset (pu_data_segment p) j)
      \<and> (j \<in> me_free seg \<longleftrightarrow> me_offset (pu_data_segment p) j \<notin># add_mset ?x R)"
    if "j < length (pu_sample_reference_counter p)" for j
  proof (cases "j = i")
    case True
    then show ?thesis using that a(3,6) x(1) by (simp add: count_eq_zero_iff)
  next
    case False
    then have "me_offset (pu_data_segment p) j \<noteq> ?x" using inj by blast
    then show ?thesis using c that a(6) False by (auto simp: counts_def)
  qed
  have "set_mset (add_mset ?x R) \<subseteq> me_offset (pu_data_segment p) ` {..<length (pu_sample_reference_counter p)}"
    using c a(3) i by (auto simp: counts_def)
  then have "counts e ?p (add_mset ?x R)"
    using c a(4,5) new by (simp add: counts_def same_segment_def)
  moreover have "same_port p ?p" using a(5) by (simp add: same_port_def same_segment_def)
  moreover have "fetch_add_1 e ?x (p\<lparr>pu_data_segment := seg\<rparr>) = Ret (0, ?p)"
    using idx i x(2) by (simp add: fetch_add_1_def Let_def)
  ultimately show ?thesis using a(2) x(1) by blast
qed

end
