(* ===== verification/PublisherSafety.thy ===== *)
theory PublisherSafety
  imports Publisher
begin

text \<open>
  What every operation of a publisher does to the references to its samples: the counters of the
  publisher stay right, no operation on a sample that is referred to panics, and samples only move
  between the user, the history and the connections.
\<close>

section \<open>Samples in the storage\<close>

definition mgmt_samples :: "Management \<Rightarrow> nat multiset" where
  "mgmt_samples m = mset (recv_list m) + mset (retr_list m)"

definition storage_samples :: "ZeroCopyStorage \<Rightarrow> nat multiset" where
  "storage_samples st = (\<Sum>a<zs_next st. case zs_store st a of None \<Rightarrow> {#} | Some m \<Rightarrow> mgmt_samples m)"

definition storage_inv :: "ZeroCopyStorage \<Rightarrow> bool" where
  "storage_inv st \<longleftrightarrow> (\<forall>a. zs_store st a \<noteq> None \<longleftrightarrow> a < zs_next st)
     \<and> (\<forall>a m. zs_store st a = Some m \<longrightarrow> Management_inv m)
     \<and> (\<forall>x a. zs_storage st x = Some a \<longrightarrow> a < zs_next st)"

lemma storage_inv_bound: "storage_inv st \<Longrightarrow> zs_store st a = Some m \<Longrightarrow> a < zs_next st"
  unfolding storage_inv_def by (metis option.distinct(1))

lemma storage_inv_obtain:
  assumes "storage_inv st" "a < zs_next st"
  obtains m where "zs_store st a = Some m" "Management_inv m"
  using assms unfolding storage_inv_def by blast

lemma set_mgmt_samples:
  assumes "storage_inv st" "zs_store st a = Some m"
  shows "storage_samples (set_mgmt a m' st) + mgmt_samples m = storage_samples st + mgmt_samples m'"
proof -
  have a: "a \<in> {..<zs_next st}" using storage_inv_bound [OF assms] by simp
  let ?f = "\<lambda>st a. case zs_store st a of None \<Rightarrow> {#} | Some m \<Rightarrow> mgmt_samples m"
  have "sum (?f (set_mgmt a m' st)) ({..<zs_next st} - {a}) = sum (?f st) ({..<zs_next st} - {a})"
    by (rule sum.cong) (auto simp: set_mgmt_def)
  then have "storage_samples (set_mgmt a m' st) = mgmt_samples m' + sum (?f st) ({..<zs_next st} - {a})"
    unfolding storage_samples_def using sum.remove [OF _ a, of "?f (set_mgmt a m' st)"] by (simp add: set_mgmt_def)
  moreover have "storage_samples st = mgmt_samples m + sum (?f st) ({..<zs_next st} - {a})"
    unfolding storage_samples_def using sum.remove [OF _ a, of "?f st"] assms(2) by simp
  ultimately show ?thesis by (simp add: ac_simps)
qed

lemma set_mgmt_inv:
  "storage_inv st \<Longrightarrow> zs_store st a = Some m \<Longrightarrow> Management_inv m' \<Longrightarrow> storage_inv (set_mgmt a m' st)"
  using storage_inv_bound [of st a m] by (auto simp: storage_inv_def set_mgmt_def)

lemma samples_in_storage:
  assumes "storage_inv st" "zs_store st a = Some m" "x \<in># mgmt_samples m"
  shows "x \<in># storage_samples st"
proof -
  have "a \<in> {..<zs_next st}" using storage_inv_bound [OF assms(1,2)] by simp
  then show ?thesis
    unfolding storage_samples_def using assms(2,3)
    by (subst sum.remove [of _ a]) auto
qed

lemma storage_samples_set:
  "set_mset (storage_samples st) = (\<Union>a<zs_next st. case zs_store st a of None \<Rightarrow> {} | Some m \<Rightarrow> set_mset (mgmt_samples m))"
  unfolding storage_samples_def by (subst set_mset_sum) (auto split: option.splits)

section \<open>Retrieving returned samples\<close>

text \<open>
  Retrieving empties retrieve channels and leaves everything else of the connections alone.
\<close>

definition retrieved :: "ZeroCopyStorage \<Rightarrow> ZeroCopyStorage \<Rightarrow> bool" where
  "retrieved st st' \<longleftrightarrow> zs_next st' = zs_next st \<and> zs_storage st' = zs_storage st
     \<and> (\<forall>a m. zs_store st a = Some m \<longrightarrow> (\<exists>m'. zs_store st' a = Some m' \<and> recv_list m' = recv_list m
          \<and> same_settings m m' \<and> (retr_list m' = retr_list m \<or> retr_list m' = [])))"

lemma same_settings_refl: "same_settings m m"
  by (simp add: same_settings_def)

lemma retrieved_refl: "retrieved st st"
  by (auto simp: retrieved_def same_settings_refl)

lemma retrieved_trans:
  assumes "retrieved a b" "retrieved b c"
  shows "retrieved a c"
  unfolding retrieved_def
proof (intro conjI allI impI)
  fix x m assume "zs_store a x = Some m"
  then obtain m1 where m1: "zs_store b x = Some m1" "recv_list m1 = recv_list m" "same_settings m m1"
      "retr_list m1 = retr_list m \<or> retr_list m1 = []"
    using assms(1) unfolding retrieved_def by blast
  obtain m2 where "zs_store c x = Some m2" "recv_list m2 = recv_list m1" "same_settings m1 m2"
      "retr_list m2 = retr_list m1 \<or> retr_list m2 = []"
    using assms(2) m1(1) unfolding retrieved_def by blast
  then show "\<exists>m'. zs_store c x = Some m' \<and> recv_list m' = recv_list m \<and> same_settings m m'
      \<and> (retr_list m' = retr_list m \<or> retr_list m' = [])"
    using m1 same_settings_trans by metis
qed (use assms in \<open>simp_all add: retrieved_def\<close>)

lemma retrieved_samples:
  assumes "storage_inv st" "retrieved st st'"
  shows "set_mset (storage_samples st') \<subseteq> set_mset (storage_samples st)"
proof
  fix x assume "x \<in># storage_samples st'"
  then obtain a m' where a: "a < zs_next st'" "zs_store st' a = Some m'" "x \<in># mgmt_samples m'"
    by (auto simp: storage_samples_set split: option.splits)
  then have "a < zs_next st" using assms(2) by (simp add: retrieved_def)
  then obtain m where m: "zs_store st a = Some m" using storage_inv_obtain [OF assms(1)] by blast
  have "recv_list m' = recv_list m \<and> (retr_list m' = retr_list m \<or> retr_list m' = [])"
    using assms(2) m a(2) unfolding retrieved_def by fastforce
  then have "x \<in># mgmt_samples m" using a(3) by (auto simp: mgmt_samples_def)
  then show "x \<in># storage_samples st" using samples_in_storage [OF assms(1) m] by blast
qed

text \<open>The connections stay what they are while samples move.\<close>

definition kept :: "ZeroCopyStorage \<Rightarrow> ZeroCopyStorage \<Rightarrow> bool" where
  "kept st st' \<longleftrightarrow> zs_next st' = zs_next st \<and> zs_storage st' = zs_storage st
     \<and> (\<forall>a m. zs_store st a = Some m \<longrightarrow> (\<exists>m'. zs_store st' a = Some m' \<and> same_settings m m'))"

lemma kept_refl: "kept st st"
  by (auto simp: kept_def same_settings_refl)

lemma kept_trans:
  assumes "kept a b" "kept b c"
  shows "kept a c"
  using assms same_settings_trans unfolding kept_def by metis

lemma kept_set_mgmt: "zs_store st a = Some m \<Longrightarrow> same_settings m m' \<Longrightarrow> kept st (set_mgmt a m' st)"
  by (auto simp: kept_def set_mgmt_def same_settings_refl)

lemma retrieved_kept: "retrieved st st' \<Longrightarrow> kept st st'"
  unfolding retrieved_def kept_def by blast

lemma reclaim_None:
  assumes "Management_inv m" "reclaim m = (None, m')"
  shows "retr_list m = []"
proof (rule ccontr)
  assume ne: "retr_list m \<noteq> []"
  have inv: "IndexQueue_inv (zm_retrieve_channel m)" using assms(1) by (simp add: Management_inv_def)
  obtain q where "IndexQueue_pop (zm_retrieve_channel m) = (None, q)"
    using assms(2) by (auto simp: reclaim_def split: prod.splits)
  then show False
    using iq.pop_some [OF inv] ne by (cases "retr_list m") (auto simp: retr_list_def)
qed

lemma reclaim_loop_ok:
  assumes "counts e p (X + storage_samples st)" "storage_inv st" "zs_store st a = Some m" "length (retr_list m) < n"
  shows "\<exists>p' m'. reclaim_loop e n a p st = Ret (p', set_mgmt a m' st)
    \<and> counts e p' (X + storage_samples (set_mgmt a m' st)) \<and> Management_inv m' \<and> same_port p p'
    \<and> recv_list m' = recv_list m \<and> retr_list m' = [] \<and> same_settings m m'"
  using assms
proof (induction n arbitrary: p st m)
  case (Suc n)
  have mi: "Management_inv m" using Suc.prems(2,3) by (auto simp: storage_inv_def)
  obtain r m1 where rc: "reclaim m = (r, m1)" by fastforce
  note f = reclaim_result [OF mi rc]
  note sum1 = set_mgmt_samples [OF Suc.prems(2,3), of m1]
  have inv1: "storage_inv (set_mgmt a m1 st)" using set_mgmt_inv [OF Suc.prems(2,3) f(1)] .
  show ?case
  proof (cases r)
    case None
    then have "mgmt_samples m1 = mgmt_samples m" using f(3,4) by (simp add: mgmt_samples_def)
    then have "storage_samples (set_mgmt a m1 st) = storage_samples st" using sum1 by simp
    moreover have "retr_list m1 = []"
      using None rc f(4) reclaim_None [OF mi] by simp
    ultimately show ?thesis
      using Suc.prems None rc f same_port_refl by auto
  next
    case (Some x)
    have "mgmt_samples m = add_mset x (mgmt_samples m1)" using f(3,4) Some by (simp add: mgmt_samples_def)
    then have "storage_samples st = add_mset x (storage_samples (set_mgmt a m1 st))"
      using sum1 by (metis add_mset_add_single add_right_cancel union_mset_add_mset_right union_commute)
    then obtain p1 where p1: "return_sample e (pe_message_layout e) x p = Ret p1"
      "counts e p1 (X + storage_samples (set_mgmt a m1 st))" "same_port p p1"
      using return_sample_ok [of e p x "X + storage_samples (set_mgmt a m1 st)"] Suc.prems(1) by auto
    have st1: "zs_store (set_mgmt a m1 st) a = Some m1" by (simp add: set_mgmt_def)
    have len: "length (retr_list m1) < n" using Suc.prems(4) f(4) Some by simp
    obtain p2 m2 where p2: "reclaim_loop e n a p1 (set_mgmt a m1 st) = Ret (p2, set_mgmt a m2 (set_mgmt a m1 st))"
      "counts e p2 (X + storage_samples (set_mgmt a m2 (set_mgmt a m1 st)))" "Management_inv m2" "same_port p1 p2"
      "recv_list m2 = recv_list m1" "retr_list m2 = []" "same_settings m1 m2"
      using Suc.IH [OF p1(2) inv1 st1 len] by blast
    moreover have "set_mgmt a m2 (set_mgmt a m1 st) = set_mgmt a m2 st" by (simp add: set_mgmt_def)
    ultimately show ?thesis
      using Suc.prems(3) Some rc p1(1) f(3) same_port_trans [OF p1(3) p2(4)] same_settings_trans [OF f(2) p2(7)]
      by (intro exI [of _ p2] exI [of _ m2]) simp
  qed
qed simp

lemma set_mgmt_retrieved:
  assumes "zs_store st a = Some m" "recv_list m' = recv_list m" "retr_list m' = []" "same_settings m m'"
  shows "retrieved st (set_mgmt a m' st)"
  using assms by (auto simp: retrieved_def set_mgmt_def same_settings_refl)

definition emptied :: "ZeroCopyStorage \<Rightarrow> ZeroCopySender option list \<Rightarrow> bool" where
  "emptied st cs \<longleftrightarrow> (\<forall>sender m. Some sender \<in> set cs \<and> zs_store st (zcs_mgmt sender) = Some m \<longrightarrow> retr_list m = [])"

lemma retrieve_connections_ok:
  assumes "counts e p (X + storage_samples st)" "storage_inv st"
    "\<forall>sender. Some sender \<in> set cs \<longrightarrow> zcs_mgmt sender < zs_next st"
  shows "\<exists>p' st'. retrieve_connections e cs p st = Ret (p', st') \<and> counts e p' (X + storage_samples st')
    \<and> storage_inv st' \<and> same_port p p' \<and> retrieved st st' \<and> emptied st' cs"
  using assms
proof (induction e cs p st rule: retrieve_connections.induct)
  case (1 e p st)
  then show ?case using same_port_refl retrieved_refl by (simp add: emptied_def)
next
  case (2 e cs p st)
  then show ?case by (simp add: emptied_def)
next
  case (3 e sender cs p st)
  let ?a = "zcs_mgmt sender"
  have "?a < zs_next st" using 3(4) by auto
  then obtain m where m: "zs_store st ?a = Some m" "Management_inv m"
    using storage_inv_obtain [OF 3(3)] by metis
  have "length (retr_list m) < Suc (IndexQueue_len (zm_retrieve_channel m))"
    using m(2) by (simp add: Management_inv_def retr_list_def IndexQueue_queries)
  then obtain p1 m1 where p1: "reclaim_loop e (Suc (IndexQueue_len (zm_retrieve_channel m))) ?a p st = Ret (p1, set_mgmt ?a m1 st)"
    "counts e p1 (X + storage_samples (set_mgmt ?a m1 st))" "Management_inv m1" "same_port p p1"
    "recv_list m1 = recv_list m" "retr_list m1 = []" "same_settings m m1"
    using reclaim_loop_ok [OF 3(2,3) m(1)] by blast
  have inv1: "storage_inv (set_mgmt ?a m1 st)" using set_mgmt_inv [OF 3(3) m(1) p1(3)] .
  have r1: "retrieved st (set_mgmt ?a m1 st)" using set_mgmt_retrieved [OF m(1) p1(5,6,7)] .
  have b: "\<forall>sender. Some sender \<in> set cs \<longrightarrow> zcs_mgmt sender < zs_next (set_mgmt ?a m1 st)"
    using 3(4) by (auto simp: set_mgmt_def)
  obtain p2 st2 where p2: "retrieve_connections e cs p1 (set_mgmt ?a m1 st) = Ret (p2, st2)"
    "counts e p2 (X + storage_samples st2)" "storage_inv st2" "same_port p1 p2" "retrieved (set_mgmt ?a m1 st) st2" "emptied st2 cs"
    using 3(1) [OF m(1) p1(2) inv1 b] by blast
  have "zs_store (set_mgmt ?a m1 st) ?a = Some m1" by (simp add: set_mgmt_def)
  then have "\<exists>m2. zs_store st2 ?a = Some m2 \<and> retr_list m2 = []"
    using p2(5) p1(6) unfolding retrieved_def by metis
  then have "emptied st2 (Some sender # cs)" using p2(6) by (auto simp: emptied_def)
  then show ?case
    using m(1) p1(1) p2(1,2,3) same_port_trans [OF p1(4) p2(4)] retrieved_trans [OF r1 p2(5)]
    by (simp del: reclaim_loop.simps)
qed


section \<open>Operations of the publisher\<close>

text \<open>
  The references to the samples of a publisher are those in the connections and the multiset \<open>X\<close>
  of those held elsewhere.
\<close>

definition sound :: "port_env \<Rightarrow> Publisher \<Rightarrow> ZeroCopyStorage \<Rightarrow> nat multiset \<Rightarrow> bool" where
  "sound e p st X \<longleftrightarrow> counts e p (X + storage_samples st) \<and> storage_inv st
     \<and> (\<forall>sender. Some sender \<in> set (scn_connections (pu_subscriber_connections p)) \<longrightarrow> zcs_mgmt sender < zs_next st)"

lemma soundD:
  assumes "sound e p st X"
  shows "counts e p (X + storage_samples st)" "storage_inv st"
    "\<forall>sender. Some sender \<in> set (scn_connections (pu_subscriber_connections p)) \<longrightarrow> zcs_mgmt sender < zs_next st"
  using assms by (auto simp: sound_def)

lemma retrieve_ok:
  assumes "sound e p st X"
  shows "\<exists>p' st'. retrieve_returned_samples e p st = Ret (p', st') \<and> sound e p' st' X \<and> same_port p p' \<and> retrieved st st'
    \<and> emptied st' (scn_connections (pu_subscriber_connections p))"
proof -
  obtain p' st' where "retrieve_connections e (scn_connections (pu_subscriber_connections p)) p st = Ret (p', st')"
    "counts e p' (X + storage_samples st')" "storage_inv st'" "same_port p p'" "retrieved st st'"
    "emptied st' (scn_connections (pu_subscriber_connections p))"
    using retrieve_connections_ok [OF soundD [OF assms]] by blast
  then show ?thesis
    using soundD(3) [OF assms] by (auto simp: retrieve_returned_samples_def sound_def same_port_def retrieved_def)
qed

text \<open>Handing a sample that somebody holds to a connection.\<close>

lemma send_to_ok:
  assumes s: "sound e p st X" and x: "x \<in># X" and m: "zs_store st a = Some m" and send: "try_send x m = (Ok r, m')"
  shows "\<exists>n p'. fetch_add_1 e x p = Ret (n, p') \<and> same_port p p'
    \<and> sound e p' (set_mgmt a m' st) (X + mset (case r of None \<Rightarrow> [] | Some v \<Rightarrow> [v]))
    \<and> set_mset (mset (case r of None \<Rightarrow> [] | Some v \<Rightarrow> [v]) + storage_samples (set_mgmt a m' st))
        = insert x (set_mset (storage_samples st)) \<and> kept st (set_mgmt a m' st)"
proof -
  note d = soundD [OF s]
  have mi: "Management_inv m" using d(2) m by (auto simp: storage_inv_def)
  note f = try_send_Ok [OF mi send]
  let ?L = "mset (case r of None \<Rightarrow> [] | Some v \<Rightarrow> [v])" and ?st = "set_mgmt a m' st"
  have "?L + mset (recv_list m') = mset (recv_list m) + {#x#}"
    using f(4) by (metis mset.simps mset_append)
  then have "?L + mgmt_samples m' = add_mset x (mgmt_samples m)" using f(3) by (simp add: mgmt_samples_def ac_simps)
  then have "(?L + storage_samples ?st) + mgmt_samples m = add_mset x (storage_samples st) + mgmt_samples m"
    using set_mgmt_samples [OF d(2) m, of m']
    by (metis add.assoc add.left_commute union_mset_add_mset_left union_mset_add_mset_right)
  then have L: "?L + storage_samples ?st = add_mset x (storage_samples st)" by simp
  then have eq: "add_mset x (X + storage_samples st) = X + ?L + storage_samples ?st"
    by (simp add: ac_simps)
  have ss: "set_mset (?L + storage_samples ?st) = insert x (set_mset (storage_samples st))" unfolding L by simp
  obtain n p' where p': "fetch_add_1 e x p = Ret (n, p')" "counts e p' (add_mset x (X + storage_samples st))" "same_port p p'"
    using fetch_add_1_ok [OF d(1), of x] x by auto
  have "sound e p' ?st (X + ?L)"
    using p'(2,3) d(3) set_mgmt_inv [OF d(2) m f(1)] unfolding eq by (auto simp: sound_def same_port_def set_mgmt_def)
  then show ?thesis using p'(1,3) ss kept_set_mgmt [OF m f(2)] by blast
qed

lemma sound_set_same: "zs_store st a = Some m \<Longrightarrow> set_mgmt a m st = st"
  by (simp add: set_mgmt_def fun_upd_idem)

lemma deliver_history_loop_ok:
  assumes "sound e p st X" "set ds \<subseteq> set_mset X" "a < zs_next st"
  shows "\<exists>p' st' L. deliver_history_loop e ds a p st = Ret (p', st') \<and> sound e p' st' (X + L) \<and> same_port p p'
    \<and> zs_next st' = zs_next st \<and> set_mset (L + storage_samples st') \<subseteq> set ds \<union> set_mset (storage_samples st)"
  using assms
proof (induction ds arbitrary: p st X)
  case Nil
  then show ?case using same_port_refl by (intro exI [of _ p] exI [of _ st] exI [of _ "{#}"]) simp
next
  case (Cons x ds)
  obtain m where m: "zs_store st a = Some m" "Management_inv m"
    using storage_inv_obtain [OF soundD(2) [OF Cons(2)] Cons(4)] .
  obtain r m' where send: "try_send x m = (r, m')" by fastforce
  show ?case
  proof (cases r)
    case (Ok v)
    obtain n p1 where p1: "fetch_add_1 e x p = Ret (n, p1)" "same_port p p1"
      "sound e p1 (set_mgmt a m' st) (X + mset (case v of None \<Rightarrow> [] | Some v \<Rightarrow> [v]))"
      "set_mset (mset (case v of None \<Rightarrow> [] | Some v \<Rightarrow> [v]) + storage_samples (set_mgmt a m' st)) = insert x (set_mset (storage_samples st))"
      using send_to_ok [OF Cons(2) _ m(1)] send Ok Cons(3) by fastforce
    let ?L = "mset (case v of None \<Rightarrow> [] | Some v \<Rightarrow> [v])"
    have "set ds \<subseteq> set_mset (X + ?L)" "a < zs_next (set_mgmt a m' st)" using Cons(3,4) by (auto simp: set_mgmt_def)
    then obtain p2 st2 L where "deliver_history_loop e ds a p1 (set_mgmt a m' st) = Ret (p2, st2)"
      "sound e p2 st2 (X + ?L + L)" "same_port p1 p2" "zs_next st2 = zs_next (set_mgmt a m' st)"
      "set_mset (L + storage_samples st2) \<subseteq> set ds \<union> set_mset (storage_samples (set_mgmt a m' st))"
      using Cons(1) [OF p1(3)] by blast
    moreover have "set_mset (?L + L + storage_samples st2) \<subseteq> set (x # ds) \<union> set_mset (storage_samples st)"
      using calculation(5) p1(4) by auto
    ultimately show ?thesis
      using m(1) send Ok p1(1) same_port_trans [OF p1(2)]
      by (intro exI [of _ p2] exI [of _ st2] exI [of _ "?L + L"]) (simp add: ac_simps set_mgmt_def)
  next
    case (Err err)
    then have "m' = m" using try_send_Err send by blast
    then have "set_mgmt a m' st = st" using sound_set_same [OF m(1)] by simp
    then show ?thesis using Cons(1) [OF Cons(2)] Cons(3,4) m(1) send Err by fastforce
  qed
qed

lemma deliver_loop_ok:
  assumes "sound e p st X" "x \<in># X" "\<forall>sender. Some sender \<in> set cs \<longrightarrow> zcs_mgmt sender < zs_next st"
  shows "\<exists>d. deliver_loop e x cs n p st = Ret d \<and> (\<forall>n' p' st'. d = Some (n', p', st') \<longrightarrow>
    sound e p' st' X \<and> same_port p p' \<and> kept st st'
    \<and> set_mset (storage_samples st') \<subseteq> insert x (set_mset (storage_samples st)))"
  using assms
proof (induction cs arbitrary: n p st)
  case (Cons c cs)
  show ?case
  proof (cases c)
    case None
    then show ?thesis using Cons by auto
  next
    case c: (Some sender)
  let ?a = "zcs_mgmt sender"
  have "?a < zs_next st" using Cons(4) c by auto
  then obtain m where m: "zs_store st ?a = Some m" "Management_inv m"
    using storage_inv_obtain [OF soundD(2) [OF Cons(2)]] by blast
  have cs: "\<forall>sender. Some sender \<in> set cs \<longrightarrow> zcs_mgmt sender < zs_next st" using Cons(4) c by auto
  show ?thesis
  proof (cases "deliver_call (lp_unable_to_deliver_strategy (pu_config p)) x m")
    case None
    then show ?thesis using m c by simp
  next
    case (Some rm)
    obtain r m' where rm: "rm = (r, m')" by fastforce
    have send: "try_send x m = (r, m')"
      using Some rm by (auto simp: deliver_call_def split: UnableToDeliverStrategy.splits if_splits)
    show ?thesis
    proof (cases r)
      case (Ok v)
      obtain k p1 where p1: "fetch_add_1 e x p = Ret (k, p1)" "same_port p p1"
        "sound e p1 (set_mgmt ?a m' st) (X + mset (case v of None \<Rightarrow> [] | Some v \<Rightarrow> [v]))"
        "set_mset (mset (case v of None \<Rightarrow> [] | Some v \<Rightarrow> [v]) + storage_samples (set_mgmt ?a m' st)) = insert x (set_mset (storage_samples st))"
        "kept st (set_mgmt ?a m' st)"
        using send_to_ok [OF Cons(2,3) m(1)] send Ok by fastforce
      have "\<exists>p2. (case v of None \<Rightarrow> Ret p1 | Some old \<Rightarrow> release_sample e old p1) = Ret p2
          \<and> sound e p2 (set_mgmt ?a m' st) X \<and> same_port p1 p2"
      proof (cases v)
        case None
        then show ?thesis using p1(3) same_port_refl by simp
      next
        case (Some old)
        note d = soundD [OF p1(3)]
        obtain p2 where "return_sample e (pe_payload_layout e) old p1 = Ret p2"
          "counts e p2 (X + storage_samples (set_mgmt ?a m' st))" "same_port p1 p2"
          using return_sample_ok [of e p1 old "X + storage_samples (set_mgmt ?a m' st)"] d(1) Some by auto
        then show ?thesis using d(2,3) Some by (simp add: release_sample_def sound_def same_port_def)
      qed
      then obtain p2 where p2: "(case v of None \<Rightarrow> Ret p1 | Some old \<Rightarrow> release_sample e old p1) = Ret p2"
        "sound e p2 (set_mgmt ?a m' st) X" "same_port p1 p2" by blast
      have cs': "\<forall>sender. Some sender \<in> set cs \<longrightarrow> zcs_mgmt sender < zs_next (set_mgmt ?a m' st)"
        using cs by (simp add: set_mgmt_def)
      obtain d where d: "deliver_loop e x cs (n + 1) p2 (set_mgmt ?a m' st) = Ret d"
        and "\<forall>n' p' st'. d = Some (n', p', st') \<longrightarrow> sound e p' st' X \<and> same_port p2 p' \<and> kept (set_mgmt ?a m' st) st'
          \<and> set_mset (storage_samples st') \<subseteq> insert x (set_mset (storage_samples (set_mgmt ?a m' st)))"
        using Cons(1) [OF p2(2) Cons(3) cs'] by blast
      moreover have "set_mset (storage_samples (set_mgmt ?a m' st)) \<subseteq> insert x (set_mset (storage_samples st))"
        using p1(4) by auto
      ultimately have "\<forall>n' p' st'. d = Some (n', p', st') \<longrightarrow> sound e p' st' X \<and> same_port p p' \<and> kept st st'
          \<and> set_mset (storage_samples st') \<subseteq> insert x (set_mset (storage_samples st))"
        using same_port_trans [OF same_port_trans [OF p1(2) p2(3)]] kept_trans [OF p1(5)] by (metis insert_absorb2 insert_mono subset_trans)
      then show ?thesis using d c m(1) Some rm Ok p1(1) p2(1) by simp
    next
      case (Err err)
      then have "m' = m" using try_send_Err send by blast
      then have "set_mgmt ?a m' st = st" using sound_set_same [OF m(1)] by simp
      then show ?thesis using Cons(1) [OF Cons(2,3) cs] c m(1) Some rm Err by simp
    qed
  qed
  qed
qed (auto simp: same_port_refl kept_refl)

text \<open>The history holds a reference to each of its samples.\<close>

definition history_samples :: "Publisher \<Rightarrow> nat multiset" where
  "history_samples p = (case pu_history p of None \<Rightarrow> {#} | Some h \<Rightarrow> mset (ContainerQueue_list h))"

definition history_inv :: "Publisher \<Rightarrow> bool" where
  "history_inv p \<longleftrightarrow> (\<forall>h. pu_history p = Some h \<longrightarrow> ContainerQueue_inv h \<and> 0 < cq_capacity h)"

definition history_capacity :: "Publisher \<Rightarrow> nat" where
  "history_capacity p = (case pu_history p of None \<Rightarrow> 0 | Some h \<Rightarrow> cq_capacity h)"

lemma same_port_history:
  "same_port p p' \<Longrightarrow> history_samples p' = history_samples p \<and> history_inv p' = history_inv p \<and> history_capacity p' = history_capacity p"
  by (simp add: same_port_def history_samples_def history_inv_def history_capacity_def)

lemma history_bound: "history_inv p \<Longrightarrow> size (history_samples p) \<le> history_capacity p"
  using cq.bounded by (auto simp: history_inv_def history_samples_def history_capacity_def split: option.split)

lemma history_elements:
  assumes "history_inv p" "pu_history p = Some h"
  shows "set (map (\<lambda>i. ContainerQueue_get_unchecked i h) [0..<cq_len h]) \<subseteq> set_mset (history_samples p)"
proof -
  have inv: "ContainerQueue_inv h" using assms by (simp add: history_inv_def)
  have "ContainerQueue_get_unchecked i h = ContainerQueue_list h ! i" if "i < cq_len h" for i
    using that inv by (simp add: ContainerQueue_get_unchecked_def ContainerQueue_list_def ContainerQueue_ring_def ContainerQueue_inv_def)
  then show ?thesis
    using assms(2) length_ContainerQueue_list [OF inv] by (auto simp: history_samples_def)
qed

lemma add_to_history_ok:
  assumes s: "sound e p st (Y + history_samples p)" and x: "x \<in># Y" and h: "history_inv p"
  shows "\<exists>p'. add_to_history e x p = Ret p' \<and> sound e p' st (Y + history_samples p') \<and> history_inv p'
    \<and> same_port (p\<lparr>pu_history := pu_history p'\<rparr>) p' \<and> set_mset (history_samples p') \<subseteq> insert x (set_mset (history_samples p))
    \<and> history_capacity p' = history_capacity p"
proof (cases "pu_history p")
  case None
  then show ?thesis using s h by (auto simp: add_to_history_def same_port_def)
next
  case (Some hi)
  have inv: "ContainerQueue_inv hi" "0 < cq_capacity hi" using h Some by (auto simp: history_inv_def)
  note d = soundD [OF s]
  obtain n p1 where p1: "fetch_add_1 e x p = Ret (n, p1)" "same_port p p1"
    "counts e p1 (add_mset x (Y + history_samples p + storage_samples st))"
    using fetch_add_1_ok [OF d(1), of x] x by auto
  obtain r hi' where o: "ContainerQueue_push_with_overflow x hi = Ret (r, hi')" "ContainerQueue_inv hi'"
    "cq_capacity hi' = cq_capacity hi"
    "if cq_len hi = cq_capacity hi
     then r = Some (hd (ContainerQueue_list hi)) \<and> ContainerQueue_list hi' = tl (ContainerQueue_list hi) @ [x]
     else r = None \<and> ContainerQueue_list hi' = ContainerQueue_list hi @ [x]"
    using ContainerQueue_overflow_ok [OF inv] by blast
  let ?p = "p1\<lparr>pu_history := Some hi'\<rparr>"
  have hist: "mset (case r of None \<Rightarrow> [] | Some v \<Rightarrow> [v]) + mset (ContainerQueue_list hi') = add_mset x (mset (ContainerQueue_list hi))"
    using o(4) length_ContainerQueue_list [OF inv(1)] inv(2)
    by (cases "ContainerQueue_list hi") (auto split: if_splits)
  have hi': "history_inv ?p" "history_samples ?p = mset (ContainerQueue_list hi')"
    using o(2,3) inv(2) by (auto simp: history_inv_def history_samples_def)
  have cap: "history_capacity ?p = history_capacity p" using Some o(3) by (simp add: history_capacity_def)
  have sub: "set_mset (history_samples ?p) \<subseteq> insert x (set_mset (history_samples p))"
    using arg_cong [OF hist, of set_mset] Some unfolding hi'(2) by (auto simp: history_samples_def)
  have c: "counts e ?p (mset (case r of None \<Rightarrow> [] | Some v \<Rightarrow> [v]) + (Y + history_samples ?p + storage_samples st))"
    using p1(3) hist Some unfolding hi'(2) by (simp add: counts_def history_samples_def ac_simps)
  show ?thesis
  proof (cases r)
    case None
    then show ?thesis
      using Some p1(1,2) o(1) c hi'(1) d(2,3) sub cap by (simp add: add_to_history_def sound_def same_port_def Let_def)
  next
    case (Some old)
    obtain p2 where p2: "return_sample e (pe_payload_layout e) old ?p = Ret p2"
      "counts e p2 (Y + history_samples ?p + storage_samples st)" "same_port ?p p2"
      using return_sample_ok [of e ?p old "Y + history_samples ?p + storage_samples st"] c Some by auto
    have "add_to_history e x p = Ret p2"
      using \<open>pu_history p = Some hi\<close> p1(1) o(1) Some p2(1) by (simp add: add_to_history_def release_sample_def Let_def)
    moreover have "sound e p2 st (Y + history_samples p2)" "history_inv p2"
      using p2(2,3) same_port_history [OF p2(3)] hi'(1) p1(2) d(2,3) by (auto simp: sound_def same_port_def)
    moreover have "same_port (p\<lparr>pu_history := pu_history p2\<rparr>) p2" using p1(2) p2(3) by (simp add: same_port_def)
    ultimately show ?thesis using sub cap same_port_history [OF p2(3)] by auto
  qed
qed

lemma loan_uninit_ok:
  assumes s: "sound e p st X"
  shows "\<exists>r p' st'. loan_uninit e p st = Ret (r, p', st') \<and> set_mset (storage_samples st') \<subseteq> set_mset (storage_samples st)
    \<and> kept st st' \<and> (case r of
      Ok x \<Rightarrow> x \<notin># X + storage_samples st' \<and> sound e p' st' (add_mset x X)
        \<and> pu_loan_counter p < lp_max_loaned_samples (pu_config p)
        \<and> same_port (p\<lparr>pu_loan_counter := pu_loan_counter p + 1\<rparr>) p'
    | Err _ \<Rightarrow> sound e p' st' X \<and> same_port p p')"
proof -
  obtain p1 st1 where p1: "retrieve_returned_samples e p st = Ret (p1, st1)" "sound e p1 st1 X" "same_port p p1" "retrieved st st1"
    using retrieve_ok [OF s] by blast
  note d = soundD [OF p1(2)]
  have sub: "set_mset (storage_samples st1) \<subseteq> set_mset (storage_samples st)" "kept st st1"
    using retrieved_samples [OF soundD(2) [OF s] p1(4)] retrieved_kept [OF p1(4)] by auto
  show ?thesis
  proof (cases "lp_max_loaned_samples (pu_config p1) \<le> pu_loan_counter p1")
    case True
    then show ?thesis using p1 sub by (simp add: loan_uninit_def)
  next
    case room: False
    show ?thesis
    proof (cases "me_free (pu_data_segment p1) = {}")
      case True
      then obtain seg where "SharedMemory_allocate (pe_message_layout e) (pu_data_segment p1)
          = Ret (Err (ShmAllocation AE_OutOfMemory), seg)" "seg = pu_data_segment p1"
        using SharedMemory_allocate_none d(1) by (fastforce simp: counts_def)
      then show ?thesis using p1 sub room by (simp add: loan_uninit_def)
    next
      case False
      obtain chunk seg p2 where a: "SharedMemory_allocate (pe_message_layout e) (pu_data_segment p1) = Ret (Ok chunk, seg)"
        "shp_offset chunk \<notin># X + storage_samples st1"
        "fetch_add_1 e (shp_offset chunk) (p1\<lparr>pu_data_segment := seg\<rparr>) = Ret (0, p2)"
        "counts e p2 (add_mset (shp_offset chunk) (X + storage_samples st1))" "same_port p1 p2"
        using counts_allocate [OF d(1) False] by blast
      let ?p = "p2\<lparr>pu_loan_counter := pu_loan_counter p2 + 1\<rparr>"
      have "sound e ?p st1 (add_mset (shp_offset chunk) X)"
        using a(4,5) d(2,3) by (auto simp: sound_def same_port_def counts_def)
      moreover have "same_port (p\<lparr>pu_loan_counter := pu_loan_counter p + 1\<rparr>) ?p"
        using p1(3) a(5) by (simp add: same_port_def)
      moreover have "loan_uninit e p st = Ret (Ok (shp_offset chunk), ?p, st1)"
        using p1(1) a(1,3) room by (simp add: loan_uninit_def Let_def)
      ultimately show ?thesis using a(2) room p1(3) sub by (auto simp: same_port_def)
    qed
  qed
qed

text \<open>A loan succeeds when there are fewer references than samples.\<close>

lemma loan_uninit_succeeds:
  assumes s: "sound e p st X" and room: "pu_loan_counter p < lp_max_loaned_samples (pu_config p)"
    and few: "\<And>st'. retrieved st st' \<Longrightarrow> storage_inv st' \<Longrightarrow> emptied st' (scn_connections (pu_subscriber_connections p)) \<Longrightarrow>
      size (X + storage_samples st') < length (pu_sample_reference_counter p)"
  shows "\<exists>x p' st'. loan_uninit e p st = Ret (Ok x, p', st')"
proof -
  obtain p1 st1 where p1: "retrieve_returned_samples e p st = Ret (p1, st1)" "sound e p1 st1 X" "same_port p p1" "retrieved st st1"
    "emptied st1 (scn_connections (pu_subscriber_connections p))"
    using retrieve_ok [OF s] by blast
  note d = soundD [OF p1(2)]
  let ?n = "length (pu_sample_reference_counter p1)"
  have n: "size (X + storage_samples st1) < ?n" using few [OF p1(4) d(2) p1(5)] p1(3) by (simp add: same_port_def)
  have "me_free (pu_data_segment p1) \<noteq> {}"
  proof
    assume "me_free (pu_data_segment p1) = {}"
    then have "me_offset (pu_data_segment p1) ` {..<?n} \<subseteq> set_mset (X + storage_samples st1)"
      using d(1) by (auto simp: counts_def)
    moreover have "card (me_offset (pu_data_segment p1) ` {..<?n}) = ?n"
      using counts_offset_inj [OF d(1)] by (subst card_image) (auto intro: inj_onI)
    ultimately have "?n \<le> card (set_mset (X + storage_samples st1))" using card_mono finite_set_mset by metis
    also have "\<dots> \<le> size (X + storage_samples st1)"
      by (metis card_le_Suc_iff dual_order.refl size_multiset_overloaded_eq sum_bounded_below [of _ 1 "count (X + storage_samples st1)"]
          count_greater_eq_one_iff mult.right_neutral of_nat_id)
    finally show False using n by simp
  qed
  then obtain chunk seg p2 where "SharedMemory_allocate (pe_message_layout e) (pu_data_segment p1) = Ret (Ok chunk, seg)"
    "fetch_add_1 e (shp_offset chunk) (p1\<lparr>pu_data_segment := seg\<rparr>) = Ret (0, p2)"
    using counts_allocate [OF d(1)] by blast
  then show ?thesis using p1(1,3) room by (simp add: loan_uninit_def Let_def same_port_def)
qed

lemma SampleMut_drop_ok:
  assumes "sound e p st (add_mset x X)"
  shows "\<exists>p'. SampleMut_drop e x p = Ret p' \<and> sound e p' st X
    \<and> same_port (p\<lparr>pu_loan_counter := fetch_sub_1 (pu_loan_counter p)\<rparr>) p'"
proof -
  note d = soundD [OF assms]
  obtain p' where "return_sample e (pe_payload_layout e) x p = Ret p'" "counts e p' (X + storage_samples st)" "same_port p p'"
    using return_sample_ok [of e p x "X + storage_samples st"] d(1) by auto
  then show ?thesis
    using d(2,3) by (auto simp: SampleMut_drop_def release_sample_def sound_def same_port_def counts_def)
qed

section \<open>Connections\<close>

text \<open>Connecting and disconnecting moves no sample.\<close>

definition same_samples :: "ZeroCopyStorage \<Rightarrow> ZeroCopyStorage \<Rightarrow> bool" where
  "same_samples st st' \<longleftrightarrow> storage_samples st' = storage_samples st \<and> zs_next st \<le> zs_next st'"

lemma set_state_ok:
  assumes inv: "storage_inv st" and m: "zs_store st a = Some m"
  shows "storage_inv (set_mgmt a (m\<lparr>zm_state := w\<rparr>) st)" "same_samples st (set_mgmt a (m\<lparr>zm_state := w\<rparr>) st)"
proof -
  have mi: "Management_inv m" using inv m by (auto simp: storage_inv_def)
  have "mgmt_samples (m\<lparr>zm_state := w\<rparr>) = mgmt_samples m" by (simp add: mgmt_samples_def recv_list_def retr_list_def)
  then show "same_samples st (set_mgmt a (m\<lparr>zm_state := w\<rparr>) st)"
    using set_mgmt_samples [OF inv m, of "m\<lparr>zm_state := w\<rparr>"] by (simp add: same_samples_def set_mgmt_def)
  have "Management_inv (m\<lparr>zm_state := w\<rparr>)" using mi by (simp add: Management_inv_def)
  then show "storage_inv (set_mgmt a (m\<lparr>zm_state := w\<rparr>) st)" by (rule set_mgmt_inv [OF inv m])
qed

lemma storage_samples_cong:
  "zs_store st' = zs_store st \<Longrightarrow> zs_next st' = zs_next st \<Longrightarrow> storage_samples st' = storage_samples st"
  by (simp add: storage_samples_def)

lemma connect_port_ok:
  assumes inv: "storage_inv st" and ret: "connect_port port junk locked b st = Ret (r, st')"
  shows "storage_inv st'" "same_samples st st'" "r = Ok a \<Longrightarrow> a < zs_next st'"
proof -
  have "storage_inv st' \<and> same_samples st st' \<and> (\<forall>a. r = Ok a \<longrightarrow> a < zs_next st')"
  proof (cases "locked \<and> (\<exists>p. path_for junk (zb_config b) (zb_name b) = Ret p)")
    case False
    then show ?thesis
      using ret inv by (cases "path_for junk (zb_config b) (zb_name b)")
        (auto simp: connect_port_def same_samples_def split: if_splits)
  next
    case True
    then obtain p where p: "locked" "path_for junk (zb_config b) (zb_name b) = Ret p" by blast
    show ?thesis
    proof (cases "zs_storage st (as_bytes p)")
      case None
      let ?st = "st\<lparr>zs_store := (zs_store st)(zs_next st \<mapsto> Management_new port b),
        zs_storage := (zs_storage st)(as_bytes p \<mapsto> zs_next st), zs_next := zs_next st + 1\<rparr>"
      have st': "r = Ok (zs_next st)" "st' = ?st" using ret p None by (auto simp: connect_port_def)
      have "storage_samples ?st = storage_samples st"
        using Management_new_inv(2,3) [of port b] by (simp add: storage_samples_def mgmt_samples_def)
      moreover have "storage_inv ?st"
        using inv Management_new_inv(1) [of port b] by (auto simp: storage_inv_def less_Suc_eq)
      ultimately show ?thesis unfolding st' by (simp add: same_samples_def)
    next
      case (Some a)
      then have a: "a < zs_next st" using inv by (auto simp: storage_inv_def)
      obtain m where m: "zs_store st a = Some m" "Management_inv m" using storage_inv_obtain [OF inv a] .
      have "(\<exists>err. r = Err err \<and> st' = st) \<or> (r = Ok a \<and> st' = set_mgmt a (m\<lparr>zm_state := zm_state m OR port\<rparr>) st)"
        using ret p Some m(1) by (auto simp: connect_port_def set_mgmt_def split: if_splits result.splits)
      then show ?thesis
        using inv a set_state_ok [OF inv m(1)] by (auto simp: same_samples_def set_mgmt_def)
    qed
  qed
  then show "storage_inv st'" "same_samples st st'" "r = Ok a \<Longrightarrow> a < zs_next st'" by blast+
qed

lemma create_sender_port:
  assumes "create_sender junk locked b st = Ret (r, st')"
  shows "\<exists>r2. connect_port State_Sender junk locked b st = Ret (r2, st') \<and> (\<forall>sender. r = Ok sender \<longrightarrow> r2 = Ok (zcs_mgmt sender))
    \<and> (\<forall>err. r = Err err \<longrightarrow> r2 = Err err)"
proof -
  obtain r2 st2 where c: "connect_port State_Sender junk locked b st = Ret (r2, st2)"
    "(case r2 of Err e \<Rightarrow> Ret (Err e, st2) | Ok a \<Rightarrow> Ret (Ok \<lparr>zcs_mgmt = a, zcs_config = zb_config b\<rparr>, st2)) = Ret (r, st')"
    using assms by (auto simp: create_sender_def outcome_bind_eq_Ret)
  then show ?thesis by (cases r2) auto
qed

lemma create_receiver_port:
  assumes "create_receiver junk locked b st = Ret (r, st')"
  shows "\<exists>r2. connect_port State_Receiver junk locked b st = Ret (r2, st') \<and> (\<forall>receiver. r = Ok receiver \<longrightarrow> r2 = Ok (zcr_mgmt receiver) \<and> zcr_borrow_counter receiver = 0)
    \<and> (\<forall>err. r = Err err \<longrightarrow> r2 = Err err)"
proof -
  obtain r2 st2 where c: "connect_port State_Receiver junk locked b st = Ret (r2, st2)"
    "(case r2 of Err e \<Rightarrow> Ret (Err e, st2)
      | Ok a \<Rightarrow> Ret (Ok \<lparr>zcr_mgmt = a, zcr_borrow_counter = 0, zcr_config = zb_config b\<rparr>, st2)) = Ret (r, st')"
    using assms by (auto simp: create_receiver_def outcome_bind_eq_Ret)
  then show ?thesis by (cases r2) auto
qed

lemma cleanup_connection_ok:
  assumes inv: "storage_inv st" and ret: "cleanup_connection junk locked name config port st = Ret st'"
  shows "storage_inv st'" "same_samples st st'"
proof -
  have "storage_inv st' \<and> same_samples st st'"
  proof (cases "locked \<and> (\<exists>p. path_for junk config name = Ret p)")
    case False
    then show ?thesis
      using ret inv by (cases "path_for junk config name") (auto simp: cleanup_connection_def same_samples_def split: if_splits)
  next
    case True
    then obtain p where p: "locked" "path_for junk config name = Ret p" by blast
    then obtain a m where m: "zs_storage st (as_bytes p) = Some a" "zs_store st a = Some m"
      using ret by (auto simp: cleanup_connection_def split: option.splits)
    let ?st = "set_mgmt a (m\<lparr>zm_state := zm_state m AND NOT port\<rparr>) st"
    have "st' = (if zm_state m = port then ?st\<lparr>zs_storage := (zs_storage ?st)(as_bytes p := None)\<rparr> else ?st)"
      using ret p m by (simp add: cleanup_connection_def Let_def set_mgmt_def split: if_splits)
    moreover note set_state_ok [OF inv m(2), of "zm_state m AND NOT port"]
    ultimately show ?thesis
      by (auto simp: same_samples_def storage_inv_def storage_samples_def split: if_splits)
  qed
  then show "storage_inv st'" "same_samples st st'" by blast+
qed

lemma same_samples_sound:
  assumes "sound e p st X" "storage_inv st'" "same_samples st st'"
  shows "sound e p st' X"
  using assms by (auto simp: sound_def same_samples_def)

text \<open>The fields of a publisher other than its samples and its connections.\<close>

definition same_but_connections :: "Publisher \<Rightarrow> Publisher \<Rightarrow> bool" where
  "same_but_connections p p' \<longleftrightarrow> pu_history p' = pu_history p \<and> pu_loan_counter p' = pu_loan_counter p \<and> pu_config p' = pu_config p
     \<and> length (pu_sample_reference_counter p') = length (pu_sample_reference_counter p)"

lemma same_port_but_connections: "same_port p p' \<Longrightarrow> same_but_connections p p'"
  by (simp add: same_port_def same_but_connections_def)

lemma same_but_connections_trans: "same_but_connections a b \<Longrightarrow> same_but_connections b c \<Longrightarrow> same_but_connections a c"
  by (simp add: same_but_connections_def)

lemma same_but_connections_history:
  "same_but_connections p p' \<Longrightarrow> history_samples p' = history_samples p \<and> history_inv p' = history_inv p"
  by (simp add: same_but_connections_def history_samples_def history_inv_def)

lemma sound_connections:
  assumes "sound e p st X"
    "\<And>sender. Some sender \<in> set (scn_connections cs) \<Longrightarrow> zcs_mgmt sender < zs_next st"
  shows "sound e (p\<lparr>pu_subscriber_connections := cs\<rparr>) st X"
  using assms by (simp add: sound_def counts_def)

lemma connection_remove_ok:
  assumes s: "sound e p st X" and ret: "SubscriberConnections_remove e i (pu_subscriber_connections p) st = Ret (cs, st')"
  shows "sound e (p\<lparr>pu_subscriber_connections := cs\<rparr>) st' X" "same_samples st st'"
proof -
  let ?c = "pu_subscriber_connections p"
  have cs: "cs = ?c\<lparr>scn_connections := (scn_connections ?c)[i := None]\<rparr>"
    using ret by (auto simp: SubscriberConnections_remove_def Let_def outcome_bind_eq_Ret split: if_splits option.splits)
  have st': "storage_inv st' \<and> same_samples st st'"
  proof (cases "scn_connections ?c ! i")
    case None
    then show ?thesis
      using ret soundD(2) [OF s] by (auto simp: SubscriberConnections_remove_def Let_def same_samples_def split: if_splits)
  next
    case (Some sender)
    then have "Sender_drop e sender st = Ret st'"
      using ret by (auto simp: SubscriberConnections_remove_def Let_def outcome_bind_eq_Ret split: if_splits)
    then show ?thesis
      using cleanup_connection_ok [OF soundD(2) [OF s]] by (auto simp: Sender_drop_def split: option.splits)
  qed
  then show "same_samples st st'" by blast
  have "sound e p st' X" using same_samples_sound [OF s] st' by blast
  moreover have "Some sender \<in> set ((scn_connections ?c)[i := None]) \<Longrightarrow> Some sender \<in> set (scn_connections ?c)" for sender
    using set_update_subset_insert [of "scn_connections ?c" i None] by auto
  ultimately show "sound e (p\<lparr>pu_subscriber_connections := cs\<rparr>) st' X"
    using soundD(3) [of e p st' X] unfolding cs by (intro sound_connections) auto
qed

lemma connection_create_ok:
  assumes s: "sound e p st X" and ret: "SubscriberConnections_create e i ident (pu_subscriber_connections p) st = Ret (r, cs, st')"
  shows "sound e (p\<lparr>pu_subscriber_connections := cs\<rparr>) st' X" "same_samples st st'"
    "r = Ok True \<Longrightarrow> \<exists>sender. scn_connections cs ! i = Some sender \<and> zcs_mgmt sender < zs_next st'"
proof -
  let ?c = "pu_subscriber_connections p"
  note d = soundD [OF s]
  have "(cs = ?c \<and> r \<noteq> Ok True \<and> storage_inv st' \<and> same_samples st st')
    \<or> (\<exists>sender. i < length (scn_connections ?c) \<and> cs = ?c\<lparr>scn_connections := (scn_connections ?c)[i := Some sender]\<rparr>
        \<and> storage_inv st' \<and> same_samples st st' \<and> zcs_mgmt sender < zs_next st')"
  proof (cases "scn_connections ?c ! i")
    case None
    obtain r1 st1 where new1: "SubscriberConnection_new e ?c ident st = Ret (r1, st1)" and len: "i < length (scn_connections ?c)"
      and ret1: "(case r1 of Err err \<Rightarrow> Ret (Err err, ?c, st1)
        | Ok sender \<Rightarrow> Ret (Ok True, ?c\<lparr>scn_connections := (scn_connections ?c)[i := Some sender]\<rparr>, st1)) = Ret (r, cs, st')"
      using ret None by (auto simp: SubscriberConnections_create_def outcome_bind_eq_Ret split: if_splits)
    then have new: "SubscriberConnection_new e ?c ident st = Ret (r1, st')"
      and r1: "case r1 of Err err \<Rightarrow> r = Err err \<and> cs = ?c
        | Ok sender \<Rightarrow> r = Ok True \<and> cs = ?c\<lparr>scn_connections := (scn_connections ?c)[i := Some sender]\<rparr>"
      by (cases r1; simp)+
    obtain b where b: "create_sender (pe_junk_path e) (pe_locked e) b st = Ret (r1, st')"
      using new by (auto simp: SubscriberConnection_new_def outcome_bind_eq_Ret)
    obtain r2 where r2: "connect_port State_Sender (pe_junk_path e) (pe_locked e) b st = Ret (r2, st')"
      "\<forall>sender. r1 = Ok sender \<longrightarrow> r2 = Ok (zcs_mgmt sender)"
      using create_sender_port [OF b] by blast
    have "storage_inv st'" "same_samples st st'" "\<forall>sender. r1 = Ok sender \<longrightarrow> zcs_mgmt sender < zs_next st'"
      using connect_port_ok [OF d(2) r2(1)] r2(2) by blast+
    then show ?thesis using r1 len by (cases r1) auto
  next
    case (Some sender)
    then show ?thesis using ret d(2) by (auto simp: SubscriberConnections_create_def same_samples_def split: if_splits)
  qed
  then have st': "storage_inv st'" "same_samples st st'"
    and cs: "cs = ?c \<and> r \<noteq> Ok True \<or> (\<exists>sender. i < length (scn_connections ?c) \<and> zcs_mgmt sender < zs_next st'
      \<and> cs = ?c\<lparr>scn_connections := (scn_connections ?c)[i := Some sender]\<rparr>)" by blast+
  show "same_samples st st'" by (rule st'(2))
  show "\<exists>sender. scn_connections cs ! i = Some sender \<and> zcs_mgmt sender < zs_next st'" if "r = Ok True"
    using cs that by auto
  have s': "sound e p st' X" using same_samples_sound [OF s st'] .
  have "zcs_mgmt sender < zs_next st'" if "Some sender \<in> set (scn_connections cs)" for sender
    using cs that soundD(3) [OF s'] by (auto dest!: set_update_subset_insert [THEN subsetD])
  then show "sound e (p\<lparr>pu_subscriber_connections := cs\<rparr>) st' X" using sound_connections [OF s'] by blast
qed

text \<open>
  Updating the connections. The samples of the history go to the new connections; \<open>L\<close> are the
  references that a delivery of the history to a full buffer drops.
\<close>

lemma deliver_history_ok:
  assumes s: "sound e p st (Y + history_samples p)" and h: "history_inv p" and a: "zcs_mgmt sender < zs_next st"
  shows "\<exists>p' st' L. deliver_history e sender p st = Ret (p', st') \<and> sound e p' st' (Y + L + history_samples p') \<and> same_port p p'
    \<and> set_mset (L + storage_samples st') \<subseteq> set_mset (history_samples p) \<union> set_mset (storage_samples st)"
proof (cases "pu_history p")
  case None
  then show ?thesis
    using s same_port_refl by (intro exI [of _ p] exI [of _ st] exI [of _ "{#}"]) (simp add: deliver_history_def)
next
  case (Some hi)
  define ds where "ds = map (\<lambda>i. ContainerQueue_get_unchecked i hi) [0..<cq_len hi]"
  have el: "set ds \<subseteq> set_mset (history_samples p)" using history_elements [OF h Some] by (simp only: ds_def)
  have "set ds \<subseteq> set_mset (Y + history_samples p)" using el by auto
  then obtain p' st' L where l: "deliver_history_loop e ds (zcs_mgmt sender) p st = Ret (p', st')"
    "sound e p' st' (Y + history_samples p + L)" "same_port p p'"
    "set_mset (L + storage_samples st') \<subseteq> set ds \<union> set_mset (storage_samples st)"
    using deliver_history_loop_ok [OF s _ a] by blast
  have "sound e p' st' (Y + L + history_samples p')" using l(2) same_port_history [OF l(3)] by (simp add: ac_simps)
  moreover have "deliver_history e sender p st = Ret (p', st')" using l(1) Some by (simp add: deliver_history_def ds_def)
  ultimately show ?thesis using el l(3,4) by blast
qed

lemma same_samples_set: "same_samples st st' \<Longrightarrow> storage_samples st' = storage_samples st"
  by (simp add: same_samples_def)

lemma populate_loop_ok:
  assumes "sound e p st (Y + history_samples p)" "history_inv p" "populate_loop e i ids p st = Ret (r, p', st')"
  shows "\<exists>L. sound e p' st' (Y + L + history_samples p') \<and> same_but_connections p p'
    \<and> set_mset (L + storage_samples st') \<subseteq> set_mset (history_samples p) \<union> set_mset (storage_samples st)"
  using assms
proof (induction ids arbitrary: i p st Y)
  case Nil
  then show ?case by (intro exI [of _ "{#}"]) (auto simp: same_but_connections_def)
next
  case (Cons x ids)
  have step: ?case
    if s1: "sound e p1 st1 (Y + L1 + history_samples p1)" and same: "same_but_connections p p1"
      and sub: "set_mset (L1 + storage_samples st1) \<subseteq> set_mset (history_samples p) \<union> set_mset (storage_samples st)"
      and rest: "populate_loop e (i + 1) ids p1 st1 = Ret (r, p', st')" for p1 st1 L1
  proof -
    note hs = same_but_connections_history [OF same]
    obtain L where "sound e p' st' (Y + L1 + L + history_samples p')" "same_but_connections p1 p'"
      "set_mset (L + storage_samples st') \<subseteq> set_mset (history_samples p1) \<union> set_mset (storage_samples st1)"
      using Cons.IH [OF s1 _ rest] hs Cons.prems(2) by blast
    then show ?thesis
      using sub hs same_but_connections_trans [OF same] by (intro exI [of _ "L1 + L"]) (auto simp: ac_simps)
  qed
  show ?case
  proof (cases x)
    case None
    then obtain cs st1 where rm: "SubscriberConnections_remove e i (pu_subscriber_connections p) st = Ret (cs, st1)"
      "populate_loop e (i + 1) ids (p\<lparr>pu_subscriber_connections := cs\<rparr>) st1 = Ret (r, p', st')"
      using Cons.prems(3) by (auto simp: outcome_bind_eq_Ret)
    note f = connection_remove_ok [OF Cons.prems(1) rm(1)]
    show ?thesis
      using f same_samples_set [OF f(2)] rm(2)
      by (intro step [of _ _ "{#}"]) (simp_all add: history_samples_def same_but_connections_def)
  next
    case (Some ident)
    then obtain r1 cs st1 where cr: "SubscriberConnections_create e i ident (pu_subscriber_connections p) st = Ret (r1, cs, st1)"
      using Cons.prems(3) by (auto simp: outcome_bind_eq_Ret)
    note f = connection_create_ok [OF Cons.prems(1) cr]
    let ?p = "p\<lparr>pu_subscriber_connections := cs\<rparr>"
    have same: "same_but_connections p ?p" by (simp add: same_but_connections_def)
    have hs: "history_samples ?p = history_samples p" "history_inv ?p" using same_but_connections_history [OF same] Cons.prems(2) by auto
    have s1: "sound e ?p st1 (Y + history_samples ?p)" using f(1) hs by simp
    consider "r1 = Ok True" | "populate_loop e (i + 1) ids ?p st1 = Ret (r, p', st')" | "p' = ?p" "st' = st1"
      using Cons.prems(3) Some cr
      by (auto simp: Let_def split: result.splits bool.splits option.splits DegrationAction.splits)
    then show ?thesis
    proof cases
      case 1
      then obtain sender where sender: "scn_connections cs ! i = Some sender" "zcs_mgmt sender < zs_next st1" using f(3) by blast
      obtain p2 st2 L where h: "deliver_history e sender ?p st1 = Ret (p2, st2)" "sound e p2 st2 (Y + L + history_samples p2)"
        "same_port ?p p2" "set_mset (L + storage_samples st2) \<subseteq> set_mset (history_samples ?p) \<union> set_mset (storage_samples st1)"
        using deliver_history_ok [OF s1 hs(2) sender(2)] by blast
      have rest: "populate_loop e (i + 1) ids p2 st2 = Ret (r, p', st')"
        using Cons.prems(3) Some cr 1 sender(1) h(1) by simp
      have "same_but_connections p p2" using same_but_connections_trans [OF same same_port_but_connections [OF h(3)]] .
      moreover have "set_mset (L + storage_samples st2) \<subseteq> set_mset (history_samples p) \<union> set_mset (storage_samples st)"
        using h(4) hs(1) same_samples_set [OF f(2)] by simp
      ultimately show ?thesis using step [OF h(2)] rest by blast
    next
      case 2
      then show ?thesis
        using step [of ?p st1 "{#}"] s1 same same_samples_set [OF f(2)] by simp
    next
      case 3
      then show ?thesis using s1 same same_samples_set [OF f(2)] by (intro exI [of _ "{#}"]) simp
    qed
  qed
qed

lemma populate_subscriber_channels_ok:
  assumes s: "sound e p st (Y + history_samples p)" and h: "history_inv p"
    and ret: "populate_subscriber_channels e p st = Ret (r, p', st')"
  shows "\<exists>L. sound e p' st' (Y + L + history_samples p') \<and> same_but_connections p p'
    \<and> set_mset (L + storage_samples st') \<subseteq> set_mset (history_samples p) \<union> set_mset (storage_samples st)"
proof -
  obtain p1 st1 where r1: "retrieve_returned_samples e p st = Ret (p1, st1)" "sound e p1 st1 (Y + history_samples p)"
    "same_port p p1" "retrieved st st1"
    using retrieve_ok [OF s] by blast
  note hs = same_port_history [OF r1(3)]
  have sub: "set_mset (storage_samples st1) \<subseteq> set_mset (storage_samples st)"
    using retrieved_samples [OF soundD(2) [OF s] r1(4)] .
  obtain visited where v: "populate_loop e 0 visited p1 st1 = Ret (r, p', st')"
    using ret r1(1) by (auto simp: populate_subscriber_channels_def Let_def outcome_bind_eq_Ret)
  have "sound e p1 st1 (Y + history_samples p1)" "history_inv p1" using r1(2) h hs by auto
  then obtain L where "sound e p' st' (Y + L + history_samples p')" "same_but_connections p1 p'"
    "set_mset (L + storage_samples st') \<subseteq> set_mset (history_samples p1) \<union> set_mset (storage_samples st1)"
    using populate_loop_ok [OF _ _ v] by blast
  then show ?thesis
    using sub hs same_but_connections_trans [OF same_port_but_connections [OF r1(3)]] by (intro exI [of _ L]) auto
qed

lemma update_connections_ok:
  assumes s: "sound e p st (Y + history_samples p)" and h: "history_inv p"
    and ret: "Publisher_update_connections e subscribers p st = Ret (r, p', st')"
  shows "\<exists>L. sound e p' st' (Y + L + history_samples p') \<and> same_but_connections p p'
    \<and> set_mset (L + storage_samples st') \<subseteq> set_mset (history_samples p) \<union> set_mset (storage_samples st)"
proof -
  obtain changed state where u: "Container_update_state subscribers (pu_subscriber_list_state p) = (changed, state)" by fastforce
  let ?p = "p\<lparr>pu_subscriber_list_state := state\<rparr>"
  have same: "same_but_connections p ?p" by (simp add: same_but_connections_def)
  note hs = same_but_connections_history [OF same]
  have s1: "sound e ?p st (Y + history_samples ?p)" using s hs by (simp add: sound_def counts_def)
  show ?thesis
  proof (cases changed)
    case False
    then have "p' = ?p" "st' = st" using ret u by (auto simp: Publisher_update_connections_def Let_def)
    then show ?thesis using s1 same by (intro exI [of _ "{#}"]) auto
  next
    case True
    then have "populate_subscriber_channels e ?p st = Ret (r, p', st')"
      using ret u by (simp add: Publisher_update_connections_def Let_def)
    then obtain L where "sound e p' st' (Y + L + history_samples p')" "same_but_connections ?p p'"
      "set_mset (L + storage_samples st') \<subseteq> set_mset (history_samples ?p) \<union> set_mset (storage_samples st)"
      using populate_subscriber_channels_ok [OF s1] h hs by blast
    then show ?thesis using hs same_but_connections_trans [OF same] by (intro exI [of _ L]) auto
  qed
qed

text \<open>What \<open>send_impl\<close> does once the connections are up to date.\<close>

lemma add_and_deliver_ok:
  assumes s: "sound e p st (Y + history_samples p)" and h: "history_inv p" and x: "x \<in># Y"
  shows "\<exists>p2 d. add_to_history e x p = Ret p2 \<and> deliver_sample e x p2 st = Ret d
    \<and> (\<forall>n p' st'. d = Some (n, p', st') \<longrightarrow> sound e p' st' (Y + history_samples p') \<and> history_inv p'
      \<and> history_capacity p' = history_capacity p
      \<and> same_port (p\<lparr>pu_history := pu_history p'\<rparr>) p' \<and> kept st st'
      \<and> set_mset (history_samples p' + storage_samples st')
          \<subseteq> insert x (set_mset (history_samples p) \<union> set_mset (storage_samples st)))"
proof -
  obtain p2 where p2: "add_to_history e x p = Ret p2" "sound e p2 st (Y + history_samples p2)" "history_inv p2"
    "same_port (p\<lparr>pu_history := pu_history p2\<rparr>) p2" "set_mset (history_samples p2) \<subseteq> insert x (set_mset (history_samples p))"
    "history_capacity p2 = history_capacity p"
    using add_to_history_ok [OF s x h] by blast
  have x2: "x \<in># Y + history_samples p2" using x by simp
  obtain d where d: "deliver_sample e x p2 st = Ret d"
    and p3: "\<And>n p' st'. d = Some (n, p', st') \<Longrightarrow> sound e p' st' (Y + history_samples p2) \<and> same_port p2 p' \<and> kept st st'
      \<and> set_mset (storage_samples st') \<subseteq> insert x (set_mset (storage_samples st))"
    using deliver_loop_ok [OF p2(2) x2 soundD(3) [OF p2(2)], of 0] by (auto simp: deliver_sample_def)
  have "sound e p' st' (Y + history_samples p') \<and> history_inv p' \<and> history_capacity p' = history_capacity p
      \<and> same_port (p\<lparr>pu_history := pu_history p'\<rparr>) p' \<and> kept st st'
      \<and> set_mset (history_samples p' + storage_samples st')
          \<subseteq> insert x (set_mset (history_samples p) \<union> set_mset (storage_samples st))"
    if "d = Some (n, p', st')" for n p' st'
  proof -
    note f = p3 [OF that]
    have "same_port (p\<lparr>pu_history := pu_history p'\<rparr>) p'" using f p2(4) by (simp add: same_port_def)
    moreover have hs: "history_samples p' = history_samples p2" "history_inv p'" "history_capacity p' = history_capacity p"
      using same_port_history [of p2 p'] f p2(3,6) by auto
    moreover have "set_mset (history_samples p' + storage_samples st')
          \<subseteq> insert x (set_mset (history_samples p) \<union> set_mset (storage_samples st))"
      using f p2(5) hs(1) by auto
    ultimately show ?thesis using f by simp
  qed
  then show ?thesis using p2(1) d by blast
qed

lemma send_impl_ok:
  assumes s: "sound e p st (Y + history_samples p)" and h: "history_inv p" and x: "x \<in># Y"
    and ret: "send_impl e subscribers x p st = Ret (Some (r, p', st'))"
  shows "\<exists>L. sound e p' st' (Y + L + history_samples p') \<and> history_inv p'
    \<and> pu_loan_counter p' = pu_loan_counter p \<and> pu_config p' = pu_config p
    \<and> set_mset (L + history_samples p' + storage_samples st')
        \<subseteq> insert x (set_mset (history_samples p) \<union> set_mset (storage_samples st))"
proof -
  obtain r1 p1 st1 where u: "Publisher_update_connections e subscribers p st = Ret (r1, p1, st1)"
    and rest: "(case r1 of Err err \<Rightarrow> Ret (Some (Err err, p1, st1))
       | Ok _ \<Rightarrow>
           outcome_bind (add_to_history e x p1) (\<lambda>p2.
           outcome_bind (deliver_sample e x p2 st1) (\<lambda>d.
             case d of None \<Rightarrow> Ret None | Some (n, p3, st3) \<Rightarrow> Ret (Some (Ok n, p3, st3))))) = Ret (Some (r, p', st'))"
    using ret by (auto simp: send_impl_def outcome_bind_eq_Ret)
  obtain L where L: "sound e p1 st1 (Y + L + history_samples p1)" "same_but_connections p p1"
    "set_mset (L + storage_samples st1) \<subseteq> set_mset (history_samples p) \<union> set_mset (storage_samples st)"
    using update_connections_ok [OF s h u] by blast
  note hs = same_but_connections_history [OF L(2)]
  show ?thesis
  proof (cases r1)
    case (Err err)
    then show ?thesis using rest L hs h by (intro exI [of _ L]) (auto simp: same_but_connections_def)
  next
    case (Ok v)
    have h1: "history_inv p1" and x1: "x \<in># Y + L" using hs h x by auto
    obtain p2 d where d: "add_to_history e x p1 = Ret p2" "deliver_sample e x p2 st1 = Ret d"
      and f: "\<And>n p' st'. d = Some (n, p', st') \<Longrightarrow> sound e p' st' (Y + L + history_samples p') \<and> history_inv p'
        \<and> same_port (p1\<lparr>pu_history := pu_history p'\<rparr>) p'
        \<and> set_mset (history_samples p' + storage_samples st')
          \<subseteq> insert x (set_mset (history_samples p1) \<union> set_mset (storage_samples st1))"
      using add_and_deliver_ok [OF L(1) h1 x1] by blast
    obtain n where "d = Some (n, p', st')" using rest Ok d by (auto split: option.splits)
    note f = f [OF this]
    have "pu_loan_counter p' = pu_loan_counter p \<and> pu_config p' = pu_config p"
      using f L(2) by (simp add: same_port_def same_but_connections_def)
    moreover have "set_mset (L + history_samples p' + storage_samples st')
        \<subseteq> insert x (set_mset (history_samples p) \<union> set_mset (storage_samples st))"
      using L(3) f hs by auto
    ultimately show ?thesis using f by blast
  qed
qed

lemma Publisher_send_ok:
  assumes s: "sound e p st (add_mset x Y + history_samples p)" and h: "history_inv p"
    and ret: "Publisher_send e subscribers x p st = Ret (Some (r, p', st'))"
  shows "\<exists>L. sound e p' st' (Y + L + history_samples p') \<and> history_inv p'
    \<and> pu_loan_counter p' = fetch_sub_1 (pu_loan_counter p) \<and> pu_config p' = pu_config p
    \<and> set_mset (L + history_samples p' + storage_samples st')
        \<subseteq> insert x (set_mset (history_samples p) \<union> set_mset (storage_samples st))"
proof -
  obtain p1 where send: "send_impl e subscribers x p st = Ret (Some (r, p1, st'))" and drop: "SampleMut_drop e x p1 = Ret p'"
    using ret by (auto simp: Publisher_send_def outcome_bind_eq_Ret split: option.splits)
  obtain L where L: "sound e p1 st' (add_mset x Y + L + history_samples p1)" "history_inv p1"
    "pu_loan_counter p1 = pu_loan_counter p" "pu_config p1 = pu_config p"
    "set_mset (L + history_samples p1 + storage_samples st')
      \<subseteq> insert x (set_mset (history_samples p) \<union> set_mset (storage_samples st))"
    using send_impl_ok [OF s h _ send] by auto
  have "sound e p1 st' (add_mset x (Y + L + history_samples p1))" using L(1) by simp
  then have p': "sound e p' st' (Y + L + history_samples p1)"
    "same_port (p1\<lparr>pu_loan_counter := fetch_sub_1 (pu_loan_counter p1)\<rparr>) p'"
    using SampleMut_drop_ok [of e p1 st' x "Y + L + history_samples p1"] drop by auto
  then have "history_samples p' = history_samples p1" "history_inv p' = history_inv p1"
    by (auto simp: same_port_def history_samples_def history_inv_def)
  then show ?thesis using p' L(2-5) by (intro exI [of _ L]) (simp add: same_port_def)
qed

end
