(* ===== verification/PublisherSystem.thy ===== *)
theory PublisherSystem
  imports PublisherSafety
begin

text \<open>
  A publisher and its receivers at work: a transition system in which the publisher loans, sends and
  drops samples and updates its connections while any number of receivers connect, receive, release
  and disconnect. The result is that a loaned sample is referred to by nobody else.
\<close>

section \<open>A publisher and its receivers at work\<close>

text \<open>
  The publisher and any number of receivers take turns. \<open>pc_loans\<close> are the samples the user holds,
  \<open>pc_borrowed\<close> the received samples with the receiver they came from. The registry of subscribers
  is any at every update.
\<close>

record pub_conf =
  pc_publisher :: Publisher
  pc_storage :: ZeroCopyStorage
  pc_loans :: "nat list"
  pc_receivers :: "nat \<Rightarrow> ZeroCopyReceiver option"
  pc_borrowed :: "(nat \<times> nat) list"

inductive pub_step :: "port_env \<Rightarrow> pub_conf \<Rightarrow> pub_conf \<Rightarrow> bool" for e where
  pub_loan: "loan_uninit e (pc_publisher s) (pc_storage s) = Ret (r, p, st) \<Longrightarrow>
    pub_step e s (s\<lparr>pc_publisher := p, pc_storage := st, pc_loans := (case r of Ok x \<Rightarrow> [x] | Err _ \<Rightarrow> []) @ pc_loans s\<rparr>)"
| pub_drop: "x \<in> set (pc_loans s) \<Longrightarrow> SampleMut_drop e x (pc_publisher s) = Ret p \<Longrightarrow>
    pub_step e s (s\<lparr>pc_publisher := p, pc_loans := remove1 x (pc_loans s)\<rparr>)"
| pub_send: "x \<in> set (pc_loans s) \<Longrightarrow>
    Publisher_send e subscribers x (pc_publisher s) (pc_storage s) = Ret (Some (r, p, st)) \<Longrightarrow>
    pub_step e s (s\<lparr>pc_publisher := p, pc_storage := st, pc_loans := remove1 x (pc_loans s)\<rparr>)"
| pub_update: "Publisher_update_connections e subscribers (pc_publisher s) (pc_storage s) = Ret (r, p, st) \<Longrightarrow>
    pub_step e s (s\<lparr>pc_publisher := p, pc_storage := st\<rparr>)"
| pub_connect: "pc_receivers s i = None \<Longrightarrow> create_receiver junk locked b (pc_storage s) = Ret (Ok rc, st) \<Longrightarrow>
    pub_step e s (s\<lparr>pc_storage := st, pc_receivers := (pc_receivers s)(i \<mapsto> rc)\<rparr>)"
| pub_disconnect: "pc_receivers s i = Some rc \<Longrightarrow> zs_store (pc_storage s) (zcr_mgmt rc) = Some m \<Longrightarrow>
    cleanup_connection junk locked (zm_name m) (zcr_config rc) State_Receiver (pc_storage s) = Ret st \<Longrightarrow>
    pub_step e s (s\<lparr>pc_storage := st, pc_receivers := (pc_receivers s)(i := None)\<rparr>)"
| pub_receive: "pc_receivers s i = Some rc \<Longrightarrow> zs_store (pc_storage s) (zcr_mgmt rc) = Some m \<Longrightarrow>
    receive (zcr_borrow_counter rc) m = (Ok r, n, m') \<Longrightarrow>
    pub_step e s (s\<lparr>pc_storage := set_mgmt (zcr_mgmt rc) m' (pc_storage s),
      pc_receivers := (pc_receivers s)(i \<mapsto> rc\<lparr>zcr_borrow_counter := n\<rparr>),
      pc_borrowed := (case r of None \<Rightarrow> [] | Some x \<Rightarrow> [(i, x)]) @ pc_borrowed s\<rparr>)"
| pub_release: "pc_receivers s i = Some rc \<Longrightarrow> (i, x) \<in> set (pc_borrowed s) \<Longrightarrow>
    zs_store (pc_storage s) (zcr_mgmt rc) = Some m \<Longrightarrow>
    release (pe_overflow_checks e) x (zcr_borrow_counter rc) m = Ret (Ok (), n, m') \<Longrightarrow>
    pub_step e s (s\<lparr>pc_storage := set_mgmt (zcr_mgmt rc) m' (pc_storage s),
      pc_receivers := (pc_receivers s)(i \<mapsto> rc\<lparr>zcr_borrow_counter := n\<rparr>),
      pc_borrowed := remove1 (i, x) (pc_borrowed s)\<rparr>)"

text \<open>
  A loaned sample is nowhere else. \<open>L\<close> are references that were dropped without being given back.
\<close>

definition pub_inv :: "port_env \<Rightarrow> pub_conf \<Rightarrow> bool" where
  "pub_inv e s \<longleftrightarrow> history_inv (pc_publisher s) \<and> pu_loan_counter (pc_publisher s) = length (pc_loans s)
     \<and> length (pc_loans s) \<le> lp_max_loaned_samples (pu_config (pc_publisher s)) \<and> distinct (pc_loans s)
     \<and> (\<exists>L. sound e (pc_publisher s) (pc_storage s)
            (mset (pc_loans s) + mset (map snd (pc_borrowed s)) + L + history_samples (pc_publisher s))
          \<and> set (pc_loans s) \<inter> set_mset (mset (map snd (pc_borrowed s)) + L + history_samples (pc_publisher s)
              + storage_samples (pc_storage s)) = {})"

lemma pub_invD:
  assumes "pub_inv e s"
  obtains L where
    "sound e (pc_publisher s) (pc_storage s)
       (mset (pc_loans s) + mset (map snd (pc_borrowed s)) + L + history_samples (pc_publisher s))"
    "set (pc_loans s) \<inter> set_mset (mset (map snd (pc_borrowed s)) + L + history_samples (pc_publisher s)
       + storage_samples (pc_storage s)) = {}"
  using assms unfolding pub_inv_def by blast

lemma pub_invI:
  assumes "history_inv (pc_publisher s)" "pu_loan_counter (pc_publisher s) = length (pc_loans s)"
    "length (pc_loans s) \<le> lp_max_loaned_samples (pu_config (pc_publisher s))" "distinct (pc_loans s)"
    "sound e (pc_publisher s) (pc_storage s)
       (mset (pc_loans s) + mset (map snd (pc_borrowed s)) + L + history_samples (pc_publisher s))"
    "set (pc_loans s) \<inter> set_mset (mset (map snd (pc_borrowed s)) + L + history_samples (pc_publisher s)
       + storage_samples (pc_storage s)) = {}"
  shows "pub_inv e s"
  using assms unfolding pub_inv_def by blast

lemma fetch_sub_1_pos: "0 < n \<Longrightarrow> fetch_sub_1 n = n - 1"
  by (simp add: fetch_sub_1_def)

lemma remove1_loan:
  assumes "x \<in> set xs" "distinct xs"
  shows "mset xs = add_mset x (mset (remove1 x xs))" "length (remove1 x xs) = length xs - 1" "0 < length xs"
    "set (remove1 x xs) = set xs - {x}"
  using assms by (auto simp: length_remove1 length_pos_if_in_set)

lemma pub_loan_inv:
  assumes inv: "pub_inv e s" and ret: "loan_uninit e (pc_publisher s) (pc_storage s) = Ret (r, p, st)"
  shows "pub_inv e (s\<lparr>pc_publisher := p, pc_storage := st, pc_loans := (case r of Ok x \<Rightarrow> [x] | Err _ \<Rightarrow> []) @ pc_loans s\<rparr>)"
    (is "pub_inv e ?s")
proof -
  obtain L where L: "sound e (pc_publisher s) (pc_storage s)
       (mset (pc_loans s) + mset (map snd (pc_borrowed s)) + L + history_samples (pc_publisher s))"
    "set (pc_loans s) \<inter> set_mset (mset (map snd (pc_borrowed s)) + L + history_samples (pc_publisher s)
       + storage_samples (pc_storage s)) = {}"
    using pub_invD [OF inv] .
  let ?X = "mset (pc_loans s) + mset (map snd (pc_borrowed s)) + L + history_samples (pc_publisher s)"
  have sub: "set_mset (storage_samples st) \<subseteq> set_mset (storage_samples (pc_storage s))"
    and r: "case r of Ok x \<Rightarrow> x \<notin># ?X + storage_samples st \<and> sound e p st (add_mset x ?X)
        \<and> pu_loan_counter (pc_publisher s) < lp_max_loaned_samples (pu_config (pc_publisher s))
        \<and> same_port ((pc_publisher s)\<lparr>pu_loan_counter := pu_loan_counter (pc_publisher s) + 1\<rparr>) p
      | Err _ \<Rightarrow> sound e p st ?X \<and> same_port (pc_publisher s) p"
    using loan_uninit_ok [OF L(1)] ret by auto
  show ?thesis
  proof (cases r)
    case (Ok x)
    have same: "same_port ((pc_publisher s)\<lparr>pu_loan_counter := pu_loan_counter (pc_publisher s) + 1\<rparr>) p" using r Ok by simp
    have h: "history_samples p = history_samples (pc_publisher s)" "history_inv p = history_inv (pc_publisher s)"
      using same by (auto simp: same_port_def history_samples_def history_inv_def)
    show ?thesis
      using inv r Ok L(2) sub same h
      by (intro pub_invI [of _ _ L]) (auto simp: pub_inv_def same_port_def ac_simps)
  next
    case (Err err)
    have same: "same_port (pc_publisher s) p" using r Err by simp
    show ?thesis
      using inv r Err L(2) sub same_port_history [OF same] same
      by (intro pub_invI [of _ _ L]) (auto simp: pub_inv_def same_port_def)
  qed
qed

lemma pub_drop_inv:
  assumes inv: "pub_inv e s" and x: "x \<in> set (pc_loans s)"
  shows "\<exists>p. SampleMut_drop e x (pc_publisher s) = Ret p
    \<and> pub_inv e (s\<lparr>pc_publisher := p, pc_loans := remove1 x (pc_loans s)\<rparr>)"
proof -
  obtain L where L: "sound e (pc_publisher s) (pc_storage s)
       (mset (pc_loans s) + mset (map snd (pc_borrowed s)) + L + history_samples (pc_publisher s))"
    "set (pc_loans s) \<inter> set_mset (mset (map snd (pc_borrowed s)) + L + history_samples (pc_publisher s)
       + storage_samples (pc_storage s)) = {}"
    using pub_invD [OF inv] .
  have dl: "distinct (pc_loans s)" using inv by (simp add: pub_inv_def)
  note rm = remove1_loan [OF x dl]
  have sx: "sound e (pc_publisher s) (pc_storage s) (add_mset x
      (mset (remove1 x (pc_loans s)) + mset (map snd (pc_borrowed s)) + L + history_samples (pc_publisher s)))"
    using L(1) unfolding rm(1) by simp
  obtain p where p: "SampleMut_drop e x (pc_publisher s) = Ret p"
    "sound e p (pc_storage s) (mset (remove1 x (pc_loans s)) + mset (map snd (pc_borrowed s)) + L + history_samples (pc_publisher s))"
    "same_port ((pc_publisher s)\<lparr>pu_loan_counter := fetch_sub_1 (pu_loan_counter (pc_publisher s))\<rparr>) p"
    using SampleMut_drop_ok [OF sx] by blast
  have h: "history_samples p = history_samples (pc_publisher s)" "history_inv p = history_inv (pc_publisher s)"
    using p(3) by (auto simp: same_port_def history_samples_def history_inv_def)
  have "pub_inv e (s\<lparr>pc_publisher := p, pc_loans := remove1 x (pc_loans s)\<rparr>)"
    using inv L(2) p(2,3) h rm(2-4) dl
    by (intro pub_invI [of _ _ L]) (auto simp: pub_inv_def same_port_def fetch_sub_1_pos)
  then show ?thesis using p(1) by blast
qed

lemma pub_send_inv:
  assumes inv: "pub_inv e s" and x: "x \<in> set (pc_loans s)"
    and ret: "Publisher_send e subscribers x (pc_publisher s) (pc_storage s) = Ret (Some (r, p, st))"
  shows "pub_inv e (s\<lparr>pc_publisher := p, pc_storage := st, pc_loans := remove1 x (pc_loans s)\<rparr>)"
proof -
  obtain L where L: "sound e (pc_publisher s) (pc_storage s)
       (mset (pc_loans s) + mset (map snd (pc_borrowed s)) + L + history_samples (pc_publisher s))"
    "set (pc_loans s) \<inter> set_mset (mset (map snd (pc_borrowed s)) + L + history_samples (pc_publisher s)
       + storage_samples (pc_storage s)) = {}"
    using pub_invD [OF inv] .
  have dl: "distinct (pc_loans s)" "history_inv (pc_publisher s)" using inv by (simp_all add: pub_inv_def)
  note rm = remove1_loan [OF x dl(1)]
  let ?Y = "mset (remove1 x (pc_loans s)) + mset (map snd (pc_borrowed s)) + L"
  have sx: "sound e (pc_publisher s) (pc_storage s) (add_mset x ?Y + history_samples (pc_publisher s))"
    using L(1) unfolding rm(1) by simp
  obtain L' where L': "sound e p st (?Y + L' + history_samples p)" "history_inv p"
    "pu_loan_counter p = fetch_sub_1 (pu_loan_counter (pc_publisher s))" "pu_config p = pu_config (pc_publisher s)"
    "set_mset (L' + history_samples p + storage_samples st)
      \<subseteq> insert x (set_mset (history_samples (pc_publisher s)) \<union> set_mset (storage_samples (pc_storage s)))"
    using Publisher_send_ok [OF sx dl(2) ret] by blast
  show ?thesis
    using inv L(2) L' rm(2-4) dl
    by (intro pub_invI [of _ _ "L + L'"]) (auto simp: pub_inv_def fetch_sub_1_pos ac_simps)
qed

lemma pub_update_inv:
  assumes inv: "pub_inv e s"
    and ret: "Publisher_update_connections e subscribers (pc_publisher s) (pc_storage s) = Ret (r, p, st)"
  shows "pub_inv e (s\<lparr>pc_publisher := p, pc_storage := st\<rparr>)"
proof -
  obtain L where L: "sound e (pc_publisher s) (pc_storage s)
       (mset (pc_loans s) + mset (map snd (pc_borrowed s)) + L + history_samples (pc_publisher s))"
    "set (pc_loans s) \<inter> set_mset (mset (map snd (pc_borrowed s)) + L + history_samples (pc_publisher s)
       + storage_samples (pc_storage s)) = {}"
    using pub_invD [OF inv] .
  have hi: "history_inv (pc_publisher s)" using inv by (simp add: pub_inv_def)
  obtain L' where L': "sound e p st (mset (pc_loans s) + mset (map snd (pc_borrowed s)) + L + L' + history_samples p)"
    "same_but_connections (pc_publisher s) p"
    "set_mset (L' + storage_samples st) \<subseteq> set_mset (history_samples (pc_publisher s)) \<union> set_mset (storage_samples (pc_storage s))"
    using update_connections_ok [OF L(1) hi ret] by blast
  show ?thesis
    using inv L(2) L' same_but_connections_history [OF L'(2)]
    by (intro pub_invI [of _ _ "L + L'"]) (auto simp: pub_inv_def same_but_connections_def ac_simps)
qed

text \<open>What a receiver does leaves the publisher alone and moves samples between a channel and the receiver.\<close>

lemma pub_receiver_inv:
  assumes inv: "pub_inv e s" and st: "storage_inv st" "zs_next (pc_storage s) \<le> zs_next st"
    and eq: "mset (map snd bs) + storage_samples st = mset (map snd (pc_borrowed s)) + storage_samples (pc_storage s)"
  shows "pub_inv e (s\<lparr>pc_storage := st, pc_receivers := f, pc_borrowed := bs\<rparr>)"
proof -
  obtain L where L: "sound e (pc_publisher s) (pc_storage s)
       (mset (pc_loans s) + mset (map snd (pc_borrowed s)) + L + history_samples (pc_publisher s))"
    "set (pc_loans s) \<inter> set_mset (mset (map snd (pc_borrowed s)) + L + history_samples (pc_publisher s)
       + storage_samples (pc_storage s)) = {}"
    using pub_invD [OF inv] .
  have eq': "M + mset (map snd bs) + N + K + storage_samples st
      = M + mset (map snd (pc_borrowed s)) + N + K + storage_samples (pc_storage s)" for M N K
    using eq by (metis (no_types, lifting) add.assoc add.commute)
  have "set_mset (mset (map snd bs) + storage_samples st) = set_mset (mset (map snd (pc_borrowed s)) + storage_samples (pc_storage s))"
    unfolding eq ..
  then have "set (pc_loans s) \<inter> set_mset (mset (map snd bs) + L + history_samples (pc_publisher s) + storage_samples st) = {}"
    using L(2) by auto
  moreover have "sound e (pc_publisher s) st (mset (pc_loans s) + mset (map snd bs) + L + history_samples (pc_publisher s))"
    using L(1) st unfolding sound_def eq' by auto
  ultimately show ?thesis
    using inv by (intro pub_invI [of _ _ L]) (auto simp: pub_inv_def)
qed

lemma set_mgmt_taken:
  assumes "storage_inv st" "zs_store st a = Some m" "mgmt_samples m = A + mgmt_samples m'"
  shows "A + storage_samples (set_mgmt a m' st) = storage_samples st"
proof -
  have "(A + storage_samples (set_mgmt a m' st)) + mgmt_samples m' = storage_samples st + mgmt_samples m'"
    using set_mgmt_samples [OF assms(1,2), of m'] assms(3) by (simp add: ac_simps)
  then show ?thesis by (rule add_right_imp_eq)
qed

lemma set_mgmt_given:
  assumes "storage_inv st" "zs_store st a = Some m" "mgmt_samples m' = A + mgmt_samples m"
  shows "storage_samples (set_mgmt a m' st) = A + storage_samples st"
proof -
  have "storage_samples (set_mgmt a m' st) + mgmt_samples m = (A + storage_samples st) + mgmt_samples m"
    using set_mgmt_samples [OF assms(1,2), of m'] assms(3) by (simp add: ac_simps)
  then show ?thesis by (rule add_right_imp_eq)
qed

lemma release_Ok:
  assumes inv: "Management_inv m" and ret: "release checks x n m = Ret (Ok (), n', m')"
  shows "Management_inv m'" "mgmt_samples m' = {#x#} + mgmt_samples m" "same_settings m m'" "0 < n \<Longrightarrow> n' = n - 1"
proof -
  have "length (retr_list m) \<le> retr_capacity m"
    using inv iq.bounded [of "zm_retrieve_channel m"] by (simp add: Management_inv_def retr_list_def retr_capacity_def)
  moreover have "length (retr_list m) \<noteq> retr_capacity m" using release_full [OF inv] ret by auto
  ultimately obtain m1 where m1: "\<And>checks n. release checks x n m = outcome_bind (usize_sub checks n 1) (\<lambda>n'. Ret (Ok (), n', m1))"
    "Management_inv m1" "same_settings m m1" "recv_list m1 = recv_list m" "retr_list m1 = retr_list m @ [x]"
    using release_push [OF inv, of x] by (metis le_neq_implies_less)
  then have "m' = m1" using ret by (auto simp: outcome_bind_eq_Ret)
  then show "Management_inv m'" "mgmt_samples m' = {#x#} + mgmt_samples m" "same_settings m m'"
    using m1(2-5) by (auto simp: mgmt_samples_def)
  show "0 < n \<Longrightarrow> n' = n - 1" using ret m1(1) by auto
qed

lemma pub_inv_storage: "pub_inv e s \<Longrightarrow> storage_inv (pc_storage s)"
  by (auto simp: pub_inv_def sound_def)

lemma pub_inv_step:
  assumes inv: "pub_inv e s" and step: "pub_step e s t"
  shows "pub_inv e t"
  using step
proof cases
  case (pub_loan r p st)
  then show ?thesis using pub_loan_inv [OF inv] by simp
next
  case (pub_drop x p)
  then show ?thesis using pub_drop_inv [OF inv] by fastforce
next
  case (pub_send x subscribers r p st)
  then show ?thesis using pub_send_inv [OF inv] by simp
next
  case (pub_update subscribers r p st)
  then show ?thesis using pub_update_inv [OF inv] by simp
next
  case (pub_connect i junk locked b rc st)
  obtain r2 where c: "connect_port State_Receiver junk locked b (pc_storage s) = Ret (r2, st)"
    using create_receiver_port [OF pub_connect(3)] by blast
  note f = connect_port_ok(1,2) [OF pub_inv_storage [OF inv] c]
  show ?thesis
    using pub_receiver_inv [OF inv f(1), of "pc_borrowed s" "(pc_receivers s)(i \<mapsto> rc)"] f(2) pub_connect(1)
    by (simp add: same_samples_def)
next
  case (pub_disconnect i rc m junk locked st)
  note f = cleanup_connection_ok [OF pub_inv_storage [OF inv] pub_disconnect(4)]
  show ?thesis
    using pub_receiver_inv [OF inv f(1), of "pc_borrowed s" "(pc_receivers s)(i := None)"] f(2) pub_disconnect(1)
    by (simp add: same_samples_def)
next
  case (pub_receive i rc m r n m')
  note st = pub_inv_storage [OF inv]
  have mi: "Management_inv m" using st pub_receive(3) by (auto simp: storage_inv_def)
  note f = receive_Ok [OF mi pub_receive(4)]
  have "mgmt_samples m = mset (case r of None \<Rightarrow> [] | Some v \<Rightarrow> [v]) + mgmt_samples m'"
    using f(3,4) by (simp add: mgmt_samples_def)
  note eq = set_mgmt_taken [OF st pub_receive(3) this]
  have "mset (map snd ((case r of None \<Rightarrow> [] | Some x \<Rightarrow> [(i, x)]) @ pc_borrowed s)) + storage_samples (set_mgmt (zcr_mgmt rc) m' (pc_storage s))
      = mset (map snd (pc_borrowed s)) + storage_samples (pc_storage s)"
    unfolding eq [symmetric] by (simp split: option.split)
  then show ?thesis
    using pub_receiver_inv [OF inv set_mgmt_inv [OF st pub_receive(3) f(1)]] pub_receive(1) by (simp add: set_mgmt_def)
next
  case (pub_release i rc x m n m')
  note st = pub_inv_storage [OF inv]
  have mi: "Management_inv m" using st pub_release(4) by (auto simp: storage_inv_def)
  note f = release_Ok [OF mi pub_release(5)]
  note eq = set_mgmt_given [OF st pub_release(4) f(2)]
  have "mset (pc_borrowed s) = add_mset (i, x) (mset (remove1 (i, x) (pc_borrowed s)))"
    using pub_release(3) by simp
  then have "image_mset snd (mset (pc_borrowed s)) = image_mset snd (add_mset (i, x) (mset (remove1 (i, x) (pc_borrowed s))))"
    by (rule arg_cong)
  then have "mset (map snd (pc_borrowed s)) = add_mset x (mset (map snd (remove1 (i, x) (pc_borrowed s))))"
    by (simp only: mset_map image_mset_add_mset snd_conv)
  then have "mset (map snd (remove1 (i, x) (pc_borrowed s))) + storage_samples (set_mgmt (zcr_mgmt rc) m' (pc_storage s))
      = mset (map snd (pc_borrowed s)) + storage_samples (pc_storage s)"
    unfolding eq by simp
  then show ?thesis
    using pub_receiver_inv [OF inv set_mgmt_inv [OF st pub_release(4) f(1)]] pub_release(1) by (simp add: set_mgmt_def)
qed

text \<open>A new publisher, before anybody holds a sample. No connection has been made in its storage yet.\<close>

definition no_connections :: ZeroCopyStorage where
  "no_connections = \<lparr>zs_storage = (\<lambda>_. None), zs_store = (\<lambda>_. None), zs_next = 0\<rparr>"

definition pub_start :: "Publisher \<Rightarrow> ZeroCopyStorage \<Rightarrow> pub_conf" where
  "pub_start p st = \<lparr>pc_publisher = p, pc_storage = st, pc_loans = [], pc_receivers = (\<lambda>_. None), pc_borrowed = []\<rparr>"

lemma Publisher_new_sound:
  assumes l: "valid_layout (pe_message_layout e)" "0 < layout_size (pe_message_layout e)"
    "layout_align (pe_message_layout e) dvd layout_size (pe_message_layout e)" "layout_align (pe_message_layout e) \<le> page_size"
    and n: "n = required_amount_of_samples_per_data_segment (PublishSubscribe static_config) (lp_max_loaned_samples local_config)"
      "n + 1 < 2 ^ 32"
    and new: "Publisher_new e details page_size config static_config local_config port_id (Ok base) d no_connections = Ret (Ok p, d', st)"
  shows "sound e p st {#}" "history_samples p = {#}" "storage_samples st = {#}" "history_inv p"
    "length (pu_sample_reference_counter p) = n" "pu_loan_counter p = 0" "pu_config p = local_config"
    "history_capacity p = ps_history_size static_config"
proof -
  have pos: "0 < n" unfolding n(1) by simp
  obtain m where m: "create_data_segment e details page_size n (Ok base) = Ret (Ok m)"
    "Memory_inv m" "me_buckets m = n" "me_free m = {..<n}" "me_bucket_size m = layout_size (pe_message_layout e)"
    "pa_bucket_alignment (me_pool m) = layout_align (pe_message_layout e)"
    using SharedMemory_create_ok [OF l pos n(2), of details base] by (auto simp: create_data_segment_def)
  define q where "q = (\<lambda>list_state guard. \<lparr>pu_port_id = port_id, pu_sample_reference_counter = replicate n 0,
    pu_data_segment = m, pu_config = local_config,
    pu_subscriber_connections = SubscriberConnections_new (ct_capacity (pd_subscribers d')) config port_id static_config,
    pu_subscriber_list_state = list_state,
    pu_history = (if ps_history_size static_config = 0 then None else Some (ContainerQueue_new (ps_history_size static_config))),
    pu_degration_callback = None, pu_loan_counter = 0, pu_dynamic_config_guard = guard\<rparr>)"
  obtain list_state guard r where pop: "populate_subscriber_channels e (q list_state guard) no_connections = Ret (r, p, st)"
    using new m(1) n(1) unfolding q_def
    by (auto simp: Publisher_new_def Let_def outcome_bind_eq_Ret simp del: required_amount_of_samples_per_data_segment.simps
        split: option.splits)
  let ?q = "q list_state guard"
  have st: "storage_inv no_connections" "storage_samples no_connections = {#}"
    by (simp_all add: storage_inv_def no_connections_def storage_samples_def)
  have h: "history_inv ?q" "history_samples ?q = {#}" "history_capacity ?q = ps_history_size static_config"
    using ContainerQueue_new_inv by (auto simp: q_def history_inv_def history_samples_def history_capacity_def)
  have "sound e ?q no_connections ({#} + history_samples ?q)"
    using m st h by (simp add: sound_def counts_def q_def SubscriberConnections_new_def)
  then obtain L where L: "sound e p st ({#} + L + history_samples p)" "same_but_connections ?q p"
    "set_mset (L + storage_samples st) \<subseteq> set_mset (history_samples ?q) \<union> set_mset (storage_samples no_connections)"
    using populate_subscriber_channels_ok [OF _ h(1) pop] by blast
  then have "L + storage_samples st = {#}" using h(2) st(2) by (metis set_mset_eq_empty_iff set_mset_empty subset_empty sup_bot.right_neutral)
  moreover have "history_capacity p = history_capacity ?q"
    using L(2) by (simp add: same_but_connections_def history_capacity_def)
  ultimately show "sound e p st {#}" "history_samples p = {#}" "storage_samples st = {#}" "history_inv p"
    "length (pu_sample_reference_counter p) = n" "pu_loan_counter p = 0" "pu_config p = local_config"
    "history_capacity p = ps_history_size static_config"
    using h L(1,2) same_but_connections_history [OF L(2)] by (auto simp: same_but_connections_def q_def)
qed

lemma pub_start_inv:
  assumes "sound e p st {#}" "history_samples p = {#}" "storage_samples st = {#}" "history_inv p" "pu_loan_counter p = 0"
  shows "pub_inv e (pub_start p st)"
  using assms by (intro pub_invI [of _ _ "{#}"]) (auto simp: pub_start_def)

interpretation pub: inductive_invariant "\<lambda>s. s = s0 \<and> pub_inv e s0" "pub_step e" "pub_inv e"
  using pub_inv_step by unfold_locales auto

text \<open>
  C2: A loaned sample is exclusive. Whatever a publisher and any number of receivers do call by
  call after the creation of the publisher - loan, drop and send samples, update the connections,
  connect, receive, release and disconnect - the samples that are loaned at the same time are
  different and at most the configured number, and none of them is in the history, held by a
  receiver or in a channel of a connection; dropping a loaned sample and loaning another one never
  panic.
\<close>
theorem publisher_samples_exclusive:
  assumes "valid_layout (pe_message_layout e)" "0 < layout_size (pe_message_layout e)"
    "layout_align (pe_message_layout e) dvd layout_size (pe_message_layout e)" "layout_align (pe_message_layout e) \<le> page_size"
    "required_amount_of_samples_per_data_segment (PublishSubscribe static_config) (lp_max_loaned_samples local_config) + 1 < 2 ^ 32"
    and new: "Publisher_new e details page_size config static_config local_config port_id (Ok base) d no_connections = Ret (Ok p, d', st)"
    and reach: "reachable (\<lambda>s. s = pub_start p st) (pub_step e) s"
  shows "distinct (pc_loans s) \<and> length (pc_loans s) \<le> lp_max_loaned_samples (pu_config (pc_publisher s))
    \<and> (\<forall>x \<in> set (pc_loans s). x \<notin># history_samples (pc_publisher s) \<and> x \<notin> snd ` set (pc_borrowed s)
        \<and> (\<forall>a m. zs_store (pc_storage s) a = Some m \<longrightarrow> x \<notin> set (recv_list m) \<and> x \<notin> set (retr_list m))
        \<and> (\<exists>p'. SampleMut_drop e x (pc_publisher s) = Ret p'))
    \<and> (\<exists>r p' st'. loan_uninit e (pc_publisher s) (pc_storage s) = Ret (r, p', st'))"
proof -
  note f = Publisher_new_sound [OF assms(1-4) refl assms(5) new]
  have "pub_inv e (pub_start p st)" using pub_start_inv [OF f(1-4,6)] .
  then have inv: "pub_inv e s" using pub.reachable_inv [of "pub_start p st" e s] reach by (simp add: conj_commute)
  obtain L where L: "sound e (pc_publisher s) (pc_storage s)
       (mset (pc_loans s) + mset (map snd (pc_borrowed s)) + L + history_samples (pc_publisher s))"
    "set (pc_loans s) \<inter> set_mset (mset (map snd (pc_borrowed s)) + L + history_samples (pc_publisher s)
       + storage_samples (pc_storage s)) = {}"
    using pub_invD [OF inv] .
  have "x \<notin> set (recv_list m) \<and> x \<notin> set (retr_list m)" if "x \<in> set (pc_loans s)" "zs_store (pc_storage s) a = Some m" for x a m
    using samples_in_storage [OF pub_inv_storage [OF inv] that(2), of x] that(1) L(2) by (auto simp: mgmt_samples_def)
  moreover have "x \<notin># history_samples (pc_publisher s) \<and> x \<notin> snd ` set (pc_borrowed s)" if "x \<in> set (pc_loans s)" for x
    using that L(2) by auto
  moreover have "\<exists>p'. SampleMut_drop e x (pc_publisher s) = Ret p'" if "x \<in> set (pc_loans s)" for x
    using pub_drop_inv [OF inv that] by blast
  moreover have "\<exists>r p' st'. loan_uninit e (pc_publisher s) (pc_storage s) = Ret (r, p', st')"
    using loan_uninit_ok [OF L(1)] by blast
  ultimately show ?thesis using inv by (auto simp: pub_inv_def)
qed

text \<open>A publisher of samples of eight bytes for one subscriber that has not come yet.\<close>

definition example_env :: port_env where
  "example_env = \<lparr>pe_message_layout = mk_layout 8 8, pe_payload_layout = mk_layout 8 8,
     pe_junk_file = replicate FILENAME_LENGTH NUL, pe_junk_path = replicate PATH_LENGTH NUL, pe_locked = True, pe_overflow_checks = False\<rparr>"

definition example_static_config :: PubSubStaticConfig where
  "example_static_config = \<lparr>ps_max_subscribers = 1, ps_max_publishers = 1, ps_history_size = 1,
     ps_subscriber_max_buffer_size = 2, ps_subscriber_max_borrowed_samples = 1, ps_enable_safe_overflow = True, ps_type_name = []\<rparr>"

definition example_local_config :: LocalPublisherConfig where
  "example_local_config = \<lparr>lp_max_loaned_samples = 2, lp_unable_to_deliver_strategy = DiscardSample\<rparr>"

definition example_dynamic_config :: PubSubDynamicConfig where
  "example_dynamic_config = \<lparr>pd_subscribers = FixedSizeContainer_new 1, pd_publishers = FixedSizeContainer_new 2\<rparr>"

lemma example_publisher:
  "\<exists>p d' st. Publisher_new example_env (mk_layout 8 8) 4096 Config_default example_static_config example_local_config 5
     (Ok 4096) example_dynamic_config no_connections = Ret (Ok p, d', st)"
proof -
  have n: "required_amount_of_samples_per_data_segment (PublishSubscribe example_static_config) (lp_max_loaned_samples example_local_config) = 7"
    by (simp add: example_static_config_def example_local_config_def)
  have "\<exists>m. create_data_segment example_env (mk_layout 8 8) 4096 7 (Ok 4096) = Ret (Ok m)"
    using SharedMemory_create_ok [of "mk_layout 8 8" 4096 7 "mk_layout 8 8" 4096] valid_layout_8
    by (auto simp: create_data_segment_def example_env_def)
  then obtain m where m: "create_data_segment example_env (mk_layout 8 8) 4096 7 (Ok 4096) = Ret (Ok m)" ..
  obtain i c where c: "Container_add (5 :: UniqueSystemId) (FixedSizeContainer_new 2) = Ret (Some i, c)"
    using Container_add_ok [OF FixedSizeContainer_new_inv(1) example_free] by fastforce
  let ?subs = "FixedSizeContainer_new 1 :: UniqueSystemId Container"
  have add: "add_publisher_id 5 example_dynamic_config = Ret (Some i, \<lparr>pd_subscribers = ?subs, pd_publishers = c\<rparr>)"
    using c by (simp add: add_publisher_id_def example_dynamic_config_def)
  obtain ls where ls: "Container_get_state ?subs = Ret ls" "ContainerState_for_each ls = []"
    by (simp add: Container_get_state_def FixedSizeContainer_new_def Container_update_state_def Let_def ContainerState_for_each_def)
  have pop: "\<exists>q'. populate_subscriber_channels example_env q no_connections = Ret (Ok (), q', no_connections)"
    if "scn_connections (pu_subscriber_connections q) = [None]" "pu_subscriber_list_state q = ls" for q
    using that ls(2) by (simp add: populate_subscriber_channels_def retrieve_returned_samples_def SubscriberConnections_remove_def Let_def)
  have cap: "ct_capacity ?subs = 1" by (simp add: FixedSizeContainer_new_def)
  define q where "q = \<lparr>pu_port_id = 5, pu_sample_reference_counter = replicate 7 0, pu_data_segment = m,
    pu_config = example_local_config, pu_subscriber_connections = SubscriberConnections_new 1 Config_default 5 example_static_config,
    pu_subscriber_list_state = ls, pu_history = Some (ContainerQueue_new 1), pu_degration_callback = None,
    pu_loan_counter = 0, pu_dynamic_config_guard = i\<rparr>"
  obtain q' where "populate_subscriber_channels example_env q no_connections = Ret (Ok (), q', no_connections)"
    using pop [of q] by (auto simp: q_def SubscriberConnections_new_def)
  moreover have "ps_history_size example_static_config = 1" by (simp add: example_static_config_def)
  ultimately show ?thesis
    using m add ls(1) cap by (simp add: Publisher_new_def n Let_def q_def del: One_nat_def required_amount_of_samples_per_data_segment.simps)
qed

text \<open>After a loan the theorem applies to a state with a loaned sample.\<close>

theorem publisher_samples_exclusive_witness:
  "\<exists>p d' st s x. Publisher_new example_env (mk_layout 8 8) 4096 Config_default example_static_config example_local_config 5
       (Ok 4096) example_dynamic_config no_connections = Ret (Ok p, d', st)
     \<and> reachable (\<lambda>s. s = pub_start p st) (pub_step example_env) s \<and> pc_loans s = [x]
     \<and> x \<notin># history_samples (pc_publisher s) \<and> (\<exists>p'. SampleMut_drop example_env x (pc_publisher s) = Ret p')"
proof -
  obtain p d' st where new: "Publisher_new example_env (mk_layout 8 8) 4096 Config_default example_static_config
      example_local_config 5 (Ok 4096) example_dynamic_config no_connections = Ret (Ok p, d', st)"
    using example_publisher by blast
  have l: "valid_layout (pe_message_layout example_env)" "0 < layout_size (pe_message_layout example_env)"
    "layout_align (pe_message_layout example_env) dvd layout_size (pe_message_layout example_env)"
    "layout_align (pe_message_layout example_env) \<le> 4096"
    "required_amount_of_samples_per_data_segment (PublishSubscribe example_static_config)
       (lp_max_loaned_samples example_local_config) + 1 < 2 ^ 32"
    using valid_layout_8 by (simp_all add: example_env_def example_static_config_def example_local_config_def)
  note f = Publisher_new_sound [OF l(1-4) refl l(5) new]
  have "size ({#} + storage_samples st') < length (pu_sample_reference_counter p)" if "retrieved st st'" for st'
    using retrieved_samples [OF soundD(2) [OF f(1)] that] f(3,5) by (simp add: example_static_config_def)
  then obtain x p1 st1 where loan: "loan_uninit example_env p st = Ret (Ok x, p1, st1)"
    using loan_uninit_succeeds [OF f(1)] f(6,7) by (auto simp: example_local_config_def)
  define s where "s = (pub_start p st)\<lparr>pc_publisher := p1, pc_storage := st1, pc_loans := [x]\<rparr>"
  have step: "pub_step example_env (pub_start p st) s"
    using pub_step.pub_loan [of example_env "pub_start p st"] loan by (simp add: s_def pub_start_def)
  have "reachable (\<lambda>s. s = pub_start p st) (pub_step example_env) (pub_start p st)" by (rule reachable_init) simp
  then have reach: "reachable (\<lambda>s. s = pub_start p st) (pub_step example_env) s" using step by (rule reachable_step)
  have "pc_loans s = [x]" by (simp add: s_def)
  moreover note publisher_samples_exclusive [OF l new reach]
  ultimately have "x \<notin># history_samples (pc_publisher s) \<and> (\<exists>p'. SampleMut_drop example_env x (pc_publisher s) = Ret p')"
    by simp
  with new reach \<open>pc_loans s = [x]\<close> show ?thesis by blast
qed

end
