(* ===== verification/PublisherSizing.thy ===== *)
theory PublisherSizing
  imports PublisherSystem
begin

text \<open>
  The size of the data segment. The number of samples that \<open>required_amount_of_samples_per_data_segment\<close>
  computes from the settings of a service is enough: while the set of subscribers does not change, a
  loan within the limit of the publisher never runs out of memory.
\<close>

section \<open>The connections of a new publisher\<close>

definition fits :: "PubSubStaticConfig \<Rightarrow> Publisher \<Rightarrow> ZeroCopyStorage \<Rightarrow> bool" where
  "fits sc p st \<longleftrightarrow> (\<forall>a m. zs_store st a = Some m \<longrightarrow>
     so_capacity (zm_receive_channel m) = ps_subscriber_max_buffer_size sc
     \<and> zm_max_borrowed_samples m = ps_subscriber_max_borrowed_samples sc
     \<and> (\<exists>sender. Some sender \<in> set (scn_connections (pu_subscriber_connections p)) \<and> zcs_mgmt sender = a))"

lemma connect_port_cases:
  assumes "connect_port port junk locked b st = Ret (r, st')"
  obtains err where "r = Err err" "st' = st"
  | a m where "r = Ok a" "zs_store st a = Some m" "zm_state m AND port = 0" "check_compatibility b m = Ok ()"
      "st' = set_mgmt a (m\<lparr>zm_state := zm_state m OR port\<rparr>) st"
  | path where "r = Ok (zs_next st)" "st' = st\<lparr>zs_store := (zs_store st)(zs_next st \<mapsto> Management_new port b),
      zs_storage := (zs_storage st)(path \<mapsto> zs_next st), zs_next := zs_next st + 1\<rparr>"
proof (cases "locked \<and> (\<exists>q. path_for junk (zb_config b) (zb_name b) = Ret q)")
  case False
  then show ?thesis
    using assms that(1) by (cases "path_for junk (zb_config b) (zb_name b)") (auto simp: connect_port_def split: if_splits)
next
  case True
  then obtain q where q: "locked" "path_for junk (zb_config b) (zb_name b) = Ret q" by blast
  show ?thesis
  proof (cases "zs_storage st (as_bytes q)")
    case None
    then show ?thesis using assms q that(3) [of "as_bytes q"] by (simp add: connect_port_def)
  next
    case (Some a)
    then obtain m where m: "zs_store st a = Some m" using assms q by (auto simp: connect_port_def split: option.splits)
    show ?thesis
    proof (cases "zm_state m AND port = 0 \<and> check_compatibility b m = Ok ()")
      case True
      then show ?thesis using assms q Some m that(2) [of a m] by (auto simp: connect_port_def set_mgmt_def)
    next
      case False
      then show ?thesis
        using assms q Some m that(1) by (cases "check_compatibility b m") (auto simp: connect_port_def split: if_splits)
    qed
  qed
qed

lemma new_sender_fits:
  assumes f: "fits sc p st" and i: "i < length (scn_connections (pu_subscriber_connections p))"
    "scn_connections (pu_subscriber_connections p) ! i = None"
    and sc: "scn_static_config (pu_subscriber_connections p) = sc"
    and new: "SubscriberConnection_new e (pu_subscriber_connections p) ident st = Ret (Ok sender, st')"
  shows "fits sc (p\<lparr>pu_subscriber_connections := (pu_subscriber_connections p)\<lparr>scn_connections :=
      (scn_connections (pu_subscriber_connections p))[i := Some sender]\<rparr>\<rparr>) st' \<and> zs_next st' \<le> Suc (zs_next st)"
proof -
  let ?c = "scn_connections (pu_subscriber_connections p)"
  obtain cfg name where cs: "create_sender (pe_junk_path e) (pe_locked e) (connection_builder cfg name sc) st = Ret (Ok sender, st')"
    using new sc by (auto simp: SubscriberConnection_new_def outcome_bind_eq_Ret)
  let ?b = "connection_builder cfg name sc"
  have b: "zb_buffer_size ?b = ps_subscriber_max_buffer_size sc" "zb_max_borrowed_samples ?b = ps_subscriber_max_borrowed_samples sc"
    by (simp_all add: connection_builder_def ZeroCopyBuilder_enable_safe_overflow_def
        ZeroCopyBuilder_receiver_max_borrowed_samples_def ZeroCopyBuilder_buffer_size_def)
  have kept: "Some s \<in> set (?c[i := Some sender])" if "Some s \<in> set ?c" for s
    using that i by (metis in_set_conv_nth length_list_update nth_list_update_neq option.distinct(1))
  have old: "\<exists>s. Some s \<in> set (?c[i := Some sender]) \<and> zcs_mgmt s = a" if "zs_store st a = Some m" for a m
    using f kept that unfolding fits_def by blast
  have new_in: "Some sender \<in> set (?c[i := Some sender])" using i(1) by (simp add: set_update_memI)
  obtain r2 where r2: "connect_port State_Sender (pe_junk_path e) (pe_locked e) ?b st = Ret (r2, st')" "r2 = Ok (zcs_mgmt sender)"
    using create_sender_port [OF cs] by blast
  from r2(1) show ?thesis
  proof (cases rule: connect_port_cases)
    case (1 err)
    then show ?thesis using r2(2) by simp
  next
    case (2 a m)
    show ?thesis
      using f 2 b old by (auto simp: fits_def set_mgmt_def check_compatibility_def split: if_splits)
  next
    case (3 path)
    have "so_capacity (zm_receive_channel (Management_new State_Sender ?b)) = ps_subscriber_max_buffer_size sc"
      "zm_max_borrowed_samples (Management_new State_Sender ?b) = ps_subscriber_max_borrowed_samples sc"
      using b by (simp_all add: Management_new_def SafelyOverflowingIndexQueue_new_def)
    then show ?thesis
      using f 3 r2(2) new_in by (auto simp: fits_def intro: old)
  qed
qed

text \<open>Filling the connections of a publisher that has none yet and an empty history.\<close>

lemma populate_loop_fits:
  assumes "fits sc p st" "scn_static_config (pu_subscriber_connections p) = sc"
    "\<forall>j. i \<le> j \<and> j < length (scn_connections (pu_subscriber_connections p)) \<longrightarrow> scn_connections (pu_subscriber_connections p) ! j = None"
    "\<forall>h. pu_history p = Some h \<longrightarrow> cq_len h = 0"
    "populate_loop e i ids p st = Ret (r, p', st')"
  shows "fits sc p' st' \<and> zs_next st' \<le> zs_next st + length ids"
  using assms
proof (induction ids arbitrary: i p st)
  case (Cons x ids)
  let ?cs = "pu_subscriber_connections p"
  have len: "i < length (scn_connections ?cs)"
    using Cons.prems(5) by (cases x) (auto simp: SubscriberConnections_remove_def SubscriberConnections_create_def split: if_splits)
  then have None: "scn_connections ?cs ! i = None" using Cons.prems(3) by simp
  have nx: "\<forall>j. i + 1 \<le> j \<and> j < length (scn_connections ?cs) \<longrightarrow> scn_connections ?cs ! j = None"
    using Cons.prems(3) by simp
  note IH = Cons.IH [OF Cons.prems(1,2) nx Cons.prems(4)]
  show ?case
  proof (cases x)
    case x: None
    have "(scn_connections ?cs)[i := None] = scn_connections ?cs" using None by (metis list_update_id)
    then have "SubscriberConnections_remove e i ?cs st = Ret (?cs, st)"
      using len None by (simp add: SubscriberConnections_remove_def Let_def)
    then have "populate_loop e (i + 1) ids p st = Ret (r, p', st')" using Cons.prems(5) x by simp
    then show ?thesis using IH by simp
  next
    case x: (Some ident)
    obtain r1 st1 where new: "SubscriberConnection_new e ?cs ident st = Ret (r1, st1)"
      using Cons.prems(5) x len None by (auto simp: SubscriberConnections_create_def outcome_bind_eq_Ret)
    show ?thesis
    proof (cases r1)
      case (Err err)
      obtain b where b: "create_sender (pe_junk_path e) (pe_locked e) b st = Ret (Err err, st1)"
        using new Err by (auto simp: SubscriberConnection_new_def outcome_bind_eq_Ret)
      have r2: "connect_port State_Sender (pe_junk_path e) (pe_locked e) b st = Ret (Err err, st1)"
        using create_sender_port [OF b] by auto
      have st1: "st1 = st" by (rule connect_port_cases [OF r2]) simp_all
      have cr: "SubscriberConnections_create e i ident ?cs st = Ret (Err err, ?cs, st)"
        using new Err len None st1 by (simp add: SubscriberConnections_create_def)
      have "p\<lparr>pu_subscriber_connections := ?cs\<rparr> = p" by simp
      then have "populate_loop e (i + 1) ids p st = Ret (r, p', st') \<or> (p' = p \<and> st' = st)"
        using Cons.prems(5) x cr by (auto simp: Let_def split: option.splits DegrationAction.splits)
      then show ?thesis using IH Cons.prems(1) by auto
    next
      case (Ok sender)
      let ?p = "p\<lparr>pu_subscriber_connections := ?cs\<lparr>scn_connections := (scn_connections ?cs)[i := Some sender]\<rparr>\<rparr>"
      have f: "fits sc ?p st1" "zs_next st1 \<le> Suc (zs_next st)"
        using new_sender_fits [OF Cons.prems(1) len None Cons.prems(2)] new Ok by auto
      have cr: "SubscriberConnections_create e i ident ?cs st
          = Ret (Ok True, ?cs\<lparr>scn_connections := (scn_connections ?cs)[i := Some sender]\<rparr>, st1)"
        using new Ok len None by (simp add: SubscriberConnections_create_def)
      have "deliver_history e sender ?p st1 = Ret (?p, st1)"
        using Cons.prems(4) by (simp add: deliver_history_def split: option.split)
      then have rest: "populate_loop e (i + 1) ids ?p st1 = Ret (r, p', st')"
        using Cons.prems(5) x cr len by simp
      have "fits sc p' st' \<and> zs_next st' \<le> zs_next st1 + length ids"
        using f(1) Cons.prems(2,4) nx by (intro Cons.IH [OF _ _ _ _ rest]) simp_all
      then show ?thesis using f(2) by simp
    qed
  qed
qed simp

lemma visit_indices_length: "visit_indices xs v = Ret v' \<Longrightarrow> length v' = length v"
  by (induction xs v rule: visit_indices.induct) (auto split: if_splits)

lemma retrieve_no_connections: "retrieve_connections e (replicate k None) p st = Ret (p, st)"
  by (induction k) simp_all

lemma Publisher_new_elim:
  assumes new: "Publisher_new e details page_size config sc local_config port_id created d st0 = Ret (Ok p, d', st)"
  obtains guard q r where "add_publisher_id port_id d = Ret (Some guard, d')"
    "pu_subscriber_connections q = SubscriberConnections_new (ct_capacity (pd_subscribers d')) config port_id sc"
    "\<forall>h. pu_history q = Some h \<longrightarrow> cq_len h = 0" "populate_subscriber_channels e q st0 = Ret (r, p, st)"
proof -
  define n where "n = required_amount_of_samples_per_data_segment (PublishSubscribe sc) (lp_max_loaned_samples local_config)"
  obtain r0 where r0: "create_data_segment e details page_size n created = Ret r0"
    using new by (auto simp: Publisher_new_def Let_def outcome_bind_eq_Ret n_def simp del: required_amount_of_samples_per_data_segment.simps)
  obtain seg where seg: "r0 = Ok seg"
    using new r0 by (cases r0) (auto simp: Publisher_new_def Let_def n_def simp del: required_amount_of_samples_per_data_segment.simps)
  obtain r1 d1 where d1: "add_publisher_id port_id d = Ret (r1, d1)"
    using new r0 seg by (cases "add_publisher_id port_id d")
      (auto simp: Publisher_new_def Let_def n_def simp del: required_amount_of_samples_per_data_segment.simps)
  obtain guard where guard: "r1 = Some guard"
    using new r0 seg d1 by (cases r1)
      (auto simp: Publisher_new_def Let_def n_def simp del: required_amount_of_samples_per_data_segment.simps)
  obtain ls where ls: "Container_get_state (pd_subscribers d1) = Ret ls"
    using new r0 seg d1 guard by (cases "Container_get_state (pd_subscribers d1)")
      (auto simp: Publisher_new_def Let_def n_def simp del: required_amount_of_samples_per_data_segment.simps)
  define q where "q = \<lparr>pu_port_id = port_id, pu_sample_reference_counter = replicate n 0, pu_data_segment = seg,
    pu_config = local_config,
    pu_subscriber_connections = SubscriberConnections_new (ct_capacity (pd_subscribers d1)) config port_id sc,
    pu_subscriber_list_state = ls,
    pu_history = (if ps_history_size sc = 0 then None else Some (ContainerQueue_new (ps_history_size sc))),
    pu_degration_callback = None, pu_loan_counter = 0, pu_dynamic_config_guard = guard\<rparr>"
  have "outcome_bind (populate_subscriber_channels e q st0) (\<lambda>(_, p1, st1). Ret (Ok p1 :: (Publisher, PublisherCreateError) result, d1, st1)) = Ret (Ok p, d', st)"
    using new r0 seg d1 guard ls
    by (simp add: Publisher_new_def Let_def n_def q_def del: required_amount_of_samples_per_data_segment.simps split del: if_split)
  then obtain r where "populate_subscriber_channels e q st0 = Ret (r, p, st)" "d' = d1"
    by (auto simp: outcome_bind_eq_Ret)
  moreover have "pu_subscriber_connections q = SubscriberConnections_new (ct_capacity (pd_subscribers d1)) config port_id sc"
    "\<forall>h. pu_history q = Some h \<longrightarrow> cq_len h = 0" by (simp_all add: q_def ContainerQueue_new_def)
  ultimately show thesis using that d1 guard by blast
qed

lemma Publisher_new_fits:
  assumes new: "Publisher_new e details page_size config sc local_config port_id created d no_connections = Ret (Ok p, d', st)"
  shows "fits sc p st" "zs_next st \<le> ct_capacity (pd_subscribers d)"
proof -
  obtain guard q r where d': "add_publisher_id port_id d = Ret (Some guard, d')"
    and q': "pu_subscriber_connections q = SubscriberConnections_new (ct_capacity (pd_subscribers d')) config port_id sc"
    and q: "\<forall>h. pu_history q = Some h \<longrightarrow> cq_len h = 0" "populate_subscriber_channels e q no_connections = Ret (r, p, st)"
    using Publisher_new_elim [OF new] .
  have cap: "pd_subscribers d' = pd_subscribers d" using d' by (auto simp: add_publisher_id_def outcome_bind_eq_Ret)
  let ?k = "ct_capacity (pd_subscribers d)"
  have conns: "scn_connections (pu_subscriber_connections q) = replicate ?k None" "scn_static_config (pu_subscriber_connections q) = sc"
    by (simp_all add: q' cap SubscriberConnections_new_def)
  obtain visited where v': "visit_indices (ContainerState_for_each (pu_subscriber_list_state q)) (replicate ?k None) = Ret visited"
    and v: "populate_loop e 0 visited q no_connections = Ret (r, p, st)"
    using q(2) retrieve_no_connections [of e ?k q no_connections]
    by (auto simp: populate_subscriber_channels_def retrieve_returned_samples_def conns outcome_bind_eq_Ret)
  have "fits sc q no_connections" by (simp add: fits_def no_connections_def)
  then show "fits sc p st" "zs_next st \<le> ?k"
    using populate_loop_fits [OF _ conns(2) _ q(1) v] visit_indices_length [OF v'] conns(1) by (auto simp: no_connections_def)
qed

section \<open>A publisher with a fixed set of subscribers\<close>

text \<open>
  The registry of subscribers does not change, so sending finds the connections up to date. The
  receivers connect to the connections that the publisher has made; a receiver is named by the
  address of its connection.
\<close>

inductive steady_step :: "port_env \<Rightarrow> pub_conf \<Rightarrow> pub_conf \<Rightarrow> bool" for e where
  steady_loan: "loan_uninit e (pc_publisher s) (pc_storage s) = Ret (r, p, st) \<Longrightarrow>
    steady_step e s (s\<lparr>pc_publisher := p, pc_storage := st, pc_loans := (case r of Ok x \<Rightarrow> [x] | Err _ \<Rightarrow> []) @ pc_loans s\<rparr>)"
| steady_drop: "x \<in> set (pc_loans s) \<Longrightarrow> SampleMut_drop e x (pc_publisher s) = Ret p \<Longrightarrow>
    steady_step e s (s\<lparr>pc_publisher := p, pc_loans := remove1 x (pc_loans s)\<rparr>)"
| steady_send: "x \<in> set (pc_loans s) \<Longrightarrow>
    fst (Container_update_state subscribers (pu_subscriber_list_state (pc_publisher s))) = False \<Longrightarrow>
    Publisher_send e subscribers x (pc_publisher s) (pc_storage s) = Ret (Some (r, p, st)) \<Longrightarrow>
    steady_step e s (s\<lparr>pc_publisher := p, pc_storage := st, pc_loans := remove1 x (pc_loans s)\<rparr>)"
| steady_connect: "create_receiver junk locked b (pc_storage s) = Ret (Ok rc, st) \<Longrightarrow>
    zcr_mgmt rc < zs_next (pc_storage s) \<Longrightarrow>
    steady_step e s (s\<lparr>pc_storage := st, pc_receivers := (pc_receivers s)(zcr_mgmt rc \<mapsto> rc)\<rparr>)"
| steady_receive: "pc_receivers s a = Some rc \<Longrightarrow> zs_store (pc_storage s) a = Some m \<Longrightarrow>
    receive (zcr_borrow_counter rc) m = (Ok r, n, m') \<Longrightarrow>
    steady_step e s (s\<lparr>pc_storage := set_mgmt a m' (pc_storage s),
      pc_receivers := (pc_receivers s)(a \<mapsto> rc\<lparr>zcr_borrow_counter := n\<rparr>),
      pc_borrowed := (case r of None \<Rightarrow> [] | Some x \<Rightarrow> [(a, x)]) @ pc_borrowed s\<rparr>)"
| steady_release: "pc_receivers s a = Some rc \<Longrightarrow> (a, x) \<in> set (pc_borrowed s) \<Longrightarrow>
    zs_store (pc_storage s) a = Some m \<Longrightarrow> release (pe_overflow_checks e) x (zcr_borrow_counter rc) m = Ret (Ok (), n, m') \<Longrightarrow>
    steady_step e s (s\<lparr>pc_storage := set_mgmt a m' (pc_storage s),
      pc_receivers := (pc_receivers s)(a \<mapsto> rc\<lparr>zcr_borrow_counter := n\<rparr>),
      pc_borrowed := remove1 (a, x) (pc_borrowed s)\<rparr>)"

text \<open>The samples that the receiver at an address holds.\<close>

definition held :: "(nat \<times> nat) list \<Rightarrow> nat \<Rightarrow> nat" where
  "held bs a = length (filter (\<lambda>b. fst b = a) bs)"

lemma held_simps [simp]: "held [] a = 0" "held ((b, x) # bs) a = (if b = a then Suc (held bs a) else held bs a)"
  by (simp_all add: held_def)

lemma held_remove1:
  assumes "(b, x) \<in> set bs"
  shows "held (remove1 (b, x) bs) a = (if b = a then held bs a - 1 else held bs a)" "0 < held bs b"
proof -
  have "held bs a = held (remove1 (b, x) bs) a + (if b = a then 1 else 0)"
    using assms by (induction bs) (auto simp: held_def)
  then show "held (remove1 (b, x) bs) a = (if b = a then held bs a - 1 else held bs a)" by simp
  show "0 < held bs b" using assms by (induction bs) (auto simp: held_def)
qed

lemma held_total:
  assumes "\<forall>b \<in> set bs. fst b < k"
  shows "length bs = (\<Sum>a<k. held bs a)"
  using assms
proof (induction bs)
  case (Cons b bs)
  obtain a x where b: "b = (a, x)" by fastforce
  have "(\<Sum>i<k. held (b # bs) i) = (\<Sum>i<k. held bs i + (if i = a then 1 else 0))"
    by (rule sum.cong) (auto simp: b)
  also have "\<dots> = (\<Sum>i<k. held bs i) + 1" using Cons.prems b by (simp add: sum.distrib)
  finally show ?case using Cons by simp
qed simp

definition receivers_ok :: "pub_conf \<Rightarrow> bool" where
  "receivers_ok s \<longleftrightarrow> (\<forall>b \<in> set (pc_borrowed s). fst b < zs_next (pc_storage s))
     \<and> (\<forall>a. held (pc_borrowed s) a \<noteq> 0 \<longrightarrow> pc_receivers s a \<noteq> None)
     \<and> (\<forall>a rc. pc_receivers s a = Some rc \<longrightarrow> zcr_mgmt rc = a \<and> zcr_borrow_counter rc = held (pc_borrowed s) a
          \<and> (\<exists>m. zs_store (pc_storage s) a = Some m \<and> zm_state m AND State_Receiver \<noteq> 0
               \<and> held (pc_borrowed s) a \<le> zm_max_borrowed_samples m))"

definition steady_inv :: "port_env \<Rightarrow> PubSubStaticConfig \<Rightarrow> nat \<Rightarrow> nat \<Rightarrow> pub_conf \<Rightarrow> bool" where
  "steady_inv e sc l n s \<longleftrightarrow>
     sound e (pc_publisher s) (pc_storage s) (mset (pc_loans s) + mset (map snd (pc_borrowed s)) + history_samples (pc_publisher s))
     \<and> pu_loan_counter (pc_publisher s) = length (pc_loans s) \<and> lp_max_loaned_samples (pu_config (pc_publisher s)) = l
     \<and> length (pu_sample_reference_counter (pc_publisher s)) = n
     \<and> history_inv (pc_publisher s) \<and> history_capacity (pc_publisher s) = ps_history_size sc
     \<and> zs_next (pc_storage s) \<le> ps_max_subscribers sc \<and> fits sc (pc_publisher s) (pc_storage s) \<and> receivers_ok s"

lemma receivers_ok_kept:
  assumes ok: "receivers_ok s" and k: "kept (pc_storage s) st"
  shows "receivers_ok (s\<lparr>pc_publisher := p, pc_storage := st, pc_loans := ls\<rparr>)"
proof -
  have "\<exists>m'. zs_store st a = Some m' \<and> zm_state m' AND State_Receiver \<noteq> 0 \<and> held (pc_borrowed s) a \<le> zm_max_borrowed_samples m'"
    if "zs_store (pc_storage s) a = Some m" "zm_state m AND State_Receiver \<noteq> 0" "held (pc_borrowed s) a \<le> zm_max_borrowed_samples m" for a m
    using k that unfolding kept_def same_settings_def by metis
  then show ?thesis using ok k unfolding receivers_ok_def kept_def by fastforce
qed

lemma fits_kept:
  assumes f: "fits sc p st" and i: "storage_inv st" "storage_inv st'" and k: "kept st st'"
    and c: "pu_subscriber_connections p' = pu_subscriber_connections p"
  shows "fits sc p' st'"
  unfolding fits_def
proof (intro allI impI)
  fix a m' assume m': "zs_store st' a = Some m'"
  then have "a < zs_next st'" using storage_inv_bound [OF i(2)] by blast
  then have "a < zs_next st" using k by (simp add: kept_def)
  then obtain m where m: "zs_store st a = Some m" using storage_inv_obtain [OF i(1)] by blast
  then have "same_settings m m'" using k m' unfolding kept_def by fastforce
  then show "so_capacity (zm_receive_channel m') = ps_subscriber_max_buffer_size sc
      \<and> zm_max_borrowed_samples m' = ps_subscriber_max_borrowed_samples sc
      \<and> (\<exists>sender. Some sender \<in> set (scn_connections (pu_subscriber_connections p')) \<and> zcs_mgmt sender = a)"
    using f m c by (simp add: fits_def same_settings_def)
qed

lemma steady_publisher_inv:
  assumes inv: "steady_inv e sc l n s" and so: "sound e p st (mset ls + mset (map snd (pc_borrowed s)) + history_samples p)"
    and p: "pu_loan_counter p = length ls" "pu_config p = pu_config (pc_publisher s)"
      "length (pu_sample_reference_counter p) = length (pu_sample_reference_counter (pc_publisher s))"
      "history_inv p" "history_capacity p = history_capacity (pc_publisher s)"
      "pu_subscriber_connections p = pu_subscriber_connections (pc_publisher s)"
    and k: "kept (pc_storage s) st"
  shows "steady_inv e sc l n (s\<lparr>pc_publisher := p, pc_storage := st, pc_loans := ls\<rparr>)"
proof -
  have st: "storage_inv (pc_storage s)" "storage_inv st" using inv so by (auto simp: steady_inv_def sound_def)
  have "fits sc p st" using fits_kept [OF _ st k p(6)] inv by (simp add: steady_inv_def)
  moreover have "receivers_ok (s\<lparr>pc_publisher := p, pc_storage := st, pc_loans := ls\<rparr>)"
    using receivers_ok_kept [OF _ k] inv by (simp add: steady_inv_def)
  moreover have "zs_next st = zs_next (pc_storage s)" using k by (simp add: kept_def)
  ultimately show ?thesis using inv so p by (simp add: steady_inv_def)
qed

lemma steady_loan_inv:
  assumes inv: "steady_inv e sc l n s" and ret: "loan_uninit e (pc_publisher s) (pc_storage s) = Ret (r, p, st)"
  shows "steady_inv e sc l n (s\<lparr>pc_publisher := p, pc_storage := st, pc_loans := (case r of Ok x \<Rightarrow> [x] | Err _ \<Rightarrow> []) @ pc_loans s\<rparr>)"
proof -
  let ?X = "mset (pc_loans s) + mset (map snd (pc_borrowed s)) + history_samples (pc_publisher s)"
  have so: "sound e (pc_publisher s) (pc_storage s) ?X" using inv by (simp add: steady_inv_def)
  have k: "kept (pc_storage s) st"
    and r: "case r of Ok x \<Rightarrow> sound e p st (add_mset x ?X)
        \<and> same_port ((pc_publisher s)\<lparr>pu_loan_counter := pu_loan_counter (pc_publisher s) + 1\<rparr>) p
      | Err _ \<Rightarrow> sound e p st ?X \<and> same_port (pc_publisher s) p"
    using loan_uninit_ok [OF so] ret by (auto split: result.splits)
  define q where "q = (pc_publisher s)\<lparr>pu_loan_counter := pu_loan_counter p\<rparr>"
  have same: "same_port q p" using r by (cases r) (auto simp: q_def same_port_def)
  have h: "history_samples p = history_samples (pc_publisher s)" "history_inv p" "history_capacity p = history_capacity (pc_publisher s)"
    using same_port_history [OF same] inv by (auto simp: q_def history_samples_def history_inv_def history_capacity_def steady_inv_def)
  have "sound e p st (mset ((case r of Ok x \<Rightarrow> [x] | Err _ \<Rightarrow> []) @ pc_loans s) + mset (map snd (pc_borrowed s)) + history_samples p)"
    "pu_loan_counter p = length ((case r of Ok x \<Rightarrow> [x] | Err _ \<Rightarrow> []) @ pc_loans s)"
    using r h inv by (cases r; auto simp: same_port_def steady_inv_def)+
  then show ?thesis
    using steady_publisher_inv [OF inv _ _ _ _ h(2,3) _ k] same by (simp add: q_def same_port_def)
qed

lemma remove1_mset: "x \<in> set xs \<Longrightarrow> mset xs = add_mset x (mset (remove1 x xs)) \<and> length xs = Suc (length (remove1 x xs))"
  using length_pos_if_in_set [of x xs] by (simp add: length_remove1)

lemma steady_drop_inv:
  assumes inv: "steady_inv e sc l n s" and x: "x \<in> set (pc_loans s)" and ret: "SampleMut_drop e x (pc_publisher s) = Ret p"
  shows "steady_inv e sc l n (s\<lparr>pc_publisher := p, pc_loans := remove1 x (pc_loans s)\<rparr>)"
proof -
  let ?X = "mset (remove1 x (pc_loans s)) + mset (map snd (pc_borrowed s)) + history_samples (pc_publisher s)"
  note rm = remove1_mset [OF x]
  have "sound e (pc_publisher s) (pc_storage s) (mset (pc_loans s) + mset (map snd (pc_borrowed s)) + history_samples (pc_publisher s))"
    using inv by (simp add: steady_inv_def)
  then have "sound e (pc_publisher s) (pc_storage s) (add_mset x ?X)"
    unfolding rm [THEN conjunct1] by simp
  then have p: "sound e p (pc_storage s) ?X"
    "same_port ((pc_publisher s)\<lparr>pu_loan_counter := fetch_sub_1 (pu_loan_counter (pc_publisher s))\<rparr>) p"
    using SampleMut_drop_ok [of e "pc_publisher s" "pc_storage s" x ?X] ret by auto
  have h: "history_samples p = history_samples (pc_publisher s)" "history_inv p" "history_capacity p = history_capacity (pc_publisher s)"
    using same_port_history [OF p(2)] inv by (auto simp: history_samples_def history_inv_def history_capacity_def steady_inv_def)
  have "pu_loan_counter p = length (remove1 x (pc_loans s))"
    using p(2) inv rm [THEN conjunct2] by (simp add: same_port_def steady_inv_def)
  then show ?thesis
    using steady_publisher_inv [OF inv, of p "pc_storage s" "remove1 x (pc_loans s)"] p h kept_refl by (simp add: same_port_def)
qed

lemma steady_send_inv:
  assumes inv: "steady_inv e sc l n s" and x: "x \<in> set (pc_loans s)"
    and same: "fst (Container_update_state subscribers (pu_subscriber_list_state (pc_publisher s))) = False"
    and ret: "Publisher_send e subscribers x (pc_publisher s) (pc_storage s) = Ret (Some (r, p, st))"
  shows "steady_inv e sc l n (s\<lparr>pc_publisher := p, pc_storage := st, pc_loans := remove1 x (pc_loans s)\<rparr>)"
proof -
  let ?Y = "mset (remove1 x (pc_loans s)) + mset (map snd (pc_borrowed s))"
  note rm = remove1_mset [OF x]
  define q where "q = (pc_publisher s)\<lparr>pu_subscriber_list_state := snd (Container_update_state subscribers (pu_subscriber_list_state (pc_publisher s)))\<rparr>"
  have q: "history_samples q = history_samples (pc_publisher s)" "history_inv q" "history_capacity q = history_capacity (pc_publisher s)"
    using inv by (auto simp: q_def history_samples_def history_inv_def history_capacity_def steady_inv_def)
  have "sound e (pc_publisher s) (pc_storage s) (mset (pc_loans s) + mset (map snd (pc_borrowed s)) + history_samples (pc_publisher s))"
    using inv by (simp add: steady_inv_def)
  then have "sound e q (pc_storage s) (mset (pc_loans s) + mset (map snd (pc_borrowed s)) + history_samples q)"
    unfolding q(1) by (simp add: sound_def counts_def q_def)
  then have so: "sound e q (pc_storage s) (add_mset x ?Y + history_samples q)" unfolding rm [THEN conjunct1] by simp
  obtain p2 d where d: "add_to_history e x q = Ret p2" "deliver_sample e x p2 (pc_storage s) = Ret d"
    and f: "\<And>k p' st'. d = Some (k, p', st') \<Longrightarrow> sound e p' st' (add_mset x ?Y + history_samples p') \<and> history_inv p'
      \<and> history_capacity p' = history_capacity q \<and> same_port (q\<lparr>pu_history := pu_history p'\<rparr>) p' \<and> kept (pc_storage s) st'"
    using add_and_deliver_ok [OF so q(2), of x] by auto
  obtain k p1 where p1: "d = Some (k, p1, st)" "SampleMut_drop e x p1 = Ret p"
    using ret same d
    by (auto simp: Publisher_send_def send_impl_def Publisher_update_connections_def Let_def q_def outcome_bind_eq_Ret
        split: prod.splits option.splits)
  note f = f [OF p1(1)]
  have "sound e p1 st (add_mset x (?Y + history_samples p1))" using f by simp
  then have p: "sound e p st (?Y + history_samples p1)" "same_port (p1\<lparr>pu_loan_counter := fetch_sub_1 (pu_loan_counter p1)\<rparr>) p"
    using SampleMut_drop_ok [of e p1 st x "?Y + history_samples p1"] p1(2) by auto
  have h: "history_samples p = history_samples p1" "history_inv p" "history_capacity p = history_capacity (pc_publisher s)"
    using same_port_history [OF p(2)] f q(3) by (auto simp: history_samples_def history_inv_def history_capacity_def)
  have "pu_loan_counter p = length (remove1 x (pc_loans s))"
    using p(2) f inv rm [THEN conjunct2] by (simp add: same_port_def steady_inv_def q_def)
  then show ?thesis
    using steady_publisher_inv [OF inv, of p st "remove1 x (pc_loans s)"] p h f by (simp add: same_port_def q_def)
qed

lemma or_and_self: "(w OR v) AND v = (v :: 8 word)"
  by (simp add: word_ao_absorbs)

lemma steady_connect_inv:
  assumes inv: "steady_inv e sc l n s" and cr: "create_receiver junk locked b (pc_storage s) = Ret (Ok rc, st)"
    and old: "zcr_mgmt rc < zs_next (pc_storage s)"
  shows "steady_inv e sc l n (s\<lparr>pc_storage := st, pc_receivers := (pc_receivers s)(zcr_mgmt rc \<mapsto> rc)\<rparr>)"
proof -
  let ?a = "zcr_mgmt rc"
  have so: "sound e (pc_publisher s) (pc_storage s) (mset (pc_loans s) + mset (map snd (pc_borrowed s)) + history_samples (pc_publisher s))"
    and ok: "receivers_ok s" and f: "fits sc (pc_publisher s) (pc_storage s)" using inv by (simp_all add: steady_inv_def)
  note st = soundD(2) [OF so]
  have c: "connect_port State_Receiver junk locked b (pc_storage s) = Ret (Ok ?a, st)" "zcr_borrow_counter rc = 0"
    using create_receiver_port [OF cr] by auto
  obtain m where m: "zs_store (pc_storage s) ?a = Some m" "zm_state m AND State_Receiver = 0"
    "st = set_mgmt ?a (m\<lparr>zm_state := zm_state m OR State_Receiver\<rparr>) (pc_storage s)"
    using old by (cases rule: connect_port_cases [OF c(1)]) auto
  let ?m = "m\<lparr>zm_state := zm_state m OR State_Receiver\<rparr>"
  have free: "pc_receivers s ?a = None" using ok m(1,2) unfolding receivers_ok_def by (metis not_Some_eq option.inject)
  then have held: "held (pc_borrowed s) ?a = 0" using ok unfolding receivers_ok_def by blast
  note ss = set_state_ok [OF st m(1), of "zm_state m OR State_Receiver"]
  have so': "sound e (pc_publisher s) st (mset (pc_loans s) + mset (map snd (pc_borrowed s)) + history_samples (pc_publisher s))"
    using same_samples_sound [OF so] ss m(3) by simp
  have f': "fits sc (pc_publisher s) st" using f m(1) unfolding m(3) fits_def set_mgmt_def by auto
  have next_eq: "zs_next st = zs_next (pc_storage s)" by (simp add: m(3) set_mgmt_def)
  have "zm_state ?m AND State_Receiver \<noteq> 0" using or_and_self by (simp add: State_Receiver_def)
  then have "receivers_ok (s\<lparr>pc_storage := st, pc_receivers := (pc_receivers s)(?a \<mapsto> rc)\<rparr>)"
    using ok held c(2) next_eq unfolding receivers_ok_def m(3) by (auto simp: set_mgmt_def)
  then show ?thesis using inv so' f' next_eq by (simp add: steady_inv_def)
qed

text \<open>A receiver moves a sample between its connection and itself.\<close>

lemma steady_receiver_inv:
  assumes inv: "steady_inv e sc l n s" and rc: "pc_receivers s a = Some rc" and m: "zs_store (pc_storage s) a = Some m"
    and m': "Management_inv m'" "same_settings m m'"
    and eq: "mset (map snd bs) + storage_samples (set_mgmt a m' (pc_storage s)) = mset (map snd (pc_borrowed s)) + storage_samples (pc_storage s)"
    and bs: "\<forall>b \<in> set bs. b \<in> set (pc_borrowed s) \<or> fst b = a" "\<forall>a'. a' \<noteq> a \<longrightarrow> held bs a' = held (pc_borrowed s) a'"
      "held bs a \<le> zm_max_borrowed_samples m"
  shows "steady_inv e sc l n (s\<lparr>pc_storage := set_mgmt a m' (pc_storage s),
    pc_receivers := (pc_receivers s)(a \<mapsto> rc\<lparr>zcr_borrow_counter := held bs a\<rparr>), pc_borrowed := bs\<rparr>)"
proof -
  let ?st = "set_mgmt a m' (pc_storage s)"
  have so: "sound e (pc_publisher s) (pc_storage s) (mset (pc_loans s) + mset (map snd (pc_borrowed s)) + history_samples (pc_publisher s))"
    and ok: "receivers_ok s" and f: "fits sc (pc_publisher s) (pc_storage s)" using inv by (simp_all add: steady_inv_def)
  note st = soundD(2) [OF so]
  have st': "storage_inv ?st" using set_mgmt_inv [OF st m m'(1)] .
  have a: "a < zs_next (pc_storage s)" using storage_inv_bound [OF st m] .
  have next_eq: "zs_next ?st = zs_next (pc_storage s)" by (simp add: set_mgmt_def)
  have eq': "mset (pc_loans s) + mset (map snd bs) + history_samples (pc_publisher s) + storage_samples ?st
      = mset (pc_loans s) + mset (map snd (pc_borrowed s)) + history_samples (pc_publisher s) + storage_samples (pc_storage s)"
    using eq by (metis (no_types, lifting) add.assoc add.commute)
  have "sound e (pc_publisher s) ?st (mset (pc_loans s) + mset (map snd bs) + history_samples (pc_publisher s))"
    using so st' next_eq unfolding sound_def eq' by auto
  moreover have "fits sc (pc_publisher s) ?st" using fits_kept [OF f st st' kept_set_mgmt [OF m m'(2)] refl] .
  moreover have "zm_state m AND State_Receiver \<noteq> 0" using ok rc m unfolding receivers_ok_def by fastforce
  then have "receivers_ok (s\<lparr>pc_storage := ?st, pc_receivers := (pc_receivers s)(a \<mapsto> rc\<lparr>zcr_borrow_counter := held bs a\<rparr>), pc_borrowed := bs\<rparr>)"
    using ok bs a m m'(2) rc unfolding receivers_ok_def by (auto simp: set_mgmt_def same_settings_def)
  ultimately show ?thesis using inv next_eq by (simp add: steady_inv_def)
qed

lemma steady_inv_step:
  assumes inv: "steady_inv e sc l n s" and step: "steady_step e s t"
  shows "steady_inv e sc l n t"
  using step
proof cases
  case (steady_loan r p st)
  then show ?thesis using steady_loan_inv [OF inv] by simp
next
  case (steady_drop x p)
  then show ?thesis using steady_drop_inv [OF inv] by simp
next
  case (steady_send x subscribers r p st)
  then show ?thesis using steady_send_inv [OF inv] by simp
next
  case (steady_connect junk locked b rc st)
  then show ?thesis using steady_connect_inv [OF inv] by simp
next
  case (steady_receive a rc m r k m')
  have ok: "receivers_ok s" and st: "storage_inv (pc_storage s)" using inv by (auto simp: steady_inv_def sound_def)
  have mi: "Management_inv m" using st steady_receive(3) by (auto simp: storage_inv_def)
  note f = receive_Ok [OF mi steady_receive(4)]
  have "mgmt_samples m = mset (case r of None \<Rightarrow> [] | Some v \<Rightarrow> [v]) + mgmt_samples m'" using f(3,4) by (simp add: mgmt_samples_def)
  note eq = set_mgmt_taken [OF st steady_receive(3) this]
  let ?bs = "(case r of None \<Rightarrow> [] | Some x \<Rightarrow> [(a, x)]) @ pc_borrowed s"
  have "zcr_borrow_counter rc = held (pc_borrowed s) a" "held (pc_borrowed s) a \<le> zm_max_borrowed_samples m"
    using ok steady_receive(2,3) unfolding receivers_ok_def by fastforce+
  then have k: "k = held ?bs a" "held ?bs a \<le> zm_max_borrowed_samples m" using f(5,6) by (auto split: option.splits)
  have "mset (map snd ?bs) + storage_samples (set_mgmt a m' (pc_storage s)) = mset (map snd (pc_borrowed s)) + storage_samples (pc_storage s)"
    unfolding eq [symmetric] by (simp split: option.split)
  then show ?thesis
    using steady_receiver_inv [OF inv steady_receive(2,3) f(1,2), of ?bs] k steady_receive(1) by (auto split: option.splits)
next
  case (steady_release a rc x m k m')
  have ok: "receivers_ok s" and st: "storage_inv (pc_storage s)" using inv by (auto simp: steady_inv_def sound_def)
  have mi: "Management_inv m" using st steady_release(4) by (auto simp: storage_inv_def)
  note f = release_Ok [OF mi steady_release(5)]
  note eq = set_mgmt_given [OF st steady_release(4) f(2)]
  let ?bs = "remove1 (a, x) (pc_borrowed s)"
  note hr = held_remove1 [OF steady_release(3)]
  have "zcr_borrow_counter rc = held (pc_borrowed s) a" "held (pc_borrowed s) a \<le> zm_max_borrowed_samples m"
    using ok steady_release(2,4) unfolding receivers_ok_def by fastforce+
  then have k': "k = held ?bs a" "held ?bs a \<le> zm_max_borrowed_samples m" using f(4) hr(1) [of a] hr(2) by auto
  have "mset (pc_borrowed s) = add_mset (a, x) (mset ?bs)" using steady_release(3) by simp
  then have "image_mset snd (mset (pc_borrowed s)) = image_mset snd (add_mset (a, x) (mset ?bs))" by (rule arg_cong)
  then have "mset (map snd (pc_borrowed s)) = add_mset x (mset (map snd ?bs))" by (simp only: mset_map image_mset_add_mset snd_conv)
  then have "mset (map snd ?bs) + storage_samples (set_mgmt a m' (pc_storage s)) = mset (map snd (pc_borrowed s)) + storage_samples (pc_storage s)"
    unfolding eq by simp
  moreover have "\<forall>b \<in> set ?bs. b \<in> set (pc_borrowed s) \<or> fst b = a" using set_remove1_subset by fast
  moreover have "\<forall>a'. a' \<noteq> a \<longrightarrow> held ?bs a' = held (pc_borrowed s) a'" using hr(1) by simp
  ultimately show ?thesis
    using steady_receiver_inv [OF inv steady_release(2,4) f(1,3), of ?bs] k' steady_release(1) by simp
qed

interpretation steady: inductive_invariant "\<lambda>s. s = s0 \<and> steady_inv e sc l n s0" "steady_step e" "steady_inv e sc l n"
  using steady_inv_step by unfold_locales auto

section \<open>Enough samples\<close>

lemma size_sum: "size (\<Sum>a<k. f a) = (\<Sum>a<k. size (f a :: 'a multiset))" for k :: nat
  by (induction k) simp_all

lemma storage_samples_size:
  assumes st: "storage_inv st" and f: "fits sc p st" and e: "emptied st (scn_connections (pu_subscriber_connections p))"
  shows "size (storage_samples st) \<le> zs_next st * ps_subscriber_max_buffer_size sc"
proof -
  have "size (case zs_store st a of None \<Rightarrow> {#} | Some m \<Rightarrow> mgmt_samples m) \<le> ps_subscriber_max_buffer_size sc" if a: "a < zs_next st" for a
  proof -
    obtain m where m: "zs_store st a = Some m" "Management_inv m" using storage_inv_obtain [OF st a] .
    then have "retr_list m = []" "so_capacity (zm_receive_channel m) = ps_subscriber_max_buffer_size sc"
      using f e unfolding fits_def emptied_def by blast+
    moreover have "length (recv_list m) \<le> so_capacity (zm_receive_channel m)"
      using m(2) so.o_bounded by (simp add: Management_inv_def recv_list_def)
    ultimately show ?thesis using m(1) by (simp add: mgmt_samples_def)
  qed
  then have "(\<Sum>a<zs_next st. size (case zs_store st a of None \<Rightarrow> {#} | Some m \<Rightarrow> mgmt_samples m))
      \<le> (\<Sum>a<zs_next st. ps_subscriber_max_buffer_size sc)" by (intro sum_mono) simp
  then show ?thesis unfolding storage_samples_def size_sum by simp
qed

lemma steady_loan_succeeds:
  assumes inv: "steady_inv e sc l n s" and n: "n = required_amount_of_samples_per_data_segment (PublishSubscribe sc) l"
    and room: "length (pc_loans s) < l"
  shows "\<exists>x p st. loan_uninit e (pc_publisher s) (pc_storage s) = Ret (Ok x, p, st)"
proof (rule loan_uninit_succeeds)
  show so: "sound e (pc_publisher s) (pc_storage s) (mset (pc_loans s) + mset (map snd (pc_borrowed s)) + history_samples (pc_publisher s))"
    using inv by (simp add: steady_inv_def)
  show "pu_loan_counter (pc_publisher s) < lp_max_loaned_samples (pu_config (pc_publisher s))"
    using inv room by (simp add: steady_inv_def)
  fix st' assume r: "retrieved (pc_storage s) st'" "storage_inv st'" "emptied st' (scn_connections (pu_subscriber_connections (pc_publisher s)))"
  let ?k = "zs_next (pc_storage s)" and ?b = "ps_subscriber_max_borrowed_samples sc"
  have "fits sc (pc_publisher s) st'"
    using fits_kept [OF _ soundD(2) [OF so] r(2) retrieved_kept [OF r(1)] refl] inv by (simp add: steady_inv_def)
  then have s1: "size (storage_samples st') \<le> ?k * ps_subscriber_max_buffer_size sc"
    using storage_samples_size [OF r(2) _ r(3)] r(1) by (auto simp: retrieved_def)
  have "held (pc_borrowed s) a \<le> ?b" for a
    using inv unfolding steady_inv_def receivers_ok_def fits_def by (metis option.exhaust_sel order.trans zero_le)
  then have "(\<Sum>a<?k. held (pc_borrowed s) a) \<le> (\<Sum>a<?k. ?b)" by (intro sum_mono) simp
  then have s2: "length (pc_borrowed s) \<le> ?k * ?b"
    using held_total [of "pc_borrowed s" ?k] inv by (simp add: steady_inv_def receivers_ok_def)
  have s3: "size (history_samples (pc_publisher s)) \<le> ps_history_size sc"
    using history_bound [of "pc_publisher s"] inv by (simp add: steady_inv_def)
  have "?k * (ps_subscriber_max_buffer_size sc + ?b) \<le> ps_max_subscribers sc * (ps_subscriber_max_buffer_size sc + ?b)"
    using inv by (intro mult_le_mono1) (simp add: steady_inv_def)
  then have "?k * ps_subscriber_max_buffer_size sc + ?k * ?b \<le> ps_max_subscribers sc * (ps_subscriber_max_buffer_size sc + ?b)"
    by (simp add: distrib_left)
  then show "size (mset (pc_loans s) + mset (map snd (pc_borrowed s)) + history_samples (pc_publisher s) + storage_samples st')
      < length (pu_sample_reference_counter (pc_publisher s))"
    using s1 s2 s3 room n inv by (simp add: steady_inv_def)
qed

text \<open>
  C3: The data segment is large enough. Whatever a publisher and its receivers do call by call
  while the registry of subscribers stays as it was when the publisher was created, a loan succeeds
  whenever fewer samples are loaned than the publisher allows: the samples that
  \<open>required_amount_of_samples_per_data_segment\<close> computes never run out.
\<close>
theorem publisher_loan_succeeds:
  assumes l: "valid_layout (pe_message_layout e)" "0 < layout_size (pe_message_layout e)"
    "layout_align (pe_message_layout e) dvd layout_size (pe_message_layout e)" "layout_align (pe_message_layout e) \<le> page_size"
    "required_amount_of_samples_per_data_segment (PublishSubscribe sc) (lp_max_loaned_samples local_config) + 1 < 2 ^ 32"
    and cap: "ct_capacity (pd_subscribers d) = ps_max_subscribers sc"
    and new: "Publisher_new e details page_size config sc local_config port_id (Ok base) d no_connections = Ret (Ok p, d', st)"
    and reach: "reachable (\<lambda>s. s = pub_start p st) (steady_step e) s"
    and room: "length (pc_loans s) < lp_max_loaned_samples local_config"
  shows "\<exists>x p' st'. loan_uninit e (pc_publisher s) (pc_storage s) = Ret (Ok x, p', st')"
proof -
  let ?n = "required_amount_of_samples_per_data_segment (PublishSubscribe sc) (lp_max_loaned_samples local_config)"
  note f = Publisher_new_sound [OF l(1-4) refl l(5) new] and g = Publisher_new_fits [OF new]
  have "receivers_ok (pub_start p st)" by (simp add: receivers_ok_def pub_start_def)
  then have "steady_inv e sc (lp_max_loaned_samples local_config) ?n (pub_start p st)"
    using f g cap by (simp add: steady_inv_def pub_start_def del: required_amount_of_samples_per_data_segment.simps)
  then have "steady_inv e sc (lp_max_loaned_samples local_config) ?n s"
    using steady.reachable_inv [of "pub_start p st" e sc "lp_max_loaned_samples local_config" ?n s] reach by (simp add: conj_commute)
  then show ?thesis using steady_loan_succeeds [OF _ refl room] by blast
qed

text \<open>Both samples that the example publisher may loan at the same time can be loaned.\<close>

theorem publisher_loan_succeeds_witness:
  "\<exists>p d' st s x p' st'. Publisher_new example_env (mk_layout 8 8) 4096 Config_default example_static_config example_local_config 5
       (Ok 4096) example_dynamic_config no_connections = Ret (Ok p, d', st)
     \<and> reachable (\<lambda>s. s = pub_start p st) (steady_step example_env) s \<and> length (pc_loans s) = 1
     \<and> loan_uninit example_env (pc_publisher s) (pc_storage s) = Ret (Ok x, p', st')"
proof -
  obtain p d' st where new: "Publisher_new example_env (mk_layout 8 8) 4096 Config_default example_static_config
      example_local_config 5 (Ok 4096) example_dynamic_config no_connections = Ret (Ok p, d', st)"
    using example_publisher by blast
  have l: "valid_layout (pe_message_layout example_env)" "0 < layout_size (pe_message_layout example_env)"
    "layout_align (pe_message_layout example_env) dvd layout_size (pe_message_layout example_env)"
    "layout_align (pe_message_layout example_env) \<le> 4096"
    "required_amount_of_samples_per_data_segment (PublishSubscribe example_static_config)
       (lp_max_loaned_samples example_local_config) + 1 < 2 ^ 32"
    "ct_capacity (pd_subscribers example_dynamic_config) = ps_max_subscribers example_static_config"
    using valid_layout_8
    by (simp_all add: example_env_def example_static_config_def example_local_config_def example_dynamic_config_def FixedSizeContainer_new_def)
  have reach: "reachable (\<lambda>s. s = pub_start p st) (steady_step example_env) (pub_start p st)" by (rule reachable_init) simp
  have "length (pc_loans (pub_start p st)) < lp_max_loaned_samples example_local_config"
    by (simp add: pub_start_def example_local_config_def)
  from publisher_loan_succeeds [OF l new reach this]
  obtain x p1 st1 where loan: "loan_uninit example_env p st = Ret (Ok x, p1, st1)" by (auto simp: pub_start_def)
  define s where "s = (pub_start p st)\<lparr>pc_publisher := p1, pc_storage := st1, pc_loans := [x]\<rparr>"
  have "steady_step example_env (pub_start p st) s"
    using steady_step.steady_loan [of example_env "pub_start p st"] loan by (simp add: s_def pub_start_def)
  with reach have reach': "reachable (\<lambda>s. s = pub_start p st) (steady_step example_env) s" by (rule reachable_step)
  have len: "length (pc_loans s) = 1" by (simp add: s_def)
  then have "length (pc_loans s) < lp_max_loaned_samples example_local_config" by (simp add: example_local_config_def)
  from publisher_loan_succeeds [OF l new reach' this] show ?thesis using new reach' len by blast
qed

end
