(* ===== verification/Threads.thy ===== *)
theory Threads
  imports Prelude "HOL-Library.Word"
begin

text \<open>
  What the models of \<open>iceoryx2_pal/concurrency_primitives/src\<close> share. The threads of a primitive are
  the natural numbers; the location of every thread is a function. The primitives get their \<open>wait\<close>
  and \<open>wake\<close> operations from the platform: a thread that waits on an atomic value sleeps as long as
  the value is the expected one, until it is woken.
\<close>

definition SPIN_REPETITIONS :: nat where
  "SPIN_REPETITIONS = 10000"

section \<open>Machine words\<close>

lemma unat_pred: "v \<noteq> 0 \<Longrightarrow> Suc (unat (v - 1 :: 32 word)) = unat v"
  using unat_gt_0 [of v] unat_minus_one [of v] by simp

lemma unat_less_32: "unat (v :: 32 word) < 2 ^ 32"
  using unsigned_less [of v, where ?'a = nat] by simp

section \<open>Counting threads\<close>

definition threads :: "('p \<Rightarrow> bool) \<Rightarrow> (nat \<Rightarrow> 'p) \<Rightarrow> nat set" where
  "threads P pc = {t. P (pc t)}"

lemma threads_update:
  "threads P (pc(t := p)) = (if P p then insert t (threads P pc) else threads P pc - {t})"
  by (auto simp: threads_def)

lemma threads_iff: "t \<in> threads P pc \<longleftrightarrow> P (pc t)"
  by (simp add: threads_def)

lemma card_threads_same: "P (pc t) = P p \<Longrightarrow> threads P (pc(t := p)) = threads P pc"
  by (auto simp: threads_def)

lemma card_threads_add:
  "finite (threads P pc) \<Longrightarrow> \<not> P (pc t) \<Longrightarrow> P p \<Longrightarrow> card (threads P (pc(t := p))) = Suc (card (threads P pc))"
  by (simp add: threads_update threads_iff)

lemma card_threads_remove:
  assumes "finite (threads P pc)" "P (pc t)" "\<not> P p"
  shows "Suc (card (threads P (pc(t := p)))) = card (threads P pc)"
  using assms card_Suc_Diff1 [of "threads P pc" t] by (simp add: threads_update threads_iff)

lemma finite_threads_update: "finite (threads P pc) \<Longrightarrow> finite (threads P (pc(t := p)))"
  by (simp add: threads_update)

lemma card_threads_pos: "finite (threads P pc) \<Longrightarrow> P (pc t) \<Longrightarrow> 0 < card (threads P pc)"
  by (auto simp: card_gt_0_iff threads_def)

text \<open>Threads below a bound.\<close>

lemma threads_bounded:
  assumes "\<And>t. P (pc t) \<Longrightarrow> t < N"
  shows "finite (threads P pc)" "card (threads P pc) \<le> N"
proof -
  have "threads P pc \<subseteq> {..<N}" using assms by (auto simp: threads_def)
  then show "finite (threads P pc)" "card (threads P pc) \<le> N"
    using finite_subset card_mono [of "{..<N}"] by auto
qed

end
