(* ===== verification/Mutex.thy ===== *)
theory Mutex
  imports Threads
begin

text \<open>
  The mutex and the condition variable of \<open>iceoryx2_pal/concurrency_primitives/src\<close> (\<open>mutex.rs\<close>,
  \<open>condition_variable.rs\<close>) as a transition system of any number of threads: every access to the
  atomic state is a step, and so are falling asleep, waking a sleeper and returning from a wait.
\<close>

section \<open>mutex.rs\<close>

record Mutex =
  mtx_state :: "32 word"

definition Mutex_new :: Mutex where
  "Mutex_new = \<lparr>mtx_state = 0\<rparr>"

text \<open>The compare-and-exchange of \<open>try_lock\<close>, which every attempt to lock uses.\<close>

definition Mutex_try_lock :: "Mutex \<Rightarrow> bool \<times> Mutex" where
  "Mutex_try_lock m = (if mtx_state m = 0 then (True, m\<lparr>mtx_state := 1\<rparr>) else (False, m))"

text \<open>The store of \<open>unlock\<close>, before it wakes a thread.\<close>

definition Mutex_unlock :: "Mutex \<Rightarrow> Mutex" where
  "Mutex_unlock m = m\<lparr>mtx_state := 0\<rparr>"

section \<open>condition_variable.rs\<close>

record ConditionVariable =
  cv_counter :: "32 word"

definition ConditionVariable_new :: ConditionVariable where
  "ConditionVariable_new = \<lparr>cv_counter = 0\<rparr>"

text \<open>The first step of \<open>notify\<close>, before it wakes one or all waiting threads.\<close>

definition ConditionVariable_notify :: "ConditionVariable \<Rightarrow> ConditionVariable" where
  "ConditionVariable_notify c = c\<lparr>cv_counter := cv_counter c + 1\<rparr>"

section \<open>The threads\<close>

text \<open>
  Locations: in \<open>lock\<close> before the first attempt, while spinning, in front of and in the wait, and
  before the attempt after a wait that returned \<open>keep_running\<close>; the holder; in \<open>unlock\<close> before the
  wake. Then the locations of \<open>ConditionVariable::wait\<close> with the counter value it has read, and of
  \<open>notify\<close>, which a thread can call with or without the mutex to wake one or all.
\<close>

datatype mx_pc =
    MX_out
  | MX_try
  | MX_spin nat
  | MX_wait
  | MX_sleep
  | MX_retry bool
  | MX_holder
  | MX_wake
  | CV_unlock "32 word"
  | CV_wake "32 word"
  | CV_wait "32 word"
  | CV_sleep "32 word"
  | CV_notify bool bool

text \<open>
  Where the attempts of \<open>uncontested_lock\<close> and of the loop of \<open>lock\<close> lead, and where \<open>wait\<close> goes on
  when the platform's wait has returned.
\<close>

definition Mutex_uncontested_lock :: "bool \<Rightarrow> nat \<Rightarrow> mx_pc" where
  "Mutex_uncontested_lock success retry_counter =
     (if success then MX_holder
      else if SPIN_REPETITIONS = retry_counter + 1 then MX_wait
      else MX_spin (retry_counter + 1))"

definition Mutex_lock :: "bool \<Rightarrow> bool \<Rightarrow> mx_pc" where
  "Mutex_lock success keep_running = (if success then MX_holder else if \<not> keep_running then MX_out else MX_wait)"

definition ConditionVariable_wait :: "bool \<Rightarrow> mx_pc" where
  "ConditionVariable_wait keep_running = (if \<not> keep_running then MX_out else MX_try)"

record mx_conf =
  mx_mutex :: Mutex
  mx_cv :: ConditionVariable
  mx_pc :: "nat \<Rightarrow> mx_pc"

definition mx_start :: mx_conf where
  "mx_start = \<lparr>mx_mutex = Mutex_new, mx_cv = ConditionVariable_new, mx_pc = (\<lambda>_. MX_out)\<rparr>"

text \<open>
  \<open>T\<close> says whether waits may end without a wake and may tell the caller to give up, as they do with
  a timeout.
\<close>

inductive mx_step :: "bool \<Rightarrow> mx_conf \<Rightarrow> mx_conf \<Rightarrow> bool" for T where
  mx_try_lock: "mx_pc s t = MX_out \<Longrightarrow> Mutex_try_lock (mx_mutex s) = (b, m) \<Longrightarrow>
    mx_step T s (s\<lparr>mx_mutex := m, mx_pc := (mx_pc s)(t := if b then MX_holder else MX_out)\<rparr>)"
| mx_lock: "mx_pc s t = MX_out \<Longrightarrow> mx_step T s (s\<lparr>mx_pc := (mx_pc s)(t := MX_try)\<rparr>)"
| mx_try: "mx_pc s t = MX_try \<Longrightarrow> Mutex_try_lock (mx_mutex s) = (b, m) \<Longrightarrow>
    mx_step T s (s\<lparr>mx_mutex := m, mx_pc := (mx_pc s)(t := if b then MX_holder else MX_spin 0)\<rparr>)"
| mx_spin: "mx_pc s t = MX_spin n \<Longrightarrow> Mutex_try_lock (mx_mutex s) = (b, m) \<Longrightarrow>
    mx_step T s (s\<lparr>mx_mutex := m, mx_pc := (mx_pc s)(t := Mutex_uncontested_lock b n)\<rparr>)"
| mx_sleep: "mx_pc s t = MX_wait \<Longrightarrow> mtx_state (mx_mutex s) = 1 \<Longrightarrow>
    mx_step T s (s\<lparr>mx_pc := (mx_pc s)(t := MX_sleep)\<rparr>)"
| mx_no_sleep: "mx_pc s t = MX_wait \<Longrightarrow> mtx_state (mx_mutex s) \<noteq> 1 \<Longrightarrow> k \<or> T \<Longrightarrow>
    mx_step T s (s\<lparr>mx_pc := (mx_pc s)(t := MX_retry k)\<rparr>)"
| mx_timeout: "mx_pc s t = MX_sleep \<Longrightarrow> T \<Longrightarrow> mx_step T s (s\<lparr>mx_pc := (mx_pc s)(t := MX_retry k)\<rparr>)"
| mx_retry: "mx_pc s t = MX_retry k \<Longrightarrow> Mutex_try_lock (mx_mutex s) = (b, m) \<Longrightarrow>
    mx_step T s (s\<lparr>mx_mutex := m,
      mx_pc := (mx_pc s)(t := Mutex_lock b k)\<rparr>)"
| mx_unlock: "mx_pc s t = MX_holder \<Longrightarrow>
    mx_step T s (s\<lparr>mx_mutex := Mutex_unlock (mx_mutex s), mx_pc := (mx_pc s)(t := MX_wake)\<rparr>)"
| mx_wake: "mx_pc s t = MX_wake \<Longrightarrow> mx_pc s u = MX_sleep \<Longrightarrow> k \<or> T \<Longrightarrow>
    mx_step T s (s\<lparr>mx_pc := (mx_pc s)(t := MX_out, u := MX_retry k)\<rparr>)"
| mx_wake_nobody: "mx_pc s t = MX_wake \<Longrightarrow> \<forall>u. mx_pc s u \<noteq> MX_sleep \<Longrightarrow>
    mx_step T s (s\<lparr>mx_pc := (mx_pc s)(t := MX_out)\<rparr>)"
| cv_wait: "mx_pc s t = MX_holder \<Longrightarrow>
    mx_step T s (s\<lparr>mx_pc := (mx_pc s)(t := CV_unlock (cv_counter (mx_cv s)))\<rparr>)"
| cv_unlock: "mx_pc s t = CV_unlock c \<Longrightarrow>
    mx_step T s (s\<lparr>mx_mutex := Mutex_unlock (mx_mutex s), mx_pc := (mx_pc s)(t := CV_wake c)\<rparr>)"
| cv_wake: "mx_pc s t = CV_wake c \<Longrightarrow> mx_pc s u = MX_sleep \<Longrightarrow> k \<or> T \<Longrightarrow>
    mx_step T s (s\<lparr>mx_pc := (mx_pc s)(t := CV_wait c, u := MX_retry k)\<rparr>)"
| cv_wake_nobody: "mx_pc s t = CV_wake c \<Longrightarrow> \<forall>u. mx_pc s u \<noteq> MX_sleep \<Longrightarrow>
    mx_step T s (s\<lparr>mx_pc := (mx_pc s)(t := CV_wait c)\<rparr>)"
| cv_sleep: "mx_pc s t = CV_wait c \<Longrightarrow> cv_counter (mx_cv s) = c \<Longrightarrow>
    mx_step T s (s\<lparr>mx_pc := (mx_pc s)(t := CV_sleep c)\<rparr>)"
| cv_no_sleep: "mx_pc s t = CV_wait c \<Longrightarrow> cv_counter (mx_cv s) \<noteq> c \<Longrightarrow> k \<or> T \<Longrightarrow>
    mx_step T s (s\<lparr>mx_pc := (mx_pc s)(t := ConditionVariable_wait k)\<rparr>)"
| cv_timeout: "mx_pc s t = CV_sleep c \<Longrightarrow> T \<Longrightarrow>
    mx_step T s (s\<lparr>mx_pc := (mx_pc s)(t := ConditionVariable_wait k)\<rparr>)"
| cv_notify: "mx_pc s t = (if holding then MX_holder else MX_out) \<Longrightarrow>
    mx_step T s (s\<lparr>mx_cv := ConditionVariable_notify (mx_cv s), mx_pc := (mx_pc s)(t := CV_notify holding all)\<rparr>)"
| cv_notify_one: "mx_pc s t = CV_notify holding False \<Longrightarrow> mx_pc s u = CV_sleep c \<Longrightarrow>
    mx_step T s (s\<lparr>mx_pc := (mx_pc s)(t := if holding then MX_holder else MX_out, u := MX_try)\<rparr>)"
| cv_notify_nobody: "mx_pc s t = CV_notify holding False \<Longrightarrow> \<forall>u c. mx_pc s u \<noteq> CV_sleep c \<Longrightarrow>
    mx_step T s (s\<lparr>mx_pc := (mx_pc s)(t := if holding then MX_holder else MX_out)\<rparr>)"
| cv_notify_all: "mx_pc s t = CV_notify holding True \<Longrightarrow>
    mx_step T s (s\<lparr>mx_pc := (\<lambda>u. if \<exists>c. mx_pc s u = CV_sleep c then MX_try else mx_pc s u)
      (t := if holding then MX_holder else MX_out)\<rparr>)"

section \<open>Invariant\<close>

fun holds_mutex :: "mx_pc \<Rightarrow> bool" where
  "holds_mutex MX_holder = True"
| "holds_mutex (CV_unlock _) = True"
| "holds_mutex (CV_notify holding _) = holding"
| "holds_mutex _ = False"

fun cares_for_sleepers :: "mx_pc \<Rightarrow> bool" where
  "cares_for_sleepers MX_wake = True"
| "cares_for_sleepers (CV_wake _) = True"
| "cares_for_sleepers (MX_retry _) = True"
| "cares_for_sleepers _ = False"

text \<open>
  The state is 1 exactly when somebody holds the mutex, nobody else does; while it is 0 and a thread
  sleeps, another one is about to wake it or to take the mutex.
\<close>

definition mx_inv :: "mx_conf \<Rightarrow> bool" where
  "mx_inv s \<longleftrightarrow> (mtx_state (mx_mutex s) = 0 \<or> mtx_state (mx_mutex s) = 1)
     \<and> (mtx_state (mx_mutex s) = 1 \<longleftrightarrow> (\<exists>t. holds_mutex (mx_pc s t)))
     \<and> (\<forall>t u. holds_mutex (mx_pc s t) \<and> holds_mutex (mx_pc s u) \<longrightarrow> t = u)
     \<and> (mtx_state (mx_mutex s) = 0 \<and> (\<exists>t. mx_pc s t = MX_sleep) \<longrightarrow> (\<exists>u. cares_for_sleepers (mx_pc s u)))"

lemma mx_inv_start: "mx_inv mx_start"
  by (simp add: mx_inv_def mx_start_def Mutex_new_def)

text \<open>A step of one thread that does not touch the mutex.\<close>

lemma mx_inv_local:
  assumes inv: "mx_inv s" and p: "holds_mutex p = holds_mutex (mx_pc s t)"
    and sl: "p = MX_sleep \<Longrightarrow> mtx_state (mx_mutex s) = 1"
    and care: "cares_for_sleepers (mx_pc s t) \<Longrightarrow> cares_for_sleepers p \<or> (\<forall>u. mx_pc s u \<noteq> MX_sleep)
      \<or> mtx_state (mx_mutex s) = 1"
  shows "mx_inv (s\<lparr>mx_pc := (mx_pc s)(t := p)\<rparr>)"
proof -
  define q where "q = (mx_pc s)(t := p)"
  have h: "holds_mutex (q u) = holds_mutex (mx_pc s u)" for u using p by (simp add: q_def)
  have "\<exists>u. cares_for_sleepers (q u)" if z: "mtx_state (mx_mutex s) = 0" "q v = MX_sleep" for v
  proof -
    have v: "mx_pc s v = MX_sleep" "v \<noteq> t" using z sl by (auto simp: q_def split: if_splits)
    then obtain u where u: "cares_for_sleepers (mx_pc s u)" using inv z(1) unfolding mx_inv_def by blast
    show ?thesis
    proof (cases "u = t")
      case True
      then show ?thesis using care u v z(1) by (intro exI [of _ t]) (auto simp: q_def)
    next
      case False
      then show ?thesis using u by (intro exI [of _ u]) (simp add: q_def)
    qed
  qed
  then have "mx_inv (s\<lparr>mx_pc := q\<rparr>)" using inv unfolding mx_inv_def by (auto simp: h)
  then show ?thesis by (simp add: q_def)
qed

text \<open>An attempt to take the mutex.\<close>

lemma mx_inv_attempt:
  assumes inv: "mx_inv s" and att: "Mutex_try_lock (mx_mutex s) = (b, m)" and p: "\<not> holds_mutex (mx_pc s t)"
    "\<not> holds_mutex p" "p \<noteq> MX_sleep"
  shows "mx_inv (s\<lparr>mx_mutex := m, mx_pc := (mx_pc s)(t := if b then MX_holder else p)\<rparr>)"
proof (cases "mtx_state (mx_mutex s) = 0")
  case True
  then have b: "b" "m = (mx_mutex s)\<lparr>mtx_state := 1\<rparr>" using att by (auto simp: Mutex_try_lock_def)
  have "\<not> holds_mutex (mx_pc s u)" for u using inv True by (auto simp: mx_inv_def)
  then show ?thesis using b by (auto simp: mx_inv_def)
next
  case False
  then have b: "\<not> b" "m = mx_mutex s" "mtx_state (mx_mutex s) = 1" using att inv by (auto simp: Mutex_try_lock_def mx_inv_def)
  show ?thesis using mx_inv_local [OF inv, of p t] p b by simp
qed

lemma mx_inv_release:
  assumes inv: "mx_inv s" and p: "holds_mutex (mx_pc s t)" "\<not> holds_mutex p" "cares_for_sleepers p"
  shows "mx_inv (s\<lparr>mx_mutex := Mutex_unlock (mx_mutex s), mx_pc := (mx_pc s)(t := p)\<rparr>)"
proof -
  have "holds_mutex (mx_pc s u) \<Longrightarrow> u = t" for u using inv p(1) unfolding mx_inv_def by blast
  moreover have "\<exists>u. cares_for_sleepers (((mx_pc s)(t := p)) u)" using p(3) by (intro exI [of _ t]) simp
  ultimately show ?thesis using p(2) by (auto simp: mx_inv_def Mutex_unlock_def)
qed

text \<open>Waking a thread that sleeps on the mutex.\<close>

lemma mx_inv_wake:
  assumes inv: "mx_inv s" and t: "holds_mutex p = holds_mutex (mx_pc s t)" "p \<noteq> MX_sleep" and u: "mx_pc s u = MX_sleep" "t \<noteq> u"
  shows "mx_inv (s\<lparr>mx_pc := (mx_pc s)(t := p, u := MX_retry k)\<rparr>)"
proof -
  define q where "q = (mx_pc s)(t := p, u := MX_retry k)"
  have h: "holds_mutex (q v) = holds_mutex (mx_pc s v)" for v using t(1) u by (simp add: q_def)
  have "cares_for_sleepers (q u)" by (simp add: q_def)
  then have "mx_inv (s\<lparr>mx_pc := q\<rparr>)" using inv unfolding mx_inv_def by (auto simp: h)
  then show ?thesis by (simp add: q_def)
qed

lemma mx_inv_cv: "mx_inv (s\<lparr>mx_pc := q\<rparr>) \<Longrightarrow> mx_inv (s\<lparr>mx_cv := c, mx_pc := q\<rparr>)"
  unfolding mx_inv_def by auto

lemma mx_inv_step:
  assumes inv: "mx_inv s" and step: "mx_step T s s'"
  shows "mx_inv s'"
  using step
proof cases
  case (mx_try_lock t b m)
  then show ?thesis using mx_inv_attempt [OF inv, of b m t MX_out] by simp
next
  case (mx_lock t)
  then show ?thesis using mx_inv_local [OF inv, of MX_try t] by simp
next
  case (mx_try t b m)
  then show ?thesis using mx_inv_attempt [OF inv, of b m t "MX_spin 0"] by simp
next
  case (mx_spin t n b m)
  then show ?thesis
    using mx_inv_attempt [OF inv, of b m t "if SPIN_REPETITIONS = n + 1 then MX_wait else MX_spin (n + 1)"]
    by (simp add: Mutex_uncontested_lock_def)
next
  case (mx_sleep t)
  then show ?thesis using mx_inv_local [OF inv, of MX_sleep t] by simp
next
  case (mx_no_sleep t k)
  then show ?thesis using mx_inv_local [OF inv, of "MX_retry k" t] by simp
next
  case (mx_timeout t k)
  then show ?thesis using mx_inv_local [OF inv, of "MX_retry k" t] by simp
next
  case (mx_retry t k b m)
  then show ?thesis
    using mx_inv_attempt [OF inv, of b m t "if \<not> k then MX_out else MX_wait"] by (simp add: Mutex_lock_def)
next
  case (mx_unlock t)
  then show ?thesis using mx_inv_release [OF inv, of t MX_wake] by simp
next
  case (mx_wake t u k)
  then show ?thesis using mx_inv_wake [OF inv, of MX_out t u k] by fastforce
next
  case (mx_wake_nobody t)
  then show ?thesis using mx_inv_local [OF inv, of MX_out t] by simp
next
  case (cv_wait t)
  then show ?thesis using mx_inv_local [OF inv, of "CV_unlock (cv_counter (mx_cv s))" t] by simp
next
  case (cv_unlock t c)
  then show ?thesis using mx_inv_release [OF inv, of t "CV_wake c"] by simp
next
  case (cv_wake t c u k)
  then show ?thesis using mx_inv_wake [OF inv, of "CV_wait c" t u k] by fastforce
next
  case (cv_wake_nobody t c)
  then show ?thesis using mx_inv_local [OF inv, of "CV_wait c" t] by simp
next
  case (cv_sleep t c)
  then show ?thesis using mx_inv_local [OF inv, of "CV_sleep c" t] by simp
next
  case (cv_no_sleep t c k)
  then show ?thesis by (cases k) (use mx_inv_local [OF inv, of MX_try t] mx_inv_local [OF inv, of MX_out t] in \<open>simp_all add: ConditionVariable_wait_def\<close>)
next
  case (cv_timeout t c k)
  then show ?thesis by (cases k) (use mx_inv_local [OF inv, of MX_try t] mx_inv_local [OF inv, of MX_out t] in \<open>simp_all add: ConditionVariable_wait_def\<close>)
next
  case (cv_notify t holding all)
  then have "mx_inv (s\<lparr>mx_pc := (mx_pc s)(t := CV_notify holding all)\<rparr>)"
    by (intro mx_inv_local [OF inv]) (auto split: if_splits)
  from mx_inv_cv [OF this] show ?thesis using cv_notify(1) by simp
next
  case (cv_notify_one t holding u c)
  have "mx_inv (s\<lparr>mx_pc := (mx_pc s)(u := MX_try)\<rparr>)" (is "mx_inv ?s")
    using mx_inv_local [OF inv, of MX_try u] cv_notify_one by simp
  moreover have "t \<noteq> u" using cv_notify_one by auto
  ultimately show ?thesis using cv_notify_one
    by (cases holding) (use mx_inv_local [of ?s MX_holder t] mx_inv_local [of ?s MX_out t] in \<open>simp_all add: fun_upd_twist\<close>)
next
  case (cv_notify_nobody t holding)
  then show ?thesis
    by (cases holding) (use mx_inv_local [OF inv, of MX_holder t] mx_inv_local [OF inv, of MX_out t] in simp_all)
next
  case (cv_notify_all t holding)
  define f where "f = (\<lambda>u. if \<exists>c. mx_pc s u = CV_sleep c then MX_try else mx_pc s u)"
  have h: "holds_mutex (f u) = holds_mutex (mx_pc s u)" "cares_for_sleepers (f u) = cares_for_sleepers (mx_pc s u)"
    "f u = MX_sleep \<longleftrightarrow> mx_pc s u = MX_sleep" for u
    by (auto simp: f_def)
  then have "mx_inv (s\<lparr>mx_pc := f\<rparr>)" using inv unfolding mx_inv_def by (auto simp: h)
  moreover have "f t = mx_pc s t" using cv_notify_all by (simp add: f_def)
  ultimately have "mx_inv (s\<lparr>mx_pc := f(t := if holding then MX_holder else MX_out)\<rparr>)" using cv_notify_all
    by (cases holding)
      (use mx_inv_local [of "s\<lparr>mx_pc := f\<rparr>" MX_holder t] mx_inv_local [of "s\<lparr>mx_pc := f\<rparr>" MX_out t] in simp_all)
  then show ?thesis using cv_notify_all by (simp add: f_def)
qed

interpretation mx: inductive_invariant "\<lambda>s. s = mx_start" "mx_step T" mx_inv
  using mx_inv_start mx_inv_step by unfold_locales auto

text \<open>
  C11: The mutex excludes: under every interleaving of any number of threads that lock, try to lock,
  unlock, wait on and notify the condition variable, with timeouts and spurious wakeups, at most one
  thread holds the mutex, and its state tells whether somebody does.
\<close>
theorem mutex_mutual_exclusion:
  assumes "reachable (\<lambda>s. s = mx_start) (mx_step T) s"
  shows "(holds_mutex (mx_pc s t) \<and> holds_mutex (mx_pc s u) \<longrightarrow> t = u)
    \<and> (mtx_state (mx_mutex s) = 1 \<longleftrightarrow> (\<exists>t. holds_mutex (mx_pc s t)))"
  using mx.reachable_inv [OF assms] unfolding mx_inv_def by blast

section \<open>Nobody is forgotten\<close>

fun locking :: "mx_pc \<Rightarrow> bool" where
  "locking MX_try = True"
| "locking (MX_spin _) = True"
| "locking MX_wait = True"
| "locking MX_sleep = True"
| "locking (MX_retry _) = True"
| "locking _ = False"

text \<open>
  The threads that are under way go on: there are no timeouts and no spurious wakeups, and a thread
  that is outside starts no new call.
\<close>

definition mx_going :: "mx_conf \<Rightarrow> mx_conf \<Rightarrow> bool" where
  "mx_going s s' \<longleftrightarrow> mx_step False s s' \<and> (\<forall>u. mx_pc s u = MX_out \<longrightarrow> mx_pc s' u = MX_out)"

abbreviation mx_steps :: "mx_conf \<Rightarrow> mx_conf \<Rightarrow> bool" where
  "mx_steps \<equiv> mx_going\<^sup>*\<^sup>*"

lemma mx_goingI: "mx_step False s s' \<Longrightarrow> (\<And>u. mx_pc s u = MX_out \<Longrightarrow> mx_pc s' u = MX_out) \<Longrightarrow> mx_going s s'"
  by (simp add: mx_going_def)

lemma try_lock_free: "mtx_state m = 0 \<Longrightarrow> Mutex_try_lock m = (True, m\<lparr>mtx_state := 1\<rparr>)"
  by (simp add: Mutex_try_lock_def)

lemma mx_take:
  assumes free: "mtx_state (mx_mutex s) = 0" and t: "mx_pc s t = MX_try \<or> (\<exists>n. mx_pc s t = MX_spin n) \<or> (\<exists>k. mx_pc s t = MX_retry k)"
  shows "mx_going s (s\<lparr>mx_mutex := (mx_mutex s)\<lparr>mtx_state := 1\<rparr>, mx_pc := (mx_pc s)(t := MX_holder)\<rparr>)"
  using t mx_step.mx_try [OF _ try_lock_free [OF free], of t False] mx_step.mx_spin [OF _ try_lock_free [OF free], of t _ False]
    mx_step.mx_retry [OF _ try_lock_free [OF free], of t _ False]
  by (intro mx_goingI) (auto simp: Mutex_uncontested_lock_def Mutex_lock_def)

lemma mx_awake_acquires:
  assumes free: "mtx_state (mx_mutex s) = 0" and t: "locking (mx_pc s t)" "mx_pc s t \<noteq> MX_sleep"
  shows "\<exists>s'. mx_steps s s' \<and> mx_pc s' t = MX_holder"
proof (cases "mx_pc s t = MX_wait")
  case True
  let ?s = "s\<lparr>mx_pc := (mx_pc s)(t := MX_retry True)\<rparr>"
  have "mx_going s ?s" using mx_step.mx_no_sleep [OF True] free True by (intro mx_goingI) auto
  moreover have "mx_going ?s (?s\<lparr>mx_mutex := (mx_mutex ?s)\<lparr>mtx_state := 1\<rparr>, mx_pc := (mx_pc ?s)(t := MX_holder)\<rparr>)"
    using free by (intro mx_take) auto
  ultimately have "mx_steps s (?s\<lparr>mx_mutex := (mx_mutex ?s)\<lparr>mtx_state := 1\<rparr>, mx_pc := (mx_pc ?s)(t := MX_holder)\<rparr>)"
    by (meson r_into_rtranclp rtranclp_trans)
  then show ?thesis by force
next
  case False
  then have "mx_pc s t = MX_try \<or> (\<exists>n. mx_pc s t = MX_spin n) \<or> (\<exists>k. mx_pc s t = MX_retry k)"
    using t by (cases "mx_pc s t") auto
  then show ?thesis using mx_take [OF free] by (intro exI conjI r_into_rtranclp) auto
qed

lemma mx_sleeper_acquires:
  assumes free: "mtx_state (mx_mutex s) = 0" and t: "mx_pc s t = MX_sleep"
    and u: "mx_pc s u = MX_wake \<or> (\<exists>c. mx_pc s u = CV_wake c)"
  shows "\<exists>s'. mx_steps s s' \<and> mx_pc s' t = MX_holder"
proof -
  obtain p where "mx_step False s (s\<lparr>mx_pc := (mx_pc s)(u := p, t := MX_retry True)\<rparr>)"
    using u mx_step.mx_wake [OF _ t, of u True False] mx_step.cv_wake [OF _ t, of u _ True False] by auto
  with t u have step: "mx_going s (s\<lparr>mx_pc := (mx_pc s)(u := p, t := MX_retry True)\<rparr>)" by (intro mx_goingI) auto
  let ?s = "s\<lparr>mx_pc := (mx_pc s)(u := p, t := MX_retry True)\<rparr>"
  have "\<exists>s'. mx_steps ?s s' \<and> mx_pc s' t = MX_holder" using free by (intro mx_awake_acquires) auto
  then show ?thesis using step by (meson converse_rtranclp_into_rtranclp)
qed

text \<open>The holder can always give the mutex up, without touching a thread that is locking.\<close>

lemma mx_holder_releases:
  assumes h: "holds_mutex (mx_pc s h)" and t: "locking (mx_pc s t)"
  shows "\<exists>s' u. mx_steps s s' \<and> mtx_state (mx_mutex s') = 0 \<and> mx_pc s' t = mx_pc s t
    \<and> (mx_pc s' u = MX_wake \<or> (\<exists>c. mx_pc s' u = CV_wake c))"
proof -
  have ne: "h \<noteq> t" using h t by (cases "mx_pc s t") auto
  have unlock: "\<exists>s2 u. mx_steps s1 s2 \<and> mtx_state (mx_mutex s2) = 0 \<and> mx_pc s2 t = mx_pc s1 t
      \<and> (mx_pc s2 u = MX_wake \<or> (\<exists>c. mx_pc s2 u = CV_wake c))" if "mx_pc s1 h = MX_holder" for s1
  proof -
    have "mx_going s1 (s1\<lparr>mx_mutex := Mutex_unlock (mx_mutex s1), mx_pc := (mx_pc s1)(h := MX_wake)\<rparr>)"
      using mx_step.mx_unlock [OF that] that by (intro mx_goingI) auto
    from r_into_rtranclp [of mx_going, OF this] ne show ?thesis
      by (intro exI [of _ "s1\<lparr>mx_mutex := Mutex_unlock (mx_mutex s1), mx_pc := (mx_pc s1)(h := MX_wake)\<rparr>"] exI [of _ h])
        (auto simp: Mutex_unlock_def)
  qed
  show ?thesis
  proof (cases "mx_pc s h")
    case MX_holder
    then show ?thesis using unlock by blast
  next
    case (CV_unlock c)
    let ?s = "s\<lparr>mx_mutex := Mutex_unlock (mx_mutex s), mx_pc := (mx_pc s)(h := CV_wake c)\<rparr>"
    have "mx_going s ?s" using mx_step.cv_unlock [OF CV_unlock, of False] CV_unlock by (intro mx_goingI) auto
    then have "mx_steps s ?s" by blast
    then show ?thesis using ne by (intro exI [of _ ?s] exI [of _ h]) (auto simp: Mutex_unlock_def)
  next
    case (CV_notify holding all)
    then have holding: "holding" using h by simp
    have "\<exists>s1. mx_going s s1 \<and> mx_pc s1 h = MX_holder \<and> mx_pc s1 t = mx_pc s t"
    proof (cases all)
      case True
      have "mx_pc s t \<noteq> CV_sleep c" for c using t by auto
      then show ?thesis
        using mx_step.cv_notify_all [of s h True False] CV_notify True holding ne
        by (intro exI [of _ "s\<lparr>mx_pc := (\<lambda>u. if \<exists>c. mx_pc s u = CV_sleep c then MX_try else mx_pc s u)(h := MX_holder)\<rparr>"]) (simp add: mx_going_def)
    next
      case False
      show ?thesis
      proof (cases "\<exists>u c. mx_pc s u = CV_sleep c")
        case True
        then obtain u c where u: "mx_pc s u = CV_sleep c" by blast
        then have "u \<noteq> t" "u \<noteq> h" using t CV_notify by auto
        then show ?thesis
          using mx_step.cv_notify_one [OF _ u, of h True False] CV_notify False holding ne
          by (intro exI [of _ "s\<lparr>mx_pc := (mx_pc s)(h := MX_holder, u := MX_try)\<rparr>"]) (simp add: mx_going_def u)
      next
        case none: False
        then show ?thesis
          using mx_step.cv_notify_nobody [of s h True False] CV_notify False holding ne
          by (intro exI [of _ "s\<lparr>mx_pc := (mx_pc s)(h := MX_holder)\<rparr>"]) (simp add: mx_going_def)
      qed
    qed
    then obtain s1 where s1: "mx_going s s1" "mx_pc s1 h = MX_holder" "mx_pc s1 t = mx_pc s t" by blast
    obtain s2 u where "mx_steps s1 s2" "mtx_state (mx_mutex s2) = 0" "mx_pc s2 t = mx_pc s1 t"
      "mx_pc s2 u = MX_wake \<or> (\<exists>c. mx_pc s2 u = CV_wake c)" using unlock [OF s1(2)] by blast
    then show ?thesis using s1 by (metis converse_rtranclp_into_rtranclp)
  qed (use h in auto)
qed

lemma mx_locking_acquires:
  assumes inv: "mx_inv s" and t: "locking (mx_pc s t)"
  shows "\<exists>s'. mx_steps s s' \<and> mx_pc s' t = MX_holder"
proof -
  have released: "\<exists>s'. mx_steps s s' \<and> mx_pc s' t = MX_holder"
    if r: "locking (mx_pc s t)" "holds_mutex (mx_pc s h)" for s h
  proof -
    obtain s1 u where s1: "mx_steps s s1" "mtx_state (mx_mutex s1) = 0" "mx_pc s1 t = mx_pc s t"
      "mx_pc s1 u = MX_wake \<or> (\<exists>c. mx_pc s1 u = CV_wake c)" using mx_holder_releases [OF r(2,1)] by blast
    have "\<exists>s'. mx_steps s1 s' \<and> mx_pc s' t = MX_holder"
      using mx_sleeper_acquires [OF s1(2) _ s1(4)] mx_awake_acquires [OF s1(2), of t] s1(3) r(1) by (cases "mx_pc s t = MX_sleep") auto
    then show ?thesis using s1(1) by (meson rtranclp_trans)
  qed
  show ?thesis
  proof (cases "mtx_state (mx_mutex s) = 1")
    case True
    then obtain h where "holds_mutex (mx_pc s h)" using inv unfolding mx_inv_def by blast
    then show ?thesis using released [OF t] by blast
  next
    case False
    then have free: "mtx_state (mx_mutex s) = 0" using inv by (simp add: mx_inv_def)
    show ?thesis
    proof (cases "mx_pc s t = MX_sleep")
      case True
      then obtain u where "cares_for_sleepers (mx_pc s u)" using inv free unfolding mx_inv_def by blast
      then consider "mx_pc s u = MX_wake \<or> (\<exists>c. mx_pc s u = CV_wake c)" | k where "mx_pc s u = MX_retry k"
        by (cases "mx_pc s u") auto
      then show ?thesis
      proof cases
        case 1
        then show ?thesis using mx_sleeper_acquires [OF free True] by blast
      next
        case (2 k)
        let ?s = "s\<lparr>mx_mutex := (mx_mutex s)\<lparr>mtx_state := 1\<rparr>, mx_pc := (mx_pc s)(u := MX_holder)\<rparr>"
        have "mx_going s ?s" using mx_take [OF free] 2 by blast
        moreover have "\<exists>s'. mx_steps ?s s' \<and> mx_pc s' t = MX_holder"
          using True 2 by (intro released [of ?s u]) auto
        ultimately show ?thesis by (meson converse_rtranclp_into_rtranclp)
      qed
    next
      case False
      then show ?thesis using mx_awake_acquires [OF free t] by blast
    qed
  qed
qed

text \<open>
  C12: No wakeup of the mutex gets lost: whatever happened before, timeouts included, for every thread
  that is in \<open>lock\<close>, asleep or not, the threads that are under way can go on, without timeouts,
  without spurious wakeups and without any thread starting a call from outside, so that this thread
  gets the mutex. A sleeper that nobody who is under way would wake makes this false.
\<close>
theorem mutex_can_be_acquired:
  assumes "reachable (\<lambda>s. s = mx_start) (mx_step T) s" "locking (mx_pc s t)"
  shows "\<exists>s'. mx_going\<^sup>*\<^sup>* s s' \<and> mx_pc s' t = MX_holder"
  using mx_locking_acquires [OF mx.reachable_inv [OF assms(1)] assms(2)] .

section \<open>Witnesses\<close>

text \<open>Thread 0 holds the mutex and thread 1 has spun for \<open>n\<close> times.\<close>

definition mx_spinning :: "mx_pc \<Rightarrow> mx_conf" where
  "mx_spinning p = \<lparr>mx_mutex = \<lparr>mtx_state = 1\<rparr>, mx_cv = ConditionVariable_new, mx_pc = (\<lambda>_. MX_out)(0 := MX_holder, 1 := p)\<rparr>"

lemma mx_spinning_try: "reachable (\<lambda>s. s = mx_start) (mx_step T) (mx_spinning MX_try)"
proof -
  have "reachable (\<lambda>s. s = mx_start) (mx_step T) mx_start" by (rule reachable_init) simp
  moreover have "mx_step T mx_start (mx_start\<lparr>mx_mutex := \<lparr>mtx_state = 1\<rparr>, mx_pc := (mx_pc mx_start)(0 := MX_holder)\<rparr>)"
    (is "mx_step T _ ?s")
    using mx_step.mx_try_lock [of mx_start 0 True "\<lparr>mtx_state = 1\<rparr>" T] by (simp add: mx_start_def Mutex_try_lock_def Mutex_new_def)
  ultimately have "reachable (\<lambda>s. s = mx_start) (mx_step T) ?s" by (rule reachable_step)
  moreover have "mx_step T ?s (mx_spinning MX_try)"
    using mx_step.mx_lock [of ?s 1 T] by (simp add: mx_start_def mx_spinning_def)
  ultimately show ?thesis by (rule reachable_step)
qed

lemma mx_spinning_spin:
  assumes "n < SPIN_REPETITIONS"
  shows "reachable (\<lambda>s. s = mx_start) (mx_step T) (mx_spinning (MX_spin n))"
  using assms
proof (induction n)
  case 0
  have "mx_step T (mx_spinning MX_try) (mx_spinning (MX_spin 0))"
    using mx_step.mx_try [of "mx_spinning MX_try" 1 False "\<lparr>mtx_state = 1\<rparr>" T] by (simp add: mx_spinning_def Mutex_try_lock_def Mutex_uncontested_lock_def)
  with mx_spinning_try show ?case by (rule reachable_step)
next
  case (Suc n)
  then have "reachable (\<lambda>s. s = mx_start) (mx_step T) (mx_spinning (MX_spin n))" by simp
  moreover have "mx_step T (mx_spinning (MX_spin n)) (mx_spinning (MX_spin (Suc n)))"
    using mx_step.mx_spin [of "mx_spinning (MX_spin n)" 1 n False "\<lparr>mtx_state = 1\<rparr>" T] Suc.prems
    by (simp add: mx_spinning_def Mutex_try_lock_def Mutex_uncontested_lock_def)
  ultimately show ?case by (rule reachable_step)
qed

lemma mx_spinning_sleep: "reachable (\<lambda>s. s = mx_start) (mx_step T) (mx_spinning MX_sleep)"
proof -
  have "reachable (\<lambda>s. s = mx_start) (mx_step T) (mx_spinning (MX_spin 9999))"
    by (rule mx_spinning_spin) (simp add: SPIN_REPETITIONS_def)
  moreover have "mx_step T (mx_spinning (MX_spin 9999)) (mx_spinning MX_wait)"
    using mx_step.mx_spin [of "mx_spinning (MX_spin 9999)" 1 9999 False "\<lparr>mtx_state = 1\<rparr>" T]
    by (simp add: mx_spinning_def Mutex_try_lock_def Mutex_uncontested_lock_def SPIN_REPETITIONS_def)
  ultimately have "reachable (\<lambda>s. s = mx_start) (mx_step T) (mx_spinning MX_wait)" by (rule reachable_step)
  moreover have "mx_step T (mx_spinning MX_wait) (mx_spinning MX_sleep)"
    using mx_step.mx_sleep [of "mx_spinning MX_wait" 1 T] by (simp add: mx_spinning_def)
  ultimately show ?thesis by (rule reachable_step)
qed

theorem mutex_mutual_exclusion_witness:
  "reachable (\<lambda>s. s = mx_start) (mx_step True) (mx_spinning MX_sleep) \<and> {u. holds_mutex (mx_pc (mx_spinning MX_sleep) u)} = {0}"
proof -
  have "holds_mutex (mx_pc (mx_spinning MX_sleep) 0)" by (simp add: mx_spinning_def)
  then show ?thesis using mutex_mutual_exclusion [OF mx_spinning_sleep [of True], of 0] mx_spinning_sleep by blast
qed

theorem mutex_can_be_acquired_witness:
  "\<exists>s'. mx_going\<^sup>*\<^sup>* (mx_spinning MX_sleep) s' \<and> mx_pc (mx_spinning MX_sleep) 1 = MX_sleep \<and> mx_pc s' 1 = MX_holder"
proof -
  have t: "mx_pc (mx_spinning MX_sleep) 1 = MX_sleep" by (simp add: mx_spinning_def)
  then show ?thesis using mutex_can_be_acquired [OF mx_spinning_sleep [of True], of 1] by auto
qed

end
