(* ===== verification/Semaphore.thy ===== *)
theory Semaphore
  imports Threads
begin

text \<open>
  The semaphore of \<open>iceoryx2_pal/concurrency_primitives/src/semaphore.rs\<close> as a transition system of
  any number of threads. Every access to the atomic value is a step; the weak compare-and-exchange
  may fail although the value is the expected one.
\<close>

section \<open>semaphore.rs\<close>

record Semaphore =
  smp_value :: "32 word"

definition Semaphore_new :: "32 word \<Rightarrow> Semaphore" where
  "Semaphore_new initial_value = \<lparr>smp_value = initial_value\<rparr>"

text \<open>The addition of \<open>post\<close>, before it wakes a thread.\<close>

definition Semaphore_post :: "Semaphore \<Rightarrow> Semaphore" where
  "Semaphore_post s = s\<lparr>smp_value := smp_value s + 1\<rparr>"

text \<open>
  The compare-and-exchange of \<open>wait\<close> and \<open>try_wait\<close>: \<open>weak\<close> is a spurious failure. A failure returns
  the value.
\<close>

definition Semaphore_take :: "bool \<Rightarrow> 32 word \<Rightarrow> Semaphore \<Rightarrow> 32 word option \<times> Semaphore" where
  "Semaphore_take weak current_value s =
     (if smp_value s = current_value \<and> \<not> weak then (None, s\<lparr>smp_value := current_value - 1\<rparr>)
      else (Some (smp_value s), s))"

text \<open>
  Locations: in \<open>wait\<close> with a value to exchange, the number of repetitions and \<open>keep_running\<close>;
  in front of the call of the platform's wait and asleep in it; before the value is loaded again; in
  \<open>try_wait\<close> with a value to exchange; in \<open>post\<close> before the wake.
\<close>

datatype sem_pc =
    SEM_out
  | SEM_cas "32 word" nat bool
  | SEM_wait nat
  | SEM_sleep nat
  | SEM_load nat bool
  | SEM_try "32 word"
  | SEM_wake

text \<open>The inner loop of \<open>wait\<close> for a loaded value, up to its next access to the atomic.\<close>

definition Semaphore_wait_next :: "32 word \<Rightarrow> nat \<Rightarrow> bool \<Rightarrow> sem_pc" where
  "Semaphore_wait_next current_value retry_counter keep_running =
     (if current_value \<noteq> 0 then SEM_cas current_value retry_counter keep_running
      else if \<not> keep_running then SEM_out
      else if retry_counter < SPIN_REPETITIONS then SEM_load (retry_counter + 1) keep_running
      else SEM_wait retry_counter)"

definition Semaphore_try_wait_next :: "32 word \<Rightarrow> sem_pc" where
  "Semaphore_try_wait_next current_value = (if current_value = 0 then SEM_out else SEM_try current_value)"

text \<open>The counters of completed posts and of successful waits only serve the properties.\<close>

record sem_conf =
  sem_sem :: Semaphore
  sem_pc :: "nat \<Rightarrow> sem_pc"
  sem_posted :: nat
  sem_taken :: nat

definition sem_start :: "32 word \<Rightarrow> sem_conf" where
  "sem_start v = \<lparr>sem_sem = Semaphore_new v, sem_pc = (\<lambda>_. SEM_out), sem_posted = 0, sem_taken = 0\<rparr>"

text \<open>\<open>T\<close> says whether waits may end without a wake and may tell the caller to give up.\<close>

inductive sem_step :: "bool \<Rightarrow> sem_conf \<Rightarrow> sem_conf \<Rightarrow> bool" for T where
  sem_post: "sem_pc s t = SEM_out \<Longrightarrow>
    sem_step T s (s\<lparr>sem_sem := Semaphore_post (sem_sem s), sem_pc := (sem_pc s)(t := SEM_wake),
      sem_posted := sem_posted s + 1\<rparr>)"
| sem_wake: "sem_pc s t = SEM_wake \<Longrightarrow> sem_pc s u = SEM_sleep r \<Longrightarrow> k \<or> T \<Longrightarrow>
    sem_step T s (s\<lparr>sem_pc := (sem_pc s)(t := SEM_out, u := SEM_load r k)\<rparr>)"
| sem_wake_nobody: "sem_pc s t = SEM_wake \<Longrightarrow> \<forall>u r. sem_pc s u \<noteq> SEM_sleep r \<Longrightarrow>
    sem_step T s (s\<lparr>sem_pc := (sem_pc s)(t := SEM_out)\<rparr>)"
| sem_call_wait: "sem_pc s t = SEM_out \<Longrightarrow>
    sem_step T s (s\<lparr>sem_pc := (sem_pc s)(t := Semaphore_wait_next (smp_value (sem_sem s)) 0 True)\<rparr>)"
| sem_load: "sem_pc s t = SEM_load r k \<Longrightarrow>
    sem_step T s (s\<lparr>sem_pc := (sem_pc s)(t := Semaphore_wait_next (smp_value (sem_sem s)) r k)\<rparr>)"
| sem_cas: "sem_pc s t = SEM_cas v r k \<Longrightarrow> Semaphore_take weak v (sem_sem s) = (None, m) \<Longrightarrow>
    sem_step T s (s\<lparr>sem_sem := m, sem_pc := (sem_pc s)(t := SEM_out), sem_taken := sem_taken s + 1\<rparr>)"
| sem_cas_fail: "sem_pc s t = SEM_cas v r k \<Longrightarrow> Semaphore_take weak v (sem_sem s) = (Some c, m) \<Longrightarrow>
    sem_step T s (s\<lparr>sem_sem := m, sem_pc := (sem_pc s)(t := Semaphore_wait_next c r k)\<rparr>)"
| sem_sleep: "sem_pc s t = SEM_wait r \<Longrightarrow> smp_value (sem_sem s) = 0 \<Longrightarrow>
    sem_step T s (s\<lparr>sem_pc := (sem_pc s)(t := SEM_sleep r)\<rparr>)"
| sem_no_sleep: "sem_pc s t = SEM_wait r \<Longrightarrow> smp_value (sem_sem s) \<noteq> 0 \<Longrightarrow> k \<or> T \<Longrightarrow>
    sem_step T s (s\<lparr>sem_pc := (sem_pc s)(t := SEM_load r k)\<rparr>)"
| sem_timeout: "sem_pc s t = SEM_sleep r \<Longrightarrow> T \<Longrightarrow> sem_step T s (s\<lparr>sem_pc := (sem_pc s)(t := SEM_load r k)\<rparr>)"
| sem_call_try_wait: "sem_pc s t = SEM_out \<Longrightarrow>
    sem_step T s (s\<lparr>sem_pc := (sem_pc s)(t := Semaphore_try_wait_next (smp_value (sem_sem s)))\<rparr>)"
| sem_try: "sem_pc s t = SEM_try v \<Longrightarrow> Semaphore_take weak v (sem_sem s) = (None, m) \<Longrightarrow>
    sem_step T s (s\<lparr>sem_sem := m, sem_pc := (sem_pc s)(t := SEM_out), sem_taken := sem_taken s + 1\<rparr>)"
| sem_try_fail: "sem_pc s t = SEM_try v \<Longrightarrow> Semaphore_take weak v (sem_sem s) = (Some c, m) \<Longrightarrow>
    sem_step T s (s\<lparr>sem_sem := m, sem_pc := (sem_pc s)(t := Semaphore_try_wait_next c)\<rparr>)"

section \<open>Invariant\<close>

text \<open>Threads that are about to wake a sleeper or to look at the value before they sleep.\<close>

fun sem_active :: "sem_pc \<Rightarrow> bool" where
  "sem_active SEM_wake = True"
| "sem_active (SEM_cas _ _ _) = True"
| "sem_active (SEM_wait _) = True"
| "sem_active (SEM_load _ _) = True"
| "sem_active _ = False"

fun sem_asleep :: "sem_pc \<Rightarrow> bool" where
  "sem_asleep (SEM_sleep _) = True"
| "sem_asleep _ = False"

fun sem_expects :: "sem_pc \<Rightarrow> bool" where
  "sem_expects (SEM_cas v _ _) = (v \<noteq> 0)"
| "sem_expects (SEM_try v) = (v \<noteq> 0)"
| "sem_expects _ = True"

text \<open>
  No thread exchanges the value 0, so that the subtraction does not wrap; and there are never more
  permits than threads that are up for them while a thread sleeps.
\<close>

definition sem_inv :: "sem_conf \<Rightarrow> bool" where
  "sem_inv s \<longleftrightarrow> (\<forall>t. sem_expects (sem_pc s t)) \<and> finite (threads sem_active (sem_pc s))
     \<and> ((\<exists>t. sem_asleep (sem_pc s t)) \<longrightarrow> unat (smp_value (sem_sem s)) \<le> card (threads sem_active (sem_pc s)))"

lemma wait_next_expects: "sem_expects (Semaphore_wait_next v r k)" "\<not> sem_asleep (Semaphore_wait_next v r k)"
  "v \<noteq> 0 \<Longrightarrow> sem_active (Semaphore_wait_next v r k)"
  by (auto simp: Semaphore_wait_next_def)

lemma try_wait_next_expects: "sem_expects (Semaphore_try_wait_next v)" "\<not> sem_asleep (Semaphore_try_wait_next v)"
  "\<not> sem_active (Semaphore_try_wait_next v)"
  by (auto simp: Semaphore_try_wait_next_def)

lemma sem_inv_start: "sem_inv (sem_start v)"
  by (simp add: sem_inv_def sem_start_def threads_def)

text \<open>A step of one thread: it keeps the balance of permits and threads that are up for them.\<close>

lemma sem_inv_one:
  assumes inv: "sem_inv s" and p: "sem_expects p"
    and sl: "sem_asleep p \<Longrightarrow> smp_value m = 0"
    and balance: "smp_value m = 0 \<or> unat (smp_value m) + of_bool (sem_active (sem_pc s t)) \<le> unat (smp_value (sem_sem s)) + of_bool (sem_active p)
      \<or> (\<forall>u. \<not> sem_asleep (sem_pc s u)) \<and> \<not> sem_asleep p"
    and s': "sem_sem s' = m" "sem_pc s' = (sem_pc s)(t := p)"
  shows "sem_inv s'"
proof -
  define q where "q = (sem_pc s)(t := p)"
  have fin: "finite (threads sem_active (sem_pc s))" and exp: "\<forall>t. sem_expects (sem_pc s t)"
    using inv by (simp_all add: sem_inv_def)
  have c: "card (threads sem_active q) + of_bool (sem_active (sem_pc s t)) = card (threads sem_active (sem_pc s)) + of_bool (sem_active p)"
    unfolding q_def using card_threads_add [OF fin, of t p] card_threads_remove [OF fin, of t p] card_threads_same [of sem_active "sem_pc s" t p]
    by (cases "sem_active (sem_pc s t)"; cases "sem_active p") auto
  have "unat (smp_value m) \<le> card (threads sem_active q)" if sleeper: "\<exists>u. sem_asleep (q u)"
  proof (cases "smp_value m = 0")
    case False
    then have np: "\<not> sem_asleep p" using sl by blast
    then have old: "\<exists>u. sem_asleep (sem_pc s u)" using sleeper by (auto simp: q_def split: if_splits)
    then have "unat (smp_value (sem_sem s)) \<le> card (threads sem_active (sem_pc s))" using inv by (simp add: sem_inv_def)
    then show ?thesis using c balance False old by auto
  qed simp
  moreover have "\<forall>u. sem_expects (q u)" using exp p by (simp add: q_def)
  moreover have "finite (threads sem_active q)" using fin by (simp add: q_def finite_threads_update)
  ultimately show ?thesis using s' by (simp add: sem_inv_def flip: q_def)
qed

lemma sem_inv_wake:
  assumes inv: "sem_inv s" and t: "sem_pc s t = SEM_wake" and u: "sem_pc s u = SEM_sleep r"
  shows "sem_inv (s\<lparr>sem_pc := (sem_pc s)(t := SEM_out, u := SEM_load r k)\<rparr>)"
proof -
  define q where "q = (sem_pc s)(t := SEM_out, u := SEM_load r k)"
  have ne: "t \<noteq> u" using t u by auto
  have fin: "finite (threads sem_active (sem_pc s))" using inv by (simp add: sem_inv_def)
  have "Suc (card (threads sem_active ((sem_pc s)(t := SEM_out)))) = card (threads sem_active (sem_pc s))"
    using t by (intro card_threads_remove [OF fin]) simp_all
  moreover have "card (threads sem_active q) = Suc (card (threads sem_active ((sem_pc s)(t := SEM_out))))"
    unfolding q_def using u ne fin by (intro card_threads_add) (simp_all add: finite_threads_update)
  ultimately have "card (threads sem_active q) = card (threads sem_active (sem_pc s))" by simp
  moreover have "finite (threads sem_active q)" unfolding q_def by (intro finite_threads_update fin)
  moreover have "\<forall>v. sem_expects (q v)" "(\<exists>v. sem_asleep (q v)) \<Longrightarrow> (\<exists>v. sem_asleep (sem_pc s v))"
    using inv by (auto simp: q_def sem_inv_def split: if_splits)
  ultimately have "sem_inv (s\<lparr>sem_pc := q\<rparr>)" using inv by (auto simp: sem_inv_def)
  then show ?thesis by (simp add: q_def)
qed

lemma take_None: "Semaphore_take weak v m = (None, m') \<Longrightarrow> smp_value m = v \<and> smp_value m' = v - 1"
  by (auto simp: Semaphore_take_def split: if_splits)

lemma take_Some: "Semaphore_take weak v m = (Some c, m') \<Longrightarrow> m' = m \<and> c = smp_value m"
  by (auto simp: Semaphore_take_def split: if_splits)

lemma unat_succ_le: "unat (v + 1 :: 32 word) \<le> Suc (unat v)"
  using mod_less_eq_dividend [of "unat v + 1" "2 ^ 32"] by (simp add: unat_word_ariths)

lemma sem_inv_step:
  assumes inv: "sem_inv s" and step: "sem_step T s s'"
  shows "sem_inv s'"
proof -
  have exp: "sem_expects (sem_pc s t)" for t using inv by (simp add: sem_inv_def)
  note same = sem_inv_one [OF inv, where m = "sem_sem s"]
  show ?thesis
    using step
  proof cases
    case (sem_post t)
    then show ?thesis
      using sem_inv_one [OF inv, of SEM_wake "Semaphore_post (sem_sem s)" t s']
        unat_succ_le [of "smp_value (sem_sem s)"] by (simp add: Semaphore_post_def)
  next
    case (sem_wake t u r k)
    then show ?thesis using sem_inv_wake [OF inv] by simp
  next
    case (sem_wake_nobody t)
    then have "\<not> sem_asleep (sem_pc s u)" for u by (cases "sem_pc s u") auto
    then show ?thesis using same [of SEM_out t s'] sem_wake_nobody by simp
  next
    case (sem_call_wait t)
    then show ?thesis using same [of "Semaphore_wait_next (smp_value (sem_sem s)) 0 True" t s'] wait_next_expects by simp
  next
    case (sem_load t r k)
    then show ?thesis
      using same [of "Semaphore_wait_next (smp_value (sem_sem s)) r k" t s'] wait_next_expects [of "smp_value (sem_sem s)" r k]
      by (cases "smp_value (sem_sem s) = 0") simp_all
  next
    case (sem_cas t v r k weak m)
    then show ?thesis
      using sem_inv_one [OF inv, of SEM_out m t s'] take_None [OF sem_cas(3)] exp [of t] unat_pred [of v] by simp
  next
    case (sem_cas_fail t v r k weak c m)
    then show ?thesis
      using same [of "Semaphore_wait_next (smp_value (sem_sem s)) r k" t s'] wait_next_expects [of "smp_value (sem_sem s)" r k]
        take_Some [OF sem_cas_fail(3)]
      by (cases "smp_value (sem_sem s) = 0") simp_all
  next
    case (sem_sleep t r)
    then show ?thesis using same [of "SEM_sleep r" t s'] by simp
  next
    case (sem_no_sleep t r k)
    then show ?thesis using same [of "SEM_load r k" t s'] by simp
  next
    case (sem_timeout t r k)
    then show ?thesis using same [of "SEM_load r k" t s'] by simp
  next
    case (sem_call_try_wait t)
    then show ?thesis using same [of "Semaphore_try_wait_next (smp_value (sem_sem s))" t s'] try_wait_next_expects by simp
  next
    case (sem_try t v weak m)
    then show ?thesis
      using sem_inv_one [OF inv, of SEM_out m t s'] take_None [OF sem_try(3)] exp [of t] unat_pred [of v] by simp
  next
    case (sem_try_fail t v weak c m)
    then show ?thesis
      using same [of "Semaphore_try_wait_next (smp_value (sem_sem s))" t s'] try_wait_next_expects take_Some [OF sem_try_fail(3)] by simp
  qed
qed

section \<open>Permits\<close>

definition sem_conserves :: "32 word \<Rightarrow> sem_conf \<Rightarrow> bool" where
  "sem_conserves v s \<longleftrightarrow> (unat v + sem_posted s < 2 ^ 32 \<longrightarrow>
     unat (smp_value (sem_sem s)) + sem_taken s = unat v + sem_posted s)"

lemma sem_conserves_same:
  "sem_conserves v s \<Longrightarrow> sem_sem s' = sem_sem s \<Longrightarrow> sem_posted s' = sem_posted s \<Longrightarrow> sem_taken s' = sem_taken s \<Longrightarrow>
    sem_conserves v s'"
  by (simp add: sem_conserves_def)

lemma sem_conserves_take:
  assumes "sem_conserves v s" "Semaphore_take weak c (sem_sem s) = (None, m)" "c \<noteq> 0"
    "sem_sem s' = m" "sem_posted s' = sem_posted s" "sem_taken s' = sem_taken s + 1"
  shows "sem_conserves v s'"
  using assms(1,3-) take_None [OF assms(2)] unat_pred [of c] by (auto simp: sem_conserves_def)

lemma unat_succ: "unat w + 1 < 2 ^ 32 \<Longrightarrow> unat (w + 1 :: 32 word) = unat w + 1"
  by (simp add: unat_word_ariths)

lemma sem_conserves_post:
  assumes "sem_conserves v s" "sem_sem s' = Semaphore_post (sem_sem s)" "sem_posted s' = sem_posted s + 1"
    "sem_taken s' = sem_taken s"
  shows "sem_conserves v s'"
proof -
  have "unat (smp_value (sem_sem s) + 1) + sem_taken s = unat v + (sem_posted s + 1)" if "unat v + (sem_posted s + 1) < 2 ^ 32"
  proof -
    have "unat (smp_value (sem_sem s)) + sem_taken s = unat v + sem_posted s"
      using assms(1) that by (simp add: sem_conserves_def)
    then show ?thesis using that unat_succ [of "smp_value (sem_sem s)"] by linarith
  qed
  then show ?thesis using assms(2-) by (simp add: sem_conserves_def Semaphore_post_def)
qed

lemma sem_conserves_step:
  assumes inv: "sem_inv s" and con: "sem_conserves v s" and step: "sem_step T s s'"
  shows "sem_conserves v s'"
proof -
  have exp: "sem_expects (sem_pc s t)" for t using inv by (simp add: sem_inv_def)
  show ?thesis
    using step
  proof cases
    case (sem_post t)
    then show ?thesis using sem_conserves_post [OF con, of s'] by simp
  next
    case (sem_cas t c r k weak m)
    then show ?thesis using sem_conserves_take [OF con sem_cas(3), of s'] exp [of t] by simp
  next
    case (sem_try t c weak m)
    then show ?thesis using sem_conserves_take [OF con sem_try(3), of s'] exp [of t] by simp
  next
    case (sem_cas_fail t v r k weak c m)
    then show ?thesis using sem_conserves_same [OF con, of s'] take_Some [OF sem_cas_fail(3)] by simp
  next
    case (sem_try_fail t v weak c m)
    then show ?thesis using sem_conserves_same [OF con, of s'] take_Some [OF sem_try_fail(3)] by simp
  qed (use sem_conserves_same [OF con, of s'] in simp_all)
qed

interpretation smp: inductive_invariant "\<lambda>s. s = sem_start v" "sem_step T" "\<lambda>s. sem_inv s \<and> sem_conserves v s"
proof
  show "sem_inv s \<and> sem_conserves v s" if "s = sem_start v" for s
    using that sem_inv_start by (simp add: sem_conserves_def sem_start_def Semaphore_new_def)
  show "sem_inv s' \<and> sem_conserves v s'" if "sem_inv s \<and> sem_conserves v s" "sem_step T s s'" for s s'
    using that sem_inv_step sem_conserves_step by blast
qed

text \<open>
  C27: The semaphore neither invents nor loses permits: under every interleaving of posts, waits and
  try_waits, with timeouts, spurious wakeups and spurious failures of the weak compare-and-exchange,
  the value is the initial one plus the posts minus the successful waits, as long as the initial value
  and the posts fit into the 32 bits of the value. So there are never more successful waits than permits.
\<close>
theorem semaphore_conserves_permits:
  assumes "reachable (\<lambda>s. s = sem_start v) (sem_step T) s" "unat v + sem_posted s < 2 ^ 32"
  shows "unat (smp_value (sem_sem s)) + sem_taken s = unat v + sem_posted s"
  using smp.reachable_inv [OF assms(1)] assms(2) by (simp add: sem_conserves_def)

section \<open>No permit is forgotten\<close>

text \<open>
  The threads that are under way go on: there are no timeouts and no spurious wakeups, and a thread
  that is outside starts no new call.
\<close>

definition sem_going :: "sem_conf \<Rightarrow> sem_conf \<Rightarrow> bool" where
  "sem_going s s' \<longleftrightarrow> sem_step False s s' \<and> (\<forall>u. sem_pc s u = SEM_out \<longrightarrow> sem_pc s' u = SEM_out)"

abbreviation sem_steps :: "sem_conf \<Rightarrow> sem_conf \<Rightarrow> bool" where
  "sem_steps \<equiv> sem_going\<^sup>*\<^sup>*"

lemma sem_goingI: "sem_step False s s' \<Longrightarrow> (\<And>u. sem_pc s u = SEM_out \<Longrightarrow> sem_pc s' u = SEM_out) \<Longrightarrow> sem_going s s'"
  by (simp add: sem_going_def)

definition sem_progress :: "sem_conf \<Rightarrow> bool" where
  "sem_progress s \<longleftrightarrow> (\<exists>s'. sem_steps s s' \<and> sem_posted s' = sem_posted s \<and> sem_taken s' = sem_taken s + 1)"

lemma sem_progress_step:
  assumes "sem_going s s1" "sem_posted s1 = sem_posted s" "sem_taken s1 = sem_taken s" "sem_progress s1"
  shows "sem_progress s"
  using assms unfolding sem_progress_def by (metis converse_rtranclp_into_rtranclp)

lemma sem_progress_cas:
  assumes "sem_pc s t = SEM_cas (smp_value (sem_sem s)) r k"
  shows "sem_progress s"
  unfolding sem_progress_def
  using r_into_rtranclp [of sem_going, OF sem_goingI [OF sem_step.sem_cas [OF assms, of False]]] assms
  by (intro exI [of _ "s\<lparr>sem_sem := (sem_sem s)\<lparr>smp_value := smp_value (sem_sem s) - 1\<rparr>, sem_pc := (sem_pc s)(t := SEM_out),
    sem_taken := sem_taken s + 1\<rparr>"]) (simp add: Semaphore_take_def)

lemma sem_progress_next:
  assumes "smp_value (sem_sem s) \<noteq> 0"
    "sem_step False s (s\<lparr>sem_pc := (sem_pc s)(t := Semaphore_wait_next (smp_value (sem_sem s)) r k)\<rparr>)"
    "sem_pc s t \<noteq> SEM_out"
  shows "sem_progress s"
  using assms(1,3) by (intro sem_progress_step [OF sem_goingI [OF assms(2)]] sem_progress_cas [of _ t r k]) (auto simp: Semaphore_wait_next_def)

lemma sem_progress_load:
  assumes "smp_value (sem_sem s) \<noteq> 0" "sem_pc s t = SEM_load r k"
  shows "sem_progress s"
  using sem_progress_next [OF assms(1) sem_step.sem_load [OF assms(2)]] assms(2) by simp

lemma sem_progress_active:
  assumes val: "smp_value (sem_sem s) \<noteq> 0" and act: "sem_active (sem_pc s u)" and sl: "sem_asleep (sem_pc s t)"
  shows "sem_progress s"
proof (cases "sem_pc s u")
  case SEM_wake
  obtain r where t: "sem_pc s t = SEM_sleep r" using sl by (cases "sem_pc s t") auto
  show ?thesis
    using val SEM_wake t by (intro sem_progress_step [OF sem_goingI [OF sem_step.sem_wake [OF SEM_wake t, of True]]] sem_progress_load [of _ t r True]) auto
next
  case (SEM_cas c r k)
  show ?thesis
  proof (cases "c = smp_value (sem_sem s)")
    case True
    then show ?thesis using sem_progress_cas SEM_cas by blast
  next
    case False
    then have "Semaphore_take False c (sem_sem s) = (Some (smp_value (sem_sem s)), sem_sem s)" by (simp add: Semaphore_take_def)
    from sem_step.sem_cas_fail [OF SEM_cas this, of False] show ?thesis using SEM_cas by (intro sem_progress_next [OF val, of u r k]) simp_all
  qed
next
  case (SEM_wait r)
  show ?thesis
    using val SEM_wait by (intro sem_progress_step [OF sem_goingI [OF sem_step.sem_no_sleep [OF SEM_wait val, of True]]] sem_progress_load [of _ u r True]) auto
next
  case (SEM_load r k)
  then show ?thesis using sem_progress_load [OF val] by blast
qed (use act in auto)

text \<open>
  C28: No permit is forgotten: when a thread sleeps in \<open>wait\<close> while the value is not 0, then the threads
  that are already under way can go on so that a permit is taken, without any thread starting a call
  (a post, a wait or an attempt), without a timeout and without a spurious wakeup. A sleeper that
  nobody who is under way would wake makes this false.
\<close>
theorem semaphore_permit_is_taken:
  assumes "reachable (\<lambda>s. s = sem_start v) (sem_step T) s" "sem_asleep (sem_pc s t)" "smp_value (sem_sem s) \<noteq> 0"
  shows "\<exists>s'. sem_going\<^sup>*\<^sup>* s s' \<and> sem_posted s' = sem_posted s \<and> sem_taken s' = sem_taken s + 1"
proof -
  have "sem_inv s" using smp.reachable_inv [OF assms(1)] by blast
  then have "0 < card (threads sem_active (sem_pc s))" using assms(2,3) unat_gt_0 [of "smp_value (sem_sem s)"] by (auto simp: sem_inv_def)
  then obtain u where "sem_active (sem_pc s u)" by (auto simp: card_gt_0_iff threads_def)
  then show ?thesis using sem_progress_active [OF assms(3) _ assms(2)] unfolding sem_progress_def by blast
qed

section \<open>Witnesses\<close>

text \<open>Thread 1 waits on a semaphore without permits; it repeats \<open>n\<close> times and sleeps.\<close>

definition sem_alone :: "sem_pc \<Rightarrow> sem_conf" where
  "sem_alone p = (sem_start 0)\<lparr>sem_pc := (\<lambda>_. SEM_out)(1 := p)\<rparr>"

lemma sem_alone_load:
  assumes "n < SPIN_REPETITIONS"
  shows "reachable (\<lambda>s. s = sem_start 0) (sem_step T) (sem_alone (SEM_load (Suc n) True))"
  using assms
proof (induction n)
  case 0
  have "reachable (\<lambda>s. s = sem_start 0) (sem_step T) (sem_start 0)" by (rule reachable_init) simp
  moreover have "sem_step T (sem_start 0) (sem_alone (SEM_load (Suc 0) True))"
    using sem_step.sem_call_wait [of "sem_start 0" 1 T] 0
    by (simp add: sem_start_def sem_alone_def Semaphore_new_def Semaphore_wait_next_def)
  ultimately show ?case by (rule reachable_step)
next
  case (Suc n)
  then have "reachable (\<lambda>s. s = sem_start 0) (sem_step T) (sem_alone (SEM_load (Suc n) True))" by simp
  moreover have "sem_step T (sem_alone (SEM_load (Suc n) True)) (sem_alone (SEM_load (Suc (Suc n)) True))"
    using sem_step.sem_load [of "sem_alone (SEM_load (Suc n) True)" 1 "Suc n" True T] Suc.prems
    by (simp add: sem_start_def sem_alone_def Semaphore_new_def Semaphore_wait_next_def)
  ultimately show ?case by (rule reachable_step)
qed

text \<open>Then thread 0 posts.\<close>

definition sem_posting :: sem_conf where
  "sem_posting = \<lparr>sem_sem = \<lparr>smp_value = 1\<rparr>, sem_pc = (\<lambda>_. SEM_out)(1 := SEM_sleep 10000, 0 := SEM_wake),
     sem_posted = 1, sem_taken = 0\<rparr>"

lemma sem_posting_reachable: "reachable (\<lambda>s. s = sem_start 0) (sem_step T) sem_posting"
proof -
  have "reachable (\<lambda>s. s = sem_start 0) (sem_step T) (sem_alone (SEM_load 10000 True))"
    using sem_alone_load [of 9999] by (simp add: SPIN_REPETITIONS_def)
  moreover have "sem_step T (sem_alone (SEM_load 10000 True)) (sem_alone (SEM_wait 10000))"
    using sem_step.sem_load [of "sem_alone (SEM_load 10000 True)" 1 10000 True T]
    by (simp add: sem_start_def sem_alone_def Semaphore_new_def Semaphore_wait_next_def SPIN_REPETITIONS_def)
  ultimately have "reachable (\<lambda>s. s = sem_start 0) (sem_step T) (sem_alone (SEM_wait 10000))" by (rule reachable_step)
  moreover have "sem_step T (sem_alone (SEM_wait 10000)) (sem_alone (SEM_sleep 10000))"
    using sem_step.sem_sleep [of "sem_alone (SEM_wait 10000)" 1 10000 T]
    by (simp add: sem_start_def sem_alone_def Semaphore_new_def)
  ultimately have "reachable (\<lambda>s. s = sem_start 0) (sem_step T) (sem_alone (SEM_sleep 10000))" by (rule reachable_step)
  moreover have "sem_step T (sem_alone (SEM_sleep 10000)) sem_posting"
    using sem_step.sem_post [of "sem_alone (SEM_sleep 10000)" 0 T]
    by (simp add: sem_start_def sem_alone_def Semaphore_new_def Semaphore_post_def sem_posting_def)
  ultimately show ?thesis by (rule reachable_step)
qed

theorem semaphore_conserves_permits_witness:
  "reachable (\<lambda>s. s = sem_start 0) (sem_step True) sem_posting \<and> unat (smp_value (sem_sem sem_posting)) + sem_taken sem_posting = 1"
proof -
  have "unat (0 :: 32 word) + sem_posted sem_posting < 2 ^ 32" by (simp add: sem_posting_def)
  from semaphore_conserves_permits [OF sem_posting_reachable [of True] this] show ?thesis
    using sem_posting_reachable by (simp add: sem_posting_def)
qed

theorem semaphore_permit_is_taken_witness:
  "\<exists>s'. sem_going\<^sup>*\<^sup>* sem_posting s' \<and> sem_posted s' = 1 \<and> sem_taken s' = 1"
proof -
  have "sem_asleep (sem_pc sem_posting 1)" "smp_value (sem_sem sem_posting) \<noteq> 0" by (simp_all add: sem_posting_def)
  from semaphore_permit_is_taken [OF sem_posting_reachable [of True] this] show ?thesis by (simp add: sem_posting_def)
qed

end
