(* ===== verification/Barrier.thy ===== *)
theory Barrier
  imports Threads
begin

text \<open>
  The barrier of \<open>iceoryx2_pal/concurrency_primitives/src/barrier.rs\<close> as a transition system of the
  threads the barrier is made for, every access to the atomic counter a step.
\<close>

section \<open>barrier.rs\<close>

record Barrier =
  br_waiters :: "32 word"

definition Barrier_new :: "32 word \<Rightarrow> Barrier" where
  "Barrier_new number_of_waiters = \<lparr>br_waiters = number_of_waiters\<rparr>"

text \<open>Locations in \<open>wait\<close>: before it, spinning, before the load of the last loop, in front of the
platform's wait with the loaded value, asleep, before the wake of all, and returned.\<close>

datatype br_pc =
    BR_out
  | BR_spin nat
  | BR_load
  | BR_wait "32 word"
  | BR_sleep
  | BR_wake
  | BR_done

text \<open>The subtraction at the start of \<open>wait\<close>, with the location it leads to.\<close>

definition Barrier_arrive :: "Barrier \<Rightarrow> Barrier \<times> br_pc" where
  "Barrier_arrive b = (b\<lparr>br_waiters := br_waiters b - 1\<rparr>, if br_waiters b = 1 then BR_wake else BR_spin 0)"

definition Barrier_spin :: "Barrier \<Rightarrow> nat \<Rightarrow> br_pc" where
  "Barrier_spin b retry_counter =
     (if br_waiters b > 0 then (if SPIN_REPETITIONS = retry_counter + 1 then BR_load else BR_spin (retry_counter + 1))
      else BR_load)"

definition Barrier_load :: "Barrier \<Rightarrow> br_pc" where
  "Barrier_load b = (if br_waiters b = 0 then BR_done else BR_wait (br_waiters b))"

record br_conf =
  br_barrier :: Barrier
  br_pc :: "nat \<Rightarrow> br_pc"

definition br_start :: "32 word \<Rightarrow> br_conf" where
  "br_start n = \<lparr>br_barrier = Barrier_new n, br_pc = (\<lambda>_. BR_out)\<rparr>"

inductive br_step :: "32 word \<Rightarrow> bool \<Rightarrow> br_conf \<Rightarrow> br_conf \<Rightarrow> bool" for n T where
  br_arrive: "br_pc s t = BR_out \<Longrightarrow> t < unat n \<Longrightarrow> Barrier_arrive (br_barrier s) = (b, p) \<Longrightarrow>
    br_step n T s (s\<lparr>br_barrier := b, br_pc := (br_pc s)(t := p)\<rparr>)"
| br_wake: "br_pc s t = BR_wake \<Longrightarrow>
    br_step n T s (s\<lparr>br_pc := (\<lambda>u. if br_pc s u = BR_sleep then BR_load else br_pc s u)(t := BR_done)\<rparr>)"
| br_spin: "br_pc s t = BR_spin r \<Longrightarrow> br_step n T s (s\<lparr>br_pc := (br_pc s)(t := Barrier_spin (br_barrier s) r)\<rparr>)"
| br_load: "br_pc s t = BR_load \<Longrightarrow> br_step n T s (s\<lparr>br_pc := (br_pc s)(t := Barrier_load (br_barrier s))\<rparr>)"
| br_sleep: "br_pc s t = BR_wait v \<Longrightarrow> br_waiters (br_barrier s) = v \<Longrightarrow>
    br_step n T s (s\<lparr>br_pc := (br_pc s)(t := BR_sleep)\<rparr>)"
| br_no_sleep: "br_pc s t = BR_wait v \<Longrightarrow> br_waiters (br_barrier s) \<noteq> v \<Longrightarrow>
    br_step n T s (s\<lparr>br_pc := (br_pc s)(t := BR_load)\<rparr>)"
| br_spurious: "br_pc s t = BR_sleep \<Longrightarrow> T \<Longrightarrow> br_step n T s (s\<lparr>br_pc := (br_pc s)(t := BR_load)\<rparr>)"

section \<open>Invariant\<close>

definition missing :: "32 word \<Rightarrow> (nat \<Rightarrow> br_pc) \<Rightarrow> nat set" where
  "missing n pc = {t. t < unat n \<and> pc t = BR_out}"

lemma finite_missing [simp]: "finite (missing n pc)"
  by (simp add: missing_def)

lemma missing_other: "(p = BR_out) = (pc t = BR_out) \<Longrightarrow> missing n (pc(t := p)) = missing n pc"
  by (auto simp: missing_def)

lemma missing_arrive:
  assumes "pc t = BR_out" "t < unat n" "p \<noteq> BR_out"
  shows "Suc (card (missing n (pc(t := p)))) = card (missing n pc)"
proof -
  have "missing n (pc(t := p)) = missing n pc - {t}" "t \<in> missing n pc" using assms by (auto simp: missing_def)
  then show ?thesis using card_Suc_Diff1 [of "missing n pc" t] by simp
qed

definition br_inv :: "32 word \<Rightarrow> br_conf \<Rightarrow> bool" where
  "br_inv n s \<longleftrightarrow> unat (br_waiters (br_barrier s)) = card (missing n (br_pc s))
     \<and> (\<forall>t. br_pc s t = BR_done \<or> br_pc s t = BR_wake \<longrightarrow> br_waiters (br_barrier s) = 0)
     \<and> (\<forall>t. br_pc s t \<noteq> BR_wait 0)
     \<and> (br_waiters (br_barrier s) = 0 \<and> (\<exists>t. br_pc s t = BR_sleep) \<longrightarrow> (\<exists>u. br_pc s u = BR_wake))"

lemma br_inv_start: "br_inv n (br_start n)"
  by (simp add: br_inv_def br_start_def missing_def Barrier_new_def)

text \<open>A step of a thread that has arrived and does not wake the others.\<close>

lemma br_inv_local:
  assumes inv: "br_inv n s" and p: "br_pc s t \<noteq> BR_out" "br_pc s t \<noteq> BR_wake" "p \<noteq> BR_out" "p \<noteq> BR_wake" "p \<noteq> BR_wait 0"
    and d: "p = BR_done \<Longrightarrow> br_waiters (br_barrier s) = 0" and sl: "p = BR_sleep \<Longrightarrow> br_waiters (br_barrier s) \<noteq> 0"
  shows "br_inv n (s\<lparr>br_pc := (br_pc s)(t := p)\<rparr>)"
proof -
  define q where "q = (br_pc s)(t := p)"
  have "missing n q = missing n (br_pc s)" using p by (simp add: q_def missing_other)
  moreover have "q u = BR_wake \<longleftrightarrow> br_pc s u = BR_wake" for u using p by (auto simp: q_def)
  moreover have "q u = BR_done \<Longrightarrow> br_pc s u = BR_done \<or> br_waiters (br_barrier s) = 0" for u using d by (auto simp: q_def split: if_splits)
  moreover have "q u = BR_sleep \<Longrightarrow> br_pc s u = BR_sleep \<or> br_waiters (br_barrier s) \<noteq> 0" for u using sl by (auto simp: q_def split: if_splits)
  moreover have "q u = BR_wait 0 \<Longrightarrow> br_pc s u = BR_wait 0" for u using p by (auto simp: q_def split: if_splits)
  ultimately have "br_inv n (s\<lparr>br_pc := q\<rparr>)" using inv unfolding br_inv_def by (simp, blast)
  then show ?thesis by (simp add: q_def)
qed

lemma br_inv_arrive:
  assumes inv: "br_inv n s" and t: "br_pc s t = BR_out" "t < unat n" and a: "Barrier_arrive (br_barrier s) = (b, p)"
  shows "br_inv n (s\<lparr>br_barrier := b, br_pc := (br_pc s)(t := p)\<rparr>)"
proof -
  define q where "q = (br_pc s)(t := p)"
  let ?w = "br_waiters (br_barrier s)"
  have b: "br_waiters b = ?w - 1" "p = (if ?w = 1 then BR_wake else BR_spin 0)" using a by (auto simp: Barrier_arrive_def)
  have "t \<in> missing n (br_pc s)" using t by (simp add: missing_def)
  then have "0 < card (missing n (br_pc s))" by (auto simp: card_gt_0_iff)
  then have w: "?w \<noteq> 0" using inv by (auto simp: br_inv_def)
  then have "Suc (unat (?w - 1)) = unat ?w" by (rule unat_pred)
  moreover have "Suc (card (missing n q)) = card (missing n (br_pc s))"
    unfolding q_def using b(2) by (intro missing_arrive t) auto
  ultimately have count: "unat (br_waiters b) = card (missing n q)" using inv b(1) by (simp add: br_inv_def)
  have "?w - 1 = 0 \<longleftrightarrow> ?w = 1" by simp
  then have "br_waiters b = 0 \<Longrightarrow> q t = BR_wake" using b by (simp add: q_def)
  moreover have "q u = BR_done \<or> q u = BR_wake \<Longrightarrow> br_waiters b = 0" for u
    using inv w b by (auto simp: br_inv_def q_def split: if_splits)
  moreover have "q u \<noteq> BR_wait 0" for u using inv b by (auto simp: br_inv_def q_def)
  ultimately have "br_inv n (s\<lparr>br_barrier := b, br_pc := q\<rparr>)" using count unfolding br_inv_def by auto
  then show ?thesis by (simp add: q_def)
qed

lemma br_inv_wake:
  assumes inv: "br_inv n s" and t: "br_pc s t = BR_wake"
  shows "br_inv n (s\<lparr>br_pc := (\<lambda>u. if br_pc s u = BR_sleep then BR_load else br_pc s u)(t := BR_done)\<rparr>)"
proof -
  define q where "q = (\<lambda>u. if br_pc s u = BR_sleep then BR_load else br_pc s u)(t := BR_done)"
  have "missing n q = missing n (br_pc s)" using t by (auto simp: q_def missing_def)
  moreover have "br_waiters (br_barrier s) = 0" using inv t by (auto simp: br_inv_def)
  moreover have "q u \<noteq> BR_sleep" "q u = BR_wait 0 \<Longrightarrow> br_pc s u = BR_wait 0" for u by (auto simp: q_def split: if_splits)
  ultimately have "br_inv n (s\<lparr>br_pc := q\<rparr>)" using inv unfolding br_inv_def by auto
  then show ?thesis by (simp add: q_def)
qed

lemma br_inv_step:
  assumes inv: "br_inv n s" and step: "br_step n T s s'"
  shows "br_inv n s'"
  using step
proof cases
  case (br_arrive t b p)
  then show ?thesis using br_inv_arrive [OF inv] by simp
next
  case (br_wake t)
  then show ?thesis using br_inv_wake [OF inv] by simp
next
  case (br_spin t r)
  moreover have "Barrier_spin (br_barrier s) r \<in> {BR_load, BR_spin (r + 1)}" by (auto simp: Barrier_spin_def)
  ultimately show ?thesis using br_inv_local [OF inv, of t BR_load] br_inv_local [OF inv, of t "BR_spin (r + 1)"] by auto
next
  case (br_load t)
  then show ?thesis
    using br_inv_local [OF inv, of t BR_done] br_inv_local [OF inv, of t "BR_wait (br_waiters (br_barrier s))"]
    by (cases "br_waiters (br_barrier s) = 0") (simp_all add: Barrier_load_def)
next
  case (br_sleep t v)
  then have "br_waiters (br_barrier s) \<noteq> 0" using inv by (auto simp: br_inv_def)
  then show ?thesis using br_inv_local [OF inv, of t BR_sleep] br_sleep by simp
next
  case (br_no_sleep t v)
  then show ?thesis using br_inv_local [OF inv, of t BR_load] by simp
next
  case (br_spurious t)
  then show ?thesis using br_inv_local [OF inv, of t BR_load] by simp
qed

interpretation br: inductive_invariant "\<lambda>s. s = br_start n" "br_step n T" "br_inv n"
  using br_inv_start br_inv_step by unfold_locales auto

section \<open>Nobody stays behind\<close>

abbreviation br_returns :: "32 word \<Rightarrow> br_conf \<Rightarrow> nat \<Rightarrow> bool" where
  "br_returns n s t \<equiv> \<exists>s'. (br_step n False)\<^sup>*\<^sup>* s s' \<and> br_pc s' t = BR_done"

lemma br_returns_step: "br_step n False s s1 \<Longrightarrow> br_returns n s1 t \<Longrightarrow> br_returns n s t"
  by (meson converse_rtranclp_into_rtranclp)

lemma br_load_returns:
  assumes "br_waiters (br_barrier s) = 0" "br_pc s t = BR_load"
  shows "br_returns n s t"
  using r_into_rtranclp [of "br_step n False", OF br_step.br_load [OF assms(2)]] assms(1)
  by (intro exI [of _ "s\<lparr>br_pc := (br_pc s)(t := BR_done)\<rparr>"]) (simp add: Barrier_load_def)

lemma br_all_return:
  assumes inv: "br_inv n s" and all: "missing n (br_pc s) = {}" and t: "t < unat n"
  shows "br_returns n s t"
proof -
  have w: "br_waiters (br_barrier s) = 0" using inv all by (simp add: br_inv_def unat_eq_zero)
  show ?thesis
  proof (cases "br_pc s t")
    case BR_out
    then show ?thesis using all t by (auto simp: missing_def)
  next
    case (BR_spin r)
    show ?thesis using w by (intro br_returns_step [OF br_step.br_spin [OF BR_spin]] br_load_returns) (simp_all add: Barrier_spin_def)
  next
    case BR_load
    then show ?thesis using br_load_returns [OF w] by blast
  next
    case (BR_wait v)
    then have "br_waiters (br_barrier s) \<noteq> v" using inv w by (auto simp: br_inv_def)
    then show ?thesis using w by (intro br_returns_step [OF br_step.br_no_sleep [OF BR_wait]] br_load_returns) simp_all
  next
    case BR_sleep
    then obtain u where u: "br_pc s u = BR_wake" using inv w unfolding br_inv_def by blast
    then have "u \<noteq> t" using BR_sleep by auto
    then show ?thesis using w BR_sleep by (intro br_returns_step [OF br_step.br_wake [OF u]] br_load_returns) simp_all
  next
    case BR_wake
    from r_into_rtranclp [of "br_step n False", OF br_step.br_wake [OF BR_wake]] show ?thesis by (intro exI conjI, assumption) simp
  next
    case BR_done
    then show ?thesis by blast
  qed
qed

text \<open>
  C29: The barrier is a barrier: no thread returns from \<open>wait\<close> before all threads it is made for have
  called it; and once all have, each of them can return, whatever the interleaving was, without
  spurious wakeups: the wake of the last one is never missed.
\<close>
theorem barrier_releases_together:
  assumes "reachable (\<lambda>s. s = br_start n) (br_step n T) s" "t < unat n"
  shows "if \<forall>u < unat n. br_pc s u \<noteq> BR_out then \<exists>s'. (br_step n False)\<^sup>*\<^sup>* s s' \<and> br_pc s' t = BR_done
    else br_pc s t \<noteq> BR_done"
proof -
  have inv: "br_inv n s" by (rule br.reachable_inv [OF assms(1)])
  show ?thesis
  proof (cases "\<forall>u < unat n. br_pc s u \<noteq> BR_out")
    case True
    then have "missing n (br_pc s) = {}" by (auto simp: missing_def)
    then show ?thesis using br_all_return [OF inv _ assms(2)] True by simp
  next
    case False
    then have "missing n (br_pc s) \<noteq> {}" by (auto simp: missing_def)
    then have "br_waiters (br_barrier s) \<noteq> 0" using inv by (auto simp: br_inv_def)
    then show ?thesis using inv False by (auto simp: br_inv_def)
  qed
qed

text \<open>Two threads: thread 0 sleeps after it has spun, thread 1 is the last one.\<close>

definition br_two :: "32 word \<Rightarrow> br_pc \<Rightarrow> br_pc \<Rightarrow> br_conf" where
  "br_two w p q = \<lparr>br_barrier = \<lparr>br_waiters = w\<rparr>, br_pc = (\<lambda>_. BR_out)(0 := p, 1 := q)\<rparr>"

lemma br_two_spin:
  assumes "r < SPIN_REPETITIONS"
  shows "reachable (\<lambda>s. s = br_start 2) (br_step 2 T) (br_two 1 (BR_spin r) BR_out)"
  using assms
proof (induction r)
  case 0
  have "reachable (\<lambda>s. s = br_start 2) (br_step 2 T) (br_start 2)" by (rule reachable_init) simp
  moreover have idem: "(\<lambda>_. BR_out)(0 := BR_spin 0, Suc 0 := BR_out) = (\<lambda>_. BR_out)(0 := BR_spin 0)" by auto
  have "br_step 2 T (br_start 2) (br_two 1 (BR_spin 0) BR_out)"
    using br_step.br_arrive [of "br_start 2" 0 2 "\<lparr>br_waiters = 1\<rparr>" "BR_spin 0" T]
    by (simp add: br_start_def br_two_def Barrier_new_def Barrier_arrive_def idem)
  ultimately show ?case by (rule reachable_step)
next
  case (Suc r)
  then have "reachable (\<lambda>s. s = br_start 2) (br_step 2 T) (br_two 1 (BR_spin r) BR_out)" by simp
  moreover have "br_step 2 T (br_two 1 (BR_spin r) BR_out) (br_two 1 (BR_spin (Suc r)) BR_out)"
    using br_step.br_spin [of "br_two 1 (BR_spin r) BR_out" 0 r 2 T] Suc.prems
    by (simp add: br_two_def Barrier_spin_def fun_upd_twist)
  ultimately show ?case by (rule reachable_step)
qed

lemma br_two_reachable: "reachable (\<lambda>s. s = br_start 2) (br_step 2 T) (br_two 0 BR_sleep BR_wake)"
proof -
  have "reachable (\<lambda>s. s = br_start 2) (br_step 2 T) (br_two 1 (BR_spin 9999) BR_out)"
    by (rule br_two_spin) (simp add: SPIN_REPETITIONS_def)
  moreover have "br_step 2 T (br_two 1 (BR_spin 9999) BR_out) (br_two 1 BR_load BR_out)"
    using br_step.br_spin [of "br_two 1 (BR_spin 9999) BR_out" 0 9999 2 T]
    by (simp add: br_two_def Barrier_spin_def SPIN_REPETITIONS_def fun_upd_twist)
  ultimately have "reachable (\<lambda>s. s = br_start 2) (br_step 2 T) (br_two 1 BR_load BR_out)" by (rule reachable_step)
  moreover have "br_step 2 T (br_two 1 BR_load BR_out) (br_two 1 (BR_wait 1) BR_out)"
    using br_step.br_load [of "br_two 1 BR_load BR_out" 0 2 T] by (simp add: br_two_def Barrier_load_def fun_upd_twist)
  ultimately have "reachable (\<lambda>s. s = br_start 2) (br_step 2 T) (br_two 1 (BR_wait 1) BR_out)" by (rule reachable_step)
  moreover have "br_step 2 T (br_two 1 (BR_wait 1) BR_out) (br_two 1 BR_sleep BR_out)"
    using br_step.br_sleep [of "br_two 1 (BR_wait 1) BR_out" 0 1 2 T] by (simp add: br_two_def fun_upd_twist)
  ultimately have "reachable (\<lambda>s. s = br_start 2) (br_step 2 T) (br_two 1 BR_sleep BR_out)" by (rule reachable_step)
  moreover have "br_step 2 T (br_two 1 BR_sleep BR_out) (br_two 0 BR_sleep BR_wake)"
    using br_step.br_arrive [of "br_two 1 BR_sleep BR_out" 1 2 "\<lparr>br_waiters = 0\<rparr>" BR_wake T]
    by (simp add: br_two_def Barrier_arrive_def)
  ultimately show ?thesis by (rule reachable_step)
qed

theorem barrier_releases_together_witness:
  "\<exists>s'. (br_step 2 False)\<^sup>*\<^sup>* (br_two 0 BR_sleep BR_wake) s' \<and> br_pc (br_two 0 BR_sleep BR_wake) 0 = BR_sleep \<and> br_pc s' 0 = BR_done"
proof -
  have "\<forall>u < unat (2 :: 32 word). br_pc (br_two 0 BR_sleep BR_wake) u \<noteq> BR_out"
    by (auto simp: br_two_def)
  moreover have "br_pc (br_two 0 BR_sleep BR_wake) 0 = BR_sleep" by (simp add: br_two_def)
  ultimately show ?thesis using barrier_releases_together [OF br_two_reachable [of True], of 0] by simp
qed

end
