(* ===== verification/RwLock.thy ===== *)
theory RwLock
  imports Threads
begin

text \<open>
  The two reader-writer locks of \<open>iceoryx2_pal/concurrency_primitives/src/rwlock.rs\<close> as transition
  systems of \<open>N\<close> threads, every access to an atomic value a step.
\<close>

definition WRITE_LOCKED :: "32 word" where
  "WRITE_LOCKED = - 1"

definition UNLOCKED :: "32 word" where
  "UNLOCKED = 0"

lemma unat_WRITE_LOCKED: "unat WRITE_LOCKED = 2 ^ 32 - 1"
  by (simp add: WRITE_LOCKED_def unsigned_minus_1_eq_mask mask_eq_exp_minus_1)

text \<open>\<open>compare_exchange\<close>: the value it finds when it fails.\<close>

definition compare_exchange :: "32 word \<Rightarrow> 32 word \<Rightarrow> 32 word \<Rightarrow> 32 word option \<times> 32 word" where
  "compare_exchange current new v = (if v = current then (None, new) else (Some v, v))"

lemma compare_exchange_None: "compare_exchange c n v = (None, v') \<longleftrightarrow> v = c \<and> v' = n"
  by (auto simp: compare_exchange_def)

lemma compare_exchange_Some: "compare_exchange c n v = (Some w, v') \<longleftrightarrow> v \<noteq> c \<and> w = v \<and> v' = v"
  by (auto simp: compare_exchange_def)

section \<open>RwLockReaderPreference\<close>

text \<open>
  The lock is its \<open>reader_count\<close>. Locations: in \<open>try_read_lock\<close> and in \<open>read_lock\<close> with a count to
  exchange; in front of and in the wait of a reader; before the count is loaded again; holding a read
  lock; before the exchange of \<open>write_lock\<close>; in front of and in the wait of a writer; holding the write
  lock; in \<open>unlock\<close> with the loaded count; before the wake.
\<close>

datatype rp_pc =
    RP_out
  | RP_try_read "32 word"
  | RP_read "32 word" nat bool
  | RP_read_wait nat
  | RP_read_sleep nat
  | RP_read_load nat bool
  | RP_reader
  | RP_write nat bool
  | RP_write_wait "32 word" nat
  | RP_write_sleep nat
  | RP_writer
  | RP_unlock bool "32 word"
  | RP_wake

definition ReaderPreference_try_read_lock :: "32 word \<Rightarrow> rp_pc" where
  "ReaderPreference_try_read_lock reader_count = (if reader_count = WRITE_LOCKED then RP_out else RP_try_read reader_count)"

text \<open>The inner loop of \<open>read_lock\<close> for a loaded count, up to its next access to the atomic.\<close>

definition ReaderPreference_read_lock_next :: "32 word \<Rightarrow> nat \<Rightarrow> bool \<Rightarrow> rp_pc" where
  "ReaderPreference_read_lock_next reader_count retry_counter keep_running =
     (if reader_count \<noteq> WRITE_LOCKED then RP_read reader_count retry_counter keep_running
      else if \<not> keep_running then RP_out
      else if retry_counter < SPIN_REPETITIONS then RP_read_load (retry_counter + 1) keep_running
      else RP_read_wait retry_counter)"

text \<open>The rest of a round of \<open>write_lock\<close> whose exchange has failed.\<close>

definition ReaderPreference_write_lock_next :: "32 word \<Rightarrow> nat \<Rightarrow> bool \<Rightarrow> rp_pc" where
  "ReaderPreference_write_lock_next reader_count retry_counter keep_running =
     (if \<not> keep_running then RP_out
      else if retry_counter < SPIN_REPETITIONS then RP_write (retry_counter + 1) keep_running
      else RP_write_wait reader_count retry_counter)"

definition ReaderPreference_unlock :: "32 word \<Rightarrow> 32 word \<Rightarrow> 32 word" where
  "ReaderPreference_unlock state reader_count = (if state = WRITE_LOCKED then UNLOCKED else reader_count - 1)"

fun rp_woken :: "rp_pc \<Rightarrow> bool \<Rightarrow> rp_pc option" where
  "rp_woken (RP_read_sleep r) k = Some (RP_read_load r k)"
| "rp_woken (RP_write_sleep r) k = Some (RP_write r k)"
| "rp_woken _ _ = None"

record rp_conf =
  rp_count :: "32 word"
  rp_pc :: "nat \<Rightarrow> rp_pc"

definition rp_start :: rp_conf where
  "rp_start = \<lparr>rp_count = UNLOCKED, rp_pc = (\<lambda>_. RP_out)\<rparr>"

inductive rp_step :: "nat \<Rightarrow> rp_conf \<Rightarrow> rp_conf \<Rightarrow> bool" for N where
  rp_call_try_read: "rp_pc s t = RP_out \<Longrightarrow> t < N \<Longrightarrow>
    rp_step N s (s\<lparr>rp_pc := (rp_pc s)(t := ReaderPreference_try_read_lock (rp_count s))\<rparr>)"
| rp_try_read: "rp_pc s t = RP_try_read c \<Longrightarrow> compare_exchange c (c + 1) (rp_count s) = (f, v) \<Longrightarrow>
    rp_step N s (s\<lparr>rp_count := v, rp_pc := (rp_pc s)(t := if f = None then RP_reader else RP_out)\<rparr>)"
| rp_call_read: "rp_pc s t = RP_out \<Longrightarrow> t < N \<Longrightarrow>
    rp_step N s (s\<lparr>rp_pc := (rp_pc s)(t := ReaderPreference_read_lock_next (rp_count s) 0 True)\<rparr>)"
| rp_read: "rp_pc s t = RP_read c r k \<Longrightarrow> compare_exchange c (c + 1) (rp_count s) = (f, v) \<Longrightarrow>
    rp_step N s (s\<lparr>rp_count := v,
      rp_pc := (rp_pc s)(t := case f of None \<Rightarrow> RP_reader | Some w \<Rightarrow> ReaderPreference_read_lock_next w r k)\<rparr>)"
| rp_read_sleep: "rp_pc s t = RP_read_wait r \<Longrightarrow> rp_count s = WRITE_LOCKED \<Longrightarrow>
    rp_step N s (s\<lparr>rp_pc := (rp_pc s)(t := RP_read_sleep r)\<rparr>)"
| rp_read_no_sleep: "rp_pc s t = RP_read_wait r \<Longrightarrow> rp_count s \<noteq> WRITE_LOCKED \<Longrightarrow>
    rp_step N s (s\<lparr>rp_pc := (rp_pc s)(t := RP_read_load r k)\<rparr>)"
| rp_read_load: "rp_pc s t = RP_read_load r k \<Longrightarrow>
    rp_step N s (s\<lparr>rp_pc := (rp_pc s)(t := ReaderPreference_read_lock_next (rp_count s) r k)\<rparr>)"
| rp_try_write: "rp_pc s t = RP_out \<Longrightarrow> t < N \<Longrightarrow> compare_exchange UNLOCKED WRITE_LOCKED (rp_count s) = (f, v) \<Longrightarrow>
    rp_step N s (s\<lparr>rp_count := v, rp_pc := (rp_pc s)(t := if f = None then RP_writer else RP_out)\<rparr>)"
| rp_call_write: "rp_pc s t = RP_out \<Longrightarrow> t < N \<Longrightarrow> rp_step N s (s\<lparr>rp_pc := (rp_pc s)(t := RP_write 0 True)\<rparr>)"
| rp_write: "rp_pc s t = RP_write r k \<Longrightarrow> compare_exchange UNLOCKED WRITE_LOCKED (rp_count s) = (f, v) \<Longrightarrow>
    rp_step N s (s\<lparr>rp_count := v,
      rp_pc := (rp_pc s)(t := case f of None \<Rightarrow> RP_writer | Some w \<Rightarrow> ReaderPreference_write_lock_next w r k)\<rparr>)"
| rp_write_sleep: "rp_pc s t = RP_write_wait v r \<Longrightarrow> rp_count s = v \<Longrightarrow>
    rp_step N s (s\<lparr>rp_pc := (rp_pc s)(t := RP_write_sleep r)\<rparr>)"
| rp_write_no_sleep: "rp_pc s t = RP_write_wait v r \<Longrightarrow> rp_count s \<noteq> v \<Longrightarrow>
    rp_step N s (s\<lparr>rp_pc := (rp_pc s)(t := RP_write r k)\<rparr>)"
| rp_wakeup: "rp_woken (rp_pc s t) k = Some p \<Longrightarrow> rp_step N s (s\<lparr>rp_pc := (rp_pc s)(t := p)\<rparr>)"
| rp_unlock_reader: "rp_pc s t = RP_reader \<Longrightarrow> rp_step N s (s\<lparr>rp_pc := (rp_pc s)(t := RP_unlock False (rp_count s))\<rparr>)"
| rp_unlock_writer: "rp_pc s t = RP_writer \<Longrightarrow> rp_step N s (s\<lparr>rp_pc := (rp_pc s)(t := RP_unlock True (rp_count s))\<rparr>)"
| rp_unlock: "rp_pc s t = RP_unlock w c \<Longrightarrow>
    rp_step N s (s\<lparr>rp_count := ReaderPreference_unlock c (rp_count s), rp_pc := (rp_pc s)(t := RP_wake)\<rparr>)"
| rp_wake: "rp_pc s t = RP_wake \<Longrightarrow> rp_woken (rp_pc s u) k = Some p \<Longrightarrow>
    rp_step N s (s\<lparr>rp_pc := (rp_pc s)(t := RP_out, u := p)\<rparr>)"
| rp_wake_nobody: "rp_pc s t = RP_wake \<Longrightarrow> \<forall>u. rp_woken (rp_pc s u) True = None \<Longrightarrow>
    rp_step N s (s\<lparr>rp_pc := (rp_pc s)(t := RP_out)\<rparr>)"

fun rp_reads :: "rp_pc \<Rightarrow> bool" where
  "rp_reads RP_reader = True"
| "rp_reads (RP_unlock w _) = (\<not> w)"
| "rp_reads _ = False"

fun rp_writes :: "rp_pc \<Rightarrow> bool" where
  "rp_writes RP_writer = True"
| "rp_writes (RP_unlock w _) = w"
| "rp_writes _ = False"

fun rp_fine :: "rp_pc \<Rightarrow> bool" where
  "rp_fine (RP_try_read c) = (c \<noteq> WRITE_LOCKED)"
| "rp_fine (RP_read c _ _) = (c \<noteq> WRITE_LOCKED)"
| "rp_fine (RP_unlock w c) = ((c = WRITE_LOCKED) = w)"
| "rp_fine _ = True"

text \<open>The count is that of the readers, or it is the mark of the one writer.\<close>

definition rp_inv :: "nat \<Rightarrow> rp_conf \<Rightarrow> bool" where
  "rp_inv N s \<longleftrightarrow> (\<forall>t. rp_pc s t \<noteq> RP_out \<longrightarrow> t < N) \<and> (\<forall>t. rp_fine (rp_pc s t))
     \<and> (rp_count s = WRITE_LOCKED \<and> threads rp_reads (rp_pc s) = {} \<and> (\<exists>t. threads rp_writes (rp_pc s) = {t})
       \<or> rp_count s \<noteq> WRITE_LOCKED \<and> threads rp_writes (rp_pc s) = {} \<and> unat (rp_count s) = card (threads rp_reads (rp_pc s)))"

lemma rp_inv_start: "rp_inv N rp_start"
  by (simp add: rp_inv_def rp_start_def threads_def UNLOCKED_def WRITE_LOCKED_def)

lemma rp_next_fine:
  "rp_fine (ReaderPreference_try_read_lock c)" "\<not> rp_reads (ReaderPreference_try_read_lock c)" "\<not> rp_writes (ReaderPreference_try_read_lock c)"
  "rp_fine (ReaderPreference_read_lock_next c r k)" "\<not> rp_reads (ReaderPreference_read_lock_next c r k)"
  "\<not> rp_writes (ReaderPreference_read_lock_next c r k)"
  "rp_fine (ReaderPreference_write_lock_next c r k)" "\<not> rp_reads (ReaderPreference_write_lock_next c r k)"
  "\<not> rp_writes (ReaderPreference_write_lock_next c r k)"
  by (auto simp: ReaderPreference_try_read_lock_def ReaderPreference_read_lock_next_def ReaderPreference_write_lock_next_def)

lemma rp_woken_fine: "rp_woken p k = Some p' \<Longrightarrow> rp_fine p' \<and> \<not> rp_reads p' \<and> \<not> rp_writes p' \<and> \<not> rp_reads p \<and> \<not> rp_writes p \<and> p \<noteq> RP_out"
  by (cases "(p, k)" rule: rp_woken.cases) auto

lemma rp_inv_local:
  assumes inv: "rp_inv N s" and p: "rp_reads p = rp_reads (rp_pc s t)" "rp_writes p = rp_writes (rp_pc s t)" "rp_fine p"
    and t: "t < N"
  shows "rp_inv N (s\<lparr>rp_pc := (rp_pc s)(t := p)\<rparr>)"
proof -
  have "threads rp_reads ((rp_pc s)(t := p)) = threads rp_reads (rp_pc s)"
    "threads rp_writes ((rp_pc s)(t := p)) = threads rp_writes (rp_pc s)"
    using p by (simp_all add: card_threads_same)
  then show ?thesis using inv p t by (simp add: rp_inv_def)
qed

lemma rp_inv_other: "rp_inv N s \<Longrightarrow> rp_pc s t \<noteq> RP_out \<Longrightarrow> t < N"
  by (simp add: rp_inv_def)

text \<open>Acquiring and releasing.\<close>

lemma rp_readers:
  assumes "rp_inv N s"
  shows "finite (threads rp_reads (rp_pc s))" "card (threads rp_reads (rp_pc s)) \<le> N"
proof -
  have "rp_reads (rp_pc s t) \<Longrightarrow> t < N" for t using assms by (intro rp_inv_other [OF assms]) auto
  then show "finite (threads rp_reads (rp_pc s))" "card (threads rp_reads (rp_pc s)) \<le> N"
    using threads_bounded [of rp_reads "rp_pc s" N] by blast+
qed

lemma rp_inv_read:
  assumes inv: "rp_inv N s" and N: "N < 2 ^ 32 - 1" and t: "\<not> rp_reads (rp_pc s t)" "\<not> rp_writes (rp_pc s t)" "t < N"
    and c: "rp_count s \<noteq> WRITE_LOCKED"
  shows "rp_inv N (s\<lparr>rp_count := rp_count s + 1, rp_pc := (rp_pc s)(t := RP_reader)\<rparr>)"
proof -
  let ?R = "threads rp_reads ((rp_pc s)(t := RP_reader))"
  have old: "threads rp_writes (rp_pc s) = {}" "unat (rp_count s) = card (threads rp_reads (rp_pc s))"
    using inv c by (auto simp: rp_inv_def)
  have R: "card ?R = Suc (card (threads rp_reads (rp_pc s)))" by (rule card_threads_add [OF rp_readers(1) [OF inv] t(1)]) simp
  have "rp_reads (((rp_pc s)(t := RP_reader)) u) \<Longrightarrow> u < N" for u
    using t(3) rp_inv_other [OF inv, of u] by (cases "u = t"; cases "rp_pc s u") auto
  then have "card ?R \<le> N" by (rule threads_bounded(2))
  then have small: "unat (rp_count s) + 1 < 2 ^ 32 - 1" using R old(2) N by simp
  then have "unat (rp_count s + 1) = unat (rp_count s) + 1" by (simp add: unat_word_ariths)
  moreover from this have "rp_count s + 1 \<noteq> WRITE_LOCKED" using small unat_WRITE_LOCKED by (metis less_irrefl)
  moreover have "threads rp_writes ((rp_pc s)(t := RP_reader)) = {}" using old(1) t(2) by (simp add: threads_update)
  ultimately show ?thesis using inv R old t(3) by (simp add: rp_inv_def)
qed

lemma rp_inv_write:
  assumes inv: "rp_inv N s" and t: "\<not> rp_reads (rp_pc s t)" "\<not> rp_writes (rp_pc s t)" "t < N" and c: "rp_count s = UNLOCKED"
  shows "rp_inv N (s\<lparr>rp_count := WRITE_LOCKED, rp_pc := (rp_pc s)(t := RP_writer)\<rparr>)"
proof -
  have "rp_count s \<noteq> WRITE_LOCKED" using c by (simp add: UNLOCKED_def WRITE_LOCKED_def)
  then have "threads rp_writes (rp_pc s) = {}" "threads rp_reads (rp_pc s) = {}"
    using inv c rp_readers(1) [OF inv] by (auto simp: rp_inv_def UNLOCKED_def)
  then show ?thesis using inv t by (simp add: rp_inv_def threads_update)
qed

lemma rp_inv_unlock:
  assumes inv: "rp_inv N s" and t: "rp_pc s t = RP_unlock w c"
  shows "rp_inv N (s\<lparr>rp_count := ReaderPreference_unlock c (rp_count s), rp_pc := (rp_pc s)(t := RP_wake)\<rparr>)"
proof (cases w)
  case True
  then have "t \<in> threads rp_writes (rp_pc s)" "c = WRITE_LOCKED" using inv t by (auto simp: threads_iff rp_inv_def dest!: spec [of _ t])
  then show ?thesis using inv rp_inv_other [OF inv, of t] t
    by (auto simp: rp_inv_def ReaderPreference_unlock_def threads_update UNLOCKED_def WRITE_LOCKED_def)
next
  case False
  then have m: "t \<in> threads rp_reads (rp_pc s)" and c: "c \<noteq> WRITE_LOCKED" using inv t by (auto simp: threads_iff rp_inv_def dest!: spec [of _ t])
  then have old: "threads rp_writes (rp_pc s) = {}" "unat (rp_count s) = card (threads rp_reads (rp_pc s))"
    "rp_count s \<noteq> WRITE_LOCKED"
    using inv by (auto simp: rp_inv_def)
  have R: "Suc (card (threads rp_reads ((rp_pc s)(t := RP_wake)))) = card (threads rp_reads (rp_pc s))"
    using m by (intro card_threads_remove rp_readers(1) [OF inv]) (simp_all add: threads_iff)
  then have "rp_count s \<noteq> 0" using old(2) by auto
  then have "Suc (unat (rp_count s - 1)) = unat (rp_count s)" by (rule unat_pred)
  moreover from this have "rp_count s - 1 \<noteq> WRITE_LOCKED" using unat_less_32 [of "rp_count s"] unat_WRITE_LOCKED by auto
  moreover have "threads rp_writes ((rp_pc s)(t := RP_wake)) = {}" using old(1) by (simp add: threads_update)
  ultimately show ?thesis
    using inv R old rp_inv_other [OF inv, of t] t c by (simp add: rp_inv_def ReaderPreference_unlock_def)
qed

lemma rp_inv_step:
  assumes inv: "rp_inv N s" and N: "N < 2 ^ 32 - 1" and step: "rp_step N s s'"
  shows "rp_inv N s'"
proof -
  have fine: "rp_fine (rp_pc s t)" for t using inv by (simp add: rp_inv_def)
  have lt: "rp_pc s t \<noteq> RP_out \<Longrightarrow> t < N" for t by (rule rp_inv_other [OF inv])
  note local = rp_inv_local [OF inv]
  show ?thesis
    using step
  proof cases
    case (rp_call_try_read t)
    then show ?thesis using local [OF _ _ rp_next_fine(1)] rp_next_fine(2,3) by simp
  next
    case (rp_try_read t c f v)
    show ?thesis
    proof (cases f)
      case None
      then show ?thesis
        using rp_inv_read [OF inv N, of t] rp_try_read fine [of t] lt [of t] by (simp add: compare_exchange_None)
    next
      case (Some w)
      then show ?thesis using rp_inv_local [OF inv, of RP_out t] rp_try_read lt [of t] by (simp add: compare_exchange_Some)
    qed
  next
    case (rp_call_read t)
    then show ?thesis using local [OF _ _ rp_next_fine(4)] rp_next_fine(5,6) by simp
  next
    case (rp_read t c r k f v)
    show ?thesis
    proof (cases f)
      case None
      then show ?thesis
        using rp_inv_read [OF inv N, of t] rp_read fine [of t] lt [of t] by (simp add: compare_exchange_None)
    next
      case (Some w)
      then show ?thesis
        using local [OF _ _ rp_next_fine(4) [of w r k], of t] rp_next_fine(5,6) rp_read lt [of t] by (simp add: compare_exchange_Some)
    qed
  next
    case (rp_read_sleep t r)
    then show ?thesis using local [of "RP_read_sleep r" t] lt [of t] by simp
  next
    case (rp_read_no_sleep t r k)
    then show ?thesis using local [of "RP_read_load r k" t] lt [of t] by simp
  next
    case (rp_read_load t r k)
    then show ?thesis using local [OF _ _ rp_next_fine(4)] rp_next_fine(5,6) lt [of t] by simp
  next
    case (rp_try_write t f v)
    show ?thesis
    proof (cases f)
      case None
      then show ?thesis using rp_inv_write [OF inv, of t] rp_try_write by (simp add: compare_exchange_None)
    next
      case (Some w)
      then show ?thesis using local [of RP_out t] rp_try_write by (simp add: compare_exchange_Some)
    qed
  next
    case (rp_call_write t)
    then show ?thesis using local [of "RP_write 0 True" t] by simp
  next
    case (rp_write t r k f v)
    show ?thesis
    proof (cases f)
      case None
      then show ?thesis using rp_inv_write [OF inv, of t] rp_write lt [of t] by (simp add: compare_exchange_None)
    next
      case (Some w)
      then show ?thesis
        using local [OF _ _ rp_next_fine(7) [of w r k], of t] rp_next_fine(8,9) rp_write lt [of t] by (simp add: compare_exchange_Some)
    qed
  next
    case (rp_write_sleep t v r)
    then show ?thesis using local [of "RP_write_sleep r" t] lt [of t] by simp
  next
    case (rp_write_no_sleep t v r k)
    then show ?thesis using local [of "RP_write r k" t] lt [of t] by simp
  next
    case (rp_wakeup t k p)
    then show ?thesis using local [of p t] lt [of t] rp_woken_fine [of "rp_pc s t" k p] by simp
  next
    case (rp_unlock_reader t)
    then have "t \<in> threads rp_reads (rp_pc s)" by (simp add: threads_iff)
    then have "rp_count s \<noteq> WRITE_LOCKED" using inv by (auto simp: rp_inv_def)
    then show ?thesis using local [of "RP_unlock False (rp_count s)" t] rp_unlock_reader lt [of t] by simp
  next
    case (rp_unlock_writer t)
    then have "t \<in> threads rp_writes (rp_pc s)" by (simp add: threads_iff)
    then have "rp_count s = WRITE_LOCKED" using inv by (auto simp: rp_inv_def)
    then show ?thesis using local [of "RP_unlock True (rp_count s)" t] rp_unlock_writer lt [of t] by simp
  next
    case (rp_unlock t w c)
    then show ?thesis using rp_inv_unlock [OF inv] by simp
  next
    case (rp_wake t u k p)
    have u: "rp_fine p \<and> \<not> rp_reads p \<and> \<not> rp_writes p \<and> \<not> rp_reads (rp_pc s u) \<and> \<not> rp_writes (rp_pc s u) \<and> rp_pc s u \<noteq> RP_out"
      using rp_woken_fine rp_wake by blast
    have ne: "t \<noteq> u" using rp_wake by auto
    have "rp_inv N (s\<lparr>rp_pc := (rp_pc s)(t := RP_out)\<rparr>)" using local [of RP_out t] lt [of t] rp_wake by simp
    from rp_inv_local [OF this, of p u] show ?thesis using u ne lt [of u] rp_wake by simp
  next
    case (rp_wake_nobody t)
    then show ?thesis using local [of RP_out t] lt [of t] by simp
  qed
qed

interpretation rp: inductive_invariant "\<lambda>s. s = rp_start" "rp_step N" "\<lambda>s. N < 2 ^ 32 - 1 \<longrightarrow> rp_inv N s"
  using rp_inv_start rp_inv_step by unfold_locales blast+

text \<open>
  C14: \<open>RwLockReaderPreference\<close> excludes: with fewer than \<open>u32::MAX\<close> threads, under every interleaving
  and whatever the waits do, a thread that holds the write lock is the only one that holds a lock; and
  the count is the number of readers as long as nobody writes.
\<close>
theorem reader_preference_exclusion:
  assumes "reachable (\<lambda>s. s = rp_start) (rp_step N) s" "N < 2 ^ 32 - 1"
  shows "if \<exists>t. rp_writes (rp_pc s t) then (\<exists>t. threads rp_writes (rp_pc s) = {t}) \<and> threads rp_reads (rp_pc s) = {}
    else unat (rp_count s) = card (threads rp_reads (rp_pc s))"
proof -
  have "rp_inv N s" using rp.reachable_inv [OF assms(1)] assms(2) by blast
  then show ?thesis by (auto simp: rp_inv_def threads_def)
qed

text \<open>Thread 0 writes; thread 1 has asked for a read lock in vain.\<close>

theorem reader_preference_exclusion_witness:
  "\<exists>s. reachable (\<lambda>s. s = rp_start) (rp_step 2) s \<and> rp_writes (rp_pc s 0) \<and> threads rp_reads (rp_pc s) = {}"
proof -
  let ?s = "\<lparr>rp_count = WRITE_LOCKED, rp_pc = (\<lambda>_. RP_out)(0 := RP_writer)\<rparr>"
  let ?s' = "\<lparr>rp_count = WRITE_LOCKED, rp_pc = (\<lambda>_. RP_out)(0 := RP_writer, 1 := RP_read_load 1 True)\<rparr>"
  have "reachable (\<lambda>s. s = rp_start) (rp_step 2) rp_start" by (rule reachable_init) simp
  moreover have "rp_step 2 rp_start ?s"
    using rp_step.rp_try_write [of rp_start 0 2 None WRITE_LOCKED] by (simp add: rp_start_def compare_exchange_def)
  ultimately have "reachable (\<lambda>s. s = rp_start) (rp_step 2) ?s" by (rule reachable_step)
  moreover have "rp_step 2 ?s ?s'"
    using rp_step.rp_call_read [of ?s 1 2] by (simp add: ReaderPreference_read_lock_next_def SPIN_REPETITIONS_def)
  ultimately have r: "reachable (\<lambda>s. s = rp_start) (rp_step 2) ?s'" by (rule reachable_step)
  have w: "rp_writes (rp_pc ?s' 0)" by simp
  then show ?thesis using reader_preference_exclusion [OF r] r by (intro exI [of _ ?s']) (auto split: if_splits)
qed

end
