(* ===== verification/RwLockWriter.thy ===== *)
theory RwLockWriter
  imports RwLock
begin

text \<open>
  \<open>RwLockWriterPreference\<close> of \<open>iceoryx2_pal/concurrency_primitives/src/rwlock.rs\<close>: an odd state tells
  that a writer waits; then new readers wait, too. Writers wait for a second atomic to change. The lock
  excludes, but a writer can miss the wakeup of the last reader.
\<close>

section \<open>RwLockWriterPreference\<close>

text \<open>
  Locations: in \<open>try_read_lock\<close> and in \<open>read_lock\<close> with a state to exchange; in front of and in the
  wait of a reader; before it loads the state again; holding a read lock. In \<open>write_lock\<close> before the
  exchange with \<open>WRITE_LOCKED\<close>, before the exchange that makes the state odd, before the load of the
  wake counter, in front of and in the wait, before it loads the state again, and before the exchange
  that takes the mark back when it gives up; holding the write lock. In \<open>unlock\<close> with the loaded
  state; before the wake counter is incremented, before one writer is woken, before all readers are.
  The flags of these tell whether the readers are woken, too.
\<close>

datatype wp_pc =
    WP_out
  | WP_try_read "32 word"
  | WP_read "32 word" nat bool
  | WP_read_wait "32 word" nat
  | WP_read_sleep nat
  | WP_read_load nat bool
  | WP_reader
  | WP_write "32 word" nat bool
  | WP_mark "32 word" nat
  | WP_write_counter nat
  | WP_write_wait "32 word" nat
  | WP_write_sleep nat
  | WP_write_load nat bool
  | WP_give_up "32 word"
  | WP_writer
  | WP_unlock bool "32 word"
  | WP_count bool
  | WP_wake_one bool
  | WP_wake_all

record RwLockWriterPreference =
  wp_state :: "32 word"
  wp_writer_wake_counter :: "32 word"

definition WriterPreference_new :: RwLockWriterPreference where
  "WriterPreference_new = \<lparr>wp_state = UNLOCKED, wp_writer_wake_counter = 0\<rparr>"

definition WriterPreference_try_read_lock :: "32 word \<Rightarrow> wp_pc" where
  "WriterPreference_try_read_lock state = (if state mod 2 = 1 then WP_out else WP_try_read state)"

definition WriterPreference_read_lock_next :: "32 word \<Rightarrow> nat \<Rightarrow> bool \<Rightarrow> wp_pc" where
  "WriterPreference_read_lock_next state retry_counter keep_running =
     (if state mod 2 = 1
      then if \<not> keep_running then WP_out
        else if retry_counter < SPIN_REPETITIONS then WP_read_load (retry_counter + 1) keep_running
        else WP_read_wait state retry_counter
      else WP_read state retry_counter keep_running)"

text \<open>\<open>write_lock\<close>: the end of a round, the loop that gives up, and the rounds.\<close>

definition WriterPreference_write_lock_spin :: "nat \<Rightarrow> wp_pc" where
  "WriterPreference_write_lock_spin retry_counter =
     (if retry_counter < SPIN_REPETITIONS then WP_write_load (retry_counter + 1) True else WP_write_counter retry_counter)"

definition WriterPreference_write_lock_give_up :: "32 word \<Rightarrow> wp_pc" where
  "WriterPreference_write_lock_give_up state =
     (if state mod 2 \<noteq> 0 \<and> state \<noteq> WRITE_LOCKED then WP_give_up state else WP_out)"

definition WriterPreference_write_lock_rest :: "32 word \<Rightarrow> nat \<Rightarrow> bool \<Rightarrow> wp_pc" where
  "WriterPreference_write_lock_rest state retry_counter keep_running =
     (if \<not> keep_running then WriterPreference_write_lock_give_up state
      else if state mod 2 = 0 then WP_mark state retry_counter
      else WriterPreference_write_lock_spin retry_counter)"

definition WriterPreference_write_lock_next :: "32 word \<Rightarrow> nat \<Rightarrow> bool \<Rightarrow> wp_pc" where
  "WriterPreference_write_lock_next state retry_counter keep_running =
     (if state \<le> 1 then WP_write state retry_counter keep_running
      else WriterPreference_write_lock_rest state retry_counter keep_running)"

text \<open>\<open>unlock\<close> for a loaded state: the new state, and where it leads.\<close>

definition WriterPreference_unlock :: "32 word \<Rightarrow> 32 word \<Rightarrow> 32 word \<times> wp_pc" where
  "WriterPreference_unlock loaded state =
     (if loaded = WRITE_LOCKED then (UNLOCKED, WP_count True)
      else (state - 2, if state = 3 then WP_count False else WP_out))"

record wp_conf =
  wp_lock :: RwLockWriterPreference
  wp_pc :: "nat \<Rightarrow> wp_pc"

definition wp_start :: wp_conf where
  "wp_start = \<lparr>wp_lock = WriterPreference_new, wp_pc = (\<lambda>_. WP_out)\<rparr>"

abbreviation wp_goto :: "wp_conf \<Rightarrow> nat \<Rightarrow> wp_pc \<Rightarrow> wp_conf" where
  "wp_goto s t p \<equiv> s\<lparr>wp_pc := (wp_pc s)(t := p)\<rparr>"

abbreviation wp_set :: "wp_conf \<Rightarrow> 32 word \<Rightarrow> nat \<Rightarrow> wp_pc \<Rightarrow> wp_conf" where
  "wp_set s v t p \<equiv> s\<lparr>wp_lock := (wp_lock s)\<lparr>wp_state := v\<rparr>, wp_pc := (wp_pc s)(t := p)\<rparr>"

text \<open>\<open>T\<close> says whether waits may end without a wake and may tell the caller to give up.\<close>

inductive wp_step :: "nat \<Rightarrow> bool \<Rightarrow> wp_conf \<Rightarrow> wp_conf \<Rightarrow> bool" for N T where
  wp_call_try_read: "wp_pc s t = WP_out \<Longrightarrow> t < N \<Longrightarrow>
    wp_step N T s (wp_goto s t (WriterPreference_try_read_lock (wp_state (wp_lock s))))"
| wp_try_read: "wp_pc s t = WP_try_read c \<Longrightarrow> compare_exchange c (c + 2) (wp_state (wp_lock s)) = (f, v) \<Longrightarrow>
    wp_step N T s (wp_set s v t (if f = None then WP_reader else WP_out))"
| wp_call_read: "wp_pc s t = WP_out \<Longrightarrow> t < N \<Longrightarrow>
    wp_step N T s (wp_goto s t (WriterPreference_read_lock_next (wp_state (wp_lock s)) 0 True))"
| wp_read: "wp_pc s t = WP_read c r k \<Longrightarrow> compare_exchange c (c + 2) (wp_state (wp_lock s)) = (f, v) \<Longrightarrow>
    wp_step N T s (wp_set s v t (case f of None \<Rightarrow> WP_reader | Some w \<Rightarrow> WriterPreference_read_lock_next w r k))"
| wp_read_sleep: "wp_pc s t = WP_read_wait c r \<Longrightarrow> wp_state (wp_lock s) = c \<Longrightarrow>
    wp_step N T s (wp_goto s t (WP_read_sleep r))"
| wp_read_no_sleep: "wp_pc s t = WP_read_wait c r \<Longrightarrow> wp_state (wp_lock s) \<noteq> c \<Longrightarrow> k \<or> T \<Longrightarrow>
    wp_step N T s (wp_goto s t (WP_read_load r k))"
| wp_read_timeout: "wp_pc s t = WP_read_sleep r \<Longrightarrow> T \<Longrightarrow> wp_step N T s (wp_goto s t (WP_read_load r k))"
| wp_read_load: "wp_pc s t = WP_read_load r k \<Longrightarrow>
    wp_step N T s (wp_goto s t (WriterPreference_read_lock_next (wp_state (wp_lock s)) r k))"
| wp_try_write: "wp_pc s t = WP_out \<Longrightarrow> t < N \<Longrightarrow> compare_exchange 0 WRITE_LOCKED (wp_state (wp_lock s)) = (f, v) \<Longrightarrow>
    wp_step N T s (wp_set s v t (if f = None then WP_writer else WP_out))"
| wp_call_write: "wp_pc s t = WP_out \<Longrightarrow> t < N \<Longrightarrow>
    wp_step N T s (wp_goto s t (WriterPreference_write_lock_next (wp_state (wp_lock s)) 0 True))"
| wp_write: "wp_pc s t = WP_write c r k \<Longrightarrow> compare_exchange c WRITE_LOCKED (wp_state (wp_lock s)) = (f, v) \<Longrightarrow>
    wp_step N T s (wp_set s v t (case f of None \<Rightarrow> WP_writer | Some w \<Rightarrow> WriterPreference_write_lock_rest w r k))"
| wp_give_up: "wp_pc s t = WP_give_up c \<Longrightarrow> compare_exchange c (c - 1) (wp_state (wp_lock s)) = (f, v) \<Longrightarrow>
    wp_step N T s (wp_set s v t (case f of None \<Rightarrow> WP_count True | Some w \<Rightarrow> WriterPreference_write_lock_give_up w))"
| wp_mark: "wp_pc s t = WP_mark c r \<Longrightarrow> compare_exchange c (c + 1) (wp_state (wp_lock s)) = (f, v) \<Longrightarrow>
    wp_step N T s (wp_set s v t (WriterPreference_write_lock_spin r))"
| wp_write_counter: "wp_pc s t = WP_write_counter r \<Longrightarrow>
    wp_step N T s (wp_goto s t (WP_write_wait (wp_writer_wake_counter (wp_lock s)) r))"
| wp_write_sleep: "wp_pc s t = WP_write_wait c r \<Longrightarrow> wp_writer_wake_counter (wp_lock s) = c \<Longrightarrow>
    wp_step N T s (wp_goto s t (WP_write_sleep r))"
| wp_write_no_sleep: "wp_pc s t = WP_write_wait c r \<Longrightarrow> wp_writer_wake_counter (wp_lock s) \<noteq> c \<Longrightarrow> k \<or> T \<Longrightarrow>
    wp_step N T s (wp_goto s t (WP_write_load r k))"
| wp_write_timeout: "wp_pc s t = WP_write_sleep r \<Longrightarrow> T \<Longrightarrow> wp_step N T s (wp_goto s t (WP_write_load r k))"
| wp_write_load: "wp_pc s t = WP_write_load r k \<Longrightarrow>
    wp_step N T s (wp_goto s t (WriterPreference_write_lock_next (wp_state (wp_lock s)) r k))"
| wp_unlock_reader: "wp_pc s t = WP_reader \<Longrightarrow> wp_step N T s (wp_goto s t (WP_unlock False (wp_state (wp_lock s))))"
| wp_unlock_writer: "wp_pc s t = WP_writer \<Longrightarrow> wp_step N T s (wp_goto s t (WP_unlock True (wp_state (wp_lock s))))"
| wp_unlock: "wp_pc s t = WP_unlock w c \<Longrightarrow> WriterPreference_unlock c (wp_state (wp_lock s)) = (v, p) \<Longrightarrow>
    wp_step N T s (wp_set s v t p)"
| wp_count: "wp_pc s t = WP_count all \<Longrightarrow>
    wp_step N T s (s\<lparr>wp_lock := (wp_lock s)\<lparr>wp_writer_wake_counter := wp_writer_wake_counter (wp_lock s) + 1\<rparr>,
      wp_pc := (wp_pc s)(t := WP_wake_one all)\<rparr>)"
| wp_wake_one: "wp_pc s t = WP_wake_one all \<Longrightarrow> wp_pc s u = WP_write_sleep r \<Longrightarrow> k \<or> T \<Longrightarrow>
    wp_step N T s (s\<lparr>wp_pc := (wp_pc s)(t := if all then WP_wake_all else WP_out, u := WP_write_load r k)\<rparr>)"
| wp_wake_nobody: "wp_pc s t = WP_wake_one all \<Longrightarrow> \<forall>u r. wp_pc s u \<noteq> WP_write_sleep r \<Longrightarrow>
    wp_step N T s (wp_goto s t (if all then WP_wake_all else WP_out))"
| wp_wake_all: "wp_pc s t = WP_wake_all \<Longrightarrow> (\<forall>u. k u) \<or> T \<Longrightarrow>
    wp_step N T s (s\<lparr>wp_pc := (\<lambda>u. case wp_pc s u of WP_read_sleep r \<Rightarrow> WP_read_load r (k u) | p \<Rightarrow> p)(t := WP_out)\<rparr>)"

section \<open>Exclusion\<close>

fun wp_reads :: "wp_pc \<Rightarrow> bool" where
  "wp_reads WP_reader = True"
| "wp_reads (WP_unlock w _) = (\<not> w)"
| "wp_reads _ = False"

fun wp_writes :: "wp_pc \<Rightarrow> bool" where
  "wp_writes WP_writer = True"
| "wp_writes (WP_unlock w _) = w"
| "wp_writes _ = False"

fun wp_fine :: "wp_pc \<Rightarrow> bool" where
  "wp_fine (WP_try_read c) = even (unat c)"
| "wp_fine (WP_read c _ _) = even (unat c)"
| "wp_fine (WP_write c _ _) = (c \<le> 1)"
| "wp_fine (WP_mark c _) = even (unat c)"
| "wp_fine (WP_give_up c) = (odd (unat c) \<and> c \<noteq> WRITE_LOCKED)"
| "wp_fine (WP_unlock w c) = ((c = WRITE_LOCKED) = w)"
| "wp_fine _ = True"

text \<open>The state is twice the number of the readers, plus one if writers wait, or the mark of the one writer.\<close>

definition wp_locked :: "32 word \<Rightarrow> nat set \<Rightarrow> nat set \<Rightarrow> bool" where
  "wp_locked v R W \<longleftrightarrow> v = WRITE_LOCKED \<and> R = {} \<and> (\<exists>t. W = {t})
     \<or> v \<noteq> WRITE_LOCKED \<and> W = {} \<and> unat v div 2 = card R"

definition wp_inv :: "nat \<Rightarrow> wp_conf \<Rightarrow> bool" where
  "wp_inv N s \<longleftrightarrow> (\<forall>t. wp_pc s t \<noteq> WP_out \<longrightarrow> t < N) \<and> (\<forall>t. wp_fine (wp_pc s t))
     \<and> wp_locked (wp_state (wp_lock s)) (threads wp_reads (wp_pc s)) (threads wp_writes (wp_pc s))"

lemma word_mod_2: "(v :: 32 word) mod 2 = 1 \<longleftrightarrow> odd (unat v)" "(v :: 32 word) mod 2 = 0 \<longleftrightarrow> even (unat v)"
  by (auto simp: word_unat_eq_iff unat_mod even_iff_mod_2_eq_zero odd_iff_mod_2_eq_one)

lemma wp_inv_start: "wp_inv N wp_start"
  by (simp add: wp_inv_def wp_start_def wp_locked_def threads_def WriterPreference_new_def UNLOCKED_def WRITE_LOCKED_def)

abbreviation wp_idle :: "wp_pc \<Rightarrow> bool" where
  "wp_idle p \<equiv> wp_fine p \<and> \<not> wp_reads p \<and> \<not> wp_writes p"

lemma wp_next_idle [simp]:
  "wp_idle (WriterPreference_try_read_lock c)" "wp_idle (WriterPreference_read_lock_next c r k)"
  "wp_idle (WriterPreference_write_lock_spin r)" "wp_idle (WriterPreference_write_lock_give_up c)"
  "wp_idle (WriterPreference_write_lock_rest c r k)" "wp_idle (WriterPreference_write_lock_next c r k)"
  by (auto simp: WriterPreference_try_read_lock_def WriterPreference_read_lock_next_def WriterPreference_write_lock_spin_def
      WriterPreference_write_lock_give_up_def WriterPreference_write_lock_rest_def WriterPreference_write_lock_next_def word_mod_2)

lemma wp_inv_other: "wp_inv N s \<Longrightarrow> wp_pc s t \<noteq> WP_out \<Longrightarrow> t < N"
  by (simp add: wp_inv_def)

text \<open>A step of one thread, with a new state.\<close>

lemma wp_inv_one:
  assumes inv: "wp_inv N s" and p: "wp_fine p" "t < N" and s': "wp_pc s' = (wp_pc s)(t := p)"
    and l: "wp_locked (wp_state (wp_lock s')) (threads wp_reads ((wp_pc s)(t := p))) (threads wp_writes ((wp_pc s)(t := p)))"
  shows "wp_inv N s'"
  using assms by (simp add: wp_inv_def)

lemma wp_inv_idle:
  assumes inv: "wp_inv N s" and p: "wp_idle p" "t < N" and t: "\<not> wp_reads (wp_pc s t)" "\<not> wp_writes (wp_pc s t)"
    and s': "wp_pc s' = (wp_pc s)(t := p)" "wp_state (wp_lock s') = wp_state (wp_lock s)"
  shows "wp_inv N s'"
proof (rule wp_inv_one [OF inv _ p(2) s'(1)])
  show "wp_locked (wp_state (wp_lock s')) (threads wp_reads ((wp_pc s)(t := p))) (threads wp_writes ((wp_pc s)(t := p)))"
    using inv p(1) t s'(2) by (simp add: wp_inv_def card_threads_same)
qed (use p in simp)

lemma wp_readers:
  assumes "wp_inv N s"
  shows "finite (threads wp_reads (wp_pc s))"
proof -
  have "wp_reads (wp_pc s t) \<Longrightarrow> t < N" for t by (rule wp_inv_other [OF assms]) auto
  then show ?thesis using threads_bounded [of wp_reads "wp_pc s" N] by blast
qed

lemma unat_add_small: "unat v + n < 2 ^ 32 \<Longrightarrow> unat (v + of_nat n :: 32 word) = unat v + n"
  by (simp add: unat_word_ariths unat_of_nat mod_simps)

text \<open>Taking and giving back a read lock.\<close>

lemma wp_inv_read:
  assumes inv: "wp_inv N s" and N: "N < 2 ^ 31 - 1" and t: "\<not> wp_reads (wp_pc s t)" "\<not> wp_writes (wp_pc s t)" "t < N"
    and c: "even (unat (wp_state (wp_lock s)))"
    and s': "wp_pc s' = (wp_pc s)(t := WP_reader)" "wp_state (wp_lock s') = wp_state (wp_lock s) + 2"
  shows "wp_inv N s'"
proof (rule wp_inv_one [OF inv _ t(3) s'(1)])
  let ?R = "threads wp_reads ((wp_pc s)(t := WP_reader))" and ?v = "wp_state (wp_lock s)"
  have "?v \<noteq> WRITE_LOCKED" using c by (auto simp: unat_WRITE_LOCKED)
  then have old: "threads wp_writes (wp_pc s) = {}" "unat ?v div 2 = card (threads wp_reads (wp_pc s))"
    using inv by (auto simp: wp_inv_def wp_locked_def)
  have R: "card ?R = Suc (card (threads wp_reads (wp_pc s)))" by (rule card_threads_add [OF wp_readers [OF inv] t(1)]) simp
  have "wp_reads (((wp_pc s)(t := WP_reader)) u) \<Longrightarrow> u < N" for u
    using t(3) wp_inv_other [OF inv, of u] by (cases "u = t"; cases "wp_pc s u") auto
  then have "card ?R \<le> N" by (rule threads_bounded(2))
  moreover have "unat ?v = 2 * card (threads wp_reads (wp_pc s))" using c old(2) by auto
  ultimately have small: "unat ?v + 2 < 2 ^ 32 - 1" using R N by simp
  then have v: "unat (?v + 2) = unat ?v + 2" using unat_add_small [of ?v 2] by simp
  moreover from this have "?v + 2 \<noteq> WRITE_LOCKED" using small unat_WRITE_LOCKED by (metis less_irrefl)
  moreover have "threads wp_writes ((wp_pc s)(t := WP_reader)) = {}" using old(1) by (simp add: threads_update)
  ultimately show "wp_locked (wp_state (wp_lock s')) ?R (threads wp_writes ((wp_pc s)(t := WP_reader)))"
    using R old s'(2) by (simp add: wp_locked_def)
qed simp

lemma unat_sub_small: "n \<le> unat v \<Longrightarrow> unat (v - of_nat n :: 32 word) = unat v - n"
  using unat_less_32 [of v] by (simp add: unat_sub word_le_nat_alt unat_of_nat)

lemma wp_inv_unlock:
  assumes inv: "wp_inv N s" and t: "wp_pc s t = WP_unlock w c"
    and u: "WriterPreference_unlock c (wp_state (wp_lock s)) = (v, p)"
    and s': "wp_pc s' = (wp_pc s)(t := p)" "wp_state (wp_lock s') = v"
  shows "wp_inv N s'"
proof -
  have lt: "t < N" using wp_inv_other [OF inv, of t] t by simp
  have p: "wp_idle p" using u by (auto simp: WriterPreference_unlock_def split: if_splits)
  have cw: "(c = WRITE_LOCKED) = w" using inv t by (auto simp: wp_inv_def dest!: spec [of _ t])
  show ?thesis
  proof (cases w)
    case True
    then have "t \<in> threads wp_writes (wp_pc s)" using t by (simp add: threads_iff)
    then have "threads wp_writes (wp_pc s) = {t}" "threads wp_reads (wp_pc s) = {}" using inv by (auto simp: wp_inv_def wp_locked_def)
    then show ?thesis
      using u True cw p s' lt by (intro wp_inv_one [OF inv _ lt s'(1)])
        (auto simp: wp_locked_def WriterPreference_unlock_def threads_update UNLOCKED_def WRITE_LOCKED_def)
  next
    case False
    let ?v = "wp_state (wp_lock s)"
    have m: "wp_reads (wp_pc s t)" using t False by simp
    then have old: "threads wp_writes (wp_pc s) = {}" "unat ?v div 2 = card (threads wp_reads (wp_pc s))" "?v \<noteq> WRITE_LOCKED"
      using inv by (auto simp: wp_inv_def wp_locked_def threads_def)
    have R: "Suc (card (threads wp_reads ((wp_pc s)(t := p)))) = card (threads wp_reads (wp_pc s))"
      using p by (intro card_threads_remove [OF wp_readers [OF inv] m]) simp
    then have "2 \<le> unat ?v" using old(2) by linarith
    then have v: "unat (?v - 2) = unat ?v - 2" using unat_sub_small [of 2 ?v] by simp
    moreover have "unat ?v - 2 < 2 ^ 32 - 1" using unat_less_32 [of ?v] \<open>2 \<le> unat ?v\<close> by simp
    ultimately have "?v - 2 \<noteq> WRITE_LOCKED" using unat_WRITE_LOCKED by (metis less_irrefl)
    moreover have "threads wp_writes ((wp_pc s)(t := p)) = {}" using old(1) p by (simp add: threads_update)
    moreover have "v = ?v - 2" using u cw False by (simp add: WriterPreference_unlock_def)
    ultimately show ?thesis
      using R old v p s' lt by (intro wp_inv_one [OF inv _ lt s'(1)]) (simp_all add: wp_locked_def)
  qed
qed

text \<open>Taking the write lock, and setting or clearing the mark of the waiting writers.\<close>

lemma wp_inv_write:
  assumes inv: "wp_inv N s" and t: "\<not> wp_reads (wp_pc s t)" "\<not> wp_writes (wp_pc s t)" "t < N" and c: "wp_state (wp_lock s) \<le> 1"
    and s': "wp_pc s' = (wp_pc s)(t := WP_writer)" "wp_state (wp_lock s') = WRITE_LOCKED"
  shows "wp_inv N s'"
proof (rule wp_inv_one [OF inv _ t(3) s'(1)])
  have "unat (wp_state (wp_lock s)) \<le> 1" using c by (simp add: word_le_nat_alt)
  then have "unat (wp_state (wp_lock s)) div 2 = 0" "wp_state (wp_lock s) \<noteq> WRITE_LOCKED" using unat_WRITE_LOCKED by auto
  then have "threads wp_writes (wp_pc s) = {}" "threads wp_reads (wp_pc s) = {}"
    using inv wp_readers [OF inv] by (auto simp: wp_inv_def wp_locked_def)
  then show "wp_locked (wp_state (wp_lock s')) (threads wp_reads ((wp_pc s)(t := WP_writer))) (threads wp_writes ((wp_pc s)(t := WP_writer)))"
    using t s'(2) by (simp add: wp_locked_def threads_update)
qed simp

lemma wp_inv_same_readers:
  assumes inv: "wp_inv N s" and p: "wp_idle p" "t < N" and t: "\<not> wp_reads (wp_pc s t)" "\<not> wp_writes (wp_pc s t)"
    and v: "wp_state (wp_lock s) \<noteq> WRITE_LOCKED" "v \<noteq> WRITE_LOCKED" "unat v div 2 = unat (wp_state (wp_lock s)) div 2"
    and s': "wp_pc s' = (wp_pc s)(t := p)" "wp_state (wp_lock s') = v"
  shows "wp_inv N s'"
proof (rule wp_inv_one [OF inv _ p(2) s'(1)])
  show "wp_locked (wp_state (wp_lock s')) (threads wp_reads ((wp_pc s)(t := p))) (threads wp_writes ((wp_pc s)(t := p)))"
    using inv p(1) t s'(2) v by (simp add: wp_inv_def wp_locked_def card_threads_same)
qed (use p in simp)

lemma wp_state_even: "even (unat v) \<Longrightarrow> v \<noteq> WRITE_LOCKED"
  by (auto simp: unat_WRITE_LOCKED)

lemma wp_inv_mark:
  assumes inv: "wp_inv N s" and N: "N < 2 ^ 31 - 1" and p: "wp_idle p" "t < N" and t: "\<not> wp_reads (wp_pc s t)" "\<not> wp_writes (wp_pc s t)"
    and c: "even (unat (wp_state (wp_lock s)))"
    and s': "wp_pc s' = (wp_pc s)(t := p)" "wp_state (wp_lock s') = wp_state (wp_lock s) + 1"
  shows "wp_inv N s'"
proof (rule wp_inv_same_readers [OF inv p t _ _ _ s'])
  let ?v = "wp_state (wp_lock s)"
  show "?v \<noteq> WRITE_LOCKED" using c by (rule wp_state_even)
  then have "unat ?v div 2 = card (threads wp_reads (wp_pc s))" using inv by (auto simp: wp_inv_def wp_locked_def)
  moreover have "card (threads wp_reads (wp_pc s)) \<le> N"
  proof (rule threads_bounded(2))
    show "wp_reads (wp_pc s u) \<Longrightarrow> u < N" for u by (rule wp_inv_other [OF inv]) auto
  qed
  ultimately have small: "unat ?v + 1 < 2 ^ 32 - 1" using c N by auto
  then have v: "unat (?v + 1) = unat ?v + 1" using unat_add_small [of ?v 1] by simp
  then show "?v + 1 \<noteq> WRITE_LOCKED" using small unat_WRITE_LOCKED by (metis less_irrefl)
  show "unat (?v + 1) div 2 = unat ?v div 2" using v c by simp
qed

lemma wp_inv_unmark:
  assumes inv: "wp_inv N s" and p: "wp_idle p" "t < N" and t: "\<not> wp_reads (wp_pc s t)" "\<not> wp_writes (wp_pc s t)"
    and c: "odd (unat (wp_state (wp_lock s)))" "wp_state (wp_lock s) \<noteq> WRITE_LOCKED"
    and s': "wp_pc s' = (wp_pc s)(t := p)" "wp_state (wp_lock s') = wp_state (wp_lock s) - 1"
  shows "wp_inv N s'"
proof (rule wp_inv_same_readers [OF inv p t c(2) _ _ s'])
  let ?v = "wp_state (wp_lock s)"
  have "1 \<le> unat ?v" using c(1) by (cases "unat ?v") auto
  then have v: "unat (?v - 1) = unat ?v - 1" using unat_sub_small [of 1 ?v] by simp
  then show "?v - 1 \<noteq> WRITE_LOCKED" using c(1) by (intro wp_state_even) simp
  show "unat (?v - 1) div 2 = unat ?v div 2" using v c by (auto elim!: oddE)
qed

lemma wp_inv_woken:
  assumes inv: "wp_inv N s" and q: "\<And>u. q u = wp_pc s u \<or> wp_idle (q u) \<and> wp_idle (wp_pc s u) \<and> wp_pc s u \<noteq> WP_out"
  shows "wp_inv N (s\<lparr>wp_pc := q\<rparr>)"
proof -
  have "wp_reads (q u) = wp_reads (wp_pc s u)" "wp_writes (q u) = wp_writes (wp_pc s u)" for u using q [of u] by auto
  then have "threads wp_reads q = threads wp_reads (wp_pc s)" "threads wp_writes q = threads wp_writes (wp_pc s)"
    by (simp_all add: threads_def)
  moreover have "wp_fine (q u)" "q u \<noteq> WP_out \<Longrightarrow> u < N" for u using q [of u] inv by (auto simp: wp_inv_def)
  ultimately show ?thesis using inv by (simp add: wp_inv_def)
qed

lemma wp_inv_step:
  assumes inv: "wp_inv N s" and N: "N < 2 ^ 31 - 1" and step: "wp_step N T s s'"
  shows "wp_inv N s'"
proof -
  have fine: "wp_fine (wp_pc s t)" for t using inv by (simp add: wp_inv_def)
  have lt: "wp_pc s t \<noteq> WP_out \<Longrightarrow> t < N" for t by (rule wp_inv_other [OF inv])
  note idle = wp_inv_idle [OF inv, where s' = s']
  show ?thesis
    using step
  proof cases
    case (wp_call_try_read t)
    then show ?thesis using idle [OF wp_next_idle(1), of t] by simp
  next
    case (wp_try_read t c f v)
    show ?thesis
    proof (cases f)
      case None
      then show ?thesis using wp_inv_read [OF inv N, of t s'] wp_try_read fine [of t] lt [of t] by (simp add: compare_exchange_None)
    next
      case (Some w)
      then show ?thesis using idle [of WP_out t] wp_try_read lt [of t] by (simp add: compare_exchange_Some)
    qed
  next
    case (wp_call_read t)
    then show ?thesis using idle [OF wp_next_idle(2), of t] by simp
  next
    case (wp_read t c r k f v)
    show ?thesis
    proof (cases f)
      case None
      then show ?thesis using wp_inv_read [OF inv N, of t s'] wp_read fine [of t] lt [of t] by (simp add: compare_exchange_None)
    next
      case (Some w)
      then show ?thesis using idle [OF wp_next_idle(2), of t w r k] wp_read lt [of t] by (simp add: compare_exchange_Some)
    qed
  next
    case (wp_read_sleep t c r)
    then show ?thesis using idle [of "WP_read_sleep r" t] lt [of t] by simp
  next
    case (wp_read_no_sleep t c r k)
    then show ?thesis using idle [of "WP_read_load r k" t] lt [of t] by simp
  next
    case (wp_read_timeout t r k)
    then show ?thesis using idle [of "WP_read_load r k" t] lt [of t] by simp
  next
    case (wp_read_load t r k)
    then show ?thesis using idle [OF wp_next_idle(2), of t] lt [of t] by simp
  next
    case (wp_try_write t f v)
    show ?thesis
    proof (cases f)
      case None
      then show ?thesis using wp_inv_write [OF inv, of t s'] wp_try_write by (simp add: compare_exchange_None)
    next
      case (Some w)
      then show ?thesis using idle [of WP_out t] wp_try_write by (simp add: compare_exchange_Some)
    qed
  next
    case (wp_call_write t)
    then show ?thesis using idle [OF wp_next_idle(6), of t] by simp
  next
    case (wp_write t c r k f v)
    show ?thesis
    proof (cases f)
      case None
      then show ?thesis using wp_inv_write [OF inv, of t s'] wp_write fine [of t] lt [of t] by (simp add: compare_exchange_None)
    next
      case (Some w)
      then show ?thesis using idle [OF wp_next_idle(5), of t w r k] wp_write lt [of t] by (simp add: compare_exchange_Some)
    qed
  next
    case (wp_give_up t c f v)
    show ?thesis
    proof (cases f)
      case None
      then show ?thesis
        using wp_inv_unmark [OF inv, of "WP_count True" t s'] wp_give_up fine [of t] lt [of t] by (simp add: compare_exchange_None)
    next
      case (Some w)
      then show ?thesis using idle [OF wp_next_idle(4), of t w] wp_give_up lt [of t] by (simp add: compare_exchange_Some)
    qed
  next
    case (wp_mark t c r f v)
    show ?thesis
    proof (cases f)
      case None
      then show ?thesis
        using wp_inv_mark [OF inv N wp_next_idle(3), of t s' r] wp_mark fine [of t] lt [of t] by (simp add: compare_exchange_None)
    next
      case (Some w)
      then show ?thesis using idle [OF wp_next_idle(3), of t r] wp_mark lt [of t] by (simp add: compare_exchange_Some)
    qed
  next
    case (wp_write_counter t r)
    then show ?thesis using idle [of "WP_write_wait (wp_writer_wake_counter (wp_lock s)) r" t] lt [of t] by simp
  next
    case (wp_write_sleep t c r)
    then show ?thesis using idle [of "WP_write_sleep r" t] lt [of t] by simp
  next
    case (wp_write_no_sleep t c r k)
    then show ?thesis using idle [of "WP_write_load r k" t] lt [of t] by simp
  next
    case (wp_write_timeout t r k)
    then show ?thesis using idle [of "WP_write_load r k" t] lt [of t] by simp
  next
    case (wp_write_load t r k)
    then show ?thesis using idle [OF wp_next_idle(6), of t] lt [of t] by simp
  next
    case (wp_unlock_reader t)
    then have "t \<in> threads wp_reads (wp_pc s)" by (simp add: threads_iff)
    then have "wp_state (wp_lock s) \<noteq> WRITE_LOCKED" using inv by (auto simp: wp_inv_def wp_locked_def)
    then show ?thesis using wp_inv_one [OF inv, of "WP_unlock False (wp_state (wp_lock s))" t s'] wp_unlock_reader lt [of t] inv
      by (simp add: card_threads_same wp_inv_def)
  next
    case (wp_unlock_writer t)
    then have "t \<in> threads wp_writes (wp_pc s)" by (simp add: threads_iff)
    then have "wp_state (wp_lock s) = WRITE_LOCKED" using inv by (auto simp: wp_inv_def wp_locked_def)
    then show ?thesis using wp_inv_one [OF inv, of "WP_unlock True (wp_state (wp_lock s))" t s'] wp_unlock_writer lt [of t] inv
      by (simp add: card_threads_same wp_inv_def)
  next
    case (wp_unlock t w c v p)
    then show ?thesis using wp_inv_unlock [OF inv, of t w c v p s'] by simp
  next
    case (wp_count t all)
    then show ?thesis using idle [of "WP_wake_one all" t] lt [of t] by simp
  next
    case (wp_wake_one t all u r k)
    then show ?thesis using wp_inv_woken [OF inv, of "(wp_pc s)(t := if all then WP_wake_all else WP_out, u := WP_write_load r k)"] by auto
  next
    case (wp_wake_nobody t all)
    then show ?thesis using idle [of "if all then WP_wake_all else WP_out" t] lt [of t] by simp
  next
    case (wp_wake_all t k)
    have "wp_inv N (s\<lparr>wp_pc := (\<lambda>u. case wp_pc s u of WP_read_sleep r \<Rightarrow> WP_read_load r (k u) | p \<Rightarrow> p)(t := WP_out)\<rparr>)"
      using wp_wake_all by (intro wp_inv_woken [OF inv]) (auto split: wp_pc.splits)
    then show ?thesis using wp_wake_all by simp
  qed
qed

interpretation wp: inductive_invariant "\<lambda>s. s = wp_start" "wp_step N T" "\<lambda>s. N < 2 ^ 31 - 1 \<longrightarrow> wp_inv N s"
  using wp_inv_start wp_inv_step by unfold_locales blast+

text \<open>
  C13: \<open>RwLockWriterPreference\<close> excludes: with fewer than \<open>2 ^ 31 - 1\<close> threads, under every interleaving
  of lockers that wait, mark the lock, time out and give up, a thread that holds the write lock is the
  only one that holds a lock; and half of the state is the number of the readers as long as nobody writes.
\<close>
theorem writer_preference_exclusion:
  assumes "reachable (\<lambda>s. s = wp_start) (wp_step N T) s" "N < 2 ^ 31 - 1"
  shows "if \<exists>t. wp_writes (wp_pc s t) then (\<exists>t. threads wp_writes (wp_pc s) = {t}) \<and> threads wp_reads (wp_pc s) = {}
    else unat (wp_state (wp_lock s)) div 2 = card (threads wp_reads (wp_pc s))"
proof -
  have "wp_inv N s" using wp.reachable_inv [OF assms(1)] assms(2) by blast
  then show ?thesis by (auto simp: wp_inv_def wp_locked_def threads_def)
qed

section \<open>The lost wakeup\<close>

text \<open>
  Thread 0 reads, thread 1 wants to write and marks the lock. When it has spun for long enough, it is
  about to load the wake counter. Now thread 0 unlocks: it increments the counter and finds nobody to
  wake. Thread 1 loads the new counter and sleeps. Thread 2 wants to read, finds the lock marked, and
  sleeps, too.
\<close>

definition wp_three :: "32 word \<Rightarrow> 32 word \<Rightarrow> wp_pc \<Rightarrow> wp_pc \<Rightarrow> wp_pc \<Rightarrow> wp_conf" where
  "wp_three v c p0 p1 p2 = \<lparr>wp_lock = \<lparr>wp_state = v, wp_writer_wake_counter = c\<rparr>,
     wp_pc = (\<lambda>t. if t = 0 then p0 else if t = 1 then p1 else if t = 2 then p2 else WP_out)\<rparr>"

abbreviation wp_reach :: "bool \<Rightarrow> wp_conf \<Rightarrow> bool" where
  "wp_reach T \<equiv> reachable (\<lambda>s. s = wp_start) (wp_step 3 T)"

definition wp_stuck :: wp_conf where
  "wp_stuck = wp_three 1 1 WP_out (WP_write_sleep 10000) (WP_read_sleep 10000)"

lemma wp_three_simps:
  "wp_state (wp_lock (wp_three v c p0 p1 p2)) = v" "wp_writer_wake_counter (wp_lock (wp_three v c p0 p1 p2)) = c"
  "wp_pc (wp_three v c p0 p1 p2) 0 = p0" "wp_pc (wp_three v c p0 p1 p2) 1 = p1" "wp_pc (wp_three v c p0 p1 p2) (Suc 0) = p1"
  "wp_pc (wp_three v c p0 p1 p2) 2 = p2"
  "wp_goto (wp_three v c p0 p1 p2) 0 q = wp_three v c q p1 p2" "wp_goto (wp_three v c p0 p1 p2) 1 q = wp_three v c p0 q p2"
  "wp_goto (wp_three v c p0 p1 p2) (Suc 0) q = wp_three v c p0 q p2" "wp_goto (wp_three v c p0 p1 p2) 2 q = wp_three v c p0 p1 q"
  "wp_set (wp_three v c p0 p1 p2) w (Suc 0) q = wp_three w c p0 q p2"
  "wp_set (wp_three v c p0 p1 p2) w 0 q = wp_three w c q p1 p2" "wp_set (wp_three v c p0 p1 p2) w 1 q = wp_three w c p0 q p2"
  "(wp_three v c p0 p1 p2)\<lparr>wp_lock := (wp_lock (wp_three v c p0 p1 p2))\<lparr>wp_writer_wake_counter := d\<rparr>,
     wp_pc := (wp_pc (wp_three v c p0 p1 p2))(0 := q)\<rparr> = wp_three v d q p1 p2"
  by (auto simp: wp_three_def fun_eq_iff)

lemma wp_reach_start: "wp_reach T (wp_three 0 0 WP_out WP_out WP_out)"
proof -
  have "wp_three 0 0 WP_out WP_out WP_out = wp_start"
    by (simp add: wp_three_def wp_start_def WriterPreference_new_def UNLOCKED_def fun_eq_iff)
  then show ?thesis by (metis (mono_tags) reachable_init)
qed

lemma wp_reach_reader: "wp_reach T (wp_three 2 0 WP_reader WP_out WP_out)"
proof -
  have "wp_step 3 T (wp_three 0 0 WP_out WP_out WP_out) (wp_three 0 0 (WP_try_read 0) WP_out WP_out)"
    using wp_step.wp_call_try_read [of "wp_three 0 0 WP_out WP_out WP_out" 0 3 T]
    by (simp add: wp_three_simps WriterPreference_try_read_lock_def)
  with wp_reach_start have "wp_reach T (wp_three 0 0 (WP_try_read 0) WP_out WP_out)" by (rule reachable_step)
  moreover have "wp_step 3 T (wp_three 0 0 (WP_try_read 0) WP_out WP_out) (wp_three 2 0 WP_reader WP_out WP_out)"
    using wp_step.wp_try_read [of "wp_three 0 0 (WP_try_read 0) WP_out WP_out" 0 0 None 2 3 T]
    by (simp add: wp_three_simps compare_exchange_def)
  ultimately show ?thesis by (rule reachable_step)
qed

lemma wp_odd_three: "(3 :: 32 word) mod 2 = 1" "(2 :: 32 word) mod 2 = 0" "\<not> (2 :: 32 word) \<le> 1" "\<not> (3 :: 32 word) \<le> 1"
  by (simp_all add: word_mod_2 word_le_nat_alt)

lemma wp_reach_spin:
  assumes "r < SPIN_REPETITIONS"
  shows "wp_reach T (wp_three 3 0 WP_reader (WP_write_load (Suc r) True) WP_out)"
  using assms
proof (induction r)
  case 0
  have "wp_step 3 T (wp_three 2 0 WP_reader WP_out WP_out) (wp_three 2 0 WP_reader (WP_mark 2 0) WP_out)"
    using wp_step.wp_call_write [of "wp_three 2 0 WP_reader WP_out WP_out" 1 3 T] wp_odd_three
    by (simp add: wp_three_simps WriterPreference_write_lock_next_def WriterPreference_write_lock_rest_def)
  with wp_reach_reader have "wp_reach T (wp_three 2 0 WP_reader (WP_mark 2 0) WP_out)" by (rule reachable_step)
  moreover have "wp_step 3 T (wp_three 2 0 WP_reader (WP_mark 2 0) WP_out) (wp_three 3 0 WP_reader (WP_write_load 1 True) WP_out)"
    using wp_step.wp_mark [of "wp_three 2 0 WP_reader (WP_mark 2 0) WP_out" 1 2 0 None 3 3 T]
    by (simp add: wp_three_simps compare_exchange_def WriterPreference_write_lock_spin_def SPIN_REPETITIONS_def)
  ultimately have "wp_reach T (wp_three 3 0 WP_reader (WP_write_load 1 True) WP_out)" by (rule reachable_step)
  then show ?case by simp
next
  case (Suc r)
  then have "wp_reach T (wp_three 3 0 WP_reader (WP_write_load (Suc r) True) WP_out)" by simp
  moreover have "wp_step 3 T (wp_three 3 0 WP_reader (WP_write_load (Suc r) True) WP_out)
      (wp_three 3 0 WP_reader (WP_write_load (Suc (Suc r)) True) WP_out)"
    using wp_step.wp_write_load [of "wp_three 3 0 WP_reader (WP_write_load (Suc r) True) WP_out" 1 "Suc r" True 3 T] Suc.prems wp_odd_three
    by (simp add: wp_three_simps WriterPreference_write_lock_next_def WriterPreference_write_lock_rest_def WriterPreference_write_lock_spin_def)
  ultimately show ?case by (rule reachable_step)
qed

text \<open>Thread 0 unlocks before thread 1 loads the wake counter.\<close>

lemma wp_reach_missed: "wp_reach T (wp_three 1 1 WP_out (WP_write_counter 10000) WP_out)"
proof -
  let ?w = "WP_write_counter 10000"
  have "wp_reach T (wp_three 3 0 WP_reader (WP_write_load 10000 True) WP_out)"
    using wp_reach_spin [of 9999] by (simp add: SPIN_REPETITIONS_def)
  moreover have "wp_step 3 T (wp_three 3 0 WP_reader (WP_write_load 10000 True) WP_out) (wp_three 3 0 WP_reader ?w WP_out)"
    using wp_step.wp_write_load [of "wp_three 3 0 WP_reader (WP_write_load 10000 True) WP_out" 1 10000 True 3 T] wp_odd_three
    by (simp add: wp_three_simps WriterPreference_write_lock_next_def WriterPreference_write_lock_rest_def
        WriterPreference_write_lock_spin_def SPIN_REPETITIONS_def)
  ultimately have "wp_reach T (wp_three 3 0 WP_reader ?w WP_out)" by (rule reachable_step)
  moreover have "wp_step 3 T (wp_three 3 0 WP_reader ?w WP_out) (wp_three 3 0 (WP_unlock False 3) ?w WP_out)"
    using wp_step.wp_unlock_reader [of "wp_three 3 0 WP_reader ?w WP_out" 0 3 T] by (simp add: wp_three_simps)
  ultimately have "wp_reach T (wp_three 3 0 (WP_unlock False 3) ?w WP_out)" by (rule reachable_step)
  moreover have "wp_step 3 T (wp_three 3 0 (WP_unlock False 3) ?w WP_out) (wp_three 1 0 (WP_count False) ?w WP_out)"
    using wp_step.wp_unlock [of "wp_three 3 0 (WP_unlock False 3) ?w WP_out" 0 False 3 1 "WP_count False" 3 T]
    by (simp add: wp_three_simps WriterPreference_unlock_def WRITE_LOCKED_def)
  ultimately have "wp_reach T (wp_three 1 0 (WP_count False) ?w WP_out)" by (rule reachable_step)
  moreover have "wp_step 3 T (wp_three 1 0 (WP_count False) ?w WP_out) (wp_three 1 1 (WP_wake_one False) ?w WP_out)"
    using wp_step.wp_count [of "wp_three 1 0 (WP_count False) ?w WP_out" 0 False 3 T] by (simp add: wp_three_simps)
  ultimately have "wp_reach T (wp_three 1 1 (WP_wake_one False) ?w WP_out)" by (rule reachable_step)
  moreover have "wp_step 3 T (wp_three 1 1 (WP_wake_one False) ?w WP_out) (wp_three 1 1 WP_out ?w WP_out)"
    using wp_step.wp_wake_nobody [of "wp_three 1 1 (WP_wake_one False) ?w WP_out" 0 False 3 T]
    by (simp add: wp_three_simps) (simp add: wp_three_def)
  ultimately show ?thesis by (rule reachable_step)
qed

lemma wp_reach_writer_sleeps: "wp_reach T (wp_three 1 1 WP_out (WP_write_sleep 10000) WP_out)"
proof -
  have "wp_step 3 T (wp_three 1 1 WP_out (WP_write_counter 10000) WP_out) (wp_three 1 1 WP_out (WP_write_wait 1 10000) WP_out)"
    using wp_step.wp_write_counter [of "wp_three 1 1 WP_out (WP_write_counter 10000) WP_out" 1 10000 3 T] by (simp add: wp_three_simps)
  with wp_reach_missed have "wp_reach T (wp_three 1 1 WP_out (WP_write_wait 1 10000) WP_out)" by (rule reachable_step)
  moreover have "wp_step 3 T (wp_three 1 1 WP_out (WP_write_wait 1 10000) WP_out) (wp_three 1 1 WP_out (WP_write_sleep 10000) WP_out)"
    using wp_step.wp_write_sleep [of "wp_three 1 1 WP_out (WP_write_wait 1 10000) WP_out" 1 1 10000 3 T] by (simp add: wp_three_simps)
  ultimately show ?thesis by (rule reachable_step)
qed

lemma wp_reach_second_reader:
  assumes "r < SPIN_REPETITIONS"
  shows "wp_reach T (wp_three 1 1 WP_out (WP_write_sleep 10000) (WP_read_load (Suc r) True))"
  using assms
proof (induction r)
  case 0
  have "wp_step 3 T (wp_three 1 1 WP_out (WP_write_sleep 10000) WP_out) (wp_three 1 1 WP_out (WP_write_sleep 10000) (WP_read_load 1 True))"
    using wp_step.wp_call_read [of "wp_three 1 1 WP_out (WP_write_sleep 10000) WP_out" 2 3 T]
    by (simp add: wp_three_simps WriterPreference_read_lock_next_def SPIN_REPETITIONS_def)
  with wp_reach_writer_sleeps have "wp_reach T (wp_three 1 1 WP_out (WP_write_sleep 10000) (WP_read_load 1 True))" by (rule reachable_step)
  then show ?case by simp
next
  case (Suc r)
  then have "wp_reach T (wp_three 1 1 WP_out (WP_write_sleep 10000) (WP_read_load (Suc r) True))" by simp
  moreover have "wp_step 3 T (wp_three 1 1 WP_out (WP_write_sleep 10000) (WP_read_load (Suc r) True))
      (wp_three 1 1 WP_out (WP_write_sleep 10000) (WP_read_load (Suc (Suc r)) True))"
    using wp_step.wp_read_load [of "wp_three 1 1 WP_out (WP_write_sleep 10000) (WP_read_load (Suc r) True)" 2 "Suc r" True 3 T] Suc.prems
    by (simp add: wp_three_simps WriterPreference_read_lock_next_def)
  ultimately show ?case by (rule reachable_step)
qed

lemma wp_reach_stuck: "wp_reach T wp_stuck"
proof -
  let ?s = "wp_three 1 1 WP_out (WP_write_sleep 10000)"
  have "wp_reach T (?s (WP_read_load 10000 True))"
    using wp_reach_second_reader [of 9999] by (simp add: SPIN_REPETITIONS_def)
  moreover have "wp_step 3 T (?s (WP_read_load 10000 True)) (?s (WP_read_wait 1 10000))"
    using wp_step.wp_read_load [of "?s (WP_read_load 10000 True)" 2 10000 True 3 T]
    by (simp add: wp_three_simps WriterPreference_read_lock_next_def SPIN_REPETITIONS_def)
  ultimately have "wp_reach T (?s (WP_read_wait 1 10000))" by (rule reachable_step)
  moreover have "wp_step 3 T (?s (WP_read_wait 1 10000)) wp_stuck"
    using wp_step.wp_read_sleep [of "?s (WP_read_wait 1 10000)" 2 1 10000 3 T] by (simp add: wp_three_simps wp_stuck_def)
  ultimately show ?thesis by (rule reachable_step)
qed

lemma wp_stuck_pc: "wp_pc wp_stuck t = (if t = 1 then WP_write_sleep 10000 else if t = 2 then WP_read_sleep 10000 else WP_out)"
  by (simp add: wp_stuck_def wp_three_def)

lemma wp_stuck_step:
  assumes "wp_step 3 False wp_stuck s'"
  shows "wp_pc s' 1 = WP_write_sleep 10000 \<and> wp_pc s' 2 = WP_read_sleep 10000"
  using assms by cases (auto simp: wp_stuck_pc split: if_splits)

text \<open>
  C15: \<open>RwLockWriterPreference\<close> loses a wakeup: without timeouts, three threads can get into a state
  in which nobody holds the lock while one thread sleeps in \<open>write_lock\<close> and one in \<open>read_lock\<close>, and
  no other thread is about to wake them: all that can happen is that a further thread calls the lock,
  which leaves both asleep. The reader that unlocked between the writer's last look at the state and
  its load of the wake counter has woken nobody.
\<close>
theorem writer_preference_lost_wakeup:
  "reachable (\<lambda>s. s = wp_start) (wp_step 3 False) wp_stuck
    \<and> threads wp_reads (wp_pc wp_stuck) = {} \<and> threads wp_writes (wp_pc wp_stuck) = {}
    \<and> wp_pc wp_stuck 1 = WP_write_sleep 10000 \<and> wp_pc wp_stuck 2 = WP_read_sleep 10000
    \<and> {t. wp_pc wp_stuck t \<noteq> WP_out} = {1, 2}
    \<and> {s'. wp_step 3 False wp_stuck s'} \<subseteq> {s'. wp_pc s' 1 = WP_write_sleep 10000 \<and> wp_pc s' 2 = WP_read_sleep 10000}"
  using wp_reach_stuck wp_stuck_step by (auto simp: wp_stuck_pc threads_def split: if_splits)

theorem writer_preference_exclusion_witness:
  "reachable (\<lambda>s. s = wp_start) (wp_step 3 True) (wp_three 2 0 WP_reader WP_out WP_out)
    \<and> card (threads wp_reads (wp_pc (wp_three 2 0 WP_reader WP_out WP_out))) = 1"
proof -
  have "\<not> (\<exists>t. wp_writes (wp_pc (wp_three 2 0 WP_reader WP_out WP_out) t))" by (auto simp: wp_three_def)
  then show ?thesis using writer_preference_exclusion [OF wp_reach_reader [of True]] wp_reach_reader by (simp add: wp_three_simps)
qed

end
