(* ===== verification/Subscriber.thy ===== *)
theory Subscriber
  imports PublisherSystem
begin

text \<open>
  The receiving port of publish-subscribe communication, \<open>iceoryx2/src/port/subscriber.rs\<close>, with its
  connections \<open>port/details/publisher_connections.rs\<close> and the received samples \<open>sample.rs\<close>. A sample is
  the address of a message in the subscriber's own mapping of the publisher's data segment. What the
  operating system answers when a data segment is opened is an argument; the storage of the zero copy
  connections, which is shared with the publishers, is passed along.
\<close>

section \<open>publisher_connections.rs\<close>

datatype ConnectionFailure =
    FailedToEstablishConnection ZeroCopyCreationError
  | UnableToMapPublishersDataSegment SharedMemoryOpenError

record Connection =
  cn_receiver :: ZeroCopyReceiver
  cn_data_segment :: Memory

record PublisherConnections =
  pcn_connections :: "Connection option list"
  pcn_subscriber_id :: UniqueSystemId
  pcn_config :: Config
  pcn_static_config :: PubSubStaticConfig

definition PublisherConnections_new ::
  "nat \<Rightarrow> UniqueSystemId \<Rightarrow> Config \<Rightarrow> PubSubStaticConfig \<Rightarrow> PublisherConnections" where
  "PublisherConnections_new capacity subscriber_id config static_config =
     \<lparr>pcn_connections = replicate capacity None, pcn_subscriber_id = subscriber_id, pcn_config = config,
      pcn_static_config = static_config\<rparr>"

type_synonym open_memory = "FixedSizeByteString \<Rightarrow> NamedConceptConfiguration \<Rightarrow> (Memory, SharedMemoryOpenError) result"

text \<open>Dropping a \<open>Receiver\<close>.\<close>

definition Receiver_drop :: "port_env \<Rightarrow> ZeroCopyReceiver \<Rightarrow> ZeroCopyStorage \<Rightarrow> ZeroCopyStorage outcome" where
  "Receiver_drop e receiver st =
     (case zs_store st (zcr_mgmt receiver) of
        None \<Rightarrow> Panic
      | Some m \<Rightarrow> cleanup_connection (pe_junk_path e) (pe_locked e) (zm_name m) (zcr_config receiver) State_Receiver st)"

text \<open>A receiver that was created goes out of scope when the data segment cannot be opened.\<close>

definition Connection_new ::
  "port_env \<Rightarrow> open_memory \<Rightarrow> PublisherConnections \<Rightarrow> UniqueSystemId \<Rightarrow> ZeroCopyStorage
     \<Rightarrow> ((Connection, ConnectionFailure) result \<times> ZeroCopyStorage) outcome" where
  "Connection_new e opened this publisher_id st =
     outcome_bind (connection_name (pe_junk_file e) publisher_id (pcn_subscriber_id this)) (\<lambda>name.
     outcome_bind (connection_config (pe_junk_file e) (pe_junk_path e) (pcn_config this)) (\<lambda>cfg.
     outcome_bind (create_receiver (pe_junk_path e) (pe_locked e) (connection_builder cfg name (pcn_static_config this)) st)
       (\<lambda>(r, st1). case r of
          Err err \<Rightarrow> Ret (Err (FailedToEstablishConnection err), st1)
        | Ok receiver \<Rightarrow>
            outcome_bind (data_segment_name (pe_junk_file e) publisher_id) (\<lambda>segment_name.
            outcome_bind (data_segment_config (pe_junk_file e) (pe_junk_path e) (pcn_config this)) (\<lambda>segment_cfg.
              case SharedMemory_open (opened segment_name segment_cfg) of
                Err err \<Rightarrow>
                  outcome_bind (Receiver_drop e receiver st1) (\<lambda>st2.
                    Ret (Err (UnableToMapPublishersDataSegment err), st2))
              | Ok data_segment \<Rightarrow> Ret (Ok \<lparr>cn_receiver = receiver, cn_data_segment = data_segment\<rparr>, st1))))))"

definition PublisherConnections_create ::
  "port_env \<Rightarrow> open_memory \<Rightarrow> nat \<Rightarrow> UniqueSystemId \<Rightarrow> PublisherConnections \<Rightarrow> ZeroCopyStorage
     \<Rightarrow> ((unit, ConnectionFailure) result \<times> PublisherConnections \<times> ZeroCopyStorage) outcome" where
  "PublisherConnections_create e opened index publisher_id this st =
     (if length (pcn_connections this) \<le> index then Panic
      else case pcn_connections this ! index of
        Some _ \<Rightarrow> Ret (Ok (), this, st)
      | None \<Rightarrow>
          outcome_bind (Connection_new e opened this publisher_id st) (\<lambda>(r, st').
            case r of
              Err err \<Rightarrow> Ret (Err err, this, st')
            | Ok connection \<Rightarrow>
                Ret (Ok (), this\<lparr>pcn_connections := (pcn_connections this)[index := Some connection]\<rparr>, st')))"

definition PublisherConnections_remove ::
  "port_env \<Rightarrow> nat \<Rightarrow> PublisherConnections \<Rightarrow> ZeroCopyStorage \<Rightarrow> (PublisherConnections \<times> ZeroCopyStorage) outcome" where
  "PublisherConnections_remove e index this st =
     (if length (pcn_connections this) \<le> index then Panic
      else let this' = this\<lparr>pcn_connections := (pcn_connections this)[index := None]\<rparr>
        in case pcn_connections this ! index of
            None \<Rightarrow> Ret (this', st)
          | Some connection \<Rightarrow> outcome_bind (Receiver_drop e (cn_receiver connection) st) (\<lambda>st'. Ret (this', st')))"

section \<open>subscriber.rs\<close>

datatype ReceiveError = ExceedsMaxBorrowedSamples | Receive_ConnectionFailure ConnectionFailure

datatype SubscriberCreateError = ExceedsMaxSupportedSubscribers

record Subscriber =
  su_dynamic_config_guard :: "32 word option"
  su_publisher_connections :: PublisherConnections
  su_degration_callback :: "(UniqueSystemId \<Rightarrow> UniqueSystemId \<Rightarrow> DegrationAction) option"
  su_publisher_list_state :: "UniqueSystemId ContainerState"

text \<open>A received sample: the slot of the connection and the address of the message.\<close>

record Sample =
  sa_channel_id :: nat
  sa_ptr :: nat

text \<open>The loop over the visited indices in \<open>populate_publisher_channels\<close>.\<close>

fun populate_publisher_loop ::
  "port_env \<Rightarrow> open_memory \<Rightarrow> nat \<Rightarrow> UniqueSystemId option list \<Rightarrow> Subscriber \<Rightarrow> ZeroCopyStorage
     \<Rightarrow> ((unit, ConnectionFailure) result \<times> Subscriber \<times> ZeroCopyStorage) outcome" where
  "populate_publisher_loop e opened i [] s st = Ret (Ok (), s, st)"
| "populate_publisher_loop e opened i (None # ids) s st =
     outcome_bind (PublisherConnections_remove e i (su_publisher_connections s) st) (\<lambda>(cs, st').
       populate_publisher_loop e opened (i + 1) ids (s\<lparr>su_publisher_connections := cs\<rparr>) st')"
| "populate_publisher_loop e opened i (Some publisher_id # ids) s st =
     outcome_bind (PublisherConnections_create e opened i publisher_id (su_publisher_connections s) st) (\<lambda>(r, cs, st').
       let s1 = s\<lparr>su_publisher_connections := cs\<rparr> in
       case r of
         Ok _ \<Rightarrow> populate_publisher_loop e opened (i + 1) ids s1 st'
       | Err err \<Rightarrow>
           (case su_degration_callback s1 of
              None \<Rightarrow> populate_publisher_loop e opened (i + 1) ids s1 st'
            | Some c \<Rightarrow>
                (case c publisher_id (pcn_subscriber_id cs) of
                   Fail \<Rightarrow> Ret (Err err, s1, st')
                 | _ \<Rightarrow> populate_publisher_loop e opened (i + 1) ids s1 st')))"

definition populate_publisher_channels ::
  "port_env \<Rightarrow> open_memory \<Rightarrow> Subscriber \<Rightarrow> ZeroCopyStorage
     \<Rightarrow> ((unit, ConnectionFailure) result \<times> Subscriber \<times> ZeroCopyStorage) outcome" where
  "populate_publisher_channels e opened s st =
     outcome_bind
       (visit_indices (ContainerState_for_each (su_publisher_list_state s))
          (replicate (length (pcn_connections (su_publisher_connections s))) None)) (\<lambda>visited_indices.
       populate_publisher_loop e opened 0 visited_indices s st)"

definition Subscriber_update_connections ::
  "port_env \<Rightarrow> open_memory \<Rightarrow> UniqueSystemId Container \<Rightarrow> Subscriber \<Rightarrow> ZeroCopyStorage
     \<Rightarrow> ((unit, ConnectionFailure) result \<times> Subscriber \<times> ZeroCopyStorage) outcome" where
  "Subscriber_update_connections e opened publishers s st =
     (case Container_update_state publishers (su_publisher_list_state s) of
        (changed, state) \<Rightarrow>
          let s1 = s\<lparr>su_publisher_list_state := state\<rparr>
          in if changed then populate_publisher_channels e opened s1 st else Ret (Ok (), s1, st))"

definition set_degration_callback ::
  "(UniqueSystemId \<Rightarrow> UniqueSystemId \<Rightarrow> DegrationAction) option \<Rightarrow> Subscriber \<Rightarrow> Subscriber" where
  "set_degration_callback callback s = s\<lparr>su_degration_callback := callback\<rparr>"

text \<open>The connections are dropped one after the other.\<close>

fun drop_connections :: "port_env \<Rightarrow> Connection option list \<Rightarrow> ZeroCopyStorage \<Rightarrow> ZeroCopyStorage outcome" where
  "drop_connections e [] st = Ret st"
| "drop_connections e (None # cs) st = drop_connections e cs st"
| "drop_connections e (Some c # cs) st = outcome_bind (Receiver_drop e (cn_receiver c) st) (drop_connections e cs)"

definition Subscriber_new ::
  "port_env \<Rightarrow> open_memory \<Rightarrow> Config \<Rightarrow> PubSubStaticConfig \<Rightarrow> UniqueSystemId \<Rightarrow> PubSubDynamicConfig \<Rightarrow> ZeroCopyStorage
     \<Rightarrow> ((Subscriber, SubscriberCreateError) result \<times> PubSubDynamicConfig \<times> ZeroCopyStorage) outcome" where
  "Subscriber_new e opened config static_config port_id d st =
     outcome_bind (Container_get_state (pd_publishers d)) (\<lambda>list_state.
       let new_self = \<lparr>su_dynamic_config_guard = None,
             su_publisher_connections = PublisherConnections_new (ct_capacity (pd_publishers d)) port_id config static_config,
             su_degration_callback = None, su_publisher_list_state = list_state\<rparr>
       in outcome_bind (populate_publisher_channels e opened new_self st) (\<lambda>(_, s1, st1).
          outcome_bind (add_subscriber_id port_id d) (\<lambda>(r, d1).
            case r of
              Some unique_index \<Rightarrow> Ret (Ok (s1\<lparr>su_dynamic_config_guard := Some unique_index\<rparr>), d1, st1)
            | None \<Rightarrow>
                outcome_bind (drop_connections e (pcn_connections (su_publisher_connections s1)) st1) (\<lambda>st2.
                  Ret (Err ExceedsMaxSupportedSubscribers, d1, st2)))))"

text \<open>The drop of a subscriber: its id leaves the registry first.\<close>

definition Subscriber_drop ::
  "port_env \<Rightarrow> Subscriber \<Rightarrow> PubSubDynamicConfig \<Rightarrow> ZeroCopyStorage \<Rightarrow> (PubSubDynamicConfig \<times> ZeroCopyStorage) outcome" where
  "Subscriber_drop e s d st =
     outcome_bind (case su_dynamic_config_guard s of
         None \<Rightarrow> Ret (pd_subscribers d) | Some i \<Rightarrow> Container_remove i (pd_subscribers d)) (\<lambda>c.
     outcome_bind (drop_connections e (pcn_connections (su_publisher_connections s)) st) (\<lambda>st'.
       Ret (d\<lparr>pd_subscribers := c\<rparr>, st')))"

definition set_connection :: "nat \<Rightarrow> Connection \<Rightarrow> Subscriber \<Rightarrow> Subscriber" where
  "set_connection i c s = s\<lparr>su_publisher_connections := (su_publisher_connections s)
     \<lparr>pcn_connections := (pcn_connections (su_publisher_connections s))[i := Some c]\<rparr>\<rparr>"

definition receive_from_connection ::
  "nat \<Rightarrow> Connection \<Rightarrow> Subscriber \<Rightarrow> ZeroCopyStorage
     \<Rightarrow> ((Sample option, ReceiveError) result \<times> Subscriber \<times> ZeroCopyStorage) outcome" where
  "receive_from_connection channel_id connection s st =
     (let receiver = cn_receiver connection in
      case zs_store st (zcr_mgmt receiver) of
        None \<Rightarrow> Panic
      | Some m \<Rightarrow>
          (case receive (zcr_borrow_counter receiver) m of
             (r, n, m') \<Rightarrow>
               let s1 = set_connection channel_id (connection\<lparr>cn_receiver := receiver\<lparr>zcr_borrow_counter := n\<rparr>\<rparr>) s;
                   st1 = set_mgmt (zcr_mgmt receiver) m' st
               in (case r of
                     Ok None \<Rightarrow> Ret (Ok None, s1, st1)
                   | Ok (Some relative_addr) \<Rightarrow>
                       Ret (Ok (Some \<lparr>sa_channel_id = channel_id,
                         sa_ptr = relative_addr + allocator_data_start_address (cn_data_segment connection)\<rparr>), s1, st1)
                   | Err ReceiveWouldExceedMaxBorrowValue \<Rightarrow> Ret (Err ExceedsMaxBorrowedSamples, s1, st1))))"

text \<open>The loop of \<open>receive\<close> over the connections, from the slot \<open>channel_id\<close> on.\<close>

fun receive_loop ::
  "nat \<Rightarrow> Connection option list \<Rightarrow> Subscriber \<Rightarrow> ZeroCopyStorage
     \<Rightarrow> ((Sample option, ReceiveError) result \<times> Subscriber \<times> ZeroCopyStorage) outcome" where
  "receive_loop channel_id [] s st = Ret (Ok None, s, st)"
| "receive_loop channel_id (None # cs) s st = receive_loop (channel_id + 1) cs s st"
| "receive_loop channel_id (Some connection # cs) s st =
     outcome_bind (receive_from_connection channel_id connection s st) (\<lambda>(r, s1, st1).
       case r of
         Err err \<Rightarrow> Ret (Err err, s1, st1)
       | Ok (Some sample) \<Rightarrow> Ret (Ok (Some sample), s1, st1)
       | Ok None \<Rightarrow> receive_loop (channel_id + 1) cs s1 st1)"

definition Subscriber_receive ::
  "port_env \<Rightarrow> open_memory \<Rightarrow> UniqueSystemId Container \<Rightarrow> Subscriber \<Rightarrow> ZeroCopyStorage
     \<Rightarrow> ((Sample option, ReceiveError) result \<times> Subscriber \<times> ZeroCopyStorage) outcome" where
  "Subscriber_receive e opened publishers s st =
     outcome_bind (Subscriber_update_connections e opened publishers s st) (\<lambda>(r, s1, st1).
       case r of
         Err err \<Rightarrow> Ret (Err (Receive_ConnectionFailure err), s1, st1)
       | Ok _ \<Rightarrow> receive_loop 0 (pcn_connections (su_publisher_connections s1)) s1 st1)"

text \<open>
  \<open>release_sample\<close> looks up the slot the sample came from. The distance is computed on \<open>usize\<close>; a full
  retrieve channel is fatal.
\<close>

definition Subscriber_release_sample ::
  "port_env \<Rightarrow> nat \<Rightarrow> nat \<Rightarrow> Subscriber \<Rightarrow> ZeroCopyStorage \<Rightarrow> (Subscriber \<times> ZeroCopyStorage) outcome" where
  "Subscriber_release_sample e channel_id ptr s st =
     (if length (pcn_connections (su_publisher_connections s)) \<le> channel_id then Panic
      else case pcn_connections (su_publisher_connections s) ! channel_id of
        None \<Rightarrow> Ret (s, st)
      | Some c \<Rightarrow>
          outcome_bind (usize_sub (pe_overflow_checks e) ptr (allocator_data_start_address (cn_data_segment c))) (\<lambda>distance.
            let receiver = cn_receiver c in
            case zs_store st (zcr_mgmt receiver) of
              None \<Rightarrow> Panic
            | Some m \<Rightarrow>
                outcome_bind (release (pe_overflow_checks e) distance (zcr_borrow_counter receiver) m) (\<lambda>(r, n, m').
                  case r of
                    Ok _ \<Rightarrow> Ret (set_connection channel_id (c\<lparr>cn_receiver := receiver\<lparr>zcr_borrow_counter := n\<rparr>\<rparr>) s,
                        set_mgmt (zcr_mgmt receiver) m' st)
                  | Err RetrieveBufferFull \<Rightarrow> Panic)))"

definition Sample_drop ::
  "port_env \<Rightarrow> Sample \<Rightarrow> Subscriber \<Rightarrow> ZeroCopyStorage \<Rightarrow> (Subscriber \<times> ZeroCopyStorage) outcome" where
  "Sample_drop e sample s st = Subscriber_release_sample e (sa_channel_id sample) (sa_ptr sample) s st"

section \<open>What receive returns\<close>

text \<open>
  What a subscriber sees of a connection: whether its channels are well-formed, the number of samples
  that may be borrowed, the samples that wait for it and those that wait for the publisher.
\<close>

type_synonym channel_view = "bool \<times> nat \<times> nat list \<times> nat list"

definition channel_view :: "Management \<Rightarrow> channel_view" where
  "channel_view m = (Management_inv m, zm_max_borrowed_samples m, recv_list m, retr_list m)"

definition channels :: "ZeroCopyStorage \<Rightarrow> nat \<Rightarrow> channel_view option" where
  "channels st a = map_option channel_view (zs_store st a)"

text \<open>
  The connections are asked in the order of their slots: the first one that has a sample, or whose
  receiver holds as many samples as agreed, decides.
\<close>

fun first_slot :: "(nat \<Rightarrow> channel_view option) \<Rightarrow> nat \<Rightarrow> Connection option list \<Rightarrow> (nat \<times> Connection) option" where
  "first_slot ch i [] = None"
| "first_slot ch i (None # cs) = first_slot ch (i + 1) cs"
| "first_slot ch i (Some c # cs) =
     (case ch (zcr_mgmt (cn_receiver c)) of
        None \<Rightarrow> None
      | Some (_, max_borrowed, waiting, _) \<Rightarrow>
          if max_borrowed \<le> zcr_borrow_counter (cn_receiver c) \<or> waiting \<noteq> [] then Some (i, c)
          else first_slot ch (i + 1) cs)"

definition receivers_known :: "(nat \<Rightarrow> channel_view option) \<Rightarrow> Connection option list \<Rightarrow> bool" where
  "receivers_known ch cs \<longleftrightarrow> (\<forall>c. Some c \<in> set cs \<longrightarrow> (\<exists>n xs ys. ch (zcr_mgmt (cn_receiver c)) = Some (True, n, xs, ys)))"

lemma channels_Some:
  "channels st a = Some (b, n, xs, ys) \<longleftrightarrow>
    (\<exists>m. zs_store st a = Some m \<and> b = Management_inv m \<and> n = zm_max_borrowed_samples m \<and> xs = recv_list m \<and> ys = retr_list m)"
  by (auto simp: channels_def channel_view_def)

lemma channels_set_mgmt: "channels (set_mgmt a m st) = (channels st)(a \<mapsto> channel_view m)"
  by (auto simp: channels_def set_mgmt_def)

lemma set_connection_same:
  "pcn_connections (su_publisher_connections s) ! i = Some c \<Longrightarrow> set_connection i c s = s"
  using list_update_id [of "pcn_connections (su_publisher_connections s)" i] by (simp add: set_connection_def)

lemma set_connection_nth:
  "i < length (pcn_connections (su_publisher_connections s)) \<Longrightarrow>
    pcn_connections (su_publisher_connections (set_connection i c s)) ! i = Some c"
  by (simp add: set_connection_def)

text \<open>The three outcomes of \<open>receive_from_connection\<close>.\<close>

lemma receive_from_exhausted:
  assumes "channels st (zcr_mgmt (cn_receiver c)) = Some (True, n, xs, ys)" "n \<le> zcr_borrow_counter (cn_receiver c)"
    "pcn_connections (su_publisher_connections s) ! i = Some c"
  shows "receive_from_connection i c s st = Ret (Err ExceedsMaxBorrowedSamples, s, st)"
  using assms sound_set_same set_connection_same [of s i c]
  by (auto simp: channels_Some receive_from_connection_def receive_def Let_def)

lemma receive_empty:
  assumes "Management_inv m" "n < zm_max_borrowed_samples m" "recv_list m = []"
  shows "receive n m = (Ok None, n, m)"
  using so.o_pop_empty [of "zm_receive_channel m"] assms by (simp add: receive_def Management_inv_def recv_list_def)

lemma receive_waiting:
  assumes "Management_inv m" "n < zm_max_borrowed_samples m" "recv_list m = x # xs"
  obtains m' where "receive n m = (Ok (Some x), n + 1, m')" "Management_inv m'" "same_settings m m'" "recv_list m' = xs"
    "retr_list m' = retr_list m"
proof -
  obtain r q where pop: "SafelyOverflowingIndexQueue_pop (zm_receive_channel m) = (r, q)" by fastforce
  have "r = Some x"
    using so.o_pop_some [OF _ _ pop, of x xs] assms by (simp add: Management_inv_def recv_list_def)
  then have rec: "receive n m = (Ok (Some x), n + 1, m\<lparr>zm_receive_channel := q\<rparr>)" using pop assms(2) by (simp add: receive_def)
  note f = receive_Ok [OF assms(1) rec]
  show ?thesis using that [OF rec f(1,2) _ f(3)] f(4) assms(3) by simp
qed

lemma receive_from_idle:
  assumes "channels st (zcr_mgmt (cn_receiver c)) = Some (True, n, [], ys)" "zcr_borrow_counter (cn_receiver c) < n"
    "pcn_connections (su_publisher_connections s) ! i = Some c"
  shows "receive_from_connection i c s st = Ret (Ok None, s, st)"
  using assms(1,2) receive_empty sound_set_same set_connection_same [OF assms(3)]
  by (auto simp: channels_Some receive_from_connection_def Let_def)

definition borrow :: "Connection \<Rightarrow> Connection" where
  "borrow c = c\<lparr>cn_receiver := (cn_receiver c)\<lparr>zcr_borrow_counter := zcr_borrow_counter (cn_receiver c) + 1\<rparr>\<rparr>"

definition sample_at :: "nat \<Rightarrow> Connection \<Rightarrow> nat \<Rightarrow> Sample" where
  "sample_at i c x = \<lparr>sa_channel_id = i, sa_ptr = x + allocator_data_start_address (cn_data_segment c)\<rparr>"

lemma receive_from_waiting:
  assumes "channels st (zcr_mgmt (cn_receiver c)) = Some (True, n, x # xs, ys)" "zcr_borrow_counter (cn_receiver c) < n"
  shows "\<exists>st'. receive_from_connection i c s st = Ret (Ok (Some (sample_at i c x)), set_connection i (borrow c) s, st')
    \<and> channels st' = (channels st)(zcr_mgmt (cn_receiver c) \<mapsto> (True, n, xs, ys))"
proof -
  obtain m where m: "zs_store st (zcr_mgmt (cn_receiver c)) = Some m" "Management_inv m" "n = zm_max_borrowed_samples m"
    "recv_list m = x # xs" "ys = retr_list m"
    using assms(1) by (auto simp: channels_Some)
  obtain m' where m': "receive (zcr_borrow_counter (cn_receiver c)) m = (Ok (Some x), zcr_borrow_counter (cn_receiver c) + 1, m')"
    "Management_inv m'" "same_settings m m'" "recv_list m' = xs" "retr_list m' = retr_list m"
    using receive_waiting [OF m(2) _ m(4)] assms(2) m(3) by auto
  have "channel_view m' = (True, n, xs, ys)" using m' m by (simp add: channel_view_def same_settings_def)
  then show ?thesis
    using m(1) m'(1) by (simp add: receive_from_connection_def Let_def channels_set_mgmt borrow_def sample_at_def)
qed

text \<open>The result of \<open>receive\<close> and its effect, for the slot that decides.\<close>

definition receive_effect ::
  "(nat \<times> Connection) option \<Rightarrow> Subscriber \<Rightarrow> ZeroCopyStorage
     \<Rightarrow> (Sample option, ReceiveError) result \<times> Subscriber \<times> (nat \<Rightarrow> channel_view option)" where
  "receive_effect f s st =
     (case f of
        None \<Rightarrow> (Ok None, s, channels st)
      | Some (i, c) \<Rightarrow>
          (case the (channels st (zcr_mgmt (cn_receiver c))) of
             (b, n, waiting, returned) \<Rightarrow>
               if n \<le> zcr_borrow_counter (cn_receiver c) then (Err ExceedsMaxBorrowedSamples, s, channels st)
               else (Ok (Some (sample_at i c (hd waiting))), set_connection i (borrow c) s,
                 (channels st)(zcr_mgmt (cn_receiver c) \<mapsto> (b, n, tl waiting, returned)))))"

lemma receive_loop_effect:
  assumes "drop i (pcn_connections (su_publisher_connections s)) = cs" "receivers_known (channels st) cs"
  shows "\<exists>st'. receive_loop i cs s st
      = Ret (fst (receive_effect (first_slot (channels st) i cs) s st), fst (snd (receive_effect (first_slot (channels st) i cs) s st)), st')
    \<and> channels st' = snd (snd (receive_effect (first_slot (channels st) i cs) s st))"
  using assms
proof (induction cs arbitrary: i)
  case Nil
  then show ?case by (simp add: receive_effect_def)
next
  case (Cons o' cs)
  have rest: "drop (Suc i) (pcn_connections (su_publisher_connections s)) = cs"
    using Cons.prems(1) by (metis drop_Suc list.sel(3) tl_drop)
  have known: "receivers_known (channels st) cs" using Cons.prems(2) by (simp add: receivers_known_def)
  show ?case
  proof (cases o')
    case None
    then show ?thesis using Cons.IH [OF rest known] by simp
  next
    case (Some c)
    have slot: "pcn_connections (su_publisher_connections s) ! i = Some c"
      using Cons.prems(1) Some by (metis nth_via_drop)
    obtain n xs ys where ch: "channels st (zcr_mgmt (cn_receiver c)) = Some (True, n, xs, ys)"
      using Cons.prems(2) Some by (auto simp: receivers_known_def)
    consider "n \<le> zcr_borrow_counter (cn_receiver c)" | "zcr_borrow_counter (cn_receiver c) < n" "xs = []"
      | x xs' where "zcr_borrow_counter (cn_receiver c) < n" "xs = x # xs'"
      by (metis neq_Nil_conv not_le)
    then show ?thesis
    proof cases
      case 1
      then show ?thesis using receive_from_exhausted [OF ch 1 slot] ch Some by (simp add: receive_effect_def)
    next
      case 2
      then show ?thesis
        using receive_from_idle [OF _ _ slot] ch Some Cons.IH [OF rest known] by simp
    next
      case (3 x xs')
      obtain st' where "receive_from_connection i c s st = Ret (Ok (Some (sample_at i c x)), set_connection i (borrow c) s, st')"
        "channels st' = (channels st)(zcr_mgmt (cn_receiver c) \<mapsto> (True, n, xs', ys))"
        using receive_from_waiting [of st c n x xs' ys i s] ch 3 by auto
      then show ?thesis using ch Some 3 by (intro exI [of _ st']) (simp add: receive_effect_def)
    qed
  qed
qed

text \<open>
  C23: \<open>Subscriber::receive\<close> after the update of the connections: it asks the publishers in the order of
  their slots. The first one that has sent a sample decides: the oldest sample it has sent is returned,
  as an address in the subscriber's own mapping, and leaves its channel, and nothing else changes. A
  publisher of which the subscriber holds as many samples as it may decides, too: then nothing is
  received from the publishers behind it. There is no sample exactly if no publisher decides.
\<close>
theorem subscriber_receives_in_slot_order:
  assumes "Subscriber_update_connections e opened publishers s st = Ret (Ok (), s1, st1)"
    "receivers_known (channels st1) (pcn_connections (su_publisher_connections s1))"
  shows "\<exists>st2. Subscriber_receive e opened publishers s st
      = (case receive_effect (first_slot (channels st1) 0 (pcn_connections (su_publisher_connections s1))) s1 st1 of
          (r, s2, _) \<Rightarrow> Ret (r, s2, st2))
    \<and> channels st2 = snd (snd (receive_effect (first_slot (channels st1) 0 (pcn_connections (su_publisher_connections s1))) s1 st1))"
  using receive_loop_effect [OF _ assms(2), of 0 s1] assms(1)
  by (auto simp: Subscriber_receive_def split: prod.splits)

section \<open>Giving samples back\<close>

lemma release_sample_ok:
  assumes slot: "i < length (pcn_connections (su_publisher_connections s))" "pcn_connections (su_publisher_connections s) ! i = Some (borrow c)"
    and m: "zs_store st (zcr_mgmt (cn_receiver c)) = Some m" "Management_inv m" "length (retr_list m) < retr_capacity m"
  shows "\<exists>st'. Sample_drop e (sample_at i c x) s st = Ret (set_connection i c s, st')
    \<and> channels st' = (channels st)(zcr_mgmt (cn_receiver c) \<mapsto>
        (True, zm_max_borrowed_samples m, recv_list m, retr_list m @ [x]))"
proof -
  obtain m' where m': "release (pe_overflow_checks e) x (zcr_borrow_counter (cn_receiver c) + 1) m = Ret (Ok (), zcr_borrow_counter (cn_receiver c), m')"
    "Management_inv m'" "same_settings m m'" "recv_list m' = recv_list m" "retr_list m' = retr_list m @ [x]"
    using release_room [OF m(2,3), of "zcr_borrow_counter (cn_receiver c) + 1" "pe_overflow_checks e" x] by auto
  have "channel_view m' = (True, zm_max_borrowed_samples m, recv_list m, retr_list m @ [x])"
    using m'(2-5) by (simp add: channel_view_def same_settings_def)
  then show ?thesis
    using slot m(1) m'(1)
    by (simp add: Sample_drop_def Subscriber_release_sample_def sample_at_def borrow_def Let_def channels_set_mgmt)
qed

lemma first_slot_Some:
  assumes "first_slot ch i cs = Some (j, c)"
  shows "i \<le> j \<and> j - i < length cs \<and> cs ! (j - i) = Some c
    \<and> (\<exists>b n xs ys. ch (zcr_mgmt (cn_receiver c)) = Some (b, n, xs, ys) \<and> (n \<le> zcr_borrow_counter (cn_receiver c) \<or> xs \<noteq> []))"
  using assms
proof (induction cs arbitrary: i)
  case (Cons o' cs)
  have IH: "first_slot ch (Suc i) cs = Some (j, c) \<Longrightarrow> ?case"
    using Cons.IH [of "Suc i"] by (auto simp: nth_Cons')
  show ?case
  proof (cases o')
    case None
    then show ?thesis using Cons.prems IH by simp
  next
    case (Some c')
    then obtain b n xs ys where ch: "ch (zcr_mgmt (cn_receiver c')) = Some (b, n, xs, ys)"
      using Cons.prems by (auto split: option.splits)
    show ?thesis
    proof (cases "n \<le> zcr_borrow_counter (cn_receiver c') \<or> xs \<noteq> []")
      case True
      then have "j = i" "c = c'" using Cons.prems Some ch by auto
      then show ?thesis using True ch Some by auto
    next
      case False
      then show ?thesis using Cons.prems Some ch IH by auto
    qed
  qed
qed simp

lemma set_connection_twice: "set_connection i c (set_connection i d s) = set_connection i c s"
  by (simp add: set_connection_def)

text \<open>
  C24: A received sample goes back to where it came from: when the sample that \<open>receive\<close> returned is
  dropped, the subscriber is as it was before, and the offset of the sample in the publisher's data
  segment, which was the oldest one in the channel, is in the channel back to this publisher, whatever
  address the data segment has in the subscriber. The channel has room for it.
\<close>
theorem subscriber_sample_roundtrip:
  assumes update: "Subscriber_update_connections e opened publishers s st = Ret (Ok (), s1, st1)"
    and known: "receivers_known (channels st1) (pcn_connections (su_publisher_connections s1))"
    and received: "Subscriber_receive e opened publishers s st = Ret (Ok (Some sample), s2, st2)"
    and room: "\<forall>a m. zs_store st2 a = Some m \<longrightarrow> length (retr_list m) < retr_capacity m"
  shows "\<exists>st3 a n x waiting returned c. Sample_drop e sample s2 st2 = Ret (s1, st3)
    \<and> pcn_connections (su_publisher_connections s1) ! sa_channel_id sample = Some c \<and> a = zcr_mgmt (cn_receiver c)
    \<and> sa_ptr sample = x + allocator_data_start_address (cn_data_segment c)
    \<and> channels st1 a = Some (True, n, x # waiting, returned)
    \<and> channels st3 = (channels st1)(a \<mapsto> (True, n, waiting, returned @ [x]))"
proof -
  let ?cs = "pcn_connections (su_publisher_connections s1)"
  let ?f = "first_slot (channels st1) 0 ?cs"
  obtain st' where "receive_loop 0 ?cs s1 st1 = Ret (fst (receive_effect ?f s1 st1), fst (snd (receive_effect ?f s1 st1)), st')"
    "channels st' = snd (snd (receive_effect ?f s1 st1))"
    using receive_loop_effect [OF _ known, of 0 s1] by auto
  then have eff: "fst (receive_effect ?f s1 st1) = Ok (Some sample)" "s2 = fst (snd (receive_effect ?f s1 st1))"
    "channels st2 = snd (snd (receive_effect ?f s1 st1))"
    using received update by (auto simp: Subscriber_receive_def)
  then obtain i c where f: "?f = Some (i, c)" by (auto simp: receive_effect_def split: option.splits)
  note slot = first_slot_Some [OF f]
  then obtain n xs ys where ch: "channels st1 (zcr_mgmt (cn_receiver c)) = Some (True, n, xs, ys)"
    using known by (metis diff_zero nth_mem receivers_known_def)
  have nb: "zcr_borrow_counter (cn_receiver c) < n" using eff(1) f ch by (auto simp: receive_effect_def split: if_splits)
  then have "xs \<noteq> []" using slot ch by auto
  then obtain x xs' where xs: "xs = x # xs'" by (cases xs) auto
  have r: "sample = sample_at i c x" "s2 = set_connection i (borrow c) s1"
    "channels st2 = (channels st1)(zcr_mgmt (cn_receiver c) \<mapsto> (True, n, xs', ys))"
    using eff f ch nb xs by (auto simp: receive_effect_def)
  obtain m where m: "zs_store st2 (zcr_mgmt (cn_receiver c)) = Some m" "Management_inv m" "n = zm_max_borrowed_samples m"
    "xs' = recv_list m" "ys = retr_list m"
    using r(3) channels_Some [of st2 "zcr_mgmt (cn_receiver c)" True n xs' ys] by auto
  have "pcn_connections (su_publisher_connections s2) ! i = Some (borrow c)" "i < length (pcn_connections (su_publisher_connections s2))"
    using slot set_connection_nth [of i s1 "borrow c"] r(2) by (auto simp: set_connection_def)
  then obtain st3 where st3: "Sample_drop e (sample_at i c x) s2 st2 = Ret (set_connection i c s2, st3)"
    "channels st3 = (channels st2)(zcr_mgmt (cn_receiver c) \<mapsto> (True, n, xs', ys @ [x]))"
    using release_sample_ok [OF _ _ m(1,2), of i s2 e x] room m by auto
  have "set_connection i c s2 = s1" using r(2) slot set_connection_same [of s1 i c] by (simp add: set_connection_twice)
  then show ?thesis using st3 r ch xs slot by (intro exI [of _ st3] exI conjI) (auto simp: sample_at_def)
qed

lemma create_receiver_result:
  assumes "create_receiver junk locked b st = Ret (Ok rc, st')"
  shows "zcr_borrow_counter rc = 0"
proof -
  obtain r st1 where c: "connect_port State_Receiver junk locked b st = Ret (r, st1)"
    using assms by (auto simp: create_receiver_def outcome_bind_eq_Ret)
  then show ?thesis using assms by (cases r) (auto simp: create_receiver_def)
qed

text \<open>How a connection comes about: its receiver is created, and either the data segment is opened or the receiver is dropped.\<close>

lemma Connection_new_cases:
  assumes "Connection_new e opened this publisher_id st = Ret (r, st')"
  obtains err junk locked b x where "r = Err err" "create_receiver junk locked b st = Ret (Err x, st')"
  | junk locked b receiver st1 err where "r = Err err" "create_receiver junk locked b st = Ret (Ok receiver, st1)"
      "Receiver_drop e receiver st1 = Ret st'"
  | junk locked b c where "r = Ok c" "create_receiver junk locked b st = Ret (Ok (cn_receiver c), st')"
proof -
  obtain name cfg where n: "connection_name (pe_junk_file e) publisher_id (pcn_subscriber_id this) = Ret name"
    "connection_config (pe_junk_file e) (pe_junk_path e) (pcn_config this) = Ret cfg"
    using assms by (auto simp: Connection_new_def outcome_bind_eq_Ret)
  let ?b = "connection_builder cfg name (pcn_static_config this)"
  obtain q st1 where c: "create_receiver (pe_junk_path e) (pe_locked e) ?b st = Ret (q, st1)"
    using assms n by (auto simp: Connection_new_def outcome_bind_eq_Ret)
  show ?thesis
  proof (cases q)
    case (Err x)
    then show ?thesis using assms n c that(1) by (auto simp: Connection_new_def)
  next
    case (Ok receiver)
    then obtain sn sc where sc: "data_segment_name (pe_junk_file e) publisher_id = Ret sn"
      "data_segment_config (pe_junk_file e) (pe_junk_path e) (pcn_config this) = Ret sc"
      using assms n c by (auto simp: Connection_new_def outcome_bind_eq_Ret)
    show ?thesis
    proof (cases "SharedMemory_open (opened sn sc)")
      case (Ok seg)
      then show ?thesis using assms n c sc \<open>q = Ok receiver\<close> that(3) by (auto simp: Connection_new_def)
    next
      case (Err x)
      then show ?thesis
        using assms n c sc \<open>q = Ok receiver\<close> that(2) by (auto simp: Connection_new_def outcome_bind_eq_Ret)
    qed
  qed
qed

lemma reconnected_slot:
  assumes "PublisherConnections_remove e i cs st = Ret (cs1, st1)"
    and "PublisherConnections_create e opened i publisher_id cs1 st1 = Ret (Ok (), cs2, st2)"
  shows "\<exists>c. i < length (pcn_connections cs2) \<and> pcn_connections cs2 ! i = Some c \<and> zcr_borrow_counter (cn_receiver c) = 0"
proof -
  have i: "i < length (pcn_connections cs)" and cs1: "pcn_connections cs1 = (pcn_connections cs)[i := None]"
    using assms(1) by (auto simp: PublisherConnections_remove_def Let_def outcome_bind_eq_Ret split: if_splits option.splits)
  then obtain r st' where new: "Connection_new e opened cs1 publisher_id st1 = Ret (r, st')"
    using assms(2) by (auto simp: PublisherConnections_create_def outcome_bind_eq_Ret)
  with assms(2) i cs1 obtain c where c: "r = Ok c" "st' = st2" "cs2 = cs1\<lparr>pcn_connections := (pcn_connections cs1)[i := Some c]\<rparr>"
    by (cases r) (auto simp: PublisherConnections_create_def)
  have "zcr_borrow_counter (cn_receiver c) = 0"
    using new c(1) create_receiver_result by (auto elim!: Connection_new_cases)
  then show ?thesis using i cs1 c(3) by simp
qed

text \<open>
  C25: A sample must not outlive the connection it came from. Let the publisher of a slot go and the
  slot be connected again, and let the subscriber, before it receives anything through the new
  connection, drop a sample that it received earlier from this slot: it is released through the new
  connection, which has not lent it. In a build with overflow checks the drop panics. In a build
  without them, when the retrieve channel has room, the drop returns: the distance of the address to
  the data segment of the new publisher, modulo \<open>2 ^ 64\<close>, gets into the retrieve channel of a publisher
  that never sent it, and the borrow counter wraps around to \<open>2 ^ 64 - 1\<close>, so that the subscriber cannot
  receive from this slot any more.
\<close>
theorem subscriber_stale_sample:
  assumes "PublisherConnections_remove e i cs st = Ret (cs1, st1)"
    and "PublisherConnections_create e opened i publisher_id cs1 st1 = Ret (Ok (), cs2, st2)"
    and "sa_channel_id sample = i" "su_publisher_connections s = cs2"
    and "pcn_connections cs2 ! i = Some c" "zs_store st2 (zcr_mgmt (cn_receiver c)) = Some m"
  shows "(pe_overflow_checks e \<longrightarrow> Sample_drop e sample s st2 = Panic)
    \<and> (\<not> pe_overflow_checks e \<and> Management_inv m \<and> length (retr_list m) < retr_capacity m
        \<and> zm_max_borrowed_samples m < 2 ^ 64 \<and> sa_ptr sample < 2 ^ 64
        \<and> allocator_data_start_address (cn_data_segment c) < 2 ^ 64 \<longrightarrow>
      (\<exists>c' s' st'. Sample_drop e sample s st2 = Ret (s', st')
        \<and> pcn_connections (su_publisher_connections s') ! i = Some c'
        \<and> zcr_borrow_counter (cn_receiver c') = 2 ^ 64 - 1
        \<and> channels st' (zcr_mgmt (cn_receiver c)) = Some (True, zm_max_borrowed_samples m, recv_list m,
            retr_list m @ [(sa_ptr sample + 2 ^ 64 - allocator_data_start_address (cn_data_segment c)) mod 2 ^ 64])
        \<and> receive_from_connection i c' s' st' = Ret (Err ExceedsMaxBorrowedSamples, s', st')))"
proof (intro conjI impI; (elim conjE)?)
  have slot: "i < length (pcn_connections cs2)" "zcr_borrow_counter (cn_receiver c) = 0"
    using reconnected_slot [OF assms(1,2)] assms(5) by auto
  show "Sample_drop e sample s st2 = Panic" if "pe_overflow_checks e"
    using that assms(3-6) slot
    by (cases "usize_sub True (sa_ptr sample) (allocator_data_start_address (cn_data_segment c))")
      (auto simp: Sample_drop_def Subscriber_release_sample_def Let_def release_def usize_sub_def split: prod.splits bool.splits)
  assume e: "\<not> pe_overflow_checks e" and m: "Management_inv m" "length (retr_list m) < retr_capacity m"
    and small: "zm_max_borrowed_samples m < 2 ^ 64" "sa_ptr sample < 2 ^ 64"
      "allocator_data_start_address (cn_data_segment c) < 2 ^ 64"
  define d where "d = (sa_ptr sample + 2 ^ 64 - allocator_data_start_address (cn_data_segment c)) mod 2 ^ 64"
  have d: "usize_sub (pe_overflow_checks e) (sa_ptr sample) (allocator_data_start_address (cn_data_segment c)) = Ret d"
    using usize_sub_mod [OF small(2,3)] e by (simp add: d_def)
  obtain m' where m': "\<And>checks n. release checks d n m = outcome_bind (usize_sub checks n 1) (\<lambda>n'. Ret (Ok (), n', m'))"
    "Management_inv m'" "same_settings m m'" "recv_list m' = recv_list m" "retr_list m' = retr_list m @ [d]"
    using release_push [OF m] by blast
  have rel: "release (pe_overflow_checks e) d 0 m = Ret (Ok (), 2 ^ 64 - 1, m')" using e m'(1) by (simp add: usize_sub_def)
  define c' where "c' = c\<lparr>cn_receiver := (cn_receiver c)\<lparr>zcr_borrow_counter := 2 ^ 64 - 1\<rparr>\<rparr>"
  define s' where "s' = set_connection i c' s"
  define st' where "st' = set_mgmt (zcr_mgmt (cn_receiver c)) m' st2"
  have drop: "Sample_drop e sample s st2 = Ret (s', st')"
    using assms(3-6) slot d rel by (simp add: Sample_drop_def Subscriber_release_sample_def Let_def s'_def st'_def c'_def)
  have c'_slot: "pcn_connections (su_publisher_connections s') ! i = Some c'"
    using set_connection_nth [of i s c'] slot(1) assms(4) by (simp add: s'_def)
  have store: "zs_store st' (zcr_mgmt (cn_receiver c')) = Some m'" by (simp add: st'_def c'_def set_mgmt_def)
  have "receive (2 ^ 64 - 1) m' = (Err ReceiveWouldExceedMaxBorrowValue, 2 ^ 64 - 1, m')"
    using small(1) m'(3) by (simp add: receive_def same_settings_def)
  then have "receive_from_connection i c' s' st' = Ret (Err ExceedsMaxBorrowedSamples, s', st')"
    using store set_connection_same [OF c'_slot] sound_set_same [OF store]
    by (simp add: receive_from_connection_def Let_def c'_def)
  moreover have "channels st' (zcr_mgmt (cn_receiver c)) = Some (True, zm_max_borrowed_samples m, recv_list m, retr_list m @ [d])"
    using m'(2-5) by (simp add: st'_def channels_set_mgmt channel_view_def same_settings_def)
  moreover have "zcr_borrow_counter (cn_receiver c') = 2 ^ 64 - 1" by (simp add: c'_def)
  ultimately show "\<exists>c' s' st'. Sample_drop e sample s st2 = Ret (s', st')
        \<and> pcn_connections (su_publisher_connections s') ! i = Some c'
        \<and> zcr_borrow_counter (cn_receiver c') = 2 ^ 64 - 1
        \<and> channels st' (zcr_mgmt (cn_receiver c)) = Some (True, zm_max_borrowed_samples m, recv_list m,
            retr_list m @ [(sa_ptr sample + 2 ^ 64 - allocator_data_start_address (cn_data_segment c)) mod 2 ^ 64])
        \<and> receive_from_connection i c' s' st' = Ret (Err ExceedsMaxBorrowedSamples, s', st')"
    using drop c'_slot unfolding d_def by blast
qed

section \<open>A subscriber is a receiver of the publisher\<close>

text \<open>
  The calls of a subscriber are sequences of the steps that the receivers take in the transition
  system of a publisher, so what holds there holds for subscribers. The receivers are those of the
  slots.
\<close>

definition slots :: "PublisherConnections \<Rightarrow> nat \<Rightarrow> ZeroCopyReceiver option" where
  "slots cs i = (if i < length (pcn_connections cs) then map_option cn_receiver (pcn_connections cs ! i) else None)"

lemma slots_update:
  "i < length (pcn_connections cs) \<Longrightarrow>
    slots (cs\<lparr>pcn_connections := (pcn_connections cs)[i := c]\<rparr>) = (slots cs)(i := map_option cn_receiver c)"
  by (auto simp: slots_def fun_eq_iff nth_list_update)

lemma create_receiver_refused: "create_receiver junk locked b st = Ret (Err x, st') \<Longrightarrow> st' = st"
  by (auto simp: create_receiver_def connect_port_def outcome_bind_eq_Ret case_result_iff split: if_splits option.splits result.splits)

abbreviation pub_steps :: "port_env \<Rightarrow> pub_conf \<Rightarrow> pub_conf \<Rightarrow> bool" where
  "pub_steps e \<equiv> (pub_step e)\<^sup>*\<^sup>*"

lemma Receiver_drop_step:
  assumes "Receiver_drop e rc st = Ret st'" "pc_receivers s i = Some rc" "pc_storage s = st"
  shows "pub_step e s (s\<lparr>pc_storage := st', pc_receivers := (pc_receivers s)(i := None)\<rparr>)"
  using assms by (auto simp: Receiver_drop_def split: option.splits intro: pub_step.pub_disconnect)

lemma remove_steps:
  assumes "PublisherConnections_remove e i cs st = Ret (cs', st')" "pc_receivers s = slots cs" "pc_storage s = st"
  shows "pub_steps e s (s\<lparr>pc_storage := st', pc_receivers := slots cs'\<rparr>) \<and> length (pcn_connections cs') = length (pcn_connections cs)"
proof -
  have i: "i < length (pcn_connections cs)" using assms(1) by (auto simp: PublisherConnections_remove_def split: if_splits)
  then have cs': "cs' = cs\<lparr>pcn_connections := (pcn_connections cs)[i := None]\<rparr>"
    using assms(1) by (auto simp: PublisherConnections_remove_def Let_def outcome_bind_eq_Ret split: if_splits option.splits)
  show ?thesis
  proof (cases "pcn_connections cs ! i")
    case None
    then have "slots cs' = slots cs" using i by (auto simp: cs' slots_update slots_def)
    moreover have "st' = st" using assms(1) None i by (simp add: PublisherConnections_remove_def Let_def)
    ultimately have "s\<lparr>pc_storage := st', pc_receivers := slots cs'\<rparr> = s" using assms(2,3) by simp
    then show ?thesis by (simp add: cs')
  next
    case (Some c)
    then have "Receiver_drop e (cn_receiver c) st = Ret st'"
      using assms(1) i by (auto simp: PublisherConnections_remove_def Let_def outcome_bind_eq_Ret)
    moreover have "slots cs i = Some (cn_receiver c)" using Some i by (simp add: slots_def)
    ultimately have "pub_step e s (s\<lparr>pc_storage := st', pc_receivers := slots cs'\<rparr>)"
      using Receiver_drop_step [of e "cn_receiver c" st st' s i] assms(2,3) i by (simp add: cs' slots_update)
    then show ?thesis by (simp add: cs' r_into_rtranclp)
  qed
qed

lemma create_steps:
  assumes "PublisherConnections_create e opened i publisher_id cs st = Ret (r, cs', st')" "pc_receivers s = slots cs" "pc_storage s = st"
  shows "pub_steps e s (s\<lparr>pc_storage := st', pc_receivers := slots cs'\<rparr>) \<and> length (pcn_connections cs') = length (pcn_connections cs)"
proof -
  have i: "i < length (pcn_connections cs)" using assms(1) by (auto simp: PublisherConnections_create_def split: if_splits)
  have same: ?thesis if "cs' = cs" "st' = st"
  proof -
    have "s\<lparr>pc_storage := st', pc_receivers := slots cs'\<rparr> = s" using assms(2,3) that by simp
    then show ?thesis using that by simp
  qed
  show ?thesis
  proof (cases "pcn_connections cs ! i")
    case (Some c)
    then have "cs' = cs" "st' = st" using assms(1) i by (simp_all add: PublisherConnections_create_def)
    then show ?thesis by (rule same)
  next
    case None
    then obtain q st1 where new: "Connection_new e opened cs publisher_id st = Ret (q, st1)"
      using assms(1) i by (auto simp: PublisherConnections_create_def outcome_bind_eq_Ret)
    have free: "pc_receivers s i = None" using None i assms(2) by (simp add: slots_def)
    have res: "st' = st1" "q = Err err \<Longrightarrow> cs' = cs"
      "q = Ok c \<Longrightarrow> cs' = cs\<lparr>pcn_connections := (pcn_connections cs)[i := Some c]\<rparr>" for err c
      using assms(1) i None new by (auto simp: PublisherConnections_create_def case_result_iff)
    from new show ?thesis
    proof (cases rule: Connection_new_cases)
      case (1 err junk locked b x)
      have "cs' = cs" using res(2) [OF 1(1)] .
      moreover have "st' = st" using res(1) create_receiver_refused [OF 1(2)] by simp
      ultimately show ?thesis by (rule same)
    next
      case (2 junk locked b receiver st2 err)
      let ?s1 = "s\<lparr>pc_storage := st2, pc_receivers := (pc_receivers s)(i \<mapsto> receiver)\<rparr>"
      have "pub_step e s ?s1" using pub_step.pub_connect [OF free] 2(2) assms(3) by blast
      moreover have "pub_step e ?s1 (s\<lparr>pc_storage := st', pc_receivers := slots cs'\<rparr>)"
        using Receiver_drop_step [OF 2(3), of ?s1 i] res(1) res(2) [OF 2(1)] free assms(2) by (simp add: fun_upd_idem)
      ultimately show ?thesis using res(2) [OF 2(1)] by (meson converse_rtranclp_into_rtranclp r_into_rtranclp)
    next
      case (3 junk locked b c)
      have "pub_step e s (s\<lparr>pc_storage := st', pc_receivers := (pc_receivers s)(i \<mapsto> cn_receiver c)\<rparr>)"
        using pub_step.pub_connect [OF free, of junk locked b "cn_receiver c" st1 e] 3(2) assms(3) res(1) by simp
      then show ?thesis using res(3) [OF 3(1)] i assms(2) by (simp add: slots_update r_into_rtranclp)
    qed
  qed
qed

lemma set_receivers_twice:
  "s\<lparr>pc_storage := a, pc_receivers := b, pc_storage := a', pc_receivers := b'\<rparr> = s\<lparr>pc_storage := a', pc_receivers := b'\<rparr>"
  by simp

lemma populate_steps:
  assumes "populate_publisher_loop e opened i ids sub st = Ret (r, sub', st')"
    "pc_receivers s = slots (su_publisher_connections sub)" "pc_storage s = st"
  shows "pub_steps e s (s\<lparr>pc_storage := st', pc_receivers := slots (su_publisher_connections sub')\<rparr>)"
  using assms
proof (induction ids arbitrary: i sub st s)
  case Nil
  then have "s\<lparr>pc_storage := st', pc_receivers := slots (su_publisher_connections sub')\<rparr> = s" by simp
  then show ?case by simp
next
  case (Cons o' ids)
  have next_step: ?case
    if a: "pub_steps e s (s\<lparr>pc_storage := st1, pc_receivers := slots cs1\<rparr>)"
      and b: "populate_publisher_loop e opened (i + 1) ids (sub\<lparr>su_publisher_connections := cs1\<rparr>) st1 = Ret (r, sub', st')" for st1 cs1
    using rtranclp_trans [OF a] Cons.IH [OF b, of "s\<lparr>pc_storage := st1, pc_receivers := slots cs1\<rparr>"] by simp
  show ?case
  proof (cases o')
    case None
    then obtain cs1 st1 where rm: "PublisherConnections_remove e i (su_publisher_connections sub) st = Ret (cs1, st1)"
      "populate_publisher_loop e opened (i + 1) ids (sub\<lparr>su_publisher_connections := cs1\<rparr>) st1 = Ret (r, sub', st')"
      using Cons.prems(1) by (auto simp: outcome_bind_eq_Ret)
    show ?thesis using next_step [OF _ rm(2)] remove_steps [OF rm(1) Cons.prems(2,3)] by blast
  next
    case (Some publisher_id)
    then obtain q cs1 st1 where cr: "PublisherConnections_create e opened i publisher_id (su_publisher_connections sub) st = Ret (q, cs1, st1)"
      using Cons.prems(1) by (auto simp: outcome_bind_eq_Ret)
    have steps: "pub_steps e s (s\<lparr>pc_storage := st1, pc_receivers := slots cs1\<rparr>)"
      using create_steps [OF cr Cons.prems(2,3)] by blast
    consider "populate_publisher_loop e opened (i + 1) ids (sub\<lparr>su_publisher_connections := cs1\<rparr>) st1 = Ret (r, sub', st')"
      | "sub' = sub\<lparr>su_publisher_connections := cs1\<rparr>" "st' = st1"
      using Cons.prems(1) Some cr
      by (cases q; cases "su_degration_callback sub"; cases "the (su_degration_callback sub) publisher_id (pcn_subscriber_id cs1)")
        (auto simp: Let_def)
    then show ?thesis
    proof cases
      case 1
      then show ?thesis using next_step [OF steps] by blast
    next
      case 2
      then show ?thesis using steps by simp
    qed
  qed
qed

lemma update_steps:
  assumes "Subscriber_update_connections e opened publishers sub st = Ret (r, sub', st')"
    "pc_receivers s = slots (su_publisher_connections sub)" "pc_storage s = st"
  shows "pub_steps e s (s\<lparr>pc_storage := st', pc_receivers := slots (su_publisher_connections sub')\<rparr>)"
proof -
  obtain changed state where c: "Container_update_state publishers (su_publisher_list_state sub) = (changed, state)" by fastforce
  show ?thesis
  proof (cases changed)
    case True
    then obtain ids where "populate_publisher_loop e opened 0 ids (sub\<lparr>su_publisher_list_state := state\<rparr>) st = Ret (r, sub', st')"
      using assms(1) c by (auto simp: Subscriber_update_connections_def populate_publisher_channels_def Let_def outcome_bind_eq_Ret)
    from populate_steps [OF this] show ?thesis using assms(2,3) by simp
  next
    case False
    then have "s\<lparr>pc_storage := st', pc_receivers := slots (su_publisher_connections sub')\<rparr> = s"
      using assms c by (auto simp: Subscriber_update_connections_def Let_def)
    then show ?thesis by simp
  qed
qed

text \<open>What a call of \<open>receive\<close> adds to the samples the receivers hold.\<close>

definition borrowed_by :: "Connection option list \<Rightarrow> (Sample option, ReceiveError) result \<Rightarrow> (nat \<times> nat) list" where
  "borrowed_by cs r = (case r of
     Ok (Some sample) \<Rightarrow> [(sa_channel_id sample,
       sa_ptr sample - allocator_data_start_address (cn_data_segment (the (cs ! sa_channel_id sample))))]
   | _ \<Rightarrow> [])"

lemma receive_from_steps:
  assumes rf: "receive_from_connection i c sub st = Ret (r, sub', st')"
    and slot: "i < length (pcn_connections (su_publisher_connections sub))" "pcn_connections (su_publisher_connections sub) ! i = Some c"
    and s: "pc_receivers s = slots (su_publisher_connections sub)" "pc_storage s = st"
  shows "pub_steps e s (s\<lparr>pc_storage := st', pc_receivers := slots (su_publisher_connections sub'),
      pc_borrowed := borrowed_by (pcn_connections (su_publisher_connections sub')) r @ pc_borrowed s\<rparr>)
    \<and> length (pcn_connections (su_publisher_connections sub')) = length (pcn_connections (su_publisher_connections sub))
    \<and> drop (Suc i) (pcn_connections (su_publisher_connections sub')) = drop (Suc i) (pcn_connections (su_publisher_connections sub))"
proof -
  let ?rc = "cn_receiver c"
  obtain m where m: "zs_store st (zcr_mgmt ?rc) = Some m" using rf by (auto simp: receive_from_connection_def Let_def split: option.splits)
  obtain q n m' where rec: "receive (zcr_borrow_counter ?rc) m = (q, n, m')" by (metis prod.exhaust)
  have rs: "pc_receivers s i = Some ?rc" using s slot by (simp add: slots_def)
  show ?thesis
  proof (cases q)
    case (Ok x)
    have sub': "sub' = set_connection i (c\<lparr>cn_receiver := ?rc\<lparr>zcr_borrow_counter := n\<rparr>\<rparr>) sub" "st' = set_mgmt (zcr_mgmt ?rc) m' st"
      using rf m rec Ok by (auto simp: receive_from_connection_def Let_def split: option.splits)
    then have "pcn_connections (su_publisher_connections sub') ! i = Some (c\<lparr>cn_receiver := ?rc\<lparr>zcr_borrow_counter := n\<rparr>\<rparr>)"
      using set_connection_nth slot(1) by blast
    then have "borrowed_by (pcn_connections (su_publisher_connections sub')) r = (case x of None \<Rightarrow> [] | Some y \<Rightarrow> [(i, y)])"
      using rf m rec Ok by (auto simp: receive_from_connection_def Let_def borrowed_by_def split: option.splits)
    moreover have "slots (su_publisher_connections (set_connection i (c\<lparr>cn_receiver := ?rc\<lparr>zcr_borrow_counter := n\<rparr>\<rparr>) sub))
        = (pc_receivers s)(i \<mapsto> ?rc\<lparr>zcr_borrow_counter := n\<rparr>)"
      using s(1) slot by (simp add: set_connection_def slots_update)
    ultimately show ?thesis
      using pub_step.pub_receive [OF rs, of m x n m' e] m rec Ok s(2) sub' by (auto simp: r_into_rtranclp set_connection_def)
  next
    case (Err x)
    have "m' = m" "n = zcr_borrow_counter ?rc" using receive_Err rec Err by auto
    then have same: "sub' = sub" "st' = st" "borrowed_by (pcn_connections (su_publisher_connections sub')) r = []"
      using rf m rec Err sound_set_same [OF m] set_connection_same [OF slot(2)]
      by (auto simp: receive_from_connection_def Let_def borrowed_by_def split: ZeroCopyReceiveError.splits)
    then have "s\<lparr>pc_storage := st', pc_receivers := slots (su_publisher_connections sub'),
      pc_borrowed := borrowed_by (pcn_connections (su_publisher_connections sub')) r @ pc_borrowed s\<rparr> = s" using s by simp
    then show ?thesis using same(1) by simp
  qed
qed

lemma receive_loop_steps:
  assumes "receive_loop i cs sub st = Ret (r, sub', st')" "drop i (pcn_connections (su_publisher_connections sub)) = cs"
    "pc_receivers s = slots (su_publisher_connections sub)" "pc_storage s = st"
  shows "pub_steps e s (s\<lparr>pc_storage := st', pc_receivers := slots (su_publisher_connections sub'),
      pc_borrowed := borrowed_by (pcn_connections (su_publisher_connections sub')) r @ pc_borrowed s\<rparr>)"
  using assms
proof (induction cs arbitrary: i sub st s)
  case Nil
  then have "s\<lparr>pc_storage := st', pc_receivers := slots (su_publisher_connections sub'),
      pc_borrowed := borrowed_by (pcn_connections (su_publisher_connections sub')) r @ pc_borrowed s\<rparr> = s"
    by (auto simp: borrowed_by_def)
  then show ?case by simp
next
  case (Cons o' cs)
  have rest: "drop (Suc i) (pcn_connections (su_publisher_connections sub)) = cs"
    using Cons.prems(2) by (metis drop_Suc list.sel(3) tl_drop)
  show ?case
  proof (cases o')
    case None
    then show ?thesis using Cons.IH [OF _ rest Cons.prems(3,4)] Cons.prems(1) by simp
  next
    case (Some c)
    have slot: "i < length (pcn_connections (su_publisher_connections sub))" "pcn_connections (su_publisher_connections sub) ! i = Some c"
      using Cons.prems(2) Some by (metis drop_eq_Nil list.distinct(1) not_le, metis nth_via_drop)
    obtain q sub1 st1 where rf: "receive_from_connection i c sub st = Ret (q, sub1, st1)"
      using Cons.prems(1) Some by (auto simp: outcome_bind_eq_Ret)
    note steps = receive_from_steps [OF rf slot Cons.prems(3,4), of e]
    show ?thesis
    proof (cases "q = Ok None")
      case True
      let ?s1 = "s\<lparr>pc_storage := st1, pc_receivers := slots (su_publisher_connections sub1)\<rparr>"
      have one: "pub_steps e s ?s1" using steps True by (simp add: borrowed_by_def)
      have "receive_loop (Suc i) cs sub1 st1 = Ret (r, sub', st')" using Cons.prems(1) Some rf True by simp
      from Cons.IH [OF this, of ?s1] steps rest have "pub_steps e ?s1 (s\<lparr>pc_storage := st', pc_receivers := slots (su_publisher_connections sub'),
          pc_borrowed := borrowed_by (pcn_connections (su_publisher_connections sub')) r @ pc_borrowed s\<rparr>)" by simp
      with one show ?thesis by (rule rtranclp_trans)
    next
      case False
      then have "r = q" "sub' = sub1" "st' = st1" using Cons.prems(1) Some rf by (auto split: result.splits option.splits)
      then show ?thesis using steps by blast
    qed
  qed
qed

lemma receive_steps:
  assumes "Subscriber_receive e opened publishers sub (pc_storage s) = Ret (r, sub', st')"
    "pc_receivers s = slots (su_publisher_connections sub)"
  shows "pub_steps e s (s\<lparr>pc_storage := st', pc_receivers := slots (su_publisher_connections sub'),
      pc_borrowed := borrowed_by (pcn_connections (su_publisher_connections sub')) r @ pc_borrowed s\<rparr>)"
proof -
  obtain q sub1 st1 where up: "Subscriber_update_connections e opened publishers sub (pc_storage s) = Ret (q, sub1, st1)"
    using assms(1) by (auto simp: Subscriber_receive_def outcome_bind_eq_Ret)
  let ?s1 = "s\<lparr>pc_storage := st1, pc_receivers := slots (su_publisher_connections sub1)\<rparr>"
  have one: "pub_steps e s ?s1" using update_steps [OF up assms(2)] by simp
  show ?thesis
  proof (cases q)
    case (Ok x)
    then have "receive_loop 0 (pcn_connections (su_publisher_connections sub1)) sub1 st1 = Ret (r, sub', st')"
      using assms(1) up by (simp add: Subscriber_receive_def)
    from rtranclp_trans [OF one] receive_loop_steps [OF this, of ?s1 e] show ?thesis by simp
  next
    case (Err x)
    then have "sub' = sub1" "st' = st1" "borrowed_by (pcn_connections (su_publisher_connections sub')) r = []"
      using assms(1) up by (auto simp: Subscriber_receive_def borrowed_by_def)
    then show ?thesis using one by simp
  qed
qed

lemma drop_step:
  assumes "Sample_drop e (sample_at i c x) sub (pc_storage s) = Ret (sub', st')"
    "pc_receivers s = slots (su_publisher_connections sub)"
    "i < length (pcn_connections (su_publisher_connections sub))" "pcn_connections (su_publisher_connections sub) ! i = Some c"
    "(i, x) \<in> set (pc_borrowed s)"
  shows "pub_step e s (s\<lparr>pc_storage := st', pc_receivers := slots (su_publisher_connections sub'),
      pc_borrowed := remove1 (i, x) (pc_borrowed s)\<rparr>)"
proof -
  let ?rc = "cn_receiver c"
  obtain m where m: "zs_store (pc_storage s) (zcr_mgmt ?rc) = Some m"
    using assms(1,3,4) by (auto simp: Sample_drop_def sample_at_def Subscriber_release_sample_def Let_def split: option.splits)
  obtain q n m' where rel: "release (pe_overflow_checks e) x (zcr_borrow_counter ?rc) m = Ret (q, n, m')"
    using assms(1,3,4) m by (auto simp: Sample_drop_def sample_at_def Subscriber_release_sample_def Let_def outcome_bind_eq_Ret)
  have ok: "q = Ok ()" using assms(1,3,4) m rel
    by (cases q) (auto simp: Sample_drop_def sample_at_def Subscriber_release_sample_def Let_def split: ZeroCopyReleaseError.splits)
  have res: "sub' = set_connection i (c\<lparr>cn_receiver := ?rc\<lparr>zcr_borrow_counter := n\<rparr>\<rparr>) sub" "st' = set_mgmt (zcr_mgmt ?rc) m' (pc_storage s)"
    using assms(1,3,4) m rel ok by (auto simp: Sample_drop_def sample_at_def Subscriber_release_sample_def Let_def)
  have "slots (su_publisher_connections sub') = (pc_receivers s)(i \<mapsto> ?rc\<lparr>zcr_borrow_counter := n\<rparr>)"
    using assms(2,3) res(1) by (simp add: set_connection_def slots_update)
  moreover have "pc_receivers s i = Some ?rc" using assms(2-4) by (simp add: slots_def)
  ultimately show ?thesis using pub_step.pub_release [of s i ?rc x m e n m'] assms(5) m rel ok res(2) by simp
qed

text \<open>
  C7: A subscriber is a set of receivers: a call of \<open>receive\<close>, with the update of the connections it
  begins with, and the drop of a received sample do to the shared storage exactly what a sequence of
  steps of the receivers in the transition system of the publisher does, and a received sample is a
  sample that its receiver borrowed. So whatever a subscriber does, the samples a publisher has
  loaned are referred to by nobody else.
\<close>
theorem subscriber_refines_receivers:
  assumes "pc_receivers s = slots (su_publisher_connections sub)"
  shows "(Subscriber_receive e opened publishers sub (pc_storage s) = Ret (r, sub', st') \<longrightarrow>
      (pub_step e)\<^sup>*\<^sup>* s (s\<lparr>pc_storage := st', pc_receivers := slots (su_publisher_connections sub'),
        pc_borrowed := borrowed_by (pcn_connections (su_publisher_connections sub')) r @ pc_borrowed s\<rparr>))
    \<and> (Sample_drop e (sample_at i c x) sub (pc_storage s) = Ret (sub', st') \<and> (i, x) \<in> set (pc_borrowed s)
      \<and> i < length (pcn_connections (su_publisher_connections sub)) \<and> pcn_connections (su_publisher_connections sub) ! i = Some c \<longrightarrow>
      (pub_step e)\<^sup>*\<^sup>* s (s\<lparr>pc_storage := st', pc_receivers := slots (su_publisher_connections sub'),
        pc_borrowed := remove1 (i, x) (pc_borrowed s)\<rparr>))"
  using receive_steps [OF _ assms] r_into_rtranclp [of "pub_step e", OF drop_step [OF _ assms]] by blast

section \<open>Witnesses\<close>

lemma example_scheme:
  assumes "sfx = ''.connection'' \<or> sfx = ''.publisher_data''"
  shows "\<exists>cfg. generate_default_config (pe_junk_file example_env) (pe_junk_path example_env) ''iox2_'' sfx ''/tmp/iceoryx2/'' = Ret cfg
    \<and> path.valid_string (nc_path_hint cfg) \<and> CAPACITY (nc_path_hint cfg) = PATH_LENGTH
    \<and> file_name.valid_string (nc_prefix cfg) \<and> file_name.valid_string (nc_suffix cfg)
    \<and> bs_len (nc_path_hint cfg) = 14 \<and> bs_len (nc_prefix cfg) = 5 \<and> bs_len (nc_suffix cfg) = length sfx"
  using generate_default_config_ok [of "pe_junk_file example_env" "pe_junk_path example_env" "''iox2_''" sfx "''/tmp/iceoryx2/''"] assms
  by (auto simp: example_env_def FILENAME_LENGTH_def PATH_LENGTH_def FileName_invalid_content_def Path_invalid_content_def)

lemma example_segment_name: "\<exists>f. data_segment_name (replicate FILENAME_LENGTH NUL) 5 = Ret f"
proof -
  have pid: "decimal_signed (sint (UniqueSystemId_pid 5)) = ''0''" "decimal (unat (5 :: UniqueSystemId)) = ''5''"
    by code_simp+
  obtain f0 where f0: "FileName_new (replicate FILENAME_LENGTH NUL) ''0'' = Ret (Ok f0)" "file_name.valid_string f0"
    "as_bytes f0 = ''0''" "CAPACITY f0 = FILENAME_LENGTH"
    using FileName_new_ok [of "replicate FILENAME_LENGTH NUL" "''0''"] by (auto simp: FILENAME_LENGTH_def FileName_invalid_content_def)
  have l0: "bs_len f0 = 1" using f0(2,3) length_as_bytes [of f0] by (simp add: file_name.valid_string_def)
  obtain f1 where f1: "FileName_push_bytes ''_'' f0 = Ret (Ok (), f1)" "file_name.valid_string f1" "CAPACITY f1 = FILENAME_LENGTH"
    "as_bytes f1 = ''0_''"
    using FileName_push_ok [OF f0(2), of "''_''"] f0(3,4) l0 by (auto simp: FILENAME_LENGTH_def FileName_invalid_content_def)
  have l1: "bs_len f1 = 2" using f1(2,4) length_as_bytes [of f1] by (simp add: file_name.valid_string_def)
  obtain f2 where f2: "FileName_push_bytes ''5'' f1 = Ret (Ok (), f2)"
    using FileName_push_ok [OF f1(2), of "''5''"] f1(3,4) l1 by (auto simp: FILENAME_LENGTH_def FileName_invalid_content_def)
  have "FileName_push (CHR ''_'') f0 = Ret (Ok (), f1)"
    using f1(1) by (simp add: FileName_push_def FileName_push_bytes_def SemanticString_push_def SemanticString_insert_def
        SemanticString_push_bytes_def)
  then show ?thesis using f0(1) f2 pid by (simp add: data_segment_name_def unwrap_name_def or_panic_def)
qed

text \<open>A data segment that the operating system maps at the address 65536.\<close>

definition example_segment :: Memory where
  "example_segment = (case SharedMemory_create (mk_layout 8 8) 4096 (8 * 7 + 8 - 1) (mk_layout 8 8) (Ok 65536) of Ret (Ok m) \<Rightarrow> m)"

lemma example_segment_open: "SharedMemory_open (Ok example_segment) = Ok example_segment"
proof -
  obtain m where "SharedMemory_create (mk_layout 8 8) 4096 (8 * 7 + 8 - 1) (mk_layout 8 8) (Ok 65536) = Ret (Ok m)" "SharedMemory_open (Ok m) = Ok m"
    using SharedMemory_create_ok [of "mk_layout 8 8" 4096 7 "mk_layout 8 8" 65536] valid_layout_8 by auto
  then show ?thesis by (simp add: example_segment_def)
qed

definition example_connections :: "Connection option \<Rightarrow> PublisherConnections" where
  "example_connections c = (PublisherConnections_new 1 9 Config_default example_static_config)\<lparr>pcn_connections := [c]\<rparr>"

text \<open>Connecting to a publisher while nobody has a connection leaves one entry in the storage.\<close>

lemma example_connect:
  assumes st: "zs_storage st = (\<lambda>_. None)"
  shows "\<exists>rc m fp. PublisherConnections_create example_env (\<lambda>_ _. Ok example_segment) 0 5 (example_connections None) st
      = Ret (Ok (), example_connections (Some \<lparr>cn_receiver = rc, cn_data_segment = example_segment\<rparr>),
          st\<lparr>zs_store := (zs_store st)(zs_next st \<mapsto> m), zs_storage := [as_bytes fp \<mapsto> zs_next st], zs_next := zs_next st + 1\<rparr>)
    \<and> zcr_mgmt rc = zs_next st \<and> path_for (replicate PATH_LENGTH NUL) (zcr_config rc) (zm_name m) = Ret fp
    \<and> zm_state m = State_Receiver \<and> Management_inv m \<and> recv_list m = [] \<and> retr_list m = [] \<and> 0 < retr_capacity m
    \<and> zm_max_borrowed_samples m = 1"
proof -
  obtain name where name: "connection_name (replicate FILENAME_LENGTH NUL) 5 9 = Ret name" "file_name.valid_string name" "bs_len name \<le> 79"
    using connection_name_ok [of "replicate FILENAME_LENGTH NUL"] by auto
  obtain sn where sn: "data_segment_name (replicate FILENAME_LENGTH NUL) 5 = Ret sn" using example_segment_name by blast
  obtain cfg where cfg: "connection_config (pe_junk_file example_env) (pe_junk_path example_env) Config_default = Ret cfg"
    "path.valid_string (nc_path_hint cfg)" "CAPACITY (nc_path_hint cfg) = PATH_LENGTH"
    "file_name.valid_string (nc_prefix cfg)" "file_name.valid_string (nc_suffix cfg)"
    "bs_len (nc_path_hint cfg) = 14" "bs_len (nc_prefix cfg) = 5" "bs_len (nc_suffix cfg) = 11"
    using example_scheme [of "''.connection''"] by (auto simp: connection_config_def Config_default_def)
  obtain sc where sc: "data_segment_config (pe_junk_file example_env) (pe_junk_path example_env) Config_default = Ret sc"
    using example_scheme [of "''.publisher_data''"] by (auto simp: data_segment_config_def Config_default_def)
  obtain fp where fp: "path_for (replicate PATH_LENGTH NUL) cfg name = Ret fp"
    using path_for_ok [OF cfg(2-4) name(2) cfg(5), of "replicate PATH_LENGTH NUL"] cfg(6-8) name(3) by (auto simp: PATH_LENGTH_def)
  define b where "b = connection_builder cfg name example_static_config"
  have b: "zb_config b = cfg" "zb_name b = name" "zb_max_borrowed_samples b = 1" "zb_buffer_size b = 2"
    by (simp_all add: b_def connection_builder_def ZeroCopyBuilder_new_def ZeroCopyBuilder_enable_safe_overflow_def
        ZeroCopyBuilder_receiver_max_borrowed_samples_def ZeroCopyBuilder_buffer_size_def example_static_config_def)
  let ?m = "Management_new State_Receiver b"
  let ?rc = "\<lparr>zcr_mgmt = zs_next st, zcr_borrow_counter = 0, zcr_config = cfg\<rparr>"
  let ?st = "st\<lparr>zs_store := (zs_store st)(zs_next st \<mapsto> ?m), zs_storage := [as_bytes fp \<mapsto> zs_next st], zs_next := zs_next st + 1\<rparr>"
  have "create_receiver (replicate PATH_LENGTH NUL) True b st = Ret (Ok ?rc, ?st)"
    using fp b(1,2) st by (simp add: create_receiver_def connect_port_def)
  then have "Connection_new example_env (\<lambda>_ _. Ok example_segment) (example_connections None) 5 st
      = Ret (Ok \<lparr>cn_receiver = ?rc, cn_data_segment = example_segment\<rparr>, ?st)"
    using name(1) sn cfg(1) sc example_segment_open
    by (simp add: Connection_new_def example_connections_def PublisherConnections_new_def example_env_def b_def)
  then have "PublisherConnections_create example_env (\<lambda>_ _. Ok example_segment) 0 5 (example_connections None) st
      = Ret (Ok (), example_connections (Some \<lparr>cn_receiver = ?rc, cn_data_segment = example_segment\<rparr>), ?st)"
    by (simp add: PublisherConnections_create_def example_connections_def)
  moreover have "zm_name ?m = name" "zm_max_borrowed_samples ?m = 1" "0 < retr_capacity ?m" "zm_state ?m = State_Receiver"
    using b by (simp_all add: Management_new_def retr_capacity_def retrieve_channel_size_def IndexQueue_new_def)
  ultimately show ?thesis
    using fp Management_new_inv by (intro exI [of _ ?rc] exI [of _ ?m] exI [of _ fp]) simp
qed

definition example_subscriber :: "Connection option \<Rightarrow> Subscriber" where
  "example_subscriber c = \<lparr>su_dynamic_config_guard = None, su_publisher_connections = example_connections c,
     su_degration_callback = None, su_publisher_list_state = \<lparr>cs_current_index_set_head = ui_head (ct_index_set (FixedSizeContainer_new 1 :: UniqueSystemId Container)),
       cs_data = [], cs_active_index = []\<rparr>\<rparr>"

lemma example_segment_start: "allocator_data_start_address example_segment = 65586"
proof -
  obtain m where m: "SharedMemory_create (mk_layout 8 8) 4096 (8 * 7 + 8 - 1) (mk_layout 8 8) (Ok 65536) = Ret (Ok m)"
    using SharedMemory_create_ok [of "mk_layout 8 8" 4096 7 "mk_layout 8 8" 65536] valid_layout_8 by auto
  then have "allocator_data_start_address m = 65536 + allocator_size (mk_layout 8 8) 63 (mk_layout 8 8)"
    by (auto simp: SharedMemory_create_def Let_def outcome_bind_eq_Ret allocator_data_start_address_def case_result_iff)
  also have "allocator_size (mk_layout 8 8) 63 (mk_layout 8 8) = 50" by code_simp
  finally show ?thesis using m by (simp add: example_segment_def)
qed

lemma any_profile:
  "pe_junk_file (e\<lparr>pe_overflow_checks := checks\<rparr>) = pe_junk_file e" "pe_junk_path (e\<lparr>pe_overflow_checks := checks\<rparr>) = pe_junk_path e"
  "pe_locked (e\<lparr>pe_overflow_checks := checks\<rparr>) = pe_locked e"
  by simp_all

lemma create_any_profile:
  "PublisherConnections_create (e\<lparr>pe_overflow_checks := checks\<rparr>) opened i publisher_id cs st
     = PublisherConnections_create e opened i publisher_id cs st"
  "PublisherConnections_remove (e\<lparr>pe_overflow_checks := checks\<rparr>) i cs st = PublisherConnections_remove e i cs st"
  unfolding PublisherConnections_create_def PublisherConnections_remove_def Connection_new_def Receiver_drop_def any_profile
  by (rule refl)+

text \<open>
  The subscriber connects to a publisher, loses the connection and connects again; then it drops a
  sample at the address 65610 that it received through the first connection.
\<close>

theorem subscriber_stale_sample_witness:
  "\<exists>old st0 st1 c st2 s' st'.
     PublisherConnections_create example_env (\<lambda>_ _. Ok example_segment) 0 5 (example_connections None) no_connections
       = Ret (Ok (), example_connections (Some old), st0)
   \<and> PublisherConnections_remove example_env 0 (example_connections (Some old)) st0 = Ret (example_connections None, st1)
   \<and> PublisherConnections_create example_env (\<lambda>_ _. Ok example_segment) 0 5 (example_connections None) st1
       = Ret (Ok (), example_connections (Some c), st2)
   \<and> Sample_drop example_env \<lparr>sa_channel_id = 0, sa_ptr = 65610\<rparr> (example_subscriber (Some c)) st2 = Ret (s', st')
   \<and> channels st' (zcr_mgmt (cn_receiver c)) = Some (True, 1, [], [24])
   \<and> Sample_drop (example_env\<lparr>pe_overflow_checks := True\<rparr>) \<lparr>sa_channel_id = 0, sa_ptr = 65610\<rparr>
       (example_subscriber (Some c)) st2 = Panic"
proof -
  let ?E = "example_env\<lparr>pe_overflow_checks := True\<rparr>" and ?sa = "\<lparr>sa_channel_id = 0, sa_ptr = 65610\<rparr>"
  have "zs_storage no_connections = (\<lambda>_. None)" by (simp add: no_connections_def)
  from example_connect [OF this] obtain rc m fp where one:
    "PublisherConnections_create example_env (\<lambda>_ _. Ok example_segment) 0 5 (example_connections None) no_connections
      = Ret (Ok (), example_connections (Some \<lparr>cn_receiver = rc, cn_data_segment = example_segment\<rparr>),
          no_connections\<lparr>zs_store := (zs_store no_connections)(zs_next no_connections \<mapsto> m),
            zs_storage := [as_bytes fp \<mapsto> zs_next no_connections], zs_next := zs_next no_connections + 1\<rparr>)"
    "zcr_mgmt rc = zs_next no_connections" "path_for (replicate PATH_LENGTH NUL) (zcr_config rc) (zm_name m) = Ret fp"
    "zm_state m = State_Receiver" by blast
  define old where "old = \<lparr>cn_receiver = rc, cn_data_segment = example_segment\<rparr>"
  define st0 where "st0 = no_connections\<lparr>zs_store := (zs_store no_connections)(zs_next no_connections \<mapsto> m),
    zs_storage := [as_bytes fp \<mapsto> zs_next no_connections], zs_next := zs_next no_connections + 1\<rparr>"
  obtain st1 where st1: "Receiver_drop example_env rc st0 = Ret st1" "zs_storage st1 = (\<lambda>_. None)"
    using one(2-4) by (auto simp: Receiver_drop_def cleanup_connection_def example_env_def st0_def no_connections_def Let_def)
  then have remove: "PublisherConnections_remove example_env 0 (example_connections (Some old)) st0 = Ret (example_connections None, st1)"
    by (simp add: PublisherConnections_remove_def example_connections_def old_def Let_def)
  from example_connect [OF st1(2)] obtain rc2 m2 st2 where two:
    "PublisherConnections_create example_env (\<lambda>_ _. Ok example_segment) 0 5 (example_connections None) st1
      = Ret (Ok (), example_connections (Some \<lparr>cn_receiver = rc2, cn_data_segment = example_segment\<rparr>), st2)"
    "zs_store st2 (zcr_mgmt rc2) = Some m2" "Management_inv m2" "recv_list m2 = []" "retr_list m2 = []"
    "0 < retr_capacity m2" "zm_max_borrowed_samples m2 = 1" by fastforce
  define c where "c = \<lparr>cn_receiver = rc2, cn_data_segment = example_segment\<rparr>"
  have slot: "sa_channel_id ?sa = 0" "su_publisher_connections (example_subscriber (Some c)) = example_connections (Some c)"
    "pcn_connections (example_connections (Some c)) ! 0 = Some c" "zs_store st2 (zcr_mgmt (cn_receiver c)) = Some m2"
    using two(2) by (simp_all add: example_subscriber_def example_connections_def c_def)
  have "Sample_drop ?E ?sa (example_subscriber (Some c)) st2 = Panic"
    using subscriber_stale_sample [of ?E, OF _ _ slot] remove two(1) create_any_profile [where e = example_env and checks = True]
    by (auto simp: c_def)
  moreover have "\<not> pe_overflow_checks example_env" by (simp add: example_env_def)
  then obtain s' st' where "Sample_drop example_env ?sa (example_subscriber (Some c)) st2 = Ret (s', st')"
    "channels st' (zcr_mgmt (cn_receiver c)) = Some (True, 1, [], [24])"
    using subscriber_stale_sample [OF remove two(1) [folded c_def] slot] two(3-7) example_segment_start by (auto simp: c_def)
  ultimately show ?thesis using one(1) remove two(1) unfolding old_def [symmetric] st0_def [symmetric] c_def [symmetric] by blast
qed

text \<open>A connection on which one sample, at the offset 24, waits for the subscriber.\<close>

definition example_builder :: ZeroCopyBuilder where
  "example_builder = (let e = \<lparr>bs_len = 0, bs_data = [NUL], bs_terminator = NUL\<rparr> in
     \<lparr>zb_name = e, zb_buffer_size = 2, zb_enable_safe_overflow = True, zb_max_borrowed_samples = 1,
      zb_config = \<lparr>nc_suffix = e, nc_prefix = e, nc_path_hint = e\<rparr>\<rparr>)"

definition example_mgmt :: Management where
  "example_mgmt = snd (try_send 24 (Management_new (State_Sender OR State_Receiver) example_builder))"

definition example_waiting :: ZeroCopyStorage where
  "example_waiting = \<lparr>zs_storage = (\<lambda>_. None), zs_store = [0 \<mapsto> example_mgmt], zs_next = 1\<rparr>"

definition example_slot :: Connection where
  "example_slot = \<lparr>cn_receiver = \<lparr>zcr_mgmt = 0, zcr_borrow_counter = 0, zcr_config = zb_config example_builder\<rparr>,
     cn_data_segment = example_segment\<rparr>"

lemma example_mgmt_facts:
  "Management_inv example_mgmt" "recv_list example_mgmt = [24]" "retr_list example_mgmt = []" "zm_max_borrowed_samples example_mgmt = 1"
  "0 < retr_capacity example_mgmt"
proof -
  let ?m = "Management_new (State_Sender OR State_Receiver) example_builder"
  have "fst (try_send 24 ?m) = Ok None" by code_simp
  then have send: "try_send 24 ?m = (Ok None, example_mgmt)" unfolding example_mgmt_def by (metis prod.collapse)
  have i: "Management_inv ?m" "recv_list ?m = []" "retr_list ?m = []" by (simp_all add: Management_new_inv)
  note f = try_send_Ok [OF i(1) send]
  show "Management_inv example_mgmt" "recv_list example_mgmt = [24]" "retr_list example_mgmt = []" "zm_max_borrowed_samples example_mgmt = 1"
    using f i by (auto simp: same_settings_def Management_new_def example_builder_def Let_def)
  show "0 < retr_capacity example_mgmt" unfolding retr_capacity_def example_mgmt_def by code_simp
qed

lemma example_update:
  "Subscriber_update_connections example_env (\<lambda>_ _. Ok example_segment) (FixedSizeContainer_new 1) (example_subscriber c) st
     = Ret (Ok (), example_subscriber c, st)"
  by (simp add: Subscriber_update_connections_def Container_update_state_def example_subscriber_def)

lemma example_known: "receivers_known (channels example_waiting) (pcn_connections (su_publisher_connections (example_subscriber (Some example_slot))))"
  using example_mgmt_facts
  by (simp add: receivers_known_def channels_def channel_view_def example_waiting_def example_slot_def example_subscriber_def example_connections_def)

text \<open>The subscriber receives the sample.\<close>

theorem subscriber_receives_in_slot_order_witness:
  "\<exists>st. Subscriber_receive example_env (\<lambda>_ _. Ok example_segment) (FixedSizeContainer_new 1) (example_subscriber (Some example_slot)) example_waiting
     = Ret (Ok (Some (sample_at 0 example_slot 24)), example_subscriber (Some (borrow example_slot)), st)"
proof -
  have "first_slot (channels example_waiting) 0 (pcn_connections (su_publisher_connections (example_subscriber (Some example_slot)))) = Some (0, example_slot)"
    using example_mgmt_facts
    by (simp add: channels_def channel_view_def example_waiting_def example_slot_def example_subscriber_def example_connections_def)
  moreover have "channels example_waiting (zcr_mgmt (cn_receiver example_slot)) = Some (True, 1, [24], [])"
    using example_mgmt_facts by (simp add: channels_def channel_view_def example_waiting_def example_slot_def)
  moreover have "zcr_borrow_counter (cn_receiver example_slot) = 0" by (simp add: example_slot_def)
  moreover have "set_connection 0 (borrow example_slot) (example_subscriber (Some example_slot)) = example_subscriber (Some (borrow example_slot))"
    by (simp add: set_connection_def example_subscriber_def example_connections_def)
  ultimately show ?thesis
    using subscriber_receives_in_slot_order [OF example_update example_known] by (auto simp: receive_effect_def)
qed

lemma example_receive:
  "\<exists>m. Subscriber_receive example_env (\<lambda>_ _. Ok example_segment) (FixedSizeContainer_new 1) (example_subscriber (Some example_slot)) example_waiting
     = Ret (Ok (Some (sample_at 0 example_slot 24)), example_subscriber (Some (borrow example_slot)), set_mgmt 0 m example_waiting)
    \<and> retr_list m = [] \<and> 0 < retr_capacity m"
proof -
  obtain m where m: "receive 0 example_mgmt = (Ok (Some 24), 0 + 1, m)" "Management_inv m" "same_settings example_mgmt m"
    "recv_list m = []" "retr_list m = retr_list example_mgmt"
    using receive_waiting [OF example_mgmt_facts(1) _ example_mgmt_facts(2), of 0] example_mgmt_facts(4) by auto
  have "zs_store example_waiting 0 = Some example_mgmt" by (simp add: example_waiting_def)
  then have "receive_from_connection 0 example_slot (example_subscriber (Some example_slot)) example_waiting
      = Ret (Ok (Some (sample_at 0 example_slot 24)), example_subscriber (Some (borrow example_slot)), set_mgmt 0 m example_waiting)"
    using m(1) by (simp add: receive_from_connection_def Let_def example_slot_def borrow_def sample_at_def set_connection_def
        example_subscriber_def example_connections_def)
  moreover have "pcn_connections (su_publisher_connections (example_subscriber (Some example_slot))) = [Some example_slot]"
    by (simp add: example_subscriber_def example_connections_def)
  ultimately have "Subscriber_receive example_env (\<lambda>_ _. Ok example_segment) (FixedSizeContainer_new 1) (example_subscriber (Some example_slot)) example_waiting
      = Ret (Ok (Some (sample_at 0 example_slot 24)), example_subscriber (Some (borrow example_slot)), set_mgmt 0 m example_waiting)"
    by (simp add: Subscriber_receive_def example_update del: One_nat_def)
  then show ?thesis using m(3,5) example_mgmt_facts by (auto simp: same_settings_def)
qed

theorem subscriber_sample_roundtrip_witness:
  "\<exists>s st st'. Subscriber_receive example_env (\<lambda>_ _. Ok example_segment) (FixedSizeContainer_new 1) (example_subscriber (Some example_slot)) example_waiting
       = Ret (Ok (Some (sample_at 0 example_slot 24)), s, st)
     \<and> Sample_drop example_env (sample_at 0 example_slot 24) s st = Ret (example_subscriber (Some example_slot), st')
     \<and> channels st' 0 = Some (True, 1, [], [24])"
proof -
  obtain m where m: "Subscriber_receive example_env (\<lambda>_ _. Ok example_segment) (FixedSizeContainer_new 1) (example_subscriber (Some example_slot)) example_waiting
      = Ret (Ok (Some (sample_at 0 example_slot 24)), example_subscriber (Some (borrow example_slot)), set_mgmt 0 m example_waiting)"
    "retr_list m = []" "0 < retr_capacity m"
    using example_receive by blast
  have "\<forall>a m'. zs_store (set_mgmt 0 m example_waiting) a = Some m' \<longrightarrow> length (retr_list m') < retr_capacity m'"
    using m(2,3) by (simp add: set_mgmt_def example_waiting_def)
  from subscriber_sample_roundtrip [OF example_update example_known m(1) this] obtain st3 n x waiting returned c where d:
    "Sample_drop example_env (sample_at 0 example_slot 24) (example_subscriber (Some (borrow example_slot))) (set_mgmt 0 m example_waiting)
      = Ret (example_subscriber (Some example_slot), st3)"
    "pcn_connections (su_publisher_connections (example_subscriber (Some example_slot))) ! 0 = Some c"
    "channels example_waiting (zcr_mgmt (cn_receiver c)) = Some (True, n, x # waiting, returned)"
    "channels st3 = (channels example_waiting)(zcr_mgmt (cn_receiver c) \<mapsto> (True, n, waiting, returned @ [x]))"
    by (auto simp: sample_at_def)
  have "zcr_mgmt (cn_receiver c) = 0" using d(2) by (auto simp: example_subscriber_def example_connections_def example_slot_def)
  moreover have "channels example_waiting 0 = Some (True, 1, [24], [])"
    using example_mgmt_facts by (simp add: channels_def channel_view_def example_waiting_def)
  ultimately have "channels st3 0 = Some (True, 1, [], [24])" using d(3,4) by simp
  then show ?thesis using m(1) d(1) by blast
qed

theorem subscriber_refines_receivers_witness:
  "\<exists>p s. (pub_step example_env)\<^sup>*\<^sup>* \<lparr>pc_publisher = p, pc_storage = example_waiting, pc_loans = [],
       pc_receivers = slots (example_connections (Some example_slot)), pc_borrowed = []\<rparr> s
     \<and> pc_borrowed s = [(0, 24)]"
proof -
  fix p
  let ?s = "\<lparr>pc_publisher = p, pc_storage = example_waiting, pc_loans = [],
     pc_receivers = slots (example_connections (Some example_slot)), pc_borrowed = []\<rparr>"
  obtain m where m: "Subscriber_receive example_env (\<lambda>_ _. Ok example_segment) (FixedSizeContainer_new 1) (example_subscriber (Some example_slot)) example_waiting
      = Ret (Ok (Some (sample_at 0 example_slot 24)), example_subscriber (Some (borrow example_slot)), set_mgmt 0 m example_waiting)"
    using example_receive by blast
  have s: "pc_receivers ?s = slots (su_publisher_connections (example_subscriber (Some example_slot)))" by (simp add: example_subscriber_def)
  have b: "borrowed_by (pcn_connections (su_publisher_connections (example_subscriber (Some (borrow example_slot))))) (Ok (Some (sample_at 0 example_slot 24)))
      = [(0, 24)]"
    by (simp add: borrowed_by_def sample_at_def example_subscriber_def example_connections_def borrow_def)
  have steps: "(pub_step example_env)\<^sup>*\<^sup>* ?s (?s\<lparr>pc_storage := set_mgmt 0 m example_waiting,
      pc_receivers := slots (su_publisher_connections (example_subscriber (Some (borrow example_slot)))),
      pc_borrowed := borrowed_by (pcn_connections (su_publisher_connections (example_subscriber (Some (borrow example_slot)))))
        (Ok (Some (sample_at 0 example_slot 24))) @ pc_borrowed ?s\<rparr>)"
    using subscriber_refines_receivers [OF s, where e = example_env and opened = "\<lambda>_ _. Ok example_segment" and publishers = "FixedSizeContainer_new 1"
        and r = "Ok (Some (sample_at 0 example_slot 24))" and sub' = "example_subscriber (Some (borrow example_slot))"
        and st' = "set_mgmt 0 m example_waiting"] m by simp
  show ?thesis by (intro exI conjI, rule steps) (simp add: b)
qed

end
