(* ===== verification/ServiceStorage.thy ===== *)
theory ServiceStorage
  imports ServiceConfig
begin

text \<open>
  The process-local storages that hold the configuration of a service:
  \<open>iceoryx2_cal/src/static_storage/process_local.rs\<close>, which keeps the bytes of the static
  configuration under a path and locks the path until they are written, and
  \<open>iceoryx2_cal/src/dynamic_storage/process_local.rs\<close>, which keeps the dynamic configuration that all
  users of a service share. The maps from paths to entries are the global variables of the two files.
  The content of a dynamic storage is reached through a counted pointer, so it has an address and
  outlives its entry.
\<close>

text \<open>
  What the storages take from outside: the memory behind strings, whether the locks of the two maps can
  be acquired, the alignment of a port identifier, the heap, which gives the address behind the value
  when it has room for a value and a number of supplementary bytes, and the serializer.
\<close>

record service_env =
  se_junk_file :: "char list"
  se_junk_path :: "char list"
  se_static_lock :: bool
  se_dynamic_lock :: bool
  se_align_of_id :: nat
  se_heap :: "nat \<Rightarrow> nat option"
  se_serialize :: "StaticConfig \<Rightarrow> (char list, unit) result"
  se_deserialize :: "char list \<Rightarrow> (StaticConfig, unit) result"

section \<open>static_storage/process_local.rs\<close>

datatype StaticStorageCreateError =
    StaticCreate_AlreadyExists
  | StaticCreate_Creation
  | StaticCreate_Write
  | StaticCreate_InsufficientPermissions
  | StaticCreate_InternalError

datatype StaticStorageOpenError =
    StaticOpen_DoesNotExist
  | StaticOpen_Read
  | StaticOpen_IsLocked
  | StaticOpen_InternalError

datatype StaticStorageReadError =
    StaticRead_BufferTooSmall
  | StaticRead_ReadError
  | StaticRead_StaticStorageWasModified
  | StaticRead_CreationNotComplete

datatype StaticStorageUnlockError =
    StaticUnlock_InsufficientPermissions
  | StaticUnlock_NoSpaceLeft
  | StaticUnlock_InternalError

record StorageContent =
  sto_is_locked :: bool
  sto_value :: "char list"

type_synonym static_storages = "char list \<Rightarrow> StorageContent option"

record StaticStorage =
  st_name :: FixedSizeByteString
  st_has_ownership :: bool
  st_config :: NamedConceptConfiguration
  st_content :: StorageContent

record Locked =
  lk_storage :: StaticStorage

definition StaticStorage_remove_cfg ::
  "service_env \<Rightarrow> FixedSizeByteString \<Rightarrow> NamedConceptConfiguration \<Rightarrow> static_storages \<Rightarrow> (bool \<times> static_storages) outcome" where
  "StaticStorage_remove_cfg e storage_name config m =
     (if \<not> se_static_lock e then Panic
      else outcome_bind (path_for (se_junk_path e) config storage_name) (\<lambda>path.
        Ret (m (as_bytes path) \<noteq> None, m(as_bytes path := None))))"

definition StaticStorage_drop :: "service_env \<Rightarrow> StaticStorage \<Rightarrow> static_storages \<Rightarrow> static_storages outcome" where
  "StaticStorage_drop e s m =
     (if st_has_ownership s
      then outcome_bind (StaticStorage_remove_cfg e (st_name s) (st_config s) m) (\<lambda>(_, m). Ret m)
      else Ret m)"

definition Locked_unlock ::
  "service_env \<Rightarrow> char list \<Rightarrow> Locked \<Rightarrow> static_storages \<Rightarrow> ((StaticStorage, StaticStorageUnlockError) result \<times> static_storages) outcome"
  where
  "Locked_unlock e bytes l m =
     (if \<not> se_static_lock e
      then outcome_bind (StaticStorage_drop e (lk_storage l) m) (\<lambda>m. Ret (Err StaticUnlock_InternalError, m))
      else outcome_bind (path_for (se_junk_path e) (st_config (lk_storage l)) (st_name (lk_storage l))) (\<lambda>name.
        case m (as_bytes name) of None \<Rightarrow> Panic
        | Some _ \<Rightarrow> Ret (Ok (lk_storage l), m(as_bytes name \<mapsto> \<lparr>sto_is_locked = False, sto_value = bytes\<rparr>))))"

definition StaticStorage_does_exist_cfg ::
  "service_env \<Rightarrow> FixedSizeByteString \<Rightarrow> NamedConceptConfiguration \<Rightarrow> static_storages
     \<Rightarrow> (bool, NamedConceptDoesExistError) result outcome" where
  "StaticStorage_does_exist_cfg e storage_name config m =
     (if \<not> se_static_lock e then Panic
      else outcome_bind (path_for (se_junk_path e) config storage_name) (\<lambda>path.
        Ret (case m (as_bytes path) of
               Some v \<Rightarrow> if sto_is_locked v then Err DoesExist_UnderlyingResourcesBeingSetUp else Ok True
             | None \<Rightarrow> Ok False)))"

definition StaticStorage_len :: "StaticStorage \<Rightarrow> nat" where
  "StaticStorage_len s = length (sto_value (st_content s))"

text \<open>
  \<open>read\<close> fills a buffer of \<open>n\<close> bytes; \<open>clone_from_slice\<close> panics when the lengths differ.
\<close>

definition StaticStorage_read :: "nat \<Rightarrow> StaticStorage \<Rightarrow> (char list, StaticStorageReadError) result outcome" where
  "StaticStorage_read n s =
     (if n < length (sto_value (st_content s)) then Ret (Err StaticRead_BufferTooSmall)
      else if n \<noteq> length (sto_value (st_content s)) then Panic
      else Ret (Ok (sto_value (st_content s))))"

definition StaticStorage_release_ownership :: "StaticStorage \<Rightarrow> StaticStorage" where
  "StaticStorage_release_ownership s = s\<lparr>st_has_ownership := False\<rparr>"

definition StaticStorage_acquire_ownership :: "StaticStorage \<Rightarrow> StaticStorage" where
  "StaticStorage_acquire_ownership s = s\<lparr>st_has_ownership := True\<rparr>"

text \<open>Every user of the builder sets the configuration at once, so \<open>new\<close> takes it.\<close>

record StaticStorageBuilder =
  sb_name :: FixedSizeByteString
  sb_has_ownership :: bool
  sb_config :: NamedConceptConfiguration

definition StaticStorageBuilder_new :: "NamedConceptConfiguration \<Rightarrow> FixedSizeByteString \<Rightarrow> StaticStorageBuilder" where
  "StaticStorageBuilder_new config storage_name = \<lparr>sb_name = storage_name, sb_has_ownership = True, sb_config = config\<rparr>"

definition StaticStorageBuilder_has_ownership :: "bool \<Rightarrow> StaticStorageBuilder \<Rightarrow> StaticStorageBuilder" where
  "StaticStorageBuilder_has_ownership value b = b\<lparr>sb_has_ownership := value\<rparr>"

definition StaticStorageBuilder_open ::
  "service_env \<Rightarrow> StaticStorageBuilder \<Rightarrow> static_storages \<Rightarrow> (StaticStorage, StaticStorageOpenError) result outcome" where
  "StaticStorageBuilder_open e b m =
     (if \<not> se_static_lock e then Ret (Err StaticOpen_InternalError)
      else outcome_bind (path_for (se_junk_path e) (sb_config b) (sb_name b)) (\<lambda>path.
        Ret (case m (as_bytes path) of
               None \<Rightarrow> Err StaticOpen_DoesNotExist
             | Some content \<Rightarrow>
                 if sto_is_locked content then Err StaticOpen_IsLocked
                 else Ok \<lparr>st_name = sb_name b, st_has_ownership = sb_has_ownership b, st_config = sb_config b,
                   st_content = content\<rparr>)))"

definition StaticStorageBuilder_create_locked ::
  "service_env \<Rightarrow> StaticStorageBuilder \<Rightarrow> static_storages
     \<Rightarrow> ((Locked, StaticStorageCreateError) result \<times> static_storages) outcome" where
  "StaticStorageBuilder_create_locked e b m =
     (if \<not> se_static_lock e then Ret (Err StaticCreate_InternalError, m)
      else outcome_bind (path_for (se_junk_path e) (sb_config b) (sb_name b)) (\<lambda>name.
        case m (as_bytes name) of
          Some _ \<Rightarrow> Ret (Err StaticCreate_AlreadyExists, m)
        | None \<Rightarrow>
            (let content = \<lparr>sto_is_locked = True, sto_value = []\<rparr> in
             Ret (Ok \<lparr>lk_storage = \<lparr>st_name = sb_name b, st_has_ownership = sb_has_ownership b, st_config = sb_config b,
                 st_content = content\<rparr>\<rparr>, m(as_bytes name \<mapsto> content)))))"

text \<open>The provided method \<open>create\<close> of \<open>static_storage/mod.rs\<close>.\<close>

definition StaticStorageBuilder_create ::
  "service_env \<Rightarrow> char list \<Rightarrow> StaticStorageBuilder \<Rightarrow> static_storages
     \<Rightarrow> ((StaticStorage, StaticStorageCreateError) result \<times> static_storages) outcome" where
  "StaticStorageBuilder_create e bytes b m =
     outcome_bind (StaticStorageBuilder_create_locked e b m) (\<lambda>(r, m).
       case r of Err err \<Rightarrow> Ret (Err err, m)
       | Ok locked_storage \<Rightarrow> outcome_bind (Locked_unlock e bytes locked_storage m) (\<lambda>(r, m).
           Ret (case r of Err _ \<Rightarrow> Err StaticCreate_Write | Ok s \<Rightarrow> Ok s, m)))"

text \<open>
  \<open>list_cfg\<close>: the keys of the map in the order in which the hash map has them.
\<close>

fun list_names ::
  "service_env \<Rightarrow> NamedConceptConfiguration \<Rightarrow> FixedSizeByteString list \<Rightarrow> FixedSizeByteString list outcome" where
  "list_names e config [] = Ret []"
| "list_names e config (storage_name # keys) =
     outcome_bind (extract_name_from_path (se_junk_path e) (se_junk_file e) config storage_name) (\<lambda>r.
     outcome_bind (list_names e config keys) (\<lambda>result.
       Ret (case r of Some v \<Rightarrow> v # result | None \<Rightarrow> result)))"

definition StaticStorage_list_cfg ::
  "service_env \<Rightarrow> NamedConceptConfiguration \<Rightarrow> FixedSizeByteString list \<Rightarrow> FixedSizeByteString list outcome" where
  "StaticStorage_list_cfg e config keys = (if \<not> se_static_lock e then Panic else list_names e config keys)"

section \<open>dynamic_storage/process_local.rs\<close>

datatype DynamicStorageCreateError =
    DynamicCreate_AlreadyExists
  | DynamicCreate_Creation
  | DynamicCreate_Write
  | DynamicCreate_InitializationFailed
  | DynamicCreate_InternalError

datatype DynamicStorageOpenError =
    DynamicOpen_DoesNotExist
  | DynamicOpen_Open
  | DynamicOpen_InitializationNotYetFinalized
  | DynamicOpen_InternalError

text \<open>The entries hold the addresses of the contents; a new content gets the next address.\<close>

record DynamicStorages =
  dss_entries :: "char list \<Rightarrow> nat option"
  dss_content :: "nat \<Rightarrow> DynamicConfig option"
  dss_next :: nat

record DynamicStorage =
  dy_name :: FixedSizeByteString
  dy_data :: nat
  dy_has_ownership :: bool
  dy_config :: NamedConceptConfiguration

definition DynamicStorage_does_exist_cfg ::
  "service_env \<Rightarrow> FixedSizeByteString \<Rightarrow> NamedConceptConfiguration \<Rightarrow> DynamicStorages
     \<Rightarrow> (bool, NamedConceptDoesExistError) result outcome" where
  "DynamicStorage_does_exist_cfg e name config m =
     (if \<not> se_dynamic_lock e then Panic
      else outcome_bind (path_for (se_junk_path e) config name) (\<lambda>path. Ret (Ok (dss_entries m (as_bytes path) \<noteq> None))))"

definition DynamicStorage_remove_cfg ::
  "service_env \<Rightarrow> FixedSizeByteString \<Rightarrow> NamedConceptConfiguration \<Rightarrow> DynamicStorages \<Rightarrow> (bool \<times> DynamicStorages) outcome" where
  "DynamicStorage_remove_cfg e name cfg m =
     outcome_bind (path_for (se_junk_path e) cfg name) (\<lambda>storage_name.
       if \<not> se_dynamic_lock e then Panic
       else Ret (dss_entries m (as_bytes storage_name) \<noteq> None,
         m\<lparr>dss_entries := (dss_entries m)(as_bytes storage_name := None)\<rparr>))"

definition DynamicStorage_acquire_ownership :: "DynamicStorage \<Rightarrow> DynamicStorage" where
  "DynamicStorage_acquire_ownership s = s\<lparr>dy_has_ownership := True\<rparr>"

definition DynamicStorage_release_ownership :: "DynamicStorage \<Rightarrow> DynamicStorage" where
  "DynamicStorage_release_ownership s = s\<lparr>dy_has_ownership := False\<rparr>"

text \<open>The content behind a storage; it exists as long as a storage points to it.\<close>

definition DynamicStorage_get :: "DynamicStorage \<Rightarrow> DynamicStorages \<Rightarrow> DynamicConfig outcome" where
  "DynamicStorage_get s m = (case dss_content m (dy_data s) of Some d \<Rightarrow> Ret d | None \<Rightarrow> Panic)"

definition DynamicStorage_set :: "DynamicStorage \<Rightarrow> DynamicConfig \<Rightarrow> DynamicStorages \<Rightarrow> DynamicStorages" where
  "DynamicStorage_set s d m = m\<lparr>dss_content := (dss_content m)(dy_data s \<mapsto> d)\<rparr>"

definition DynamicStorage_drop :: "service_env \<Rightarrow> DynamicStorage \<Rightarrow> DynamicStorages \<Rightarrow> DynamicStorages outcome" where
  "DynamicStorage_drop e s m =
     (if dy_has_ownership s
      then outcome_bind (DynamicStorage_remove_cfg e (dy_name s) (dy_config s) m) (\<lambda>(removed, m). if removed then Ret m else Panic)
      else Ret m)"

record DynamicStorageBuilder =
  db_name :: FixedSizeByteString
  db_supplementary_size :: nat
  db_has_ownership :: bool
  db_config :: NamedConceptConfiguration

definition DynamicStorageBuilder_new :: "NamedConceptConfiguration \<Rightarrow> FixedSizeByteString \<Rightarrow> DynamicStorageBuilder" where
  "DynamicStorageBuilder_new config storage_name =
     \<lparr>db_name = storage_name, db_supplementary_size = 0, db_has_ownership = True, db_config = config\<rparr>"

definition DynamicStorageBuilder_has_ownership :: "bool \<Rightarrow> DynamicStorageBuilder \<Rightarrow> DynamicStorageBuilder" where
  "DynamicStorageBuilder_has_ownership value b = b\<lparr>db_has_ownership := value\<rparr>"

definition DynamicStorageBuilder_supplementary_size :: "nat \<Rightarrow> DynamicStorageBuilder \<Rightarrow> DynamicStorageBuilder" where
  "DynamicStorageBuilder_supplementary_size value b = b\<lparr>db_supplementary_size := value\<rparr>"

definition DynamicStorageBuilder_try_open ::
  "service_env \<Rightarrow> DynamicStorageBuilder \<Rightarrow> DynamicStorages \<Rightarrow> (DynamicStorage, DynamicStorageOpenError) result outcome" where
  "DynamicStorageBuilder_try_open e b m =
     (if \<not> se_dynamic_lock e then Ret (Err DynamicOpen_InternalError)
      else outcome_bind (path_for (se_junk_path e) (db_config b) (db_name b)) (\<lambda>full_path.
        Ret (case dss_entries m (as_bytes full_path) of
               None \<Rightarrow> Err DynamicOpen_DoesNotExist
             | Some a \<Rightarrow> Ok \<lparr>dy_name = db_name b, dy_data = a, dy_has_ownership = False, dy_config = db_config b\<rparr>)))"

definition DynamicStorageBuilder_open ::
  "service_env \<Rightarrow> DynamicStorageBuilder \<Rightarrow> DynamicStorages \<Rightarrow> (DynamicStorage, DynamicStorageOpenError) result outcome" where
  "DynamicStorageBuilder_open e b m = DynamicStorageBuilder_try_open e b m"

definition DynamicStorageBuilder_create_and_initialize ::
  "service_env \<Rightarrow> DynamicConfig \<Rightarrow> (DynamicConfig \<Rightarrow> BumpAllocator \<Rightarrow> (bool \<times> DynamicConfig) outcome) \<Rightarrow> DynamicStorageBuilder
     \<Rightarrow> DynamicStorages \<Rightarrow> ((DynamicStorage, DynamicStorageCreateError) result \<times> DynamicStorages) outcome" where
  "DynamicStorageBuilder_create_and_initialize e initial_value initializer b m =
     (if \<not> se_dynamic_lock e then Ret (Err DynamicCreate_InternalError, m)
      else outcome_bind (path_for (se_junk_path e) (db_config b) (db_name b)) (\<lambda>full_path.
        if dss_entries m (as_bytes full_path) \<noteq> None then Ret (Err DynamicCreate_AlreadyExists, m)
        else case se_heap e (db_supplementary_size b) of
          None \<Rightarrow> Panic
        | Some supplementary_start \<Rightarrow>
            outcome_bind (initializer initial_value (BumpAllocator_new supplementary_start (db_supplementary_size b))) (\<lambda>(initialized, value).
              if \<not> initialized then Ret (Err DynamicCreate_InitializationFailed, m)
              else Ret (Ok \<lparr>dy_name = db_name b, dy_data = dss_next m, dy_has_ownership = db_has_ownership b, dy_config = db_config b\<rparr>,
                m\<lparr>dss_entries := (dss_entries m)(as_bytes full_path \<mapsto> dss_next m),
                  dss_content := (dss_content m)(dss_next m \<mapsto> value), dss_next := dss_next m + 1\<rparr>))))"

end
