(* ===== verification/ServiceBuilder.thy ===== *)
theory ServiceBuilder
  imports ServiceStorage
begin

text \<open>
  How services are created, opened and closed: \<open>service/builder/mod.rs\<close>,
  \<open>service/builder/publish_subscribe.rs\<close>, \<open>service/builder/event.rs\<close> and the state of a service in
  \<open>service/mod.rs\<close>, over the process-local storages.
\<close>

record ServiceStorages =
  sg_static :: static_storages
  sg_dynamic :: DynamicStorages

definition on_static :: "(static_storages \<Rightarrow> ('a \<times> static_storages) outcome) \<Rightarrow> ServiceStorages \<Rightarrow> ('a \<times> ServiceStorages) outcome" where
  "on_static f w = outcome_bind (f (sg_static w)) (\<lambda>(r, m). Ret (r, w\<lparr>sg_static := m\<rparr>))"

definition on_dynamic :: "(DynamicStorages \<Rightarrow> ('a \<times> DynamicStorages) outcome) \<Rightarrow> ServiceStorages \<Rightarrow> ('a \<times> ServiceStorages) outcome" where
  "on_dynamic f w = outcome_bind (f (sg_dynamic w)) (\<lambda>(r, m). Ret (r, w\<lparr>sg_dynamic := m\<rparr>))"

definition drop_static :: "service_env \<Rightarrow> StaticStorage \<Rightarrow> ServiceStorages \<Rightarrow> ServiceStorages outcome" where
  "drop_static e s w = outcome_bind (StaticStorage_drop e s (sg_static w)) (\<lambda>m. Ret (w\<lparr>sg_static := m\<rparr>))"

definition drop_dynamic :: "service_env \<Rightarrow> DynamicStorage \<Rightarrow> ServiceStorages \<Rightarrow> ServiceStorages outcome" where
  "drop_dynamic e s w = outcome_bind (DynamicStorage_drop e s (sg_dynamic w)) (\<lambda>m. Ret (w\<lparr>sg_dynamic := m\<rparr>))"

section \<open>service/mod.rs: the state of a service\<close>

record ServiceState =
  sv_static_config :: StaticConfig
  sv_global_config :: Config
  sv_dynamic_storage :: DynamicStorage
  sv_static_storage :: StaticStorage

definition ServiceState_new :: "StaticConfig \<Rightarrow> Config \<Rightarrow> DynamicStorage \<Rightarrow> StaticStorage \<Rightarrow> ServiceState" where
  "ServiceState_new static_config global_config dynamic_storage static_storage =
     \<lparr>sv_static_config = static_config, sv_global_config = global_config, sv_dynamic_storage = dynamic_storage,
      sv_static_storage = static_storage\<rparr>"

text \<open>After the body of \<open>drop\<close> the fields are dropped in the order of their declaration.\<close>

definition ServiceState_drop :: "service_env \<Rightarrow> ServiceState \<Rightarrow> ServiceStorages \<Rightarrow> ServiceStorages outcome" where
  "ServiceState_drop e s w =
     outcome_bind (DynamicStorage_get (sv_dynamic_storage s) (sg_dynamic w)) (\<lambda>d.
       (case decrement_reference_counter d of (r, d) \<Rightarrow>
          (let w = w\<lparr>sg_dynamic := DynamicStorage_set (sv_dynamic_storage s) d (sg_dynamic w)\<rparr>;
               s = (case r of HasOwners \<Rightarrow> s
                    | NoMoreOwners \<Rightarrow> s\<lparr>sv_static_storage := StaticStorage_acquire_ownership (sv_static_storage s),
                        sv_dynamic_storage := DynamicStorage_acquire_ownership (sv_dynamic_storage s)\<rparr>)
           in outcome_bind (drop_dynamic e (sv_dynamic_storage s) w) (drop_static e (sv_static_storage s)))))"

section \<open>builder/mod.rs\<close>

datatype builder_ServiceState =
    State_IsBeingCreatedByAnotherInstance
  | State_IncompatibleMessagingPattern
  | State_PermissionDenied
  | State_Corrupted

datatype OpenDynamicStorageFailure = IsMarkedForDestruction | DynamicStorageOpenFailure DynamicStorageOpenError

record BuilderWithServiceType =
  bw_service_config :: StaticConfig
  bw_global_config :: Config

definition BuilderWithServiceType_new :: "StaticConfig \<Rightarrow> Config \<Rightarrow> BuilderWithServiceType" where
  "BuilderWithServiceType_new service_config global_config =
     \<lparr>bw_service_config = service_config, bw_global_config = global_config\<rparr>"

definition static_config_of ::
  "service_env \<Rightarrow> BuilderWithServiceType \<Rightarrow> NamedConceptConfiguration outcome" where
  "static_config_of e b = static_config_storage_config (se_junk_file e) (se_junk_path e) (bw_global_config b)"

definition dynamic_config_of ::
  "service_env \<Rightarrow> BuilderWithServiceType \<Rightarrow> NamedConceptConfiguration outcome" where
  "dynamic_config_of e b = dynamic_config_storage_config (se_junk_file e) (se_junk_path e) (bw_global_config b)"

text \<open>
  The storage that \<open>is_service_available\<close> opens has no ownership: when the function returns early, its
  drop changes nothing.
\<close>

definition is_service_available ::
  "service_env \<Rightarrow> BuilderWithServiceType \<Rightarrow> ServiceStorages
     \<Rightarrow> ((StaticConfig \<times> StaticStorage) option, builder_ServiceState) result outcome" where
  "is_service_available e b w =
     outcome_bind (static_config_of e b) (\<lambda>static_storage_config.
     unwrap_name (FileName_new (se_junk_file e) (sc_uuid (bw_service_config b))) (\<lambda>file_name_uuid.
     outcome_bind (StaticStorage_does_exist_cfg e file_name_uuid static_storage_config (sg_static w)) (\<lambda>r.
       case r of
         Ok False \<Rightarrow> Ret (Ok None)
       | Err DoesExist_UnderlyingResourcesBeingSetUp \<Rightarrow> Ret (Err State_IsBeingCreatedByAnotherInstance)
       | Ok True \<Rightarrow>
           outcome_bind (StaticStorageBuilder_open e
               (StaticStorageBuilder_has_ownership False (StaticStorageBuilder_new static_storage_config file_name_uuid))
               (sg_static w)) (\<lambda>r.
             case r of
               Err _ \<Rightarrow> Ret (Err State_PermissionDenied)
             | Ok storage \<Rightarrow>
                 outcome_bind (StaticStorage_read (StaticStorage_len storage) storage) (\<lambda>r.
                   case r of
                     Err _ \<Rightarrow> Ret (Err State_PermissionDenied)
                   | Ok read_content \<Rightarrow>
                       (case se_deserialize e read_content of
                          Err _ \<Rightarrow> Ret (Err State_Corrupted)
                        | Ok service_config \<Rightarrow>
                            if sc_uuid service_config \<noteq> sc_uuid (bw_service_config b) then Ret (Err State_Corrupted)
                            else if \<not> has_same_messaging_pattern service_config (bw_service_config b)
                            then Ret (Err State_IncompatibleMessagingPattern)
                            else Ret (Ok (Some (service_config, storage))))))
       | Err _ \<Rightarrow> Ret (Err State_Corrupted))))"

definition create_dynamic_config_storage ::
  "service_env \<Rightarrow> BuilderWithServiceType \<Rightarrow> DynamicMessagingPattern \<Rightarrow> nat \<Rightarrow> ServiceStorages
     \<Rightarrow> ((DynamicStorage, DynamicStorageCreateError) result \<times> ServiceStorages) outcome" where
  "create_dynamic_config_storage e b messaging_pattern additional_size w =
     outcome_bind (dynamic_config_storage_name (se_junk_file e) (sc_uuid (bw_service_config b))) (\<lambda>name.
     outcome_bind (dynamic_config_of e b) (\<lambda>config.
       on_dynamic (DynamicStorageBuilder_create_and_initialize e (DynamicConfig_new_uninit messaging_pattern)
         (\<lambda>config allocator. outcome_bind (DynamicConfig_init (se_align_of_id e) BumpAllocator_allocate config allocator)
            (\<lambda>(config, _). Ret (True, config)))
         (DynamicStorageBuilder_has_ownership False (DynamicStorageBuilder_supplementary_size additional_size
            (DynamicStorageBuilder_new config name)))) w))"

definition open_dynamic_config_storage ::
  "service_env \<Rightarrow> BuilderWithServiceType \<Rightarrow> ServiceStorages
     \<Rightarrow> ((DynamicStorage, OpenDynamicStorageFailure) result \<times> ServiceStorages) outcome" where
  "open_dynamic_config_storage e b w =
     outcome_bind (dynamic_config_storage_name (se_junk_file e) (sc_uuid (bw_service_config b))) (\<lambda>name.
     outcome_bind (dynamic_config_of e b) (\<lambda>config.
     outcome_bind (DynamicStorageBuilder_open e
         (DynamicStorageBuilder_has_ownership False (DynamicStorageBuilder_new config name)) (sg_dynamic w)) (\<lambda>r.
       case r of
         Err err \<Rightarrow> Ret (Err (DynamicStorageOpenFailure err), w)
       | Ok storage \<Rightarrow>
           outcome_bind (DynamicStorage_get storage (sg_dynamic w)) (\<lambda>d.
             (case increment_reference_counter d of
                (Err _, d) \<Rightarrow> Ret (Err IsMarkedForDestruction, w)
              | (Ok _, d) \<Rightarrow> Ret (Ok storage, w\<lparr>sg_dynamic := DynamicStorage_set storage d (sg_dynamic w)\<rparr>))))))"

definition create_static_config_storage ::
  "service_env \<Rightarrow> BuilderWithServiceType \<Rightarrow> ServiceStorages
     \<Rightarrow> ((Locked, StaticStorageCreateError) result \<times> ServiceStorages) outcome" where
  "create_static_config_storage e b w =
     outcome_bind (static_config_storage_name (se_junk_file e) (sc_uuid (bw_service_config b))) (\<lambda>name.
     outcome_bind (static_config_of e b) (\<lambda>config.
       on_static (StaticStorageBuilder_create_locked e
         (StaticStorageBuilder_has_ownership False (StaticStorageBuilder_new config name))) w))"

section \<open>builder/publish_subscribe.rs\<close>

datatype PublishSubscribeOpenError =
    PSOpen_DoesNotExist
  | PSOpen_InternalFailure
  | PSOpen_IncompatibleTypes
  | PSOpen_IncompatibleMessagingPattern
  | PSOpen_DoesNotSupportRequestedMinBufferSize
  | PSOpen_DoesNotSupportRequestedMinHistorySize
  | PSOpen_DoesNotSupportRequestedMinSubscriberBorrowedSamples
  | PSOpen_DoesNotSupportRequestedAmountOfPublishers
  | PSOpen_DoesNotSupportRequestedAmountOfSubscribers
  | PSOpen_IncompatibleOverflowBehavior
  | PSOpen_Inaccessible
  | PSOpen_PermissionDenied
  | PSOpen_ServiceInCorruptedState
  | PSOpen_HangsInCreation
  | PSOpen_UnableToOpenDynamicServiceInformation

datatype PublishSubscribeCreateError =
    PSCreate_Corrupted
  | PSCreate_SubscriberBufferMustBeLargerThanHistorySize
  | PSCreate_AlreadyExists
  | PSCreate_PermissionDenied
  | PSCreate_InternalFailure
  | PSCreate_IsBeingCreatedByAnotherInstance
  | PSCreate_UnableToCreateStaticServiceInformation

datatype ServiceAvailabilityState = Availability builder_ServiceState | IncompatibleTypes

datatype PublishSubscribeOpenOrCreateError =
    PS_OpenError PublishSubscribeOpenError
  | PS_CreateError PublishSubscribeCreateError

record PSBuilder =
  pb_base :: BuilderWithServiceType
  pb_verify_number_of_subscribers :: bool
  pb_verify_number_of_publishers :: bool
  pb_verify_subscriber_max_buffer_size :: bool
  pb_verify_subscriber_max_borrowed_samples :: bool
  pb_verify_publisher_history_size :: bool
  pb_verify_enable_safe_overflow :: bool

definition PSBuilder_new :: "BuilderWithServiceType \<Rightarrow> PSBuilder" where
  "PSBuilder_new base =
     \<lparr>pb_base = base\<lparr>bw_service_config := (bw_service_config base)\<lparr>sc_messaging_pattern :=
        PublishSubscribe (PubSubStaticConfig_new (bw_global_config base))\<rparr>\<rparr>,
      pb_verify_number_of_subscribers = False, pb_verify_number_of_publishers = False,
      pb_verify_subscriber_max_buffer_size = False, pb_verify_subscriber_max_borrowed_samples = False,
      pb_verify_publisher_history_size = False, pb_verify_enable_safe_overflow = False\<rparr>"

text \<open>A builder for a service of a given name, with the hash of the names as a parameter.\<close>

definition publish_subscribe_with_custom_config :: "(char list \<Rightarrow> char list) \<Rightarrow> char list \<Rightarrow> Config \<Rightarrow> PSBuilder" where
  "publish_subscribe_with_custom_config hash name config =
     PSBuilder_new (BuilderWithServiceType_new (StaticConfig_new_publish_subscribe hash name config) config)"

definition PS_config_details_mut :: "(PubSubStaticConfig \<Rightarrow> PubSubStaticConfig) \<Rightarrow> PSBuilder \<Rightarrow> PSBuilder outcome" where
  "PS_config_details_mut f b =
     outcome_bind (StaticConfig_publish_subscribe_mut f (bw_service_config (pb_base b))) (\<lambda>c.
       Ret (b\<lparr>pb_base := (pb_base b)\<lparr>bw_service_config := c\<rparr>\<rparr>))"

definition PS_config_details :: "PSBuilder \<Rightarrow> PubSubStaticConfig outcome" where
  "PS_config_details b = StaticConfig_publish_subscribe (bw_service_config (pb_base b))"

definition PS_enable_safe_overflow :: "bool \<Rightarrow> PSBuilder \<Rightarrow> PSBuilder outcome" where
  "PS_enable_safe_overflow value b =
     outcome_bind (PS_config_details_mut (\<lambda>c. c\<lparr>ps_enable_safe_overflow := value\<rparr>) b) (\<lambda>b.
       Ret (b\<lparr>pb_verify_enable_safe_overflow := True\<rparr>))"

definition PS_subscriber_max_borrowed_samples :: "nat \<Rightarrow> PSBuilder \<Rightarrow> PSBuilder outcome" where
  "PS_subscriber_max_borrowed_samples value b =
     outcome_bind (PS_config_details_mut (\<lambda>c. c\<lparr>ps_subscriber_max_borrowed_samples := max value 1\<rparr>) b) (\<lambda>b.
       Ret (b\<lparr>pb_verify_subscriber_max_borrowed_samples := True\<rparr>))"

definition PS_history_size :: "nat \<Rightarrow> PSBuilder \<Rightarrow> PSBuilder outcome" where
  "PS_history_size value b =
     outcome_bind (PS_config_details_mut (\<lambda>c. c\<lparr>ps_history_size := value\<rparr>) b) (\<lambda>b.
       Ret (b\<lparr>pb_verify_publisher_history_size := True\<rparr>))"

definition PS_subscriber_max_buffer_size :: "nat \<Rightarrow> PSBuilder \<Rightarrow> PSBuilder outcome" where
  "PS_subscriber_max_buffer_size value b =
     outcome_bind (PS_config_details_mut (\<lambda>c. c\<lparr>ps_subscriber_max_buffer_size := value\<rparr>) b) (\<lambda>b.
       Ret (b\<lparr>pb_verify_subscriber_max_buffer_size := True\<rparr>))"

definition PS_max_subscribers :: "nat \<Rightarrow> PSBuilder \<Rightarrow> PSBuilder outcome" where
  "PS_max_subscribers value b =
     outcome_bind (PS_config_details_mut (\<lambda>c. c\<lparr>ps_max_subscribers := value\<rparr>) b) (\<lambda>b.
       Ret (b\<lparr>pb_verify_number_of_subscribers := True\<rparr>))"

definition PS_max_publishers :: "nat \<Rightarrow> PSBuilder \<Rightarrow> PSBuilder outcome" where
  "PS_max_publishers value b =
     outcome_bind (PS_config_details_mut (\<lambda>c. c\<lparr>ps_max_publishers := value\<rparr>) b) (\<lambda>b.
       Ret (b\<lparr>pb_verify_number_of_publishers := True\<rparr>))"

definition PS_is_service_available ::
  "service_env \<Rightarrow> PSBuilder \<Rightarrow> ServiceStorages
     \<Rightarrow> ((StaticConfig \<times> StaticStorage) option, ServiceAvailabilityState) result outcome" where
  "PS_is_service_available e b w =
     outcome_bind (is_service_available e (pb_base b) w) (\<lambda>r.
       case r of
         Ok (Some (config, storage)) \<Rightarrow>
           outcome_bind (StaticConfig_publish_subscribe config) (\<lambda>offered.
           outcome_bind (PS_config_details b) (\<lambda>requested.
             if ps_type_name offered \<noteq> ps_type_name requested then Ret (Err IncompatibleTypes)
             else Ret (Ok (Some (config, storage)))))
       | Ok None \<Rightarrow> Ret (Ok None)
       | Err err \<Rightarrow> Ret (Err (Availability err)))"

definition PS_adjust_properties_to_meaningful_values :: "PSBuilder \<Rightarrow> PSBuilder outcome" where
  "PS_adjust_properties_to_meaningful_values b =
     PS_config_details_mut (\<lambda>settings.
       let settings = (if ps_subscriber_max_borrowed_samples settings = 0
             then settings\<lparr>ps_subscriber_max_borrowed_samples := 1\<rparr> else settings);
           settings = (if ps_subscriber_max_buffer_size settings = 0
             then settings\<lparr>ps_subscriber_max_buffer_size := 1\<rparr> else settings);
           settings = (if ps_max_subscribers settings = 0 then settings\<lparr>ps_max_subscribers := 1\<rparr> else settings)
       in if ps_max_publishers settings = 0 then settings\<lparr>ps_max_publishers := 1\<rparr> else settings) b"

definition PS_verify_service_properties ::
  "StaticConfig \<Rightarrow> PSBuilder \<Rightarrow> (PubSubStaticConfig, PublishSubscribeOpenError) result outcome" where
  "PS_verify_service_properties existing_settings b =
     outcome_bind (StaticConfig_publish_subscribe (bw_service_config (pb_base b))) (\<lambda>required.
       Ret (case sc_messaging_pattern existing_settings of
         Event _ \<Rightarrow> Err PSOpen_IncompatibleMessagingPattern
       | PublishSubscribe existing \<Rightarrow>
           if pb_verify_number_of_publishers b \<and> ps_max_publishers existing < ps_max_publishers required
           then Err PSOpen_DoesNotSupportRequestedAmountOfPublishers
           else if pb_verify_number_of_subscribers b \<and> ps_max_subscribers existing < ps_max_subscribers required
           then Err PSOpen_DoesNotSupportRequestedAmountOfSubscribers
           else if pb_verify_subscriber_max_buffer_size b
             \<and> ps_subscriber_max_buffer_size existing < ps_subscriber_max_buffer_size required
           then Err PSOpen_DoesNotSupportRequestedMinBufferSize
           else if pb_verify_publisher_history_size b \<and> ps_history_size existing < ps_history_size required
           then Err PSOpen_DoesNotSupportRequestedMinHistorySize
           else if pb_verify_subscriber_max_borrowed_samples b
             \<and> ps_subscriber_max_borrowed_samples existing < ps_subscriber_max_borrowed_samples required
           then Err PSOpen_DoesNotSupportRequestedMinSubscriberBorrowedSamples
           else if pb_verify_enable_safe_overflow b \<and> ps_enable_safe_overflow existing \<noteq> ps_enable_safe_overflow required
           then Err PSOpen_IncompatibleOverflowBehavior
           else Ok existing))"

text \<open>
  One round of the loop of \<open>open\<close>. Other users of the storages may run between the look at the static
  and the access to the dynamic storage: \<open>w\<close> are the storages at the first, \<open>w'\<close> at the second.
  \<open>Inr\<close> is the answer of the call, \<open>Inl\<close> that the service is being created.
\<close>

definition PS_open_round ::
  "service_env \<Rightarrow> PSBuilder \<Rightarrow> ServiceStorages \<Rightarrow> ServiceStorages
     \<Rightarrow> (unit + ((ServiceState, PublishSubscribeOpenError) result \<times> ServiceStorages)) outcome" where
  "PS_open_round e b w w' =
     outcome_bind (PS_is_service_available e b w) (\<lambda>r.
       case r of
         Ok None \<Rightarrow> Ret (Inr (Err PSOpen_DoesNotExist, w'))
       | Ok (Some (static_config, static_storage)) \<Rightarrow>
           outcome_bind (PS_verify_service_properties static_config b) (\<lambda>r.
             case r of
               Err err \<Rightarrow> Ret (Inr (Err err, w'))
             | Ok static_config \<Rightarrow>
                 outcome_bind (open_dynamic_config_storage e (pb_base b) w') (\<lambda>(r, w').
                   case r of
                     Err _ \<Rightarrow> Ret (Inr (Err PSOpen_UnableToOpenDynamicServiceInformation, w'))
                   | Ok dynamic_config \<Rightarrow>
                       Ret (Inr (Ok (ServiceState_new
                         ((bw_service_config (pb_base b))\<lparr>sc_messaging_pattern := PublishSubscribe static_config\<rparr>)
                         (bw_global_config (pb_base b)) dynamic_config static_storage), w'))))
       | Err (Availability State_IsBeingCreatedByAnotherInstance) \<Rightarrow> Ret (Inl ())
       | Err IncompatibleTypes \<Rightarrow> Ret (Inr (Err PSOpen_IncompatibleTypes, w'))
       | Err (Availability State_IncompatibleMessagingPattern) \<Rightarrow> Ret (Inr (Err PSOpen_IncompatibleMessagingPattern, w'))
       | Err (Availability State_Corrupted) \<Rightarrow> Ret (Inr (Err PSOpen_ServiceInCorruptedState, w'))
       | Err (Availability State_PermissionDenied) \<Rightarrow> Ret (Inr (Err PSOpen_PermissionDenied, w')))"

text \<open>
  The loop: each element of the list has the storages that a round sees and what \<open>AdaptiveWait::wait\<close>
  answers at its end, the time waited so far or a failure. \<open>None\<close> is a loop that still runs.
\<close>

fun PS_open_loop ::
  "service_env \<Rightarrow> PSBuilder \<Rightarrow> (ServiceStorages \<times> ServiceStorages \<times> (nat, unit) result) list
     \<Rightarrow> ((ServiceState, PublishSubscribeOpenError) result \<times> ServiceStorages) outcome option" where
  "PS_open_loop e b [] = None"
| "PS_open_loop e b ((w, w', waited) # rounds) =
     (case PS_open_round e b w w' of
        Panic \<Rightarrow> Some Panic
      | Ret (Inr answer) \<Rightarrow> Some (Ret answer)
      | Ret (Inl _) \<Rightarrow>
          (case waited of
             Err _ \<Rightarrow> Some (Ret (Err PSOpen_InternalFailure, w'))
           | Ok timeout \<Rightarrow>
               if gs_creation_timeout (g_service (c_global (bw_global_config (pb_base b)))) < timeout
               then Some (Ret (Err PSOpen_HangsInCreation, w'))
               else PS_open_loop e b rounds))"

text \<open>\<open>adaptive_wait\<close> tells whether \<open>AdaptiveWaitBuilder::create\<close> succeeds.\<close>

definition PS_open ::
  "service_env \<Rightarrow> char list \<Rightarrow> bool \<Rightarrow> PSBuilder \<Rightarrow> (ServiceStorages \<times> ServiceStorages \<times> (nat, unit) result) list \<Rightarrow> ServiceStorages
     \<Rightarrow> ((ServiceState, PublishSubscribeOpenError) result \<times> ServiceStorages) outcome option" where
  "PS_open e type_name adaptive_wait b rounds w =
     (case PS_config_details_mut (\<lambda>c. c\<lparr>ps_type_name := type_name\<rparr>) b of
        Panic \<Rightarrow> Some Panic
      | Ret b \<Rightarrow> if \<not> adaptive_wait then Some (Ret (Err PSOpen_InternalFailure, w)) else PS_open_loop e b rounds)"

text \<open>
  The part of \<open>create\<close> after the checks; when it returns early, the storages that were created before
  are dropped in the reverse order.
\<close>

definition PS_create_service ::
  "service_env \<Rightarrow> PSBuilder \<Rightarrow> ServiceStorages \<Rightarrow> ((ServiceState, PublishSubscribeCreateError) result \<times> ServiceStorages) outcome" where
  "PS_create_service e b w =
     outcome_bind (PS_is_service_available e b w) (\<lambda>r.
       case r of
         Ok None \<Rightarrow>
           outcome_bind (create_static_config_storage e (pb_base b) w) (\<lambda>(r, w).
             case r of
               Err _ \<Rightarrow> Ret (Err PSCreate_UnableToCreateStaticServiceInformation, w)
             | Ok static_config \<Rightarrow>
                 outcome_bind (StaticConfig_publish_subscribe (bw_service_config (pb_base b))) (\<lambda>c.
                 outcome_bind (create_dynamic_config_storage e (pb_base b)
                     (DynamicPublishSubscribe (PubSubDynamicConfig_new (ps_max_subscribers c) (ps_max_publishers c)))
                     (PubSubDynamicConfig_memory_size (se_align_of_id e) (ps_max_subscribers c) (ps_max_publishers c)) w) (\<lambda>(r, w).
                   case r of
                     Err _ \<Rightarrow> outcome_bind (drop_static e (lk_storage static_config) w) (\<lambda>w. Ret (Err PSCreate_InternalFailure, w))
                   | Ok dynamic_config \<Rightarrow>
                       (case se_serialize e (bw_service_config (pb_base b)) of
                          Err _ \<Rightarrow>
                            outcome_bind (drop_dynamic e dynamic_config w) (\<lambda>w.
                            outcome_bind (drop_static e (lk_storage static_config) w) (\<lambda>w. Ret (Err PSCreate_Corrupted, w)))
                        | Ok service_config \<Rightarrow>
                            outcome_bind (on_static (Locked_unlock e service_config static_config) w) (\<lambda>(r, w).
                              case r of
                                Err _ \<Rightarrow> outcome_bind (drop_dynamic e dynamic_config w) (\<lambda>w. Ret (Err PSCreate_Corrupted, w))
                              | Ok unlocked_static_details \<Rightarrow>
                                  Ret (Ok (ServiceState_new (bw_service_config (pb_base b)) (bw_global_config (pb_base b))
                                    dynamic_config unlocked_static_details), w))))))
       | Ok (Some _) \<Rightarrow> Ret (Err PSCreate_AlreadyExists, w)
       | Err IncompatibleTypes \<Rightarrow> Ret (Err PSCreate_AlreadyExists, w)
       | Err (Availability State_IncompatibleMessagingPattern) \<Rightarrow> Ret (Err PSCreate_AlreadyExists, w)
       | Err (Availability State_PermissionDenied) \<Rightarrow> Ret (Err PSCreate_PermissionDenied, w)
       | Err (Availability State_Corrupted) \<Rightarrow> Ret (Err PSCreate_Corrupted, w)
       | Err (Availability State_IsBeingCreatedByAnotherInstance) \<Rightarrow> Ret (Err PSCreate_IsBeingCreatedByAnotherInstance, w))"

definition PS_create ::
  "service_env \<Rightarrow> char list \<Rightarrow> PSBuilder \<Rightarrow> ServiceStorages
     \<Rightarrow> ((ServiceState, PublishSubscribeCreateError) result \<times> ServiceStorages) outcome" where
  "PS_create e type_name b w =
     outcome_bind (PS_adjust_properties_to_meaningful_values b) (\<lambda>b.
     outcome_bind (PS_config_details_mut (\<lambda>c. c\<lparr>ps_type_name := type_name\<rparr>) b) (\<lambda>b.
     outcome_bind (PS_config_details b) (\<lambda>c.
       if \<not> ps_enable_safe_overflow c \<and> ps_subscriber_max_buffer_size c < ps_history_size c
       then Ret (Err PSCreate_SubscriberBufferMustBeLargerThanHistorySize, w)
       else PS_create_service e b w)))"

text \<open>\<open>w\<close> are the storages at the first look, \<open>w'\<close> those \<open>create\<close> finds.\<close>

definition PS_open_or_create ::
  "service_env \<Rightarrow> char list \<Rightarrow> bool \<Rightarrow> PSBuilder \<Rightarrow> (ServiceStorages \<times> ServiceStorages \<times> (nat, unit) result) list
     \<Rightarrow> ServiceStorages \<Rightarrow> ServiceStorages
     \<Rightarrow> ((ServiceState, PublishSubscribeOpenOrCreateError) result \<times> ServiceStorages) outcome option" where
  "PS_open_or_create e type_name adaptive_wait b rounds w w' =
     (let opened = (case PS_open e type_name adaptive_wait b rounds w' of
            None \<Rightarrow> None
          | Some m \<Rightarrow> Some (outcome_bind m (\<lambda>(r, w). Ret (case r of Ok s \<Rightarrow> Ok s | Err err \<Rightarrow> Err (PS_OpenError err), w))));
          failed = (\<lambda>err. Some (Ret (Err (PS_OpenError err), w')))
      in case PS_config_details_mut (\<lambda>c. c\<lparr>ps_type_name := type_name\<rparr>) b of
           Panic \<Rightarrow> Some Panic
         | Ret b \<Rightarrow>
             (case PS_is_service_available e b w of
                Panic \<Rightarrow> Some Panic
              | Ret (Ok (Some _)) \<Rightarrow> opened
              | Ret (Ok None) \<Rightarrow> Some (outcome_bind (PS_create e type_name b w') (\<lambda>(r, w).
                  Ret (case r of Ok s \<Rightarrow> Ok s | Err err \<Rightarrow> Err (PS_CreateError err), w)))
              | Ret (Err (Availability State_IsBeingCreatedByAnotherInstance)) \<Rightarrow> opened
              | Ret (Err IncompatibleTypes) \<Rightarrow> failed PSOpen_IncompatibleTypes
              | Ret (Err (Availability State_IncompatibleMessagingPattern)) \<Rightarrow> failed PSOpen_IncompatibleMessagingPattern
              | Ret (Err (Availability State_Corrupted)) \<Rightarrow> failed PSOpen_ServiceInCorruptedState
              | Ret (Err (Availability State_PermissionDenied)) \<Rightarrow> failed PSOpen_PermissionDenied))"

section \<open>builder/event.rs\<close>

datatype EventOpenError =
    EventOpen_DoesNotExist
  | EventOpen_PermissionDenied
  | EventOpen_EventInCorruptedState
  | EventOpen_IncompatibleMessagingPattern
  | EventOpen_InternalFailure
  | EventOpen_HangsInCreation
  | EventOpen_DoesNotSupportRequestedAmountOfNotifiers
  | EventOpen_DoesNotSupportRequestedAmountOfListeners
  | EventOpen_UnableToOpenDynamicServiceInformation

datatype EventCreateError =
    EventCreate_Corrupted
  | EventCreate_InternalFailure
  | EventCreate_IsBeingCreatedByAnotherInstance
  | EventCreate_AlreadyExists
  | EventCreate_PermissionDenied
  | EventCreate_UnableToCreateStaticServiceInformation

datatype EventOpenOrCreateError = Event_OpenError EventOpenError | Event_CreateError EventCreateError

record EventBuilder =
  eb_base :: BuilderWithServiceType
  eb_verify_max_notifiers :: bool
  eb_verify_max_listeners :: bool

definition EventBuilder_new :: "BuilderWithServiceType \<Rightarrow> EventBuilder" where
  "EventBuilder_new base =
     \<lparr>eb_base = base\<lparr>bw_service_config := (bw_service_config base)\<lparr>sc_messaging_pattern :=
        Event (EventStaticConfig_new (bw_global_config base))\<rparr>\<rparr>,
      eb_verify_max_notifiers = False, eb_verify_max_listeners = False\<rparr>"

definition event_with_custom_config :: "(char list \<Rightarrow> char list) \<Rightarrow> char list \<Rightarrow> Config \<Rightarrow> EventBuilder" where
  "event_with_custom_config hash name config =
     EventBuilder_new (BuilderWithServiceType_new (StaticConfig_new_event hash name config) config)"

definition Event_config_details :: "(EventStaticConfig \<Rightarrow> EventStaticConfig) \<Rightarrow> EventBuilder \<Rightarrow> EventBuilder outcome" where
  "Event_config_details f b =
     outcome_bind (StaticConfig_event_mut f (bw_service_config (eb_base b))) (\<lambda>c.
       Ret (b\<lparr>eb_base := (eb_base b)\<lparr>bw_service_config := c\<rparr>\<rparr>))"

definition Event_max_notifiers :: "nat \<Rightarrow> EventBuilder \<Rightarrow> EventBuilder outcome" where
  "Event_max_notifiers value b =
     outcome_bind (Event_config_details (\<lambda>c. c\<lparr>es_max_notifiers := value\<rparr>) b) (\<lambda>b. Ret (b\<lparr>eb_verify_max_notifiers := True\<rparr>))"

definition Event_max_listeners :: "nat \<Rightarrow> EventBuilder \<Rightarrow> EventBuilder outcome" where
  "Event_max_listeners value b =
     outcome_bind (Event_config_details (\<lambda>c. c\<lparr>es_max_listeners := value\<rparr>) b) (\<lambda>b. Ret (b\<lparr>eb_verify_max_listeners := True\<rparr>))"

definition Event_adjust_properties_to_meaningful_values :: "EventBuilder \<Rightarrow> EventBuilder outcome" where
  "Event_adjust_properties_to_meaningful_values b =
     Event_config_details (\<lambda>settings.
       let settings = (if es_max_notifiers settings = 0 then settings\<lparr>es_max_notifiers := 1\<rparr> else settings)
       in if es_max_listeners settings = 0 then settings\<lparr>es_max_listeners := 1\<rparr> else settings) b"

definition Event_verify_service_properties ::
  "StaticConfig \<Rightarrow> EventBuilder \<Rightarrow> (EventStaticConfig, EventOpenError) result outcome" where
  "Event_verify_service_properties existing_settings b =
     outcome_bind (StaticConfig_event (bw_service_config (eb_base b))) (\<lambda>required.
       Ret (case sc_messaging_pattern existing_settings of
         PublishSubscribe _ \<Rightarrow> Err EventOpen_IncompatibleMessagingPattern
       | Event existing \<Rightarrow>
           if eb_verify_max_notifiers b \<and> es_max_notifiers existing < es_max_notifiers required
           then Err EventOpen_DoesNotSupportRequestedAmountOfNotifiers
           else if eb_verify_max_listeners b \<and> es_max_listeners existing < es_max_listeners required
           then Err EventOpen_DoesNotSupportRequestedAmountOfListeners
           else Ok existing))"

definition Event_open_round ::
  "service_env \<Rightarrow> EventBuilder \<Rightarrow> ServiceStorages \<Rightarrow> ServiceStorages
     \<Rightarrow> (unit + ((ServiceState, EventOpenError) result \<times> ServiceStorages)) outcome" where
  "Event_open_round e b w w' =
     outcome_bind (is_service_available e (eb_base b) w) (\<lambda>r.
       case r of
         Ok None \<Rightarrow> Ret (Inr (Err EventOpen_DoesNotExist, w'))
       | Ok (Some (static_config, static_storage)) \<Rightarrow>
           outcome_bind (Event_verify_service_properties static_config b) (\<lambda>r.
             case r of
               Err err \<Rightarrow> Ret (Inr (Err err, w'))
             | Ok static_config \<Rightarrow>
                 outcome_bind (open_dynamic_config_storage e (eb_base b) w') (\<lambda>(r, w').
                   case r of
                     Err _ \<Rightarrow> Ret (Inr (Err EventOpen_UnableToOpenDynamicServiceInformation, w'))
                   | Ok dynamic_config \<Rightarrow>
                       Ret (Inr (Ok (ServiceState_new
                         ((bw_service_config (eb_base b))\<lparr>sc_messaging_pattern := Event static_config\<rparr>)
                         (bw_global_config (eb_base b)) dynamic_config static_storage), w'))))
       | Err State_IsBeingCreatedByAnotherInstance \<Rightarrow> Ret (Inl ())
       | Err State_PermissionDenied \<Rightarrow> Ret (Inr (Err EventOpen_PermissionDenied, w'))
       | Err State_IncompatibleMessagingPattern \<Rightarrow> Ret (Inr (Err EventOpen_PermissionDenied, w'))
       | Err State_Corrupted \<Rightarrow> Ret (Inr (Err EventOpen_EventInCorruptedState, w')))"

fun Event_open_loop ::
  "service_env \<Rightarrow> EventBuilder \<Rightarrow> (ServiceStorages \<times> ServiceStorages \<times> (nat, unit) result) list
     \<Rightarrow> ((ServiceState, EventOpenError) result \<times> ServiceStorages) outcome option" where
  "Event_open_loop e b [] = None"
| "Event_open_loop e b ((w, w', waited) # rounds) =
     (case Event_open_round e b w w' of
        Panic \<Rightarrow> Some Panic
      | Ret (Inr answer) \<Rightarrow> Some (Ret answer)
      | Ret (Inl _) \<Rightarrow>
          (case waited of
             Err _ \<Rightarrow> Some (Ret (Err EventOpen_InternalFailure, w'))
           | Ok timeout \<Rightarrow>
               if gs_creation_timeout (g_service (c_global (bw_global_config (eb_base b)))) < timeout
               then Some (Ret (Err EventOpen_HangsInCreation, w'))
               else Event_open_loop e b rounds))"

definition Event_open ::
  "service_env \<Rightarrow> bool \<Rightarrow> EventBuilder \<Rightarrow> (ServiceStorages \<times> ServiceStorages \<times> (nat, unit) result) list \<Rightarrow> ServiceStorages
     \<Rightarrow> ((ServiceState, EventOpenError) result \<times> ServiceStorages) outcome option" where
  "Event_open e adaptive_wait b rounds w =
     (if \<not> adaptive_wait then Some (Ret (Err EventOpen_InternalFailure, w)) else Event_open_loop e b rounds)"

definition Event_create ::
  "service_env \<Rightarrow> EventBuilder \<Rightarrow> ServiceStorages \<Rightarrow> ((ServiceState, EventCreateError) result \<times> ServiceStorages) outcome" where
  "Event_create e b w =
     outcome_bind (Event_adjust_properties_to_meaningful_values b) (\<lambda>b.
     outcome_bind (is_service_available e (eb_base b) w) (\<lambda>r.
       case r of
         Ok None \<Rightarrow>
           outcome_bind (create_static_config_storage e (eb_base b) w) (\<lambda>(r, w).
             case r of
               Err _ \<Rightarrow> Ret (Err EventCreate_UnableToCreateStaticServiceInformation, w)
             | Ok static_config \<Rightarrow>
                 outcome_bind (StaticConfig_event (bw_service_config (eb_base b))) (\<lambda>c.
                 outcome_bind (create_dynamic_config_storage e (eb_base b)
                     (DynamicEvent (EventDynamicConfig_new (es_max_listeners c) (es_max_notifiers c)))
                     (EventDynamicConfig_memory_size (se_align_of_id e) (es_max_listeners c) (es_max_notifiers c)) w) (\<lambda>(r, w).
                   case r of
                     Err _ \<Rightarrow> outcome_bind (drop_static e (lk_storage static_config) w) (\<lambda>w. Ret (Err EventCreate_InternalFailure, w))
                   | Ok dynamic_config \<Rightarrow>
                       (case se_serialize e (bw_service_config (eb_base b)) of
                          Err _ \<Rightarrow>
                            outcome_bind (drop_dynamic e dynamic_config w) (\<lambda>w.
                            outcome_bind (drop_static e (lk_storage static_config) w) (\<lambda>w. Ret (Err EventCreate_Corrupted, w)))
                        | Ok service_config \<Rightarrow>
                            outcome_bind (on_static (Locked_unlock e service_config static_config) w) (\<lambda>(r, w).
                              case r of
                                Err _ \<Rightarrow> outcome_bind (drop_dynamic e dynamic_config w) (\<lambda>w. Ret (Err EventCreate_Corrupted, w))
                              | Ok unlocked_static_details \<Rightarrow>
                                  Ret (Ok (ServiceState_new (bw_service_config (eb_base b)) (bw_global_config (eb_base b))
                                    dynamic_config unlocked_static_details), w))))))
       | Ok (Some _) \<Rightarrow> Ret (Err EventCreate_AlreadyExists, w)
       | Err State_IncompatibleMessagingPattern \<Rightarrow> Ret (Err EventCreate_AlreadyExists, w)
       | Err State_PermissionDenied \<Rightarrow> Ret (Err EventCreate_PermissionDenied, w)
       | Err State_Corrupted \<Rightarrow> Ret (Err EventCreate_Corrupted, w)
       | Err State_IsBeingCreatedByAnotherInstance \<Rightarrow> Ret (Err EventCreate_IsBeingCreatedByAnotherInstance, w)))"

definition Event_open_or_create ::
  "service_env \<Rightarrow> bool \<Rightarrow> EventBuilder \<Rightarrow> (ServiceStorages \<times> ServiceStorages \<times> (nat, unit) result) list
     \<Rightarrow> ServiceStorages \<Rightarrow> ServiceStorages
     \<Rightarrow> ((ServiceState, EventOpenOrCreateError) result \<times> ServiceStorages) outcome option" where
  "Event_open_or_create e adaptive_wait b rounds w w' =
     (let opened = (case Event_open e adaptive_wait b rounds w' of
            None \<Rightarrow> None
          | Some m \<Rightarrow> Some (outcome_bind m (\<lambda>(r, w). Ret (case r of Ok s \<Rightarrow> Ok s | Err err \<Rightarrow> Err (Event_OpenError err), w))));
          failed = (\<lambda>err. Some (Ret (Err (Event_OpenError err), w')))
      in case is_service_available e (eb_base b) w of
           Panic \<Rightarrow> Some Panic
         | Ret (Ok (Some _)) \<Rightarrow> opened
         | Ret (Ok None) \<Rightarrow> Some (outcome_bind (Event_create e b w') (\<lambda>(r, w).
             Ret (case r of Ok s \<Rightarrow> Ok s | Err err \<Rightarrow> Err (Event_CreateError err), w)))
         | Ret (Err State_IsBeingCreatedByAnotherInstance) \<Rightarrow> opened
         | Ret (Err State_Corrupted) \<Rightarrow> failed EventOpen_EventInCorruptedState
         | Ret (Err State_IncompatibleMessagingPattern) \<Rightarrow> failed EventOpen_IncompatibleMessagingPattern
         | Ret (Err State_PermissionDenied) \<Rightarrow> failed EventOpen_PermissionDenied)"

section \<open>service/mod.rs: the list of all services\<close>

text \<open>
  The static configurations of the listed storages; a storage that cannot be opened or deserialized or
  has another uuid than its name is skipped. \<open>keys\<close> are the keys of the hash map in its order. The read
  cannot fail, the buffer has the length of the content.
\<close>

fun collect_services ::
  "service_env \<Rightarrow> NamedConceptConfiguration \<Rightarrow> FixedSizeByteString list \<Rightarrow> ServiceStorages \<Rightarrow> StaticConfig list outcome" where
  "collect_services e static_storage_config [] w = Ret []"
| "collect_services e static_storage_config (service_storage # services) w =
     outcome_bind (StaticStorageBuilder_open e
         (StaticStorageBuilder_has_ownership False (StaticStorageBuilder_new static_storage_config service_storage)) (sg_static w)) (\<lambda>r.
       case r of
         Err _ \<Rightarrow> collect_services e static_storage_config services w
       | Ok reader \<Rightarrow>
           outcome_bind (StaticStorage_read (StaticStorage_len reader) reader) (\<lambda>r.
             case r of
               Err _ \<Rightarrow> collect_services e static_storage_config services w
             | Ok content \<Rightarrow>
                 (case se_deserialize e content of
                    Err _ \<Rightarrow> collect_services e static_storage_config services w
                  | Ok service_config \<Rightarrow>
                      if as_bytes service_storage \<noteq> sc_uuid service_config then collect_services e static_storage_config services w
                      else outcome_bind (collect_services e static_storage_config services w) (\<lambda>service_vec.
                        Ret (service_config # service_vec)))))"

definition list_with_custom_config ::
  "service_env \<Rightarrow> Config \<Rightarrow> FixedSizeByteString list \<Rightarrow> ServiceStorages \<Rightarrow> StaticConfig list outcome" where
  "list_with_custom_config e config keys w =
     outcome_bind (static_config_storage_config (se_junk_file e) (se_junk_path e) config) (\<lambda>static_storage_config.
     outcome_bind (StaticStorage_list_cfg e static_storage_config keys) (\<lambda>services.
       collect_services e static_storage_config services w))"

fun find_service ::
  "service_env \<Rightarrow> char list \<Rightarrow> NamedConceptConfiguration \<Rightarrow> FixedSizeByteString list \<Rightarrow> ServiceStorages \<Rightarrow> bool outcome" where
  "find_service e service_name static_storage_config [] w = Ret False"
| "find_service e service_name static_storage_config (service_storage # services) w =
     outcome_bind (StaticStorageBuilder_open e
         (StaticStorageBuilder_has_ownership False (StaticStorageBuilder_new static_storage_config service_storage)) (sg_static w)) (\<lambda>r.
       case r of
         Err _ \<Rightarrow> find_service e service_name static_storage_config services w
       | Ok reader \<Rightarrow>
           outcome_bind (StaticStorage_read (StaticStorage_len reader) reader) (\<lambda>r.
             (case se_deserialize e (case r of Ok content \<Rightarrow> content | Err _ \<Rightarrow> replicate (StaticStorage_len reader) CHR '' '') of
                Err _ \<Rightarrow> find_service e service_name static_storage_config services w
              | Ok service_config \<Rightarrow>
                  if as_bytes service_storage \<noteq> sc_uuid service_config then find_service e service_name static_storage_config services w
                  else if sc_service_name service_config = service_name then Ret True
                  else find_service e service_name static_storage_config services w)))"

definition does_exist_with_custom_config ::
  "service_env \<Rightarrow> char list \<Rightarrow> Config \<Rightarrow> FixedSizeByteString list \<Rightarrow> ServiceStorages \<Rightarrow> bool outcome" where
  "does_exist_with_custom_config e service_name config keys w =
     outcome_bind (static_config_storage_config (se_junk_file e) (se_junk_path e) config) (\<lambda>static_storage_config.
     outcome_bind (StaticStorage_list_cfg e static_storage_config keys) (\<lambda>services.
       find_service e service_name static_storage_config services w))"

end
