(* ===== verification/ServiceLifecycle.thy ===== *)
theory ServiceLifecycle
  imports ServiceBuilder
begin

text \<open>
  The life of a service, from the creation to the removal by its last user: lemmas that describe each
  operation of the builders by what it does at the two places of a service in the storages, the
  invariant of a service that is created, opened and closed by any number of users, and what happens
  when an operation fails half way or another user runs in between.
\<close>

section \<open>The places of a service\<close>

record place =
  pl_name :: FixedSizeByteString
  pl_static_config :: NamedConceptConfiguration
  pl_dynamic_config :: NamedConceptConfiguration
  pl_static :: "char list"
  pl_dynamic :: "char list"

definition located_at ::
  "service_env \<Rightarrow> NamedConceptConfiguration \<Rightarrow> FixedSizeByteString \<Rightarrow> char list \<Rightarrow> bool" where
  "located_at e config name p \<longleftrightarrow> (\<exists>fp. path_for (se_junk_path e) config name = Ret fp \<and> as_bytes fp = p)"

text \<open>The service with the given uuid and global configuration has its storages at the place \<open>L\<close>.\<close>

definition located :: "service_env \<Rightarrow> char list \<Rightarrow> Config \<Rightarrow> place \<Rightarrow> bool" where
  "located e uuid g L \<longleftrightarrow> FileName_new (se_junk_file e) uuid = Ret (Ok (pl_name L))
     \<and> static_config_storage_config (se_junk_file e) (se_junk_path e) g = Ret (pl_static_config L)
     \<and> located_at e (pl_static_config L) (pl_name L) (pl_static L)
     \<and> dynamic_config_storage_config (se_junk_file e) (se_junk_path e) g = Ret (pl_dynamic_config L)
     \<and> located_at e (pl_dynamic_config L) (pl_name L) (pl_dynamic L)"

text \<open>The users of a service have storages without ownership.\<close>

definition static_at :: "place \<Rightarrow> StorageContent \<Rightarrow> StaticStorage" where
  "static_at L v = \<lparr>st_name = pl_name L, st_has_ownership = False, st_config = pl_static_config L, st_content = v\<rparr>"

definition dynamic_at :: "place \<Rightarrow> nat \<Rightarrow> DynamicStorage" where
  "dynamic_at L a = \<lparr>dy_name = pl_name L, dy_data = a, dy_has_ownership = False, dy_config = pl_dynamic_config L\<rparr>"

abbreviation locked_content :: StorageContent where
  "locked_content \<equiv> \<lparr>sto_is_locked = True, sto_value = []\<rparr>"

abbreviation set_static :: "place \<Rightarrow> StorageContent option \<Rightarrow> ServiceStorages \<Rightarrow> ServiceStorages" where
  "set_static L v w \<equiv> w\<lparr>sg_static := (sg_static w)(pl_static L := v)\<rparr>"

definition store_dynamic :: "place \<Rightarrow> DynamicConfig \<Rightarrow> ServiceStorages \<Rightarrow> ServiceStorages" where
  "store_dynamic L d w = w\<lparr>sg_dynamic := (sg_dynamic w)
     \<lparr>dss_entries := (dss_entries (sg_dynamic w))(pl_dynamic L \<mapsto> dss_next (sg_dynamic w)),
      dss_content := (dss_content (sg_dynamic w))(dss_next (sg_dynamic w) \<mapsto> d), dss_next := dss_next (sg_dynamic w) + 1\<rparr>\<rparr>"

definition update_dynamic :: "nat \<Rightarrow> DynamicConfig \<Rightarrow> ServiceStorages \<Rightarrow> ServiceStorages" where
  "update_dynamic a d w = w\<lparr>sg_dynamic := (sg_dynamic w)\<lparr>dss_content := (dss_content (sg_dynamic w))(a \<mapsto> d)\<rparr>\<rparr>"

section \<open>The operations at a place\<close>

text \<open>A builder whose service is at a place, while the lock of the static storages can be acquired.\<close>

definition builder_at :: "service_env \<Rightarrow> BuilderWithServiceType \<Rightarrow> place \<Rightarrow> bool" where
  "builder_at e b L \<longleftrightarrow> se_static_lock e \<and> located e (sc_uuid (bw_service_config b)) (bw_global_config b) L"

named_theorems at_defs

lemmas [at_defs] = builder_at_def located_def located_at_def static_config_of_def dynamic_config_of_def unwrap_name_def

definition available ::
  "service_env \<Rightarrow> BuilderWithServiceType \<Rightarrow> place \<Rightarrow> StorageContent option
     \<Rightarrow> ((StaticConfig \<times> StaticStorage) option, builder_ServiceState) result" where
  "available e b L content =
     (case content of None \<Rightarrow> Ok None
      | Some v \<Rightarrow> if sto_is_locked v then Err State_IsBeingCreatedByAnotherInstance
          else case se_deserialize e (sto_value v) of
            Err _ \<Rightarrow> Err State_Corrupted
          | Ok c \<Rightarrow> if sc_uuid c \<noteq> sc_uuid (bw_service_config b) then Err State_Corrupted
              else if \<not> has_same_messaging_pattern c (bw_service_config b) then Err State_IncompatibleMessagingPattern
              else Ok (Some (c, static_at L v)))"

lemma is_service_available_at:
  assumes "builder_at e b L"
  shows "is_service_available e b w = Ret (available e b L (sg_static w (pl_static L)))"
  using assms
  by (auto simp: at_defs is_service_available_def available_def static_at_def StaticStorage_does_exist_cfg_def
      StaticStorageBuilder_open_def StaticStorageBuilder_new_def StaticStorageBuilder_has_ownership_def
      StaticStorage_read_def StaticStorage_len_def split: option.splits result.splits)

lemma create_static_config_storage_at:
  assumes "builder_at e b L"
  shows "create_static_config_storage e b w =
    (case sg_static w (pl_static L) of Some _ \<Rightarrow> Ret (Err StaticCreate_AlreadyExists, w)
     | None \<Rightarrow> Ret (Ok \<lparr>lk_storage = static_at L locked_content\<rparr>, set_static L (Some locked_content) w))"
  using assms
  by (auto simp: at_defs create_static_config_storage_def static_config_storage_name_def static_at_def on_static_def
      StaticStorageBuilder_create_locked_def StaticStorageBuilder_new_def StaticStorageBuilder_has_ownership_def Let_def
      split: option.splits)

lemma unlock_at:
  assumes "builder_at e b L" "sg_static w (pl_static L) \<noteq> None"
  shows "on_static (Locked_unlock e v \<lparr>lk_storage = static_at L c\<rparr>) w
    = Ret (Ok (static_at L c), set_static L (Some \<lparr>sto_is_locked = False, sto_value = v\<rparr>) w)"
  using assms by (auto simp: at_defs on_static_def Locked_unlock_def static_at_def)

lemma drop_static_at: "drop_static e (static_at L c) w = Ret w"
  by (simp add: drop_static_def StaticStorage_drop_def static_at_def)

lemma drop_dynamic_at: "drop_dynamic e (dynamic_at L a) w = Ret w"
  by (simp add: drop_dynamic_def DynamicStorage_drop_def dynamic_at_def)

lemma create_dynamic_config_storage_blocked:
  assumes "builder_at e b L" "se_dynamic_lock e \<Longrightarrow> dss_entries (sg_dynamic w) (pl_dynamic L) \<noteq> None"
  shows "\<exists>err. create_dynamic_config_storage e b p n w = Ret (Err err, w)"
  using assms
  by (cases "se_dynamic_lock e")
    (auto simp: at_defs create_dynamic_config_storage_def dynamic_config_storage_name_def on_dynamic_def
      DynamicStorageBuilder_create_and_initialize_def DynamicStorageBuilder_new_def
      DynamicStorageBuilder_has_ownership_def DynamicStorageBuilder_supplementary_size_def)

lemma create_dynamic_config_storage_at:
  assumes "builder_at e b L" "se_dynamic_lock e" "dss_entries (sg_dynamic w) (pl_dynamic L) = None" "se_heap e n = Some start"
  shows "create_dynamic_config_storage e b p n w =
    outcome_bind (DynamicConfig_init (se_align_of_id e) BumpAllocator_allocate (DynamicConfig_new_uninit p) (BumpAllocator_new start n))
      (\<lambda>(d, _). Ret (Ok (dynamic_at L (dss_next (sg_dynamic w))), store_dynamic L d w))"
  using assms
  by (cases "DynamicConfig_init (se_align_of_id e) BumpAllocator_allocate (DynamicConfig_new_uninit p) (BumpAllocator_new start n)")
    (auto simp: at_defs create_dynamic_config_storage_def dynamic_config_storage_name_def on_dynamic_def
      DynamicStorageBuilder_create_and_initialize_def DynamicStorageBuilder_new_def
      DynamicStorageBuilder_has_ownership_def DynamicStorageBuilder_supplementary_size_def store_dynamic_def dynamic_at_def
      simp del: DynamicConfig_init.simps)

lemma open_dynamic_config_storage_at:
  assumes "builder_at e b L" "se_dynamic_lock e" "dss_entries (sg_dynamic w) (pl_dynamic L) = Some a"
    "dss_content (sg_dynamic w) a = Some d"
  shows "open_dynamic_config_storage e b w =
    (if dc_reference_counter d = MARKED_FOR_DESTRUCTION then Ret (Err IsMarkedForDestruction, w)
     else Ret (Ok (dynamic_at L a), update_dynamic a (d\<lparr>dc_reference_counter := dc_reference_counter d + 1\<rparr>) w))"
  using assms
  by (auto simp: at_defs open_dynamic_config_storage_def dynamic_config_storage_name_def DynamicStorageBuilder_open_def
      DynamicStorageBuilder_try_open_def DynamicStorageBuilder_new_def DynamicStorageBuilder_has_ownership_def
      DynamicStorage_get_def DynamicStorage_set_def increment_reference_counter_def update_dynamic_def dynamic_at_def)

text \<open>Closing a service: the last user removes both entries, every other one only counts down.\<close>

lemma ServiceState_drop_at:
  assumes "builder_at e b L" "se_dynamic_lock e" "sv_static_storage s = static_at L c" "sv_dynamic_storage s = dynamic_at L a"
    "dss_content (sg_dynamic w) a = Some d" "dss_entries (sg_dynamic w) (pl_dynamic L) = Some a"
  shows "ServiceState_drop e s w =
    (if dc_reference_counter d = 1
     then Ret (set_static L None (w\<lparr>sg_dynamic := (sg_dynamic w)
       \<lparr>dss_content := (dss_content (sg_dynamic w))(a \<mapsto> d\<lparr>dc_reference_counter := MARKED_FOR_DESTRUCTION\<rparr>),
        dss_entries := (dss_entries (sg_dynamic w))(pl_dynamic L := None)\<rparr>\<rparr>))
     else Ret (update_dynamic a (d\<lparr>dc_reference_counter := dc_reference_counter d - 1\<rparr>) w))"
  using assms
  by (auto simp: at_defs ServiceState_drop_def DynamicStorage_get_def DynamicStorage_set_def decrement_reference_counter_def
      drop_static_def drop_dynamic_def StaticStorage_drop_def DynamicStorage_drop_def StaticStorage_remove_cfg_def
      DynamicStorage_remove_cfg_def static_at_def dynamic_at_def Let_def update_dynamic_def
      StaticStorage_acquire_ownership_def DynamicStorage_acquire_ownership_def)

section \<open>Publish-subscribe builders\<close>

text \<open>A builder for the service with the given uuid and global configuration that asks for the settings \<open>c\<close>.\<close>

definition ps_builder :: "char list \<Rightarrow> Config \<Rightarrow> PubSubStaticConfig \<Rightarrow> PSBuilder \<Rightarrow> bool" where
  "ps_builder uuid g c b \<longleftrightarrow> sc_uuid (bw_service_config (pb_base b)) = uuid \<and> bw_global_config (pb_base b) = g
     \<and> sc_messaging_pattern (bw_service_config (pb_base b)) = PublishSubscribe c"

abbreviation with_settings :: "PSBuilder \<Rightarrow> PubSubStaticConfig \<Rightarrow> PSBuilder" where
  "with_settings b c \<equiv> b\<lparr>pb_base := (pb_base b)\<lparr>bw_service_config :=
     (bw_service_config (pb_base b))\<lparr>sc_messaging_pattern := PublishSubscribe c\<rparr>\<rparr>\<rparr>"

text \<open>The settings that \<open>create\<close> gives to the service: what was asked for, with no number 0.\<close>

definition created_settings :: "char list \<Rightarrow> PubSubStaticConfig \<Rightarrow> PubSubStaticConfig" where
  "created_settings type_name c = c\<lparr>ps_type_name := type_name,
     ps_subscriber_max_borrowed_samples := max 1 (ps_subscriber_max_borrowed_samples c),
     ps_subscriber_max_buffer_size := max 1 (ps_subscriber_max_buffer_size c),
     ps_max_subscribers := max 1 (ps_max_subscribers c), ps_max_publishers := max 1 (ps_max_publishers c)\<rparr>"

abbreviation created_config :: "char list \<Rightarrow> PubSubStaticConfig \<Rightarrow> PSBuilder \<Rightarrow> StaticConfig" where
  "created_config type_name c b \<equiv> (bw_service_config (pb_base b))\<lparr>sc_messaging_pattern := PublishSubscribe (created_settings type_name c)\<rparr>"

lemma ps_builder_new:
  "ps_builder (hash name) g (PubSubStaticConfig_new g) (publish_subscribe_with_custom_config hash name g)"
  by (simp add: ps_builder_def publish_subscribe_with_custom_config_def PSBuilder_new_def BuilderWithServiceType_new_def
      StaticConfig_new_publish_subscribe_def)

lemma ps_builder_with_settings: "ps_builder uuid g c b \<Longrightarrow> ps_builder uuid g c' (with_settings b c')"
  by (simp add: ps_builder_def)

lemma builder_at_with_settings [simp]: "builder_at e (pb_base (with_settings b c)) L = builder_at e (pb_base b) L"
  by (simp add: builder_at_def)

lemma PS_config_details_mut_at: "ps_builder uuid g c b \<Longrightarrow> PS_config_details_mut f b = Ret (with_settings b (f c))"
  by (simp add: ps_builder_def PS_config_details_mut_def StaticConfig_publish_subscribe_mut_def)

lemma PS_config_details_at: "ps_builder uuid g c b \<Longrightarrow> PS_config_details b = Ret c"
  by (simp add: ps_builder_def PS_config_details_def StaticConfig_publish_subscribe_def)

lemma PS_adjust_at:
  assumes "ps_builder uuid g c b"
  shows "outcome_bind (PS_adjust_properties_to_meaningful_values b) (PS_config_details_mut (\<lambda>c. c\<lparr>ps_type_name := type_name\<rparr>))
    = Ret (with_settings b (created_settings type_name c))"
proof -
  obtain c' where c': "PS_adjust_properties_to_meaningful_values b = Ret (with_settings b c')"
    "c'\<lparr>ps_type_name := type_name\<rparr> = created_settings type_name c"
    unfolding PS_adjust_properties_to_meaningful_values_def PS_config_details_mut_at [OF assms]
    by (cases c) (auto simp: created_settings_def Let_def max_def)
  show ?thesis
    unfolding c'(1) using PS_config_details_mut_at [OF ps_builder_with_settings [OF assms], of "\<lambda>c. c\<lparr>ps_type_name := type_name\<rparr>" c'] c'(2)
    by simp
qed

text \<open>The minimum that an opener asked for is there.\<close>

definition covers :: "PSBuilder \<Rightarrow> PubSubStaticConfig \<Rightarrow> PubSubStaticConfig \<Rightarrow> bool" where
  "covers b required existing \<longleftrightarrow>
     (pb_verify_number_of_publishers b \<longrightarrow> ps_max_publishers required \<le> ps_max_publishers existing)
   \<and> (pb_verify_number_of_subscribers b \<longrightarrow> ps_max_subscribers required \<le> ps_max_subscribers existing)
   \<and> (pb_verify_subscriber_max_buffer_size b \<longrightarrow> ps_subscriber_max_buffer_size required \<le> ps_subscriber_max_buffer_size existing)
   \<and> (pb_verify_publisher_history_size b \<longrightarrow> ps_history_size required \<le> ps_history_size existing)
   \<and> (pb_verify_subscriber_max_borrowed_samples b \<longrightarrow>
        ps_subscriber_max_borrowed_samples required \<le> ps_subscriber_max_borrowed_samples existing)
   \<and> (pb_verify_enable_safe_overflow b \<longrightarrow> ps_enable_safe_overflow required = ps_enable_safe_overflow existing)"

lemma PS_verify_at:
  assumes "ps_builder uuid g required b" "sc_messaging_pattern c = PublishSubscribe existing"
  shows "if covers b required existing then PS_verify_service_properties c b = Ret (Ok existing)
    else \<exists>err. PS_verify_service_properties c b = Ret (Err err)"
  using assms by (auto simp: ps_builder_def PS_verify_service_properties_def StaticConfig_publish_subscribe_def covers_def)

text \<open>The look of a publish-subscribe builder at the service.\<close>

definition ps_available ::
  "service_env \<Rightarrow> PSBuilder \<Rightarrow> char list \<Rightarrow> place \<Rightarrow> StorageContent option
     \<Rightarrow> ((StaticConfig \<times> StaticStorage) option, ServiceAvailabilityState) result" where
  "ps_available e b type_name L content =
     (case available e (pb_base b) L content of
        Err err \<Rightarrow> Err (Availability err)
      | Ok None \<Rightarrow> Ok None
      | Ok (Some (c, s)) \<Rightarrow>
          (case sc_messaging_pattern c of Event _ \<Rightarrow> Err IncompatibleTypes
           | PublishSubscribe offered \<Rightarrow> if ps_type_name offered \<noteq> type_name then Err IncompatibleTypes else Ok (Some (c, s))))"

lemma available_pattern:
  assumes "available e b L content = Ok (Some (c, s))"
  shows "has_same_messaging_pattern c (bw_service_config b) \<and> sc_uuid c = sc_uuid (bw_service_config b)
    \<and> (\<exists>v. content = Some v \<and> \<not> sto_is_locked v \<and> se_deserialize e (sto_value v) = Ok c \<and> s = static_at L v)"
  using assms by (auto simp: available_def split: option.splits result.splits if_splits)

lemma PS_is_service_available_at:
  assumes "builder_at e (pb_base b) L" "ps_builder uuid g c b"
  shows "PS_is_service_available e b w = Ret (ps_available e b (ps_type_name c) L (sg_static w (pl_static L)))"
proof -
  obtain r where r: "available e (pb_base b) L (sg_static w (pl_static L)) = r" by blast
  show ?thesis
  proof (cases "\<exists>k s. r = Ok (Some (k, s))")
    case True
    then obtain k s where k: "r = Ok (Some (k, s))" by blast
    then have "has_same_messaging_pattern k (bw_service_config (pb_base b))" using available_pattern r by blast
    then obtain offered where "sc_messaging_pattern k = PublishSubscribe offered"
      using assms(2) by (cases "sc_messaging_pattern k") (auto simp: has_same_messaging_pattern_def ps_builder_def)
    then show ?thesis
      using r k by (simp add: PS_is_service_available_def is_service_available_at [OF assms(1)] ps_available_def
          StaticConfig_publish_subscribe_def PS_config_details_at [OF assms(2)])
  next
    case False
    then show ?thesis
      using r by (auto simp: PS_is_service_available_def is_service_available_at [OF assms(1)] ps_available_def
          split: result.splits option.splits)
  qed
qed

text \<open>\<open>open\<close>, when the service is there at the first look and the dynamic storage at the second one.\<close>

lemma PS_open_round_at:
  assumes "builder_at e (pb_base b) L" "ps_builder uuid g c b" "se_dynamic_lock e"
    and static: "sg_static w (pl_static L) = Some \<lparr>sto_is_locked = False, sto_value = v\<rparr>" "se_deserialize e v = Ok k" "sc_uuid k = uuid"
    and dynamic: "dss_entries (sg_dynamic w') (pl_dynamic L) = Some a" "dss_content (sg_dynamic w') a = Some d"
      "dc_reference_counter d \<noteq> MARKED_FOR_DESTRUCTION"
  shows "case sc_messaging_pattern k of Event _ \<Rightarrow> \<exists>err. PS_open_round e b w w' = Ret (Inr (Err err, w'))
    | PublishSubscribe offered \<Rightarrow>
        if ps_type_name offered = ps_type_name c \<and> covers b c offered
        then PS_open_round e b w w' = Ret (Inr (Ok (ServiceState_new
            ((bw_service_config (pb_base b))\<lparr>sc_messaging_pattern := PublishSubscribe offered\<rparr>) g (dynamic_at L a)
            (static_at L \<lparr>sto_is_locked = False, sto_value = v\<rparr>)),
          update_dynamic a (d\<lparr>dc_reference_counter := dc_reference_counter d + 1\<rparr>) w'))
        else \<exists>err. PS_open_round e b w w' = Ret (Inr (Err err, w'))"
proof (cases "sc_messaging_pattern k")
  case (PublishSubscribe offered)
  have "available e (pb_base b) L (sg_static w (pl_static L)) = Ok (Some (k, static_at L \<lparr>sto_is_locked = False, sto_value = v\<rparr>))"
    using static PublishSubscribe assms(2) by (simp add: available_def ps_builder_def has_same_messaging_pattern_def)
  then have look: "PS_is_service_available e b w = Ret (if ps_type_name offered \<noteq> ps_type_name c then Err IncompatibleTypes
      else Ok (Some (k, static_at L \<lparr>sto_is_locked = False, sto_value = v\<rparr>)))"
    using PublishSubscribe by (simp add: PS_is_service_available_at [OF assms(1,2)] ps_available_def)
  have g: "bw_global_config (pb_base b) = g" using assms(2) by (simp add: ps_builder_def)
  have "if covers b c offered then PS_verify_service_properties k b = Ret (Ok offered)
    else \<exists>err. PS_verify_service_properties k b = Ret (Err err)"
    by (rule PS_verify_at [OF assms(2) PublishSubscribe])
  then show ?thesis
    using PublishSubscribe dynamic(3) g
    by (cases "covers b c offered")
      (auto simp: PS_open_round_def look open_dynamic_config_storage_at [OF assms(1,3) dynamic(1,2)])
next
  case (Event x)
  have "available e (pb_base b) L (sg_static w (pl_static L)) = Err State_IncompatibleMessagingPattern"
    using static Event assms(2) by (simp add: available_def ps_builder_def has_same_messaging_pattern_def)
  then show ?thesis using Event by (simp add: PS_open_round_def PS_is_service_available_at [OF assms(1,2)] ps_available_def)
qed

lemma PS_open_round_none:
  assumes "builder_at e (pb_base b) L" "ps_builder uuid g c b" "sg_static w (pl_static L) = None"
  shows "PS_open_round e b w w' = Ret (Inr (Err PSOpen_DoesNotExist, w'))"
  using assms(3) by (simp add: PS_open_round_def PS_is_service_available_at [OF assms(1,2)] ps_available_def available_def)

lemma PS_open_round_locked:
  assumes "builder_at e (pb_base b) L" "ps_builder uuid g c b" "sg_static w (pl_static L) = Some k" "sto_is_locked k"
  shows "PS_open_round e b w w' = Ret (Inl ())"
  using assms(3,4) by (simp add: PS_open_round_def PS_is_service_available_at [OF assms(1,2)] ps_available_def available_def)

lemma PS_open_at:
  assumes "ps_builder uuid g c b"
  shows "PS_open e type_name True b rounds w0 = PS_open_loop e (with_settings b (c\<lparr>ps_type_name := type_name\<rparr>)) rounds"
  by (simp add: PS_open_def PS_config_details_mut_at [OF assms])

text \<open>\<open>create\<close>, when the service is not there, and when there is something at its place.\<close>

abbreviation buffer_suffices :: "PubSubStaticConfig \<Rightarrow> bool" where
  "buffer_suffices c \<equiv> ps_enable_safe_overflow c \<or> ps_history_size c \<le> max 1 (ps_subscriber_max_buffer_size c)"

lemma PS_create_at:
  assumes "ps_builder uuid g c b"
  shows "PS_create e type_name b w =
    (if buffer_suffices c then PS_create_service e (with_settings b (created_settings type_name c)) w
     else Ret (Err PSCreate_SubscriberBufferMustBeLargerThanHistorySize, w))"
proof -
  obtain b1 where b1: "PS_adjust_properties_to_meaningful_values b = Ret b1"
    using PS_config_details_mut_at [OF assms] by (simp add: PS_adjust_properties_to_meaningful_values_def)
  have b2: "PS_config_details_mut (\<lambda>c. c\<lparr>ps_type_name := type_name\<rparr>) b1 = Ret (with_settings b (created_settings type_name c))"
    using PS_adjust_at [OF assms, of type_name] by (simp add: b1)
  have "\<not> ps_enable_safe_overflow (created_settings type_name c)
      \<and> ps_subscriber_max_buffer_size (created_settings type_name c) < ps_history_size (created_settings type_name c)
    \<longleftrightarrow> \<not> buffer_suffices c"
    by (auto simp: created_settings_def)
  then show ?thesis
    by (simp add: PS_create_def b1 b2 PS_config_details_at [OF ps_builder_with_settings [OF assms]])
qed

abbreviation new_dynamic :: "service_env \<Rightarrow> PubSubStaticConfig \<Rightarrow> nat \<Rightarrow> (DynamicConfig \<times> BumpAllocator) outcome" where
  "new_dynamic e c start \<equiv> DynamicConfig_init (se_align_of_id e) BumpAllocator_allocate
     (DynamicConfig_new_uninit (DynamicPublishSubscribe (PubSubDynamicConfig_new (ps_max_subscribers c) (ps_max_publishers c))))
     (BumpAllocator_new start (PubSubDynamicConfig_memory_size (se_align_of_id e) (ps_max_subscribers c) (ps_max_publishers c)))"

lemma PS_create_service_free:
  assumes "builder_at e (pb_base b) L" "ps_builder uuid g c b" "se_dynamic_lock e"
    and free: "sg_static w (pl_static L) = None" "dss_entries (sg_dynamic w) (pl_dynamic L) = None"
    and heap: "se_heap e (PubSubDynamicConfig_memory_size (se_align_of_id e) (ps_max_subscribers c) (ps_max_publishers c)) = Some start"
    and serialize: "se_serialize e (bw_service_config (pb_base b)) = Ok v"
  shows "PS_create_service e b w = outcome_bind (new_dynamic e c start) (\<lambda>(d, _).
    Ret (Ok (ServiceState_new (bw_service_config (pb_base b)) g (dynamic_at L (dss_next (sg_dynamic w))) (static_at L locked_content)),
      set_static L (Some \<lparr>sto_is_locked = False, sto_value = v\<rparr>) (store_dynamic L d w)))"
proof -
  let ?w = "set_static L (Some locked_content) w"
  have g: "bw_global_config (pb_base b) = g" "StaticConfig_publish_subscribe (bw_service_config (pb_base b)) = Ret c"
    using assms(2) by (simp_all add: ps_builder_def StaticConfig_publish_subscribe_def)
  have look: "PS_is_service_available e b w = Ret (Ok None)"
    using free(1) by (simp add: PS_is_service_available_at [OF assms(1,2)] ps_available_def available_def)
  have unlock: "on_static (Locked_unlock e v \<lparr>lk_storage = static_at L locked_content\<rparr>) (store_dynamic L d ?w)
      = Ret (Ok (static_at L locked_content), set_static L (Some \<lparr>sto_is_locked = False, sto_value = v\<rparr>) (store_dynamic L d w))" for d
    using unlock_at [OF assms(1), of "store_dynamic L d ?w" v locked_content] by (simp add: store_dynamic_def)
  have dynamic: "dss_entries (sg_dynamic ?w) (pl_dynamic L) = None" using free by simp
  show ?thesis
    unfolding PS_create_service_def look outcome_bind.simps result.case option.case
      create_static_config_storage_at [OF assms(1)] free(1) prod.case g(2)
      create_dynamic_config_storage_at [OF assms(1,3) dynamic heap]
    by (cases "new_dynamic e c start") (auto simp: serialize unlock g(1) simp del: DynamicConfig_init.simps)
qed

lemma PS_create_service_occupied:
  assumes "builder_at e (pb_base b) L" "ps_builder uuid g c b" "sg_static w (pl_static L) = Some k"
  shows "\<exists>err. PS_create_service e b w = Ret (Err err, w)
    \<and> (sto_is_locked k \<longrightarrow> err = PSCreate_IsBeingCreatedByAnotherInstance)"
proof (cases "sto_is_locked k")
  case True
  then show ?thesis
    using assms(3) by (simp add: PS_create_service_def PS_is_service_available_at [OF assms(1,2)] ps_available_def available_def)
next
  case False
  then have "available e (pb_base b) L (sg_static w (pl_static L)) \<noteq> Ok None"
    using assms(3) by (auto simp: available_def split: result.splits)
  then have "ps_available e b (ps_type_name c) L (sg_static w (pl_static L)) \<noteq> Ok None"
    by (auto simp: ps_available_def split: result.splits option.splits MessagingPattern.splits)
  then show ?thesis
    using False unfolding PS_create_service_def PS_is_service_available_at [OF assms(1,2)]
    by (auto split: result.splits option.splits ServiceAvailabilityState.splits builder_ServiceState.splits)
qed

text \<open>When the dynamic storage cannot be created, the static storage stays locked.\<close>

lemma PS_create_service_blocked:
  assumes "builder_at e (pb_base b) L" "ps_builder uuid g c b" "sg_static w (pl_static L) = None"
    and blocked: "se_dynamic_lock e \<Longrightarrow> dss_entries (sg_dynamic w) (pl_dynamic L) \<noteq> None"
  shows "PS_create_service e b w = Ret (Err PSCreate_InternalFailure, set_static L (Some locked_content) w)"
proof -
  have look: "PS_is_service_available e b w = Ret (Ok None)"
    using assms(3) by (simp add: PS_is_service_available_at [OF assms(1,2)] ps_available_def available_def)
  have c: "StaticConfig_publish_subscribe (bw_service_config (pb_base b)) = Ret c"
    using assms(2) by (simp add: ps_builder_def StaticConfig_publish_subscribe_def)
  have "se_dynamic_lock e \<Longrightarrow> dss_entries (sg_dynamic (set_static L (Some locked_content) w)) (pl_dynamic L) \<noteq> None"
    using blocked by simp
  from create_dynamic_config_storage_blocked [OF assms(1) this] obtain err where
    "create_dynamic_config_storage e (pb_base b)
      (DynamicPublishSubscribe (PubSubDynamicConfig_new (ps_max_subscribers c) (ps_max_publishers c)))
      (PubSubDynamicConfig_memory_size (se_align_of_id e) (ps_max_subscribers c) (ps_max_publishers c)) (set_static L (Some locked_content) w)
      = Ret (Err err, set_static L (Some locked_content) w)"
    by blast
  then show ?thesis
    using assms(3) c by (simp add: PS_create_service_def look create_static_config_storage_at [OF assms(1)] drop_static_at)
qed

section \<open>Creating and opening\<close>

text \<open>The registries of a dynamic configuration have the capacities that the settings announce.\<close>

fun capacities_fit :: "DynamicMessagingPattern \<Rightarrow> MessagingPattern \<Rightarrow> bool" where
  "capacities_fit (DynamicPublishSubscribe d) (PublishSubscribe c) \<longleftrightarrow>
     ct_capacity (pd_subscribers d) = ps_max_subscribers c \<and> ct_capacity (pd_publishers d) = ps_max_publishers c"
| "capacities_fit (DynamicEvent d) (Event c) \<longleftrightarrow>
     ct_capacity (ed_listeners d) = es_max_listeners c \<and> ct_capacity (ed_notifiers d) = es_max_notifiers c"
| "capacities_fit _ _ \<longleftrightarrow> False"

definition free :: "place \<Rightarrow> ServiceStorages \<Rightarrow> bool" where
  "free L w \<longleftrightarrow> sg_static w (pl_static L) = None \<and> dss_entries (sg_dynamic w) (pl_dynamic L) = None"

text \<open>The service with the configuration \<open>k\<close> is there and its dynamic configuration, at \<open>a\<close>, counts \<open>n\<close> users.\<close>

definition in_use :: "service_env \<Rightarrow> place \<Rightarrow> StaticConfig \<Rightarrow> nat \<Rightarrow> nat \<Rightarrow> ServiceStorages \<Rightarrow> bool" where
  "in_use e L k n a w \<longleftrightarrow> (\<exists>v d. sg_static w (pl_static L) = Some \<lparr>sto_is_locked = False, sto_value = v\<rparr> \<and> se_deserialize e v = Ok k
     \<and> dss_entries (sg_dynamic w) (pl_dynamic L) = Some a \<and> dss_content (sg_dynamic w) a = Some d
     \<and> unat (dc_reference_counter d) = n \<and> capacities_fit (dc_messaging_pattern d) (sc_messaging_pattern k))"

lemma Container_init_capacity:
  assumes "Container_init sz al allocate c m = Ret (r, c', m')"
  shows "ct_capacity c' = ct_capacity c"
proof (cases "UniqueIndexSet_init allocate (ct_index_set c) m")
  case (Ret x)
  obtain r1 u m1 where "x = (r1, u, m1)" by (cases x) auto
  then show ?thesis
    using assms Ret by (cases r1) (auto simp: Container_init_def Let_def split: if_splits result.splits prod.splits)
next
  case Panic
  then show ?thesis using assms by (auto simp: Container_init_def split: if_splits)
qed

lemma new_dynamic_capacities:
  assumes "new_dynamic e c start = Ret (d, m)"
  shows "dc_reference_counter d = 1 \<and> capacities_fit (dc_messaging_pattern d) (PublishSubscribe c)"
proof -
  let ?n = "PubSubDynamicConfig_new (ps_max_subscribers c) (ps_max_publishers c)"
    and ?m = "BumpAllocator_new start (PubSubDynamicConfig_memory_size (se_align_of_id e) (ps_max_subscribers c) (ps_max_publishers c))"
  obtain v where v: "PubSubDynamicConfig_init (se_align_of_id e) BumpAllocator_allocate ?n ?m = Ret (v, m)"
    "d = \<lparr>dc_messaging_pattern = DynamicPublishSubscribe v, dc_reference_counter = 1\<rparr>"
    using assms by (auto simp: DynamicConfig_new_uninit_def outcome_bind_eq_Ret)
  obtain r1 s m1 where s: "Container_init size_of_id (se_align_of_id e) BumpAllocator_allocate (pd_subscribers ?n) ?m = Ret (r1, s, m1)"
    using v(1) by (auto simp: PubSubDynamicConfig_init_def outcome_bind_eq_Ret)
  moreover obtain u where "r1 = Ok u" using v(1) s by (cases r1) (auto simp: PubSubDynamicConfig_init_def)
  ultimately obtain r2 q m2 where q: "Container_init size_of_id (se_align_of_id e) BumpAllocator_allocate (pd_publishers ?n) m1 = Ret (r2, q, m2)"
    using v(1) by (auto simp: PubSubDynamicConfig_init_def outcome_bind_eq_Ret)
  have "v = \<lparr>pd_subscribers = s, pd_publishers = q\<rparr>"
    using v(1) s q \<open>r1 = Ok u\<close> by (cases r2) (auto simp: PubSubDynamicConfig_init_def)
  then show ?thesis
    using v(2) Container_init_capacity [OF s] Container_init_capacity [OF q]
    by (simp add: PubSubDynamicConfig_new_def Container_new_uninit_def)
qed

lemma new_dynamic_succeeds:
  assumes "0 < se_align_of_id e" "0 < ps_max_subscribers c" "ps_max_subscribers c + 1 < 2 ^ 32"
    "0 < ps_max_publishers c" "ps_max_publishers c + 1 < 2 ^ 32"
  shows "\<exists>d m. new_dynamic e c start = Ret (d, m)"
  using dynamic_config_memory_suffices [OF assms(2-5,1), of start] by (auto simp: DynamicConfig_new_uninit_def)

lemma covers_type_name [simp]: "covers b (c\<lparr>ps_type_name := t\<rparr>) k = covers b c k"
  by (simp add: covers_def)

lemma covers_with_settings [simp]: "covers (with_settings b c') c k = covers b c k"
  by (simp add: covers_def)

text \<open>\<open>create\<close> at a free place makes the service, with one user.\<close>

lemma PS_create_free:
  assumes "builder_at e (pb_base b) L" "se_dynamic_lock e" "\<forall>n. se_heap e n \<noteq> None" "free L w"
    and creator: "ps_builder uuid g c b" "buffer_suffices c"
    and serialize: "se_serialize e (created_config type_name c b) = Ok v" "se_deserialize e v = Ok (created_config type_name c b)"
  shows "\<exists>start. PS_create e type_name b w = outcome_bind (new_dynamic e (created_settings type_name c) start) (\<lambda>(d, _).
      Ret (Ok (ServiceState_new (created_config type_name c b) g (dynamic_at L (dss_next (sg_dynamic w))) (static_at L locked_content)),
        set_static L (Some \<lparr>sto_is_locked = False, sto_value = v\<rparr>) (store_dynamic L d w)))
    \<and> (\<forall>d m. new_dynamic e (created_settings type_name c) start = Ret (d, m) \<longrightarrow>
        in_use e L (created_config type_name c b) 1 (dss_next (sg_dynamic w))
          (set_static L (Some \<lparr>sto_is_locked = False, sto_value = v\<rparr>) (store_dynamic L d w)))"
proof -
  let ?c = "created_settings type_name c" and ?b = "with_settings b (created_settings type_name c)"
  obtain start where heap: "se_heap e (PubSubDynamicConfig_memory_size (se_align_of_id e) (ps_max_subscribers ?c) (ps_max_publishers ?c)) = Some start"
    using assms(3) by blast
  have at: "builder_at e (pb_base ?b) L" using assms(1) by (simp add: builder_at_def)
  have f: "sg_static w (pl_static L) = None" "dss_entries (sg_dynamic w) (pl_dynamic L) = None"
    using assms(4) by (simp_all add: free_def)
  have s: "se_serialize e (bw_service_config (pb_base ?b)) = Ok v" using serialize(1) by simp
  have "PS_create e type_name b w = PS_create_service e ?b w" using creator by (simp add: PS_create_at)
  also have "\<dots> = outcome_bind (new_dynamic e ?c start) (\<lambda>(d, _).
      Ret (Ok (ServiceState_new (created_config type_name c b) g (dynamic_at L (dss_next (sg_dynamic w))) (static_at L locked_content)),
        set_static L (Some \<lparr>sto_is_locked = False, sto_value = v\<rparr>) (store_dynamic L d w)))"
    using PS_create_service_free [OF at ps_builder_with_settings [OF creator(1)] assms(2) f heap s] by simp
  finally show ?thesis
    using new_dynamic_capacities [of e ?c start] serialize(2)
    by (intro exI [of _ start]) (simp add: in_use_def store_dynamic_def del: DynamicConfig_init.simps)
qed

text \<open>A user of the service at the place \<open>L\<close> with the dynamic configuration at \<open>a\<close> and the settings of \<open>k\<close>.\<close>

definition user_of :: "place \<Rightarrow> StaticConfig \<Rightarrow> nat \<Rightarrow> ServiceState \<Rightarrow> bool" where
  "user_of L k a s \<longleftrightarrow> sv_dynamic_storage s = dynamic_at L a \<and> (\<exists>v. sv_static_storage s = static_at L v)
     \<and> sc_messaging_pattern (sv_static_config s) = sc_messaging_pattern k \<and> sc_uuid (sv_static_config s) = sc_uuid k"

lemma PS_open_in_use:
  assumes "builder_at e (pb_base b) L" "se_dynamic_lock e" "ps_builder uuid g c b" "in_use e L k n a w" "sc_uuid k = uuid" "n < 2 ^ 64 - 2"
  shows "\<exists>r w'. PS_open e type_name True b [(w, w, waited)] w0 = Some (Ret (r, w'))
    \<and> (case r of
        Ok s \<Rightarrow> (\<exists>offered. sc_messaging_pattern k = PublishSubscribe offered \<and> ps_type_name offered = type_name \<and> covers b c offered)
          \<and> in_use e L k (n + 1) a w' \<and> user_of L k a s
      | Err _ \<Rightarrow> w' = w \<and> (\<forall>offered. sc_messaging_pattern k = PublishSubscribe offered \<longrightarrow>
          \<not> (ps_type_name offered = type_name \<and> covers b c offered)))"
proof -
  let ?c = "c\<lparr>ps_type_name := type_name\<rparr>" and ?b = "with_settings b (c\<lparr>ps_type_name := type_name\<rparr>)"
  obtain v d where u: "sg_static w (pl_static L) = Some \<lparr>sto_is_locked = False, sto_value = v\<rparr>" "se_deserialize e v = Ok k"
    "dss_entries (sg_dynamic w) (pl_dynamic L) = Some a" "dss_content (sg_dynamic w) a = Some d"
    "unat (dc_reference_counter d) = n" "capacities_fit (dc_messaging_pattern d) (sc_messaging_pattern k)"
    using assms(4) unfolding in_use_def by blast
  have at: "builder_at e (pb_base ?b) L" using assms(1) by (simp add: builder_at_def)
  have marked: "dc_reference_counter d \<noteq> MARKED_FOR_DESTRUCTION"
    using u(5) assms(6) by (auto simp: MARKED_FOR_DESTRUCTION_def)
  have "unat (dc_reference_counter d + 1) = n + 1"
    using u(5) assms(6) by (simp add: unat_word_ariths)
  then have more: "in_use e L k (n + 1) a (update_dynamic a (d\<lparr>dc_reference_counter := dc_reference_counter d + 1\<rparr>) w)"
    using u by (simp add: in_use_def update_dynamic_def)
  have uuid: "sc_uuid (bw_service_config (pb_base b)) = uuid" using assms(3) by (simp add: ps_builder_def)
  have loop: "PS_open e type_name True b [(w, w, waited)] w0 = PS_open_loop e ?b [(w, w, waited)]"
    by (rule PS_open_at [OF assms(3)])
  note round = PS_open_round_at [OF at ps_builder_with_settings [OF assms(3)] assms(2) u(1,2) assms(5) u(3,4) marked]
  show ?thesis
  proof (cases "sc_messaging_pattern k")
    case (PublishSubscribe offered)
    show ?thesis
    proof (cases "ps_type_name offered = type_name \<and> covers b c offered")
      case True
      then show ?thesis
        unfolding loop using round PublishSubscribe more uuid assms(5) by (auto simp: ServiceState_new_def user_of_def)
    next
      case False
      then obtain err where "PS_open_round e ?b w w = Ret (Inr (Err err, w))"
        using round PublishSubscribe by auto
      then show ?thesis unfolding loop using False PublishSubscribe by auto
    qed
  next
    case (Event x)
    then obtain err where "PS_open_round e ?b w w = Ret (Inr (Err err, w))" using round by auto
    then show ?thesis unfolding loop using Event by auto
  qed
qed

lemma PS_create_succeeds:
  assumes env: "se_static_lock e" "se_dynamic_lock e" "0 < se_align_of_id e" "\<forall>n. se_heap e n \<noteq> None"
    and place: "located e uuid g L" "free L w"
    and creator: "ps_builder uuid g c b" "buffer_suffices c" "ps_max_subscribers c + 1 < 2 ^ 32" "ps_max_publishers c + 1 < 2 ^ 32"
    and serializer: "se_serialize e (created_config type_name c b) = Ok v" "se_deserialize e v = Ok (created_config type_name c b)"
  shows "\<exists>s w1. PS_create e type_name b w = Ret (Ok s, w1) \<and> sv_static_config s = created_config type_name c b
    \<and> user_of L (created_config type_name c b) (dss_next (sg_dynamic w)) s
    \<and> in_use e L (created_config type_name c b) 1 (dss_next (sg_dynamic w)) w1"
proof -
  let ?c = "created_settings type_name c" and ?k = "created_config type_name c b" and ?a = "dss_next (sg_dynamic w)"
  have at: "builder_at e (pb_base b) L"
    using env place creator(1) by (simp add: builder_at_def ps_builder_def)
  have "0 < ps_max_subscribers ?c" "ps_max_subscribers ?c + 1 < 2 ^ 32" "0 < ps_max_publishers ?c" "ps_max_publishers ?c + 1 < 2 ^ 32"
    using creator(3,4) by (auto simp: created_settings_def max_def)
  note init = new_dynamic_succeeds [OF env(3) this]
  obtain start where start: "PS_create e type_name b w = outcome_bind (new_dynamic e ?c start) (\<lambda>(d, _).
      Ret (Ok (ServiceState_new ?k g (dynamic_at L ?a) (static_at L locked_content)),
        set_static L (Some \<lparr>sto_is_locked = False, sto_value = v\<rparr>) (store_dynamic L d w)))"
    "\<forall>d m. new_dynamic e ?c start = Ret (d, m) \<longrightarrow> in_use e L ?k 1 ?a
        (set_static L (Some \<lparr>sto_is_locked = False, sto_value = v\<rparr>) (store_dynamic L d w))"
    using PS_create_free [OF at env(2,4) place(2) creator(1,2) serializer] by blast
  obtain d m where "new_dynamic e ?c start = Ret (d, m)" using init by blast
  then show ?thesis using start by (auto simp: ServiceState_new_def user_of_def simp del: DynamicConfig_init.simps)
qed

lemma drop_in_use:
  assumes "builder_at e b L" "se_dynamic_lock e" "user_of L k a s" "in_use e L k n a w" "0 < n"
  shows "\<exists>w'. ServiceState_drop e s w = Ret w' \<and> (if n = 1 then free L w' else in_use e L k (n - 1) a w')"
proof -
  obtain v d where u: "sg_static w (pl_static L) = Some \<lparr>sto_is_locked = False, sto_value = v\<rparr>" "se_deserialize e v = Ok k"
    "dss_entries (sg_dynamic w) (pl_dynamic L) = Some a" "dss_content (sg_dynamic w) a = Some d"
    "unat (dc_reference_counter d) = n" "capacities_fit (dc_messaging_pattern d) (sc_messaging_pattern k)"
    using assms(4) unfolding in_use_def by blast
  obtain x where s: "sv_static_storage s = static_at L x" "sv_dynamic_storage s = dynamic_at L a"
    using assms(3) unfolding user_of_def by blast
  note drop = ServiceState_drop_at [OF assms(1,2) s u(4,3)]
  show ?thesis
  proof (cases "n = 1")
    case True
    then have "dc_reference_counter d = 1" using u(5) by (metis unat_1 word_unat_eq_iff)
    then show ?thesis using drop True by (simp add: free_def)
  next
    case False
    then have "dc_reference_counter d \<noteq> 1" using u(5) by auto
    moreover have "unat (dc_reference_counter d - 1) = n - 1"
      using u(5) assms(5) by (simp add: unat_minus_one unat_eq_0 [symmetric])
    ultimately show ?thesis using drop False u by (simp add: in_use_def update_dynamic_def)
  qed
qed

text \<open>
  C20: A created service can be opened: at a free place \<open>create\<close> succeeds, and a later \<open>open\<close> for the
  same service succeeds exactly if the message types are the same and every setting the opener asked
  for is at least there. Creator and opener then have the same settings, share one dynamic
  configuration, which counts two users, and its registries have the announced capacities. An opener
  that is refused changes nothing. The serializer has to give back the configuration it was given.
\<close>
theorem service_create_open:
  assumes env: "se_static_lock e" "se_dynamic_lock e" "0 < se_align_of_id e" "\<forall>n. se_heap e n \<noteq> None"
    and place: "located e uuid g L" "free L w"
    and creator: "ps_builder uuid g c b" "buffer_suffices c" "ps_max_subscribers c + 1 < 2 ^ 32" "ps_max_publishers c + 1 < 2 ^ 32"
    and serializer: "se_serialize e (created_config type_name c b) = Ok v" "se_deserialize e v = Ok (created_config type_name c b)"
    and opener: "ps_builder uuid g c' b'"
  shows "\<exists>s w1 r w2. PS_create e type_name b w = Ret (Ok s, w1)
    \<and> sc_messaging_pattern (sv_static_config s) = PublishSubscribe (created_settings type_name c)
    \<and> PS_open e type_name' True b' [(w1, w1, waited)] w1 = Some (Ret (r, w2))
    \<and> (case r of
        Ok s' \<Rightarrow> type_name' = type_name \<and> covers b' c' (created_settings type_name c)
          \<and> sc_messaging_pattern (sv_static_config s') = sc_messaging_pattern (sv_static_config s)
          \<and> dy_data (sv_dynamic_storage s') = dy_data (sv_dynamic_storage s)
          \<and> in_use e L (sv_static_config s) 2 (dy_data (sv_dynamic_storage s)) w2
      | Err _ \<Rightarrow> \<not> (type_name' = type_name \<and> covers b' c' (created_settings type_name c)) \<and> w2 = w1)"
proof -
  let ?k = "created_config type_name c b" and ?a = "dss_next (sg_dynamic w)"
  obtain s w1 where create: "PS_create e type_name b w = Ret (Ok s, w1)" and s: "sv_static_config s = ?k" "user_of L ?k ?a s"
    and use1: "in_use e L ?k 1 ?a w1"
    using PS_create_succeeds [OF env place creator serializer] by blast
  have at: "builder_at e (pb_base b') L" using env place opener by (simp add: builder_at_def ps_builder_def)
  have "sc_uuid ?k = uuid" using creator(1) by (simp add: ps_builder_def)
  from PS_open_in_use [OF at env(2) opener use1 this, of type_name' waited w1] obtain r w2 where
    open_: "PS_open e type_name' True b' [(w1, w1, waited)] w1 = Some (Ret (r, w2))" and
    r: "case r of
        Ok s \<Rightarrow> (\<exists>offered. sc_messaging_pattern ?k = PublishSubscribe offered \<and> ps_type_name offered = type_name' \<and> covers b' c' offered)
          \<and> in_use e L ?k (1 + 1) ?a w2 \<and> user_of L ?k ?a s
      | Err _ \<Rightarrow> w2 = w1 \<and> (\<forall>offered. sc_messaging_pattern ?k = PublishSubscribe offered \<longrightarrow>
          \<not> (ps_type_name offered = type_name' \<and> covers b' c' offered))"
    by auto
  have t: "ps_type_name (created_settings type_name c) = type_name" by (simp add: created_settings_def)
  show ?thesis
    by (rule exI [of _ s], rule exI [of _ w1], rule exI [of _ r], rule exI [of _ w2])
      (use create s open_ r t in \<open>cases r; auto simp: user_of_def dynamic_at_def numeral_2_eq_2\<close>)
qed

section \<open>Services that are left behind\<close>

text \<open>
  C21: A creation that fails half way blocks the service for good: when the static storage is created and
  the dynamic one cannot be, because its lock cannot be acquired or a storage of an earlier service is
  left at its place, then the static storage stays locked without an owner. From then on every attempt
  to create the service fails since another instance seems to create it, and every attempt to open it
  waits until the timeout and fails.
\<close>
theorem service_failed_create_blocks:
  assumes "se_static_lock e" "located e uuid g L" "sg_static w (pl_static L) = None"
    and blocked: "se_dynamic_lock e \<longrightarrow> dss_entries (sg_dynamic w) (pl_dynamic L) \<noteq> None"
    and creator: "ps_builder uuid g c b" "buffer_suffices c"
    and later: "ps_builder uuid g c' b'" "buffer_suffices c'"
  shows "\<exists>w1. PS_create e type_name b w = Ret (Err PSCreate_InternalFailure, w1)
    \<and> PS_create e type_name' b' w1 = Ret (Err PSCreate_IsBeingCreatedByAnotherInstance, w1)
    \<and> PS_open e type_name' True b' (map (\<lambda>t. (w1, w1, Ok t)) ticks) w1 =
        (if \<exists>t\<in>set ticks. gs_creation_timeout (g_service (c_global g)) < t then Some (Ret (Err PSOpen_HangsInCreation, w1)) else None)"
proof -
  let ?w = "set_static L (Some locked_content) w"
  let ?b = "with_settings b (created_settings type_name c)" and ?b' = "with_settings b' (created_settings type_name' c')"
    and ?o = "with_settings b' (c'\<lparr>ps_type_name := type_name'\<rparr>)"
  have at: "builder_at e (pb_base ?b) L" "builder_at e (pb_base ?b') L" "builder_at e (pb_base ?o) L"
    using assms(1,2) creator(1) later(1) by (simp_all add: builder_at_def ps_builder_def)
  have "PS_create_service e ?b w = Ret (Err PSCreate_InternalFailure, ?w)"
    using PS_create_service_blocked [OF at(1) ps_builder_with_settings [OF creator(1)] assms(3)] blocked by blast
  then have "PS_create e type_name b w = Ret (Err PSCreate_InternalFailure, ?w)"
    using PS_create_at [OF creator(1)] creator(2) by simp
  moreover have "PS_create e type_name' b' ?w = Ret (Err PSCreate_IsBeingCreatedByAnotherInstance, ?w)"
    using PS_create_service_occupied [OF at(2) ps_builder_with_settings [OF later(1)], of ?w locked_content]
      PS_create_at [OF later(1)] later(2) by auto
  moreover have "PS_open_round e ?o ?w ?w = Ret (Inl ())"
    by (rule PS_open_round_locked [OF at(3) ps_builder_with_settings [OF later(1)], where k = locked_content]) simp_all
  then have "PS_open_loop e ?o (map (\<lambda>t. (?w, ?w, Ok t)) ticks) =
      (if \<exists>t\<in>set ticks. gs_creation_timeout (g_service (c_global g)) < t then Some (Ret (Err PSOpen_HangsInCreation, ?w)) else None)"
    using later(1) by (induction ticks) (auto simp: ps_builder_def)
  ultimately show ?thesis using PS_open_at [OF later(1)] by auto
qed

text \<open>
  C22: \<open>open\<close> may mix up two services of the same name: when the last user closes the service and
  another one creates it anew, with other settings or even another message type, between the look of
  \<open>open\<close> at the static and its access to the dynamic storage, then the opener gets the settings of the
  removed service together with the dynamic configuration of the new one, whose users it joins.
\<close>
theorem service_open_race:
  assumes env: "se_static_lock e" "se_dynamic_lock e" "0 < se_align_of_id e" "\<forall>n. se_heap e n \<noteq> None"
    and place: "located e uuid g L" "free L w"
    and old: "ps_builder uuid g c1 b1" "buffer_suffices c1" "ps_max_subscribers c1 + 1 < 2 ^ 32" "ps_max_publishers c1 + 1 < 2 ^ 32"
      "se_serialize e (created_config t1 c1 b1) = Ok v1" "se_deserialize e v1 = Ok (created_config t1 c1 b1)"
    and new: "ps_builder uuid g c2 b2" "buffer_suffices c2" "ps_max_subscribers c2 + 1 < 2 ^ 32" "ps_max_publishers c2 + 1 < 2 ^ 32"
      "se_serialize e (created_config t2 c2 b2) = Ok v2" "se_deserialize e v2 = Ok (created_config t2 c2 b2)"
    and opener: "ps_builder uuid g c b" "covers b c (created_settings t1 c1)"
  shows "\<exists>s1 w1 w2 s2 w3 s w4. PS_create e t1 b1 w = Ret (Ok s1, w1) \<and> ServiceState_drop e s1 w1 = Ret w2
    \<and> PS_create e t2 b2 w2 = Ret (Ok s2, w3) \<and> PS_open e t1 True b [(w1, w3, waited)] w1 = Some (Ret (Ok s, w4))
    \<and> sc_messaging_pattern (sv_static_config s) = PublishSubscribe (created_settings t1 c1)
    \<and> sc_messaging_pattern (sv_static_config s2) = PublishSubscribe (created_settings t2 c2)
    \<and> dy_data (sv_dynamic_storage s) = dy_data (sv_dynamic_storage s2)
    \<and> in_use e L (sv_static_config s2) 2 (dy_data (sv_dynamic_storage s2)) w4"
proof -
  let ?k1 = "created_config t1 c1 b1" and ?k2 = "created_config t2 c2 b2"
  let ?c = "c\<lparr>ps_type_name := t1\<rparr>" and ?b = "with_settings b (c\<lparr>ps_type_name := t1\<rparr>)"
  have at: "builder_at e (pb_base b1) L" "builder_at e (pb_base ?b) L"
    using env place old(1) opener(1) by (simp_all add: builder_at_def ps_builder_def)
  obtain s1 w1 a1 where s1: "PS_create e t1 b1 w = Ret (Ok s1, w1)" "user_of L ?k1 a1 s1" "in_use e L ?k1 1 a1 w1"
    using PS_create_succeeds [OF env place old] by blast
  obtain w2 where w2: "ServiceState_drop e s1 w1 = Ret w2" "free L w2"
    using drop_in_use [OF at(1) env(2) s1(2,3)] by auto
  obtain s2 w3 a2 where s2: "PS_create e t2 b2 w2 = Ret (Ok s2, w3)" "sv_static_config s2 = ?k2" "user_of L ?k2 a2 s2" "in_use e L ?k2 1 a2 w3"
    using PS_create_succeeds [OF env place(1) w2(2) new] by blast
  obtain v where v: "sg_static w1 (pl_static L) = Some \<lparr>sto_is_locked = False, sto_value = v\<rparr>" "se_deserialize e v = Ok ?k1"
    using s1(3) unfolding in_use_def by blast
  obtain d where d: "dss_entries (sg_dynamic w3) (pl_dynamic L) = Some a2" "dss_content (sg_dynamic w3) a2 = Some d"
    "unat (dc_reference_counter d) = 1"
    using s2(4) unfolding in_use_def by blast
  have counter: "dc_reference_counter d = 1" using d(3) by (metis unat_1 word_unat_eq_iff)
  then have marked: "dc_reference_counter d \<noteq> MARKED_FOR_DESTRUCTION" by (simp add: MARKED_FOR_DESTRUCTION_def)
  have uuid: "sc_uuid ?k1 = uuid" using old(1) by (simp add: ps_builder_def)
  let ?w4 = "update_dynamic a2 (d\<lparr>dc_reference_counter := dc_reference_counter d + 1\<rparr>) w3"
  have "in_use e L ?k2 2 a2 ?w4"
    using s2(4) d counter by (auto simp: in_use_def update_dynamic_def)
  moreover have "\<exists>s. PS_open_round e ?b w1 w3 = Ret (Inr (Ok s, ?w4))
      \<and> sc_messaging_pattern (sv_static_config s) = PublishSubscribe (created_settings t1 c1) \<and> sv_dynamic_storage s = dynamic_at L a2"
    using PS_open_round_at [OF at(2) ps_builder_with_settings [OF opener(1)] env(2) v uuid d(1,2) marked] opener(2)
    by (auto simp: ServiceState_new_def created_settings_def)
  moreover have "dy_data (sv_dynamic_storage s2) = a2" using s2(3) by (simp add: user_of_def dynamic_at_def)
  ultimately show ?thesis
    using s1(1) w2(1) s2(1,2) PS_open_at [OF opener(1)] by (fastforce simp: dynamic_at_def)
qed

section \<open>Witnesses\<close>

text \<open>
  A concrete serializer: numbers in unary, closed by a 0, strings with their length in front, records
  field by field. Each decoder returns the value and the rest of the input.
\<close>

definition encode_nat :: "nat \<Rightarrow> char list" where
  "encode_nat n = replicate n (CHR ''1'') @ ''0''"

fun decode_nat :: "char list \<Rightarrow> (nat \<times> char list) option" where
  "decode_nat [] = None"
| "decode_nat (c # cs) = (if c = CHR ''0'' then Some (0, cs) else map_option (\<lambda>(n, rest). (Suc n, rest)) (decode_nat cs))"

definition encode_string :: "char list \<Rightarrow> char list" where
  "encode_string s = encode_nat (length s) @ s"

definition decode_string :: "char list \<Rightarrow> (char list \<times> char list) option" where
  "decode_string cs = Option.bind (decode_nat cs) (\<lambda>(n, rest). Some (take n rest, drop n rest))"

lemma decode_encode_nat: "decode_nat (encode_nat n @ rest) = Some (n, rest)"
  by (induction n) (simp_all add: encode_nat_def)

lemma decode_encode_string: "decode_string (encode_string s @ rest) = Some (s, rest)"
  by (simp add: decode_string_def encode_string_def decode_encode_nat)

fun encode_pattern :: "MessagingPattern \<Rightarrow> char list" where
  "encode_pattern (PublishSubscribe c) = encode_nat 0 @ encode_nat (ps_max_subscribers c) @ encode_nat (ps_max_publishers c)
     @ encode_nat (ps_history_size c) @ encode_nat (ps_subscriber_max_buffer_size c)
     @ encode_nat (ps_subscriber_max_borrowed_samples c) @ encode_nat (if ps_enable_safe_overflow c then 1 else 0)
     @ encode_string (ps_type_name c)"
| "encode_pattern (Event c) = encode_nat 1 @ encode_nat (es_max_notifiers c) @ encode_nat (es_max_listeners c)"

definition decode_pattern :: "char list \<Rightarrow> MessagingPattern option" where
  "decode_pattern cs = Option.bind (decode_nat cs) (\<lambda>(tag, cs). Option.bind (decode_nat cs) (\<lambda>(x, cs). Option.bind (decode_nat cs) (\<lambda>(y, cs).
     if tag = 1 then Some (Event \<lparr>es_max_notifiers = x, es_max_listeners = y\<rparr>)
     else Option.bind (decode_nat cs) (\<lambda>(h, cs). Option.bind (decode_nat cs) (\<lambda>(b, cs). Option.bind (decode_nat cs) (\<lambda>(m, cs).
       Option.bind (decode_nat cs) (\<lambda>(f, cs). Option.bind (decode_string cs) (\<lambda>(t, _).
         Some (PublishSubscribe \<lparr>ps_max_subscribers = x, ps_max_publishers = y, ps_history_size = h, ps_subscriber_max_buffer_size = b,
           ps_subscriber_max_borrowed_samples = m, ps_enable_safe_overflow = (f = 1), ps_type_name = t\<rparr>)))))))))"

definition encode_config :: "StaticConfig \<Rightarrow> (char list, unit) result" where
  "encode_config k = Ok (encode_string (sc_uuid k) @ encode_string (sc_service_name k) @ encode_pattern (sc_messaging_pattern k))"

definition decode_config :: "char list \<Rightarrow> (StaticConfig, unit) result" where
  "decode_config cs =
     (case Option.bind (decode_string cs) (\<lambda>(uuid, cs). Option.bind (decode_string cs) (\<lambda>(name, cs).
        Option.bind (decode_pattern cs) (\<lambda>p. Some \<lparr>sc_uuid = uuid, sc_service_name = name, sc_messaging_pattern = p\<rparr>))) of
        Some k \<Rightarrow> Ok k | None \<Rightarrow> Err ())"

lemma decode_encode_pattern: "decode_pattern (encode_pattern p) = Some p"
proof (cases p)
  case (PublishSubscribe c)
  have "decode_string (encode_string (ps_type_name c)) = Some (ps_type_name c, [])"
    using decode_encode_string [of "ps_type_name c" "[]"] by simp
  then show ?thesis using PublishSubscribe by (simp add: decode_pattern_def decode_encode_nat)
next
  case (Event c)
  have "decode_nat (encode_nat (es_max_listeners c)) = Some (es_max_listeners c, [])"
    using decode_encode_nat [of "es_max_listeners c" "[]"] by simp
  then show ?thesis using Event by (simp add: decode_pattern_def decode_encode_nat)
qed

lemma decode_encode_config: "\<exists>v. encode_config k = Ok v \<and> decode_config v = Ok k"
  by (simp add: encode_config_def decode_config_def decode_encode_string decode_encode_pattern)

text \<open>An environment in which the lock of the dynamic storages can or cannot be acquired, and a builder.\<close>

definition example_service_env :: "bool \<Rightarrow> service_env" where
  "example_service_env dynamic_lock = \<lparr>se_junk_file = replicate FILENAME_LENGTH NUL, se_junk_path = replicate PATH_LENGTH NUL,
     se_static_lock = True, se_dynamic_lock = dynamic_lock, se_align_of_id = 16, se_heap = (\<lambda>_. Some 4096),
     se_serialize = encode_config, se_deserialize = decode_config\<rparr>"

definition example_builder :: PSBuilder where
  "example_builder = publish_subscribe_with_custom_config (\<lambda>_. ''abc'') ''some/name'' Config_default"

definition no_services :: ServiceStorages where
  "no_services = \<lparr>sg_static = (\<lambda>_. None), sg_dynamic = \<lparr>dss_entries = (\<lambda>_. None), dss_content = (\<lambda>_. None), dss_next = 0\<rparr>\<rparr>"

lemma example_service_config:
  assumes "hint = ''/tmp/iceoryx2/'' \<or> hint = ''/tmp/iceoryx2/services''"
  shows "\<exists>cfg. generate_default_config (replicate FILENAME_LENGTH NUL) (replicate PATH_LENGTH NUL) ''iox2_'' ''.dynamic'' hint = Ret cfg
    \<and> path.valid_string (nc_path_hint cfg) \<and> CAPACITY (nc_path_hint cfg) = PATH_LENGTH
    \<and> file_name.valid_string (nc_prefix cfg) \<and> file_name.valid_string (nc_suffix cfg)
    \<and> bs_len (nc_path_hint cfg) \<le> 22 \<and> bs_len (nc_prefix cfg) = 5 \<and> bs_len (nc_suffix cfg) = 8"
  using generate_default_config_ok [of "replicate FILENAME_LENGTH NUL" "replicate PATH_LENGTH NUL" "''iox2_''" "''.dynamic''" hint] assms
  by (auto simp: FILENAME_LENGTH_def PATH_LENGTH_def FileName_invalid_content_def Path_invalid_content_def)

lemma example_located: "\<exists>L. located (example_service_env dynamic_lock) ''abc'' Config_default L"
proof -
  obtain f where f: "FileName_new (replicate FILENAME_LENGTH NUL) ''abc'' = Ret (Ok f)" "file_name.valid_string f" "as_bytes f = ''abc''"
    using FileName_new_ok [of "replicate FILENAME_LENGTH NUL" "''abc''"] by (auto simp: FILENAME_LENGTH_def FileName_invalid_content_def)
  have len: "bs_len f = 3" using f(2,3) length_as_bytes [of f] by (simp add: file_name.valid_string_def)
  have place: "\<exists>cfg fp. generate_default_config (replicate FILENAME_LENGTH NUL) (replicate PATH_LENGTH NUL) ''iox2_'' ''.dynamic'' hint = Ret cfg
      \<and> path_for (replicate PATH_LENGTH NUL) cfg f = Ret fp"
    if hint: "hint = ''/tmp/iceoryx2/'' \<or> hint = ''/tmp/iceoryx2/services''" for hint
  proof -
    obtain cfg where cfg: "generate_default_config (replicate FILENAME_LENGTH NUL) (replicate PATH_LENGTH NUL) ''iox2_'' ''.dynamic'' hint = Ret cfg"
      "path.valid_string (nc_path_hint cfg)" "CAPACITY (nc_path_hint cfg) = PATH_LENGTH"
      "file_name.valid_string (nc_prefix cfg)" "file_name.valid_string (nc_suffix cfg)"
      "bs_len (nc_path_hint cfg) \<le> 22" "bs_len (nc_prefix cfg) = 5" "bs_len (nc_suffix cfg) = 8"
      using example_service_config [OF hint] by blast
    have "bs_len (nc_path_hint cfg) + 1 + bs_len (nc_prefix cfg) + bs_len f + bs_len (nc_suffix cfg) \<le> PATH_LENGTH"
      using cfg(6-8) len by (simp add: PATH_LENGTH_def)
    from path_for_ok [OF cfg(2,3,4) f(2) cfg(5) this, of "replicate PATH_LENGTH NUL"] show ?thesis using cfg(1) by auto
  qed
  obtain c1 p1 where 1: "generate_default_config (replicate FILENAME_LENGTH NUL) (replicate PATH_LENGTH NUL) ''iox2_'' ''.dynamic'' ''/tmp/iceoryx2/services'' = Ret c1"
    "path_for (replicate PATH_LENGTH NUL) c1 f = Ret p1"
    using place [of "''/tmp/iceoryx2/services''"] by blast
  obtain c2 p2 where 2: "generate_default_config (replicate FILENAME_LENGTH NUL) (replicate PATH_LENGTH NUL) ''iox2_'' ''.dynamic'' ''/tmp/iceoryx2/'' = Ret c2"
    "path_for (replicate PATH_LENGTH NUL) c2 f = Ret p2"
    using place [of "''/tmp/iceoryx2/''"] by blast
  have "located (example_service_env dynamic_lock) ''abc'' Config_default
      \<lparr>pl_name = f, pl_static_config = c1, pl_dynamic_config = c2, pl_static = as_bytes p1, pl_dynamic = as_bytes p2\<rparr>"
    using f(1) 1 2 by (simp add: located_def located_at_def example_service_env_def static_config_storage_config_def
        dynamic_config_storage_config_def Config_default_def)
  then show ?thesis by blast
qed

lemma example_ps_builder:
  "ps_builder ''abc'' Config_default (PubSubStaticConfig_new Config_default) example_builder"
  "covers example_builder c k"
  using ps_builder_new [of "\<lambda>_. ''abc''" "''some/name''" Config_default]
  by (simp_all add: example_builder_def covers_def publish_subscribe_with_custom_config_def PSBuilder_new_def)

lemma example_settings:
  "buffer_suffices (PubSubStaticConfig_new Config_default)"
  "ps_max_subscribers (PubSubStaticConfig_new Config_default) + 1 < 2 ^ 32" "ps_max_publishers (PubSubStaticConfig_new Config_default) + 1 < 2 ^ 32"
  by (simp_all add: PubSubStaticConfig_new_def Config_default_def)

lemma example_service_facts:
  "se_static_lock (example_service_env l)" "se_dynamic_lock (example_service_env l) = l" "0 < se_align_of_id (example_service_env l)"
  "\<forall>n. se_heap (example_service_env l) n \<noteq> None" "free L no_services" "sg_static no_services p = None"
  "\<exists>v. se_serialize (example_service_env l) k = Ok v \<and> se_deserialize (example_service_env l) v = Ok k"
  using decode_encode_config by (simp_all add: example_service_env_def no_services_def free_def)

theorem service_create_open_witness:
  "\<exists>s w1 s' w2. PS_create (example_service_env True) ''u64'' example_builder no_services = Ret (Ok s, w1)
    \<and> PS_open (example_service_env True) ''u64'' True example_builder [(w1, w1, Ok 0)] w1 = Some (Ret (Ok s', w2))
    \<and> dy_data (sv_dynamic_storage s') = dy_data (sv_dynamic_storage s)"
proof -
  let ?e = "example_service_env True" and ?c = "PubSubStaticConfig_new Config_default"
  obtain L where L: "located ?e ''abc'' Config_default L" using example_located by blast
  obtain v where v: "se_serialize ?e (created_config ''u64'' ?c example_builder) = Ok v"
    "se_deserialize ?e v = Ok (created_config ''u64'' ?c example_builder)"
    using example_service_facts(7) by blast
  have lock: "se_dynamic_lock ?e" by (simp add: example_service_facts)
  obtain s w1 r w2 where create: "PS_create ?e ''u64'' example_builder no_services = Ret (Ok s, w1)"
    and open_: "PS_open ?e ''u64'' True example_builder [(w1, w1, Ok 0)] w1 = Some (Ret (r, w2))"
    and r: "case r of
        Ok s' \<Rightarrow> ''u64'' = ''u64'' \<and> covers example_builder ?c (created_settings ''u64'' ?c)
          \<and> sc_messaging_pattern (sv_static_config s') = sc_messaging_pattern (sv_static_config s)
          \<and> dy_data (sv_dynamic_storage s') = dy_data (sv_dynamic_storage s)
          \<and> in_use ?e L (sv_static_config s) 2 (dy_data (sv_dynamic_storage s)) w2
      | Err _ \<Rightarrow> \<not> (''u64'' = ''u64'' \<and> covers example_builder ?c (created_settings ''u64'' ?c)) \<and> w2 = w1"
    using service_create_open [OF example_service_facts(1) lock example_service_facts(3,4) L example_service_facts(5) example_ps_builder(1)
        example_settings v example_ps_builder(1), of "''u64''" "Ok 0"]
    by blast
  show ?thesis using create open_ r example_ps_builder(2) by (cases r) auto
qed

theorem service_failed_create_blocks_witness:
  "\<exists>w1. PS_create (example_service_env False) ''u64'' example_builder no_services = Ret (Err PSCreate_InternalFailure, w1)
    \<and> PS_create (example_service_env False) ''u64'' example_builder w1 = Ret (Err PSCreate_IsBeingCreatedByAnotherInstance, w1)
    \<and> PS_open (example_service_env False) ''u64'' True example_builder [(w1, w1, Ok 600000000)] w1
        = Some (Ret (Err PSOpen_HangsInCreation, w1))"
proof -
  let ?e = "example_service_env False" and ?c = "PubSubStaticConfig_new Config_default"
  obtain L where L: "located ?e ''abc'' Config_default L" using example_located by blast
  have blocked: "se_dynamic_lock ?e \<longrightarrow> dss_entries (sg_dynamic no_services) (pl_dynamic L) \<noteq> None" by (simp add: example_service_facts)
  have "gs_creation_timeout (g_service (c_global Config_default)) < 600000000" by (simp add: Config_default_def)
  then show ?thesis
    using service_failed_create_blocks [OF example_service_facts(1) L example_service_facts(6) blocked example_ps_builder(1) example_settings(1)
        example_ps_builder(1) example_settings(1), of "''u64''" "''u64''" "[600000000]"]
    by auto
qed

theorem service_open_race_witness:
  "\<exists>s1 w1 w2 s2 w3 s w4. PS_create (example_service_env True) ''u64'' example_builder no_services = Ret (Ok s1, w1)
    \<and> ServiceState_drop (example_service_env True) s1 w1 = Ret w2
    \<and> PS_create (example_service_env True) ''String'' example_builder w2 = Ret (Ok s2, w3)
    \<and> PS_open (example_service_env True) ''u64'' True example_builder [(w1, w3, Ok 0)] w1 = Some (Ret (Ok s, w4))
    \<and> sc_messaging_pattern (sv_static_config s) \<noteq> sc_messaging_pattern (sv_static_config s2)
    \<and> dy_data (sv_dynamic_storage s) = dy_data (sv_dynamic_storage s2)"
proof -
  let ?e = "example_service_env True" and ?c = "PubSubStaticConfig_new Config_default"
  obtain L where L: "located ?e ''abc'' Config_default L" using example_located by blast
  obtain v1 v2 where v: "se_serialize ?e (created_config ''u64'' ?c example_builder) = Ok v1"
    "se_deserialize ?e v1 = Ok (created_config ''u64'' ?c example_builder)"
    "se_serialize ?e (created_config ''String'' ?c example_builder) = Ok v2"
    "se_deserialize ?e v2 = Ok (created_config ''String'' ?c example_builder)"
    using example_service_facts(7) by meson
  have lock: "se_dynamic_lock ?e" by (simp add: example_service_facts)
  have "created_settings ''u64'' ?c \<noteq> created_settings ''String'' ?c"
    by (auto simp: created_settings_def dest: arg_cong [of _ _ ps_type_name])
  moreover obtain s1 w1 w2 s2 w3 s w4 where run: "PS_create ?e ''u64'' example_builder no_services = Ret (Ok s1, w1)"
    "ServiceState_drop ?e s1 w1 = Ret w2" "PS_create ?e ''String'' example_builder w2 = Ret (Ok s2, w3)"
    "PS_open ?e ''u64'' True example_builder [(w1, w3, Ok 0)] w1 = Some (Ret (Ok s, w4))"
    "sc_messaging_pattern (sv_static_config s) = PublishSubscribe (created_settings ''u64'' ?c)"
    "sc_messaging_pattern (sv_static_config s2) = PublishSubscribe (created_settings ''String'' ?c)"
    "dy_data (sv_dynamic_storage s) = dy_data (sv_dynamic_storage s2)"
    using service_open_race [OF example_service_facts(1) lock example_service_facts(3,4) L example_service_facts(5)
        example_ps_builder(1) example_settings v(1,2) example_ps_builder(1) example_settings v(3,4)
        example_ps_builder(1) example_ps_builder(2), of "Ok 0"]
    by blast
  ultimately have "sc_messaging_pattern (sv_static_config s) \<noteq> sc_messaging_pattern (sv_static_config s2)" by simp
  then show ?thesis using run(1-4,7) by blast
qed

end
