(* ===== verification/ServiceUsers.thy ===== *)
theory ServiceUsers
  imports ServiceLifecycle
begin

text \<open>
  A service and all its users: any number of publish-subscribe and event builders create, open and
  close one service, and ports register in its dynamic configuration, in any order of calls. The
  invariant ties the number of users to the reference counter and to the existence of the storages.
\<close>

section \<open>Event builders\<close>

definition event_builder :: "char list \<Rightarrow> Config \<Rightarrow> EventStaticConfig \<Rightarrow> EventBuilder \<Rightarrow> bool" where
  "event_builder uuid g c b \<longleftrightarrow> sc_uuid (bw_service_config (eb_base b)) = uuid \<and> bw_global_config (eb_base b) = g
     \<and> sc_messaging_pattern (bw_service_config (eb_base b)) = Event c"

abbreviation with_event_settings :: "EventBuilder \<Rightarrow> EventStaticConfig \<Rightarrow> EventBuilder" where
  "with_event_settings b c \<equiv> b\<lparr>eb_base := (eb_base b)\<lparr>bw_service_config :=
     (bw_service_config (eb_base b))\<lparr>sc_messaging_pattern := Event c\<rparr>\<rparr>\<rparr>"

definition created_event_settings :: "EventStaticConfig \<Rightarrow> EventStaticConfig" where
  "created_event_settings c = c\<lparr>es_max_notifiers := max 1 (es_max_notifiers c), es_max_listeners := max 1 (es_max_listeners c)\<rparr>"

abbreviation created_event_config :: "EventStaticConfig \<Rightarrow> EventBuilder \<Rightarrow> StaticConfig" where
  "created_event_config c b \<equiv> (bw_service_config (eb_base b))\<lparr>sc_messaging_pattern := Event (created_event_settings c)\<rparr>"

lemma event_builder_new: "event_builder (hash name) g (EventStaticConfig_new g) (event_with_custom_config hash name g)"
  by (simp add: event_builder_def event_with_custom_config_def EventBuilder_new_def BuilderWithServiceType_new_def
      StaticConfig_new_event_def)

lemma event_builder_with_settings: "event_builder uuid g c b \<Longrightarrow> event_builder uuid g c' (with_event_settings b c')"
  by (simp add: event_builder_def)

lemma Event_adjust_at:
  assumes "event_builder uuid g c b"
  shows "Event_adjust_properties_to_meaningful_values b = Ret (with_event_settings b (created_event_settings c))"
  using assms
  by (cases c) (auto simp: event_builder_def Event_adjust_properties_to_meaningful_values_def Event_config_details_def
      StaticConfig_event_mut_def created_event_settings_def Let_def max_def)

abbreviation new_event_dynamic :: "service_env \<Rightarrow> EventStaticConfig \<Rightarrow> nat \<Rightarrow> (DynamicConfig \<times> BumpAllocator) outcome" where
  "new_event_dynamic e c start \<equiv> DynamicConfig_init (se_align_of_id e) BumpAllocator_allocate
     (DynamicConfig_new_uninit (DynamicEvent (EventDynamicConfig_new (es_max_listeners c) (es_max_notifiers c))))
     (BumpAllocator_new start (EventDynamicConfig_memory_size (se_align_of_id e) (es_max_listeners c) (es_max_notifiers c)))"

lemma new_event_dynamic_capacities:
  assumes "new_event_dynamic e c start = Ret (d, m)"
  shows "dc_reference_counter d = 1 \<and> capacities_fit (dc_messaging_pattern d) (Event c)"
proof -
  let ?n = "EventDynamicConfig_new (es_max_listeners c) (es_max_notifiers c)"
    and ?m = "BumpAllocator_new start (EventDynamicConfig_memory_size (se_align_of_id e) (es_max_listeners c) (es_max_notifiers c))"
  obtain v where v: "EventDynamicConfig_init (se_align_of_id e) BumpAllocator_allocate ?n ?m = Ret (v, m)"
    "d = \<lparr>dc_messaging_pattern = DynamicEvent v, dc_reference_counter = 1\<rparr>"
    using assms by (auto simp: DynamicConfig_new_uninit_def outcome_bind_eq_Ret)
  obtain r1 s m1 where s: "Container_init size_of_id (se_align_of_id e) BumpAllocator_allocate (ed_listeners ?n) ?m = Ret (r1, s, m1)"
    using v(1) by (auto simp: EventDynamicConfig_init_def outcome_bind_eq_Ret)
  moreover obtain u where "r1 = Ok u" using v(1) s by (cases r1) (auto simp: EventDynamicConfig_init_def)
  ultimately obtain r2 q m2 where q: "Container_init size_of_id (se_align_of_id e) BumpAllocator_allocate (ed_notifiers ?n) m1 = Ret (r2, q, m2)"
    using v(1) by (auto simp: EventDynamicConfig_init_def outcome_bind_eq_Ret)
  have "v = \<lparr>ed_listeners = s, ed_notifiers = q\<rparr>"
    using v(1) s q \<open>r1 = Ok u\<close> by (cases r2) (auto simp: EventDynamicConfig_init_def)
  then show ?thesis
    using v(2) Container_init_capacity [OF s] Container_init_capacity [OF q]
    by (simp add: EventDynamicConfig_new_def Container_new_uninit_def)
qed

lemma Event_create_free:
  assumes "builder_at e (eb_base b) L" "event_builder uuid g c b" "se_dynamic_lock e" "\<forall>n. se_heap e n \<noteq> None" "free L w"
    and serialize: "se_serialize e (created_event_config c b) = Ok v"
  shows "\<exists>start. Event_create e b w = outcome_bind (new_event_dynamic e (created_event_settings c) start) (\<lambda>(d, _).
    Ret (Ok (ServiceState_new (created_event_config c b) g (dynamic_at L (dss_next (sg_dynamic w))) (static_at L locked_content)),
      set_static L (Some \<lparr>sto_is_locked = False, sto_value = v\<rparr>) (store_dynamic L d w)))"
proof -
  let ?c = "created_event_settings c" and ?w = "set_static L (Some locked_content) w"
  let ?b = "with_event_settings b ?c"
  obtain start where heap: "se_heap e (EventDynamicConfig_memory_size (se_align_of_id e) (es_max_listeners ?c) (es_max_notifiers ?c)) = Some start"
    using assms(4) by blast
  have at: "builder_at e (eb_base ?b) L" using assms(1) by (simp add: builder_at_def)
  have free: "sg_static w (pl_static L) = None" "dss_entries (sg_dynamic w) (pl_dynamic L) = None"
    using assms(5) by (simp_all add: free_def)
  have g: "bw_global_config (eb_base b) = g" "StaticConfig_event (bw_service_config (eb_base ?b)) = Ret ?c"
    using assms(2) by (simp_all add: event_builder_def StaticConfig_event_def)
  have unlock: "on_static (Locked_unlock e v \<lparr>lk_storage = static_at L locked_content\<rparr>) (store_dynamic L d ?w)
      = Ret (Ok (static_at L locked_content), set_static L (Some \<lparr>sto_is_locked = False, sto_value = v\<rparr>) (store_dynamic L d w))" for d
    using unlock_at [OF at, of "store_dynamic L d ?w" v locked_content] by (simp add: store_dynamic_def)
  have look: "is_service_available e (eb_base ?b) w = Ret (Ok None)"
    using is_service_available_at [OF at, of w] free(1) by (simp add: available_def)
  have dynamic: "dss_entries (sg_dynamic ?w) (pl_dynamic L) = None" using free by simp
  have "Event_create e b w = outcome_bind (new_event_dynamic e ?c start) (\<lambda>(d, _).
    Ret (Ok (ServiceState_new (created_event_config c b) g (dynamic_at L (dss_next (sg_dynamic w))) (static_at L locked_content)),
      set_static L (Some \<lparr>sto_is_locked = False, sto_value = v\<rparr>) (store_dynamic L d w)))"
    unfolding Event_create_def Event_adjust_at [OF assms(2)] outcome_bind.simps look result.case option.case
      create_static_config_storage_at [OF at] free(1) prod.case g(2)
      create_dynamic_config_storage_at [OF at assms(3) dynamic heap]
    by (cases "new_event_dynamic e ?c start") (auto simp: serialize unlock g(1) simp del: DynamicConfig_init.simps)
  then show ?thesis by blast
qed

lemma Event_create_occupied:
  assumes "builder_at e (eb_base b) L" "event_builder uuid g c b" "sg_static w (pl_static L) = Some k"
  shows "\<exists>err. Event_create e b w = Ret (Err err, w)"
proof -
  let ?b = "with_event_settings b (created_event_settings c)"
  have at: "builder_at e (eb_base ?b) L" using assms(1) by (simp add: builder_at_def)
  have "available e (eb_base ?b) L (sg_static w (pl_static L)) \<noteq> Ok None"
    using assms(3) by (auto simp: available_def split: result.splits)
  then show ?thesis
    unfolding Event_create_def Event_adjust_at [OF assms(2)] outcome_bind.simps is_service_available_at [OF at]
    by (auto split: result.splits option.splits builder_ServiceState.splits)
qed

lemma Event_open_in_use:
  assumes "builder_at e (eb_base b) L" "se_dynamic_lock e" "event_builder uuid g c b" "in_use e L k n a w" "sc_uuid k = uuid" "n < 2 ^ 64 - 2"
  shows "\<exists>r w'. Event_open_round e b w w = Ret (Inr (r, w'))
    \<and> (case r of Ok s \<Rightarrow> in_use e L k (n + 1) a w' \<and> user_of L k a s | Err _ \<Rightarrow> w' = w)"
proof -
  obtain v d where u: "sg_static w (pl_static L) = Some \<lparr>sto_is_locked = False, sto_value = v\<rparr>" "se_deserialize e v = Ok k"
    "dss_entries (sg_dynamic w) (pl_dynamic L) = Some a" "dss_content (sg_dynamic w) a = Some d"
    "unat (dc_reference_counter d) = n" "capacities_fit (dc_messaging_pattern d) (sc_messaging_pattern k)"
    using assms(4) unfolding in_use_def by blast
  have marked: "dc_reference_counter d \<noteq> MARKED_FOR_DESTRUCTION"
    using u(5) assms(6) by (auto simp: MARKED_FOR_DESTRUCTION_def)
  have "unat (dc_reference_counter d + 1) = n + 1" using u(5) assms(6) by (simp add: unat_word_ariths)
  then have more: "in_use e L k (n + 1) a (update_dynamic a (d\<lparr>dc_reference_counter := dc_reference_counter d + 1\<rparr>) w)"
    using u by (simp add: in_use_def update_dynamic_def)
  have b: "sc_uuid (bw_service_config (eb_base b)) = uuid" "StaticConfig_event (bw_service_config (eb_base b)) = Ret c"
    "sc_messaging_pattern (bw_service_config (eb_base b)) = Event c"
    using assms(3) by (simp_all add: event_builder_def StaticConfig_event_def)
  show ?thesis
  proof (cases "sc_messaging_pattern k")
    case (Event offered)
    then have "is_service_available e (eb_base b) w = Ret (Ok (Some (k, static_at L \<lparr>sto_is_locked = False, sto_value = v\<rparr>)))"
      using u(1,2) b assms(5) by (simp add: is_service_available_at [OF assms(1)] available_def has_same_messaging_pattern_def)
    then show ?thesis
      using Event marked more b assms(5)
      by (auto simp: Event_open_round_def Event_verify_service_properties_def open_dynamic_config_storage_at [OF assms(1,2) u(3,4)]
          user_of_def ServiceState_new_def)
  next
    case (PublishSubscribe x)
    then have "is_service_available e (eb_base b) w = Ret (Err State_IncompatibleMessagingPattern)"
      using u(1,2) b assms(5) by (simp add: is_service_available_at [OF assms(1)] available_def has_same_messaging_pattern_def)
    then show ?thesis by (simp add: Event_open_round_def)
  qed
qed

lemma Event_open_none:
  assumes "builder_at e (eb_base b) L" "sg_static w (pl_static L) = None"
  shows "Event_open_round e b w w' = Ret (Inr (Err EventOpen_DoesNotExist, w'))"
  using assms(2) by (simp add: Event_open_round_def is_service_available_at [OF assms(1)] available_def)

section \<open>All users of a service\<close>

text \<open>The ports of the users enter the registries of the dynamic configuration.\<close>

inductive registers :: "DynamicConfig \<Rightarrow> DynamicConfig \<Rightarrow> bool" where
  register_subscriber: "DynamicConfig_publish_subscribe d = Ret p \<Longrightarrow> add_subscriber_id i p = Ret (r, p') \<Longrightarrow>
    registers d (d\<lparr>dc_messaging_pattern := DynamicPublishSubscribe p'\<rparr>)"
| register_publisher: "DynamicConfig_publish_subscribe d = Ret p \<Longrightarrow> add_publisher_id i p = Ret (r, p') \<Longrightarrow>
    registers d (d\<lparr>dc_messaging_pattern := DynamicPublishSubscribe p'\<rparr>)"
| register_listener: "DynamicConfig_event d = Ret q \<Longrightarrow> add_listener_id i q = Ret (r, q') \<Longrightarrow>
    registers d (d\<lparr>dc_messaging_pattern := DynamicEvent q'\<rparr>)"
| register_notifier: "DynamicConfig_event d = Ret q \<Longrightarrow> add_notifier_id i q = Ret (r, q') \<Longrightarrow>
    registers d (d\<lparr>dc_messaging_pattern := DynamicEvent q'\<rparr>)"

record sv_conf =
  sx_storages :: ServiceStorages
  sx_users :: "ServiceState list"

definition joined :: "(ServiceState, 'e) result \<Rightarrow> ServiceStorages \<Rightarrow> sv_conf \<Rightarrow> sv_conf" where
  "joined r w s = \<lparr>sx_storages = w, sx_users = (case r of Ok u \<Rightarrow> u # sx_users s | Err _ \<Rightarrow> sx_users s)\<rparr>"

inductive sv_step :: "service_env \<Rightarrow> char list \<Rightarrow> Config \<Rightarrow> nat \<Rightarrow> sv_conf \<Rightarrow> sv_conf \<Rightarrow> bool" for e uuid g N where
  sv_create: "ps_builder uuid g c b \<Longrightarrow> PS_create e type_name b (sx_storages s) = Ret (r, w) \<Longrightarrow> sv_step e uuid g N s (joined r w s)"
| sv_open: "ps_builder uuid g c b \<Longrightarrow> length (sx_users s) < N \<Longrightarrow>
    PS_open e type_name adaptive_wait b [(sx_storages s, sx_storages s, waited)] (sx_storages s) = Some (Ret (r, w)) \<Longrightarrow>
    sv_step e uuid g N s (joined r w s)"
| sv_create_event: "event_builder uuid g q b' \<Longrightarrow> Event_create e b' (sx_storages s) = Ret (r', w) \<Longrightarrow> sv_step e uuid g N s (joined r' w s)"
| sv_open_event: "event_builder uuid g q b' \<Longrightarrow> length (sx_users s) < N \<Longrightarrow>
    Event_open e adaptive_wait b' [(sx_storages s, sx_storages s, waited)] (sx_storages s) = Some (Ret (r'', w)) \<Longrightarrow>
    sv_step e uuid g N s (joined r'' w s)"
| sv_register: "u \<in> set (sx_users s) \<Longrightarrow> DynamicStorage_get (sv_dynamic_storage u) (sg_dynamic (sx_storages s)) = Ret d \<Longrightarrow> registers d d' \<Longrightarrow>
    sv_step e uuid g N s (s\<lparr>sx_storages := (sx_storages s)
      \<lparr>sg_dynamic := DynamicStorage_set (sv_dynamic_storage u) d' (sg_dynamic (sx_storages s))\<rparr>\<rparr>)"
| sv_close: "i < length (sx_users s) \<Longrightarrow> ServiceState_drop e (sx_users s ! i) (sx_storages s) = Ret w \<Longrightarrow>
    sv_step e uuid g N s \<lparr>sx_storages = w, sx_users = take i (sx_users s) @ drop (Suc i) (sx_users s)\<rparr>"

definition sv_inv :: "service_env \<Rightarrow> char list \<Rightarrow> place \<Rightarrow> sv_conf \<Rightarrow> bool" where
  "sv_inv e uuid L s \<longleftrightarrow> (if sx_users s = [] then free L (sx_storages s)
     else \<exists>k a. sc_uuid k = uuid \<and> in_use e L k (length (sx_users s)) a (sx_storages s) \<and> (\<forall>u\<in>set (sx_users s). user_of L k a u))"

text \<open>The surroundings: locks, heap and serializer do not fail, and there are fewer than \<open>2 ^ 64 - 2\<close> users.\<close>

definition sv_env :: "service_env \<Rightarrow> char list \<Rightarrow> Config \<Rightarrow> place \<Rightarrow> nat \<Rightarrow> bool" where
  "sv_env e uuid g L N \<longleftrightarrow> se_static_lock e \<and> se_dynamic_lock e \<and> (\<forall>n. se_heap e n \<noteq> None) \<and> located e uuid g L
     \<and> (\<forall>k. \<exists>v. se_serialize e k = Ok v \<and> se_deserialize e v = Ok k) \<and> N < 2 ^ 64 - 2"

lemma sv_env_builder:
  assumes "sv_env e uuid g L N"
  shows "ps_builder uuid g c b \<Longrightarrow> builder_at e (pb_base b) L" "event_builder uuid g q b' \<Longrightarrow> builder_at e (eb_base b') L"
    "\<exists>b. builder_at e b L"
proof -
  show "ps_builder uuid g c b \<Longrightarrow> builder_at e (pb_base b) L" "event_builder uuid g q b' \<Longrightarrow> builder_at e (eb_base b') L"
    using assms by (auto simp: sv_env_def builder_at_def ps_builder_def event_builder_def)
  show "\<exists>b. builder_at e b L"
    using assms by (auto simp: sv_env_def builder_at_def
        intro!: exI [of _ "BuilderWithServiceType_new \<lparr>sc_uuid = uuid, sc_service_name = [], sc_messaging_pattern = undefined\<rparr> g"])
      (simp_all add: BuilderWithServiceType_new_def)
qed

lemma in_use_occupied: "in_use e L k n a w \<Longrightarrow> \<exists>v. sg_static w (pl_static L) = Some v"
  by (auto simp: in_use_def)

lemma joined_Err [simp]: "joined (Err err) (sx_storages s) s = s"
  by (simp add: joined_def)

lemma sv_inv_first:
  "sx_users s = [] \<Longrightarrow> in_use e L k 1 a w \<Longrightarrow> user_of L k a u \<Longrightarrow> sc_uuid k = uuid \<Longrightarrow> sv_inv e uuid L (joined (Ok u) w s)"
  by (auto simp: sv_inv_def joined_def)

lemma sv_inv_next:
  assumes "\<forall>u\<in>set (sx_users s). user_of L k a u" "sc_uuid k = uuid"
    "in_use e L k (length (sx_users s) + 1) a w" "user_of L k a u"
  shows "sv_inv e uuid L (joined (Ok u) w s)"
  using assms by (auto simp: sv_inv_def joined_def intro!: exI [of _ k] exI [of _ a])

lemma sv_inv_cases:
  assumes "sv_inv e uuid L s"
  obtains (none) "sx_users s = []" "free L (sx_storages s)"
  | (some) k a where "sx_users s \<noteq> []" "sc_uuid k = uuid" "in_use e L k (length (sx_users s)) a (sx_storages s)"
      "\<forall>u\<in>set (sx_users s). user_of L k a u"
  using assms by (auto simp: sv_inv_def split: if_splits)

lemma sv_inv_create:
  assumes env: "sv_env e uuid g L N" and inv: "sv_inv e uuid L s"
    and b: "ps_builder uuid g c b" "PS_create e type_name b (sx_storages s) = Ret (r, w)"
  shows "sv_inv e uuid L (joined r w s)"
proof (cases "buffer_suffices c")
  case False
  then show ?thesis using b(2) PS_create_at [OF b(1)] inv by (auto split: if_splits)
next
  case True
  let ?k = "created_config type_name c b"
  note at = sv_env_builder(1) [OF env b(1)]
  show ?thesis
  proof (rule sv_inv_cases [OF inv])
    assume s: "sx_users s = []" "free L (sx_storages s)"
    obtain v where v: "se_serialize e ?k = Ok v" "se_deserialize e v = Ok ?k" using env by (auto simp: sv_env_def)
    have env': "se_dynamic_lock e" "\<forall>n. se_heap e n \<noteq> None" using env by (simp_all add: sv_env_def)
    obtain start where start: "PS_create e type_name b (sx_storages s) = outcome_bind (new_dynamic e (created_settings type_name c) start) (\<lambda>(d, _).
        Ret (Ok (ServiceState_new ?k g (dynamic_at L (dss_next (sg_dynamic (sx_storages s)))) (static_at L locked_content)),
          set_static L (Some \<lparr>sto_is_locked = False, sto_value = v\<rparr>) (store_dynamic L d (sx_storages s))))"
      "\<forall>d m. new_dynamic e (created_settings type_name c) start = Ret (d, m) \<longrightarrow>
        in_use e L ?k 1 (dss_next (sg_dynamic (sx_storages s)))
          (set_static L (Some \<lparr>sto_is_locked = False, sto_value = v\<rparr>) (store_dynamic L d (sx_storages s)))"
      using PS_create_free [OF at env' s(2) b(1) True v] by blast
    obtain d m where d: "new_dynamic e (created_settings type_name c) start = Ret (d, m)"
      using b(2) start(1) by (auto simp: outcome_bind_eq_Ret simp del: DynamicConfig_init.simps)
    have "sc_uuid ?k = uuid" using b(1) by (simp add: ps_builder_def)
    moreover have "in_use e L ?k 1 (dss_next (sg_dynamic (sx_storages s))) w"
      and r: "r = Ok (ServiceState_new ?k g (dynamic_at L (dss_next (sg_dynamic (sx_storages s)))) (static_at L locked_content))"
      using b(2) start d by (simp_all del: DynamicConfig_init.simps)
    ultimately show ?thesis
      unfolding r by (intro sv_inv_first [OF s(1), where k = ?k]) (auto simp: user_of_def ServiceState_new_def)
  next
    fix k a assume "in_use e L k (length (sx_users s)) a (sx_storages s)"
    then obtain v where "sg_static (sx_storages s) (pl_static L) = Some v" using in_use_occupied by blast
    moreover have "builder_at e (pb_base (with_settings b (created_settings type_name c))) L" using at by (simp add: builder_at_def)
    ultimately obtain err where "PS_create_service e (with_settings b (created_settings type_name c)) (sx_storages s) = Ret (Err err, sx_storages s)"
      using PS_create_service_occupied [OF _ ps_builder_with_settings [OF b(1)]] by blast
    then show ?thesis using b(2) True PS_create_at [OF b(1)] inv by auto
  qed
qed

lemma sv_inv_open:
  assumes env: "sv_env e uuid g L N" and inv: "sv_inv e uuid L s" and less: "length (sx_users s) < N"
    and b: "ps_builder uuid g c b" "PS_open e type_name adaptive_wait b [(sx_storages s, sx_storages s, waited)] (sx_storages s) = Some (Ret (r, w))"
  shows "sv_inv e uuid L (joined r w s)"
proof (cases adaptive_wait)
  case False
  then show ?thesis using b(2) inv by (auto simp: PS_open_def PS_config_details_mut_at [OF b(1)])
next
  case True
  note at = sv_env_builder(1) [OF env b(1)]
  show ?thesis
  proof (rule sv_inv_cases [OF inv])
    assume "free L (sx_storages s)"
    moreover have "builder_at e (pb_base (with_settings b (c\<lparr>ps_type_name := type_name\<rparr>))) L" using at by (simp add: builder_at_def)
    ultimately have "PS_open_round e (with_settings b (c\<lparr>ps_type_name := type_name\<rparr>)) (sx_storages s) (sx_storages s)
        = Ret (Inr (Err PSOpen_DoesNotExist, sx_storages s))"
      using PS_open_round_none [OF _ ps_builder_with_settings [OF b(1)]] by (auto simp: free_def)
    then show ?thesis using b(2) True PS_open_at [OF b(1)] inv by auto
  next
    fix k a assume s: "sc_uuid k = uuid" "in_use e L k (length (sx_users s)) a (sx_storages s)" "\<forall>u\<in>set (sx_users s). user_of L k a u"
    have n: "se_dynamic_lock e" "length (sx_users s) < 2 ^ 64 - 2" using env less by (auto simp: sv_env_def)
    show ?thesis
      using PS_open_in_use [OF at n(1) b(1) s(2,1) n(2), of type_name waited "sx_storages s"] b(2) True
        sv_inv_next [OF s(3,1)] inv
      by (cases r) auto
  qed
qed

lemma sv_inv_create_event:
  assumes env: "sv_env e uuid g L N" and inv: "sv_inv e uuid L s"
    and b: "event_builder uuid g c b" "Event_create e b (sx_storages s) = Ret (r, w)"
  shows "sv_inv e uuid L (joined r w s)"
proof -
  let ?k = "created_event_config c b" and ?a = "dss_next (sg_dynamic (sx_storages s))"
  note at = sv_env_builder(2) [OF env b(1)]
  show ?thesis
  proof (rule sv_inv_cases [OF inv])
    assume s: "sx_users s = []" "free L (sx_storages s)"
    obtain v where v: "se_serialize e ?k = Ok v" "se_deserialize e v = Ok ?k" using env by (auto simp: sv_env_def)
    have env': "se_dynamic_lock e" "\<forall>n. se_heap e n \<noteq> None" using env by (simp_all add: sv_env_def)
    obtain start where start: "Event_create e b (sx_storages s) = outcome_bind (new_event_dynamic e (created_event_settings c) start) (\<lambda>(d, _).
        Ret (Ok (ServiceState_new ?k g (dynamic_at L ?a) (static_at L locked_content)),
          set_static L (Some \<lparr>sto_is_locked = False, sto_value = v\<rparr>) (store_dynamic L d (sx_storages s))))"
      using Event_create_free [OF at b(1) env' s(2) v(1)] by blast
    obtain d m where d: "new_event_dynamic e (created_event_settings c) start = Ret (d, m)"
      using b(2) start by (auto simp: outcome_bind_eq_Ret simp del: DynamicConfig_init.simps)
    have r: "r = Ok (ServiceState_new ?k g (dynamic_at L ?a) (static_at L locked_content))"
      and w: "w = set_static L (Some \<lparr>sto_is_locked = False, sto_value = v\<rparr>) (store_dynamic L d (sx_storages s))"
      using b(2) start d by (simp_all del: DynamicConfig_init.simps)
    have "in_use e L ?k 1 ?a w"
      using new_event_dynamic_capacities [OF d] v(2) by (simp add: w in_use_def store_dynamic_def)
    moreover have "sc_uuid ?k = uuid" using b(1) by (simp add: event_builder_def)
    ultimately show ?thesis
      unfolding r by (intro sv_inv_first [OF s(1), where k = ?k]) (auto simp: user_of_def ServiceState_new_def)
  next
    fix k a assume "in_use e L k (length (sx_users s)) a (sx_storages s)"
    then obtain v where "sg_static (sx_storages s) (pl_static L) = Some v" using in_use_occupied by blast
    from Event_create_occupied [OF at b(1) this] show ?thesis using b(2) inv by auto
  qed
qed

lemma sv_inv_open_event:
  assumes env: "sv_env e uuid g L N" and inv: "sv_inv e uuid L s" and less: "length (sx_users s) < N"
    and b: "event_builder uuid g c b" "Event_open e adaptive_wait b [(sx_storages s, sx_storages s, waited)] (sx_storages s) = Some (Ret (r, w))"
  shows "sv_inv e uuid L (joined r w s)"
proof (cases adaptive_wait)
  case False
  then show ?thesis using b(2) inv by (auto simp: Event_open_def)
next
  case True
  note at = sv_env_builder(2) [OF env b(1)]
  show ?thesis
  proof (rule sv_inv_cases [OF inv])
    assume "free L (sx_storages s)"
    then show ?thesis using Event_open_none [OF at] b(2) True inv by (auto simp: free_def Event_open_def)
  next
    fix k a assume s: "sc_uuid k = uuid" "in_use e L k (length (sx_users s)) a (sx_storages s)" "\<forall>u\<in>set (sx_users s). user_of L k a u"
    have n: "se_dynamic_lock e" "length (sx_users s) < 2 ^ 64 - 2" using env less by (auto simp: sv_env_def)
    show ?thesis
      using Event_open_in_use [OF at n(1) b(1) s(2,1) n(2)] b(2) True sv_inv_next [OF s(3,1)] inv
      by (cases r) (auto simp: Event_open_def)
  qed
qed

lemma Container_add_capacity: "Container_add v c = Ret (r, c') \<Longrightarrow> ct_capacity c' = ct_capacity c"
  by (auto simp: Container_add_def Container_add_acquire_def Container_add_publish_def outcome_bind_eq_Ret Let_def
      split: if_splits option.splits prod.splits)

lemma registers_keeps:
  assumes "registers d d'"
  shows "dc_reference_counter d' = dc_reference_counter d \<and> (capacities_fit (dc_messaging_pattern d) p \<longrightarrow> capacities_fit (dc_messaging_pattern d') p)"
  using assms
  by cases (cases p; auto simp: DynamicConfig_publish_subscribe_def DynamicConfig_event_def add_subscriber_id_def add_publisher_id_def
      add_listener_id_def add_notifier_id_def outcome_bind_eq_Ret Container_add_capacity split: DynamicMessagingPattern.splits)+

lemma sv_inv_register:
  assumes inv: "sv_inv e uuid L s" and u: "u \<in> set (sx_users s)"
    and d: "DynamicStorage_get (sv_dynamic_storage u) (sg_dynamic (sx_storages s)) = Ret d" "registers d d'"
  shows "sv_inv e uuid L (s\<lparr>sx_storages := (sx_storages s)
      \<lparr>sg_dynamic := DynamicStorage_set (sv_dynamic_storage u) d' (sg_dynamic (sx_storages s))\<rparr>\<rparr>)"
proof (rule sv_inv_cases [OF inv])
  assume "sx_users s = []"
  then show ?thesis using u by simp
next
  fix k a assume s: "sx_users s \<noteq> []" "sc_uuid k = uuid" "in_use e L k (length (sx_users s)) a (sx_storages s)"
    "\<forall>u\<in>set (sx_users s). user_of L k a u"
  then have "dy_data (sv_dynamic_storage u) = a" using u by (auto simp: user_of_def dynamic_at_def)
  then have "in_use e L k (length (sx_users s)) a ((sx_storages s)
      \<lparr>sg_dynamic := DynamicStorage_set (sv_dynamic_storage u) d' (sg_dynamic (sx_storages s))\<rparr>)"
    using s(3) d registers_keeps [OF d(2)] by (auto simp: in_use_def DynamicStorage_get_def DynamicStorage_set_def)
  then show ?thesis using s by (auto simp: sv_inv_def)
qed

lemma sv_close_outcome:
  assumes env: "sv_env e uuid g L N" and inv: "sv_inv e uuid L s" and i: "i < length (sx_users s)"
  shows "\<exists>w. ServiceState_drop e (sx_users s ! i) (sx_storages s) = Ret w
    \<and> sv_inv e uuid L \<lparr>sx_storages = w, sx_users = take i (sx_users s) @ drop (Suc i) (sx_users s)\<rparr>"
proof (rule sv_inv_cases [OF inv])
  assume "sx_users s = []"
  then show ?thesis using i by simp
next
  fix k a assume s: "sc_uuid k = uuid" "in_use e L k (length (sx_users s)) a (sx_storages s)" "\<forall>u\<in>set (sx_users s). user_of L k a u"
  define us where "us = take i (sx_users s) @ drop (Suc i) (sx_users s)"
  obtain b where b: "builder_at e b L" using sv_env_builder(3) [OF env] by blast
  have dl: "se_dynamic_lock e" using env by (simp add: sv_env_def)
  have u: "user_of L k a (sx_users s ! i)" using s(3) i by simp
  have n: "0 < length (sx_users s)" "length us = length (sx_users s) - 1" using i by (auto simp: us_def)
  obtain w where w: "ServiceState_drop e (sx_users s ! i) (sx_storages s) = Ret w"
    "if length (sx_users s) = 1 then free L w else in_use e L k (length (sx_users s) - 1) a w"
    using drop_in_use [OF b dl u s(2) n(1)] by blast
  have "\<forall>u\<in>set us. user_of L k a u" using s(3) by (auto simp: us_def dest: in_set_takeD in_set_dropD)
  moreover have "us = [] \<longleftrightarrow> length (sx_users s) = 1" using n length_0_conv [of us] by linarith
  ultimately have "sv_inv e uuid L \<lparr>sx_storages = w, sx_users = us\<rparr>"
    using w(2) s(1) n(2) by (auto simp: sv_inv_def intro!: exI [of _ k] exI [of _ a])
  then show ?thesis using w(1) by (auto simp: us_def)
qed

lemma sv_inv_step:
  assumes "sv_env e uuid g L N" "sv_inv e uuid L s" "sv_step e uuid g N s s'"
  shows "sv_inv e uuid L s'"
  using assms(3)
proof cases
  case (sv_close i w)
  then show ?thesis using sv_close_outcome [OF assms(1,2), of i] by auto
qed (use sv_inv_create [OF assms(1,2)] sv_inv_open [OF assms(1,2)] sv_inv_create_event [OF assms(1,2)]
    sv_inv_open_event [OF assms(1,2)] sv_inv_register [OF assms(2)] in auto)

lemma sv_inv_start: "free L (sx_storages s) \<and> sx_users s = [] \<Longrightarrow> sv_inv e uuid L s"
  by (simp add: sv_inv_def)

interpretation sv: inductive_invariant "\<lambda>s. free L (sx_storages s) \<and> sx_users s = []" "sv_step e uuid g N"
  "\<lambda>s. sv_env e uuid g L N \<longrightarrow> sv_inv e uuid L s"
  using sv_inv_start sv_inv_step by unfold_locales blast+

text \<open>
  C6: The users of a service. Starting from a free place, any number of users create, open and close
  the service, as publish-subscribe or as event service, and register ports, in any order of calls.
  At every moment the storages of the service exist exactly if it has a user. Then the reference
  counter is the number of users, all of them have the settings that are stored, in particular the same
  messaging pattern and message type, and the same dynamic configuration, whose registries have the
  announced capacities; and each of them can close the service without a panic.
\<close>
theorem service_users_agree:
  assumes "se_static_lock e" "se_dynamic_lock e" "\<forall>n. se_heap e n \<noteq> None" "located e uuid g L"
    and serializer: "\<forall>k. \<exists>v. se_serialize e k = Ok v \<and> se_deserialize e v = Ok k"
    and "N < 2 ^ 64 - 2" "reachable (\<lambda>s. free L (sx_storages s) \<and> sx_users s = []) (sv_step e uuid g N) s"
  shows "if sx_users s = [] then free L (sx_storages s)
    else (\<exists>k a. in_use e L k (length (sx_users s)) a (sx_storages s) \<and> sc_uuid k = uuid
      \<and> (\<forall>u\<in>set (sx_users s). sc_messaging_pattern (sv_static_config u) = sc_messaging_pattern k
          \<and> dy_data (sv_dynamic_storage u) = a
          \<and> (\<exists>w. ServiceState_drop e u (sx_storages s) = Ret w)))"
proof -
  have env: "sv_env e uuid g L N" using assms(1-6) by (simp add: sv_env_def)
  then have inv: "sv_inv e uuid L s" using sv.reachable_inv [OF assms(7)] by blast
  have drop: "\<exists>w. ServiceState_drop e u (sx_storages s) = Ret w" if "u \<in> set (sx_users s)" for u
    using sv_close_outcome [OF env inv] that by (auto simp: in_set_conv_nth)
  show ?thesis
    by (rule sv_inv_cases [OF inv]) (use drop in \<open>fastforce simp: user_of_def dynamic_at_def\<close>)+
qed

theorem service_users_agree_witness:
  "\<exists>L s. located (example_service_env True) ''abc'' Config_default L
    \<and> reachable (\<lambda>s. free L (sx_storages s) \<and> sx_users s = []) (sv_step (example_service_env True) ''abc'' Config_default 5) s
    \<and> length (sx_users s) = 1 \<and> (\<exists>k a. in_use (example_service_env True) L k 1 a (sx_storages s))"
proof -
  let ?e = "example_service_env True" and ?c = "PubSubStaticConfig_new Config_default"
  obtain L where L: "located ?e ''abc'' Config_default L" using example_located by blast
  obtain v where v: "se_serialize ?e (created_config ''u64'' ?c example_builder) = Ok v"
    "se_deserialize ?e v = Ok (created_config ''u64'' ?c example_builder)"
    using example_service_facts(7) by blast
  have lock: "se_dynamic_lock ?e" by (simp add: example_service_facts)
  have ser: "\<forall>k. \<exists>v. se_serialize ?e k = Ok v \<and> se_deserialize ?e v = Ok k" using example_service_facts(7) by blast
  obtain u w where create: "PS_create ?e ''u64'' example_builder no_services = Ret (Ok u, w)"
    using PS_create_succeeds [OF example_service_facts(1) lock example_service_facts(3,4) L example_service_facts(5)
        example_ps_builder(1) example_settings v] by blast
  let ?start = "\<lparr>sx_storages = no_services, sx_users = []\<rparr>" and ?s = "\<lparr>sx_storages = w, sx_users = [u]\<rparr>"
  let ?reachable = "reachable (\<lambda>s. free L (sx_storages s) \<and> sx_users s = []) (sv_step ?e ''abc'' Config_default 5)"
  have "?reachable ?start" by (rule reachable_init) (simp add: example_service_facts(5))
  moreover have "sv_step ?e ''abc'' Config_default 5 ?start ?s"
    using sv_step.sv_create [OF example_ps_builder(1), of ?e "''u64''" ?start "Ok u" w 5] create by (simp add: joined_def)
  ultimately have reach: "?reachable ?s" by (rule reachable_step)
  have five: "5 < (2 ^ 64 - 2 :: nat)" by simp
  have "\<exists>k a. in_use ?e L k 1 a w"
    using service_users_agree [OF example_service_facts(1) lock example_service_facts(4) L ser five reach] by auto
  then show ?thesis using L reach by (intro exI [of _ L] exI [of _ ?s]) simp
qed

end
