(* ===== verification/Spec2Isabelle.thy ===== *)
theory Spec2Isabelle
  imports IndexQueue OverflowQueue SpscQueue UnrestrictedAtomic UniqueIndexSet Allocators LockFreeContainer Containers ByteString
    SystemTypes ZeroCopyShm PublisherSizing Mutex Semaphore Barrier RwLockWriter Subscriber ServiceUsers
begin

text \<open>
  A verification library for the zero-copy inter-process communication library under \<open>src/\<close>.

  \<^bold>\<open>The program.\<close> A service has a name, static settings and a dynamic configuration that registers its
  ports. Builders create and open services; the last user removes them. In a publish-subscribe
  service a publisher loans samples from a pool in shared memory, and sends their offsets through one
  zero-copy connection per subscriber; a subscriber borrows the samples and gives the offsets back
  through the same connection. The connections are made of lock-free queues, the pools of a
  lock-free set of unique indices, the registries of a lock-free container. Below are byte strings and
  system types for the names of all resources, and synchronization primitives for platforms without
  their own.

  \<^bold>\<open>Conventions.\<close> A struct is a record, an enum a datatype. A call that may fail returns a \<open>result\<close>
  (\<open>Ok\<close>, \<open>Err\<close>), a call that may panic an \<open>outcome\<close> (\<open>Ret\<close>, \<open>Panic\<close>): out-of-range slices, failed
  \<open>unwrap\<close> and \<open>fatal_panic!\<close> are \<open>Panic\<close>. A subtraction that would be negative is \<open>Panic\<close> as in a build
  with overflow checks; where a sample is given back (its distance to the data segment and the borrow
  counter) the build profile is a parameter (\<open>usize_sub\<close>, \<open>pe_overflow_checks\<close>), and the properties of
  connections, publishers and subscribers hold for both profiles. A closure \<open>FnMut\<close> is a function of
  its argument and what it has captured; the degradation callbacks of the ports are \<open>Fn\<close>, functions of
  the two ids that the ports keep as they were set. Shared objects behind counted pointers have addresses in a
  store. Uninitialised memory, clocks, locks of global maps, the memory the system maps, the hash and
  the serializer are arguments of the definitions. Concurrent code appears twice where both views are
  useful: as a function, for a call that no other thread disturbs, and as an inductive step relation with one
  rule per atomic access and program counters per thread. \<open>reachable\<close> and the locale
  \<open>inductive_invariant\<close> of \<open>Prelude\<close> carry the invariants, \<open>forward_simulation\<close> the refinements.
  The step relations interleave atomic accesses (sequential consistency); weaker memory orders are not modelled.

  \<^bold>\<open>Theories, from bottom to top.\<close>

  \<^item> \<open>Prelude\<close>: results and outcomes, ring buffers, reachability, the locales of queues and index pools.
  \<^item> \<open>Elementary\<close>: subtraction on \<open>usize\<close>, and \<open>iceoryx2_bb/elementary\<close> (alignment, base 64, powers of two, relocatable pointers,
    unique ids, the allocator interface \<open>base_allocator\<close>).
  \<^item> \<open>IndexQueue\<close>, \<open>OverflowQueue\<close>, \<open>SpscQueue\<close>, \<open>UnrestrictedAtomic\<close>, \<open>UniqueIndexSet\<close>,
    \<open>LockFreeContainer\<close>: \<open>iceoryx2_bb/lock_free\<close>. Under every interleaving the index queue is a
    bounded FIFO queue without data races whose operations are wait-free, the overflowing queue loses no index, an atomic load is
    never torn, and no index of the set is owned twice (for fewer than \<open>2 ^ 32\<close> changes of the head,
    the range of its counter). Positions of queues are natural numbers: their 64-bit words do not wrap
    within the life of a queue.
  \<^item> \<open>Allocators\<close>: \<open>iceoryx2_bb/memory\<close>; chunks of a pool are large enough, aligned and disjoint, and the memory
    sizes that the data structures announce suffice.
  \<^item> \<open>Containers\<close>, \<open>ByteString\<close>, \<open>SemanticString\<close>, \<open>SystemTypes\<close>: \<open>iceoryx2_bb/container\<close> and
    \<open>iceoryx2_bb/system_types\<close>. The locale \<open>semantic_string\<close> is the contract of a string with
    forbidden content; file names, paths, file paths, user and group names interpret it. It is kept by
    all operations, by \<open>retain\<close> for closures whose answers depend on the byte only; for others a
    counterexample is shown.
  \<^item> \<open>Threads\<close>, \<open>Mutex\<close>, \<open>Semaphore\<close>, \<open>Barrier\<close>, \<open>RwLock\<close>, \<open>RwLockWriter\<close>:
    \<open>iceoryx2_pal/concurrency_primitives\<close>, any number of threads. Mutual exclusion and the counts of
    permits and readers hold under every interleaving, with timeouts, spurious wakeups and spurious
    failures of weak exchanges. The liveness results say that from every reachable state the threads
    can continue without timeouts so that the waiting thread gets on; for the mutex and the semaphore
    only threads that are under way move, none starts a new call: no wakeup was lost. For
    the writer-preferring lock the opposite is shown.
  \<^item> \<open>NamedConcept\<close>, \<open>PortNames\<close>, \<open>ServiceConfig\<close>: paths of resources and back, ids of ports,
    configuration schemes, the static and dynamic configuration of services and its reference counter
    under interleaving.
  \<^item> \<open>ZeroCopyConnection\<close>, \<open>ZeroCopyShm\<close>, \<open>SharedMemory\<close>: both variants of the connection and the
    allocators in shared memory. Samples are conserved, at most the agreed number is borrowed, and
    both variants behave alike; the reservation of the ports is exclusive under interleaving.
  \<^item> \<open>Publisher\<close>, \<open>PublisherSafety\<close>, \<open>PublisherSystem\<close>, \<open>PublisherSizing\<close>: the publisher, its reference
    counts, the transition system of a publisher with any number of receivers in which loaned samples
    are exclusive, and the size of the data segment, which always suffices while the
    subscribers stay the same. \<open>Subscriber\<close>: the subscriber, which refines the receivers of that system,
    and what happens when a sample outlives its connection.
  \<^item> \<open>ServiceStorage\<close>, \<open>ServiceBuilder\<close>, \<open>ServiceLifecycle\<close>, \<open>ServiceUsers\<close>: the process-local static and
    dynamic storages, the builders of publish-subscribe and event services, what each of their operations does, and
    the invariant that ties the storages and the reference counter to the users of a service.

  \<^bold>\<open>Bounds and fuel.\<close> Loops over lists of observations (the readings of the clock in
  \<open>UniqueSystemId_new\<close>, the rounds of \<open>PS_open_loop\<close>) return \<open>None\<close> when the list ends before the loop
  does, so every statement about an answer is one about a loop that has ended. \<open>ContainerQueue_clear_loop\<close>
  gets one round more than the queue has elements, the loop of \<open>log2_of_power_of_2\<close> the 64 rounds the code has. Thread
  counts are bounded where a 32-bit word counts them, users of a service by the 64-bit
  reference counter.

  \<^bold>\<open>Not modelled.\<close> The wrappers of system calls (\<open>iceoryx2_bb/posix\<close> but for the unique system id,
  \<open>iceoryx2_pal/posix\<close>) and the concepts that are little else (file-based static storage, POSIX dynamic storage,
  message queues, sockets, reactor): their behaviour is that of the operating system. Also not
  modelled are events with listeners and notifiers, communication channels, the shared memory directory, the trigger
  queue, the process-local shared memory, logging, test helpers, examples and benchmarks; macros
  (\<open>enum_gen\<close>, \<open>fail\<close>) appear in expanded form. Serializers and hashes come from other packages and
  are parameters. \<open>PROJECT.json\<close> lists every part.
\<close>

end
